(* ===== verification/Go_Prelude.thy ===== *)
theory Go_Prelude
  imports Main "HOL-Library.AList" "HOL-Library.Word"
begin

text \<open>
  Shared ground of the development: fallible computations, Go maps and transition systems.

  A Go map is an association list with distinct keys. The order of the list is the order
  in which a \<^verbatim>\<open>range\<close> over the map visits it; Go leaves that order open, and the lemmas
  hold for every list, hence for every order.
\<close>

named_theorems go_simps \<open>evaluation rules of the shared operations\<close>

section \<open>Fallible computations\<close>

text \<open>\<open>Inl\<close> is the error of a Go call, \<open>Inr\<close> its value; \<open>rbind\<close> is the early return.\<close>

definition rbind :: "'e + 'a \<Rightarrow> ('a \<Rightarrow> 'e + 'b) \<Rightarrow> 'e + 'b" where
  "rbind r f = (case r of Inl e \<Rightarrow> Inl e | Inr x \<Rightarrow> f x)"

lemma rbind_simps [simp, go_simps]:
  "rbind (Inl e) f = Inl e"
  "rbind (Inr x) f = f x"
  by (simp_all add: rbind_def)

lemma rbind_eq_Inr_iff: "rbind r f = Inr y \<longleftrightarrow> (\<exists>x. r = Inr x \<and> f x = Inr y)"
  by (cases r) auto

lemma rbind_eq_Inl_iff:
  "rbind r f = Inl e \<longleftrightarrow> r = Inl e \<or> (\<exists>x. r = Inr x \<and> f x = Inl e)"
  by (cases r) auto

lemma rbind_split:
  "P (rbind r f) \<longleftrightarrow> (\<forall>e. r = Inl e \<longrightarrow> P (Inl e)) \<and> (\<forall>x. r = Inr x \<longrightarrow> P (f x))"
  by (cases r) auto

text \<open>The guard of an \<^verbatim>\<open>if cond { return err }\<close>.\<close>

definition rfail_if :: "bool \<Rightarrow> 'e \<Rightarrow> 'e + unit" where
  "rfail_if c e = (if c then Inl e else Inr ())"

lemma rfail_if_Inr [simp]: "rfail_if c e = Inr u \<longleftrightarrow> \<not> c"
  by (simp add: rfail_if_def)

lemma rfail_if_Inl [simp]: "rfail_if c e = Inl e' \<longleftrightarrow> c \<and> e' = e"
  by (auto simp: rfail_if_def)

text \<open>A \<^verbatim>\<open>for\<close> loop over a slice whose body updates an accumulator and may return an error.\<close>

fun rfold :: "('a \<Rightarrow> 's \<Rightarrow> 'e + 's) \<Rightarrow> 'a list \<Rightarrow> 's \<Rightarrow> 'e + 's" where
  "rfold f [] s = Inr s"
| "rfold f (x # xs) s = rbind (f x s) (rfold f xs)"

lemma rfold_append:
  "rfold f (xs @ ys) s = rbind (rfold f xs s) (rfold f ys)"
  by (induction xs arbitrary: s) (auto simp: rbind_def split: sum.splits)

text \<open>An invariant of the body is an invariant of the loop.\<close>

lemma rfold_invariant:
  assumes "rfold f xs s = Inr t" and "P s"
    and "\<And>x s t. x \<in> set xs \<Longrightarrow> P s \<Longrightarrow> f x s = Inr t \<Longrightarrow> P t"
  shows "P t"
  using assms
proof (induction xs arbitrary: s)
  case (Cons x xs)
  from Cons.prems(1) obtain u where u: "f x s = Inr u" and rest: "rfold f xs u = Inr t"
    by (auto simp: rbind_eq_Inr_iff)
  have "P u" by (rule Cons.prems(3) [OF _ Cons.prems(2) u]) simp
  moreover have "P t" if "x \<in> set xs" "P s" "f x s = Inr t" for x s t
    using that Cons.prems(3) [of x s t] by simp
  ultimately show ?case using rest Cons.IH by blast
qed simp

section \<open>Go maps\<close>

type_synonym ('k, 'v) gomap = "('k \<times> 'v) list"

abbreviation gomap_wf :: "('k, 'v) gomap \<Rightarrow> bool" where
  "gomap_wf m \<equiv> distinct (map fst m)"

lemma gomap_lookup_update [simp]:
  "map_of (AList.update k v m) k' = (if k' = k then Some v else map_of m k')"
  by (simp add: update_conv')

lemma gomap_lookup_delete [simp]:
  "map_of (AList.delete k m) k' = (if k' = k then None else map_of m k')"
  by (simp add: delete_conv')

lemma map_of_in_iff:
  "gomap_wf m \<Longrightarrow> map_of m k = Some v \<longleftrightarrow> (k, v) \<in> set m"
  by simp

lemma gomap_wf_update [simp]: "gomap_wf m \<Longrightarrow> gomap_wf (AList.update k v m)"
  by (simp add: distinct_update)

lemma gomap_wf_delete [simp]: "gomap_wf m \<Longrightarrow> gomap_wf (AList.delete k m)"
  by (simp add: distinct_delete)

lemma set_gomap_update:
  "gomap_wf m \<Longrightarrow> set (AList.update k v m) = insert (k, v) {p \<in> set m. fst p \<noteq> k}"
  by (induction m) (auto simp: image_iff)

lemma set_gomap_delete: "set (AList.delete k m) = {p \<in> set m. fst p \<noteq> k}"
  by (auto simp: AList.delete_eq)

lemma gomap_wf_filter: "gomap_wf m \<Longrightarrow> gomap_wf (filter P m)"
  by (induction m) auto

section \<open>Transition systems\<close>

text \<open>
  The contract between a component's step relation and its invariant. It is interpreted
  for every state machine of the development.
\<close>

locale invariant_system =
  fixes initial :: "'s \<Rightarrow> bool"
    and step :: "'s \<Rightarrow> 's \<Rightarrow> bool"
    and inv :: "'s \<Rightarrow> bool"
  assumes inv_initial: "initial s \<Longrightarrow> inv s"
    and inv_step: "step s t \<Longrightarrow> inv s \<Longrightarrow> inv t"
begin

lemma inv_steps: "step\<^sup>*\<^sup>* s t \<Longrightarrow> inv s \<Longrightarrow> inv t"
  by (induction rule: rtranclp_induct) (auto intro: inv_step)

lemma inv_reachable: "initial s \<Longrightarrow> step\<^sup>*\<^sup>* s t \<Longrightarrow> inv t"
  by (blast intro: inv_steps inv_initial)

end

end
