(* ===== verification/Go_Strings.thy ===== *)
theory Go_Strings
  imports Go_Prelude
begin

text \<open>
  The parts of Go's \<^verbatim>\<open>strings\<close>, \<^verbatim>\<open>strconv\<close> and \<^verbatim>\<open>path/filepath\<close> packages the program relies on. A
  Go string is a sequence of bytes, here a \<^typ>\<open>string\<close>. Where the library falls back to Unicode
  tables for bytes of \<^verbatim>\<open>0x80\<close> and above, the fallback is an argument.
\<close>

section \<open>Decimal numbers\<close>

fun digits :: "nat \<Rightarrow> string" where
  "digits n = (if n < 10 then [char_of (48 + n)] else digits (n div 10) @ [char_of (48 + n mod 10)])"

declare digits.simps [simp del]

definition int_digits :: "int \<Rightarrow> string" where
  "int_digits i = (if i < 0 then CHR ''-'' # digits (nat (- i)) else digits (nat i))"

definition is_digit :: "char \<Rightarrow> bool" where
  "is_digit c \<longleftrightarrow> 48 \<le> (of_char c :: nat) \<and> (of_char c :: nat) \<le> 57"

text \<open>\<^verbatim>\<open>strconv.ParseUint(s, 10, bits)\<close>: no sign, no underscore, at least one digit, in range.\<close>

definition parse_uint :: "nat \<Rightarrow> string \<Rightarrow> nat option" where
  "parse_uint bits s =
     (if s = [] \<or> \<not> list_all is_digit s then None
      else let n = foldl (\<lambda>n c. 10 * n + (of_char c - 48)) 0 s
           in if n < 2 ^ bits then Some n else None)"

lemma digits_value: "list_all is_digit (digits n)" "digits n \<noteq> []"
    "foldl (\<lambda>n c. 10 * n + (of_char c - 48)) 0 (digits n) = n"
proof (induction n rule: digits.induct)
  case (1 n)
  have d: "of_char (char_of (48 + k) :: char) = 48 + k" if "k < 10" for k :: nat
    using that by (simp add: of_char_of)
  then have dd: "is_digit (char_of (48 + k))" if "k < 10" for k :: nat
    using that by (simp add: is_digit_def)
  {
    case 1 show ?case
      using "1.IH"(1) dd [of n] dd [of "n mod 10"] by (subst digits.simps) auto
  next
    case 2 show ?case by (subst digits.simps) simp
  next
    case 3 show ?case
      using "1.IH"(3) d [of n] d [of "n mod 10"] by (subst digits.simps) auto
  }
qed

lemma parse_uint_digits: "parse_uint bits (digits n) = (if n < 2 ^ bits then Some n else None)"
  using digits_value [of n] by (simp add: parse_uint_def)

lemma digits_inject: "digits m = digits n \<Longrightarrow> m = n"
  using digits_value(3) by metis

section \<open>Joining and searching\<close>

fun join :: "string \<Rightarrow> string list \<Rightarrow> string" where
  "join sep [] = []"
| "join sep [x] = x"
| "join sep (x # y # xs) = x @ sep @ join sep (y # xs)"

fun has_prefix :: "string \<Rightarrow> string \<Rightarrow> bool" where
  "has_prefix [] s = True"
| "has_prefix (p # ps) [] = False"
| "has_prefix (p # ps) (c # cs) = (p = c \<and> has_prefix ps cs)"

text \<open>\<^verbatim>\<open>strings.Contains\<close> and \<^verbatim>\<open>strings.Index\<close> of a single byte.\<close>

fun str_contains :: "string \<Rightarrow> string \<Rightarrow> bool" where
  "str_contains [] k = (k = [])"
| "str_contains (c # cs) k = (has_prefix k (c # cs) \<or> str_contains cs k)"

fun index_byte :: "char \<Rightarrow> string \<Rightarrow> nat option" where
  "index_byte b [] = None"
| "index_byte b (c # cs) = (if c = b then Some 0 else map_option Suc (index_byte b cs))"

lemma has_prefix_iff: "has_prefix p s \<longleftrightarrow> (\<exists>t. s = p @ t)"
  by (induction p s rule: has_prefix.induct) auto

lemma str_contains_iff: "str_contains s k \<longleftrightarrow> (\<exists>a b. s = a @ k @ b)"
proof (induction s)
  case (Cons c cs)
  note IH = Cons.IH
  show ?case
  proof
    assume "str_contains (c # cs) k"
    then consider t where "c # cs = [] @ k @ t" | a b where "c # cs = (c # a) @ k @ b"
      using Cons by (auto simp: has_prefix_iff)
    then show "\<exists>a b. c # cs = a @ k @ b" by metis
  next
    assume "\<exists>a b. c # cs = a @ k @ b"
    then obtain a b where ab: "c # cs = a @ k @ b" by blast
    show "str_contains (c # cs) k"
    proof (cases a)
      case Nil
      then have "has_prefix k (c # cs)" using ab has_prefix_iff by auto
      then show ?thesis by simp
    next
      case (Cons d a')
      then have "str_contains cs k" using ab IH by auto
      then show ?thesis by simp
    qed
  qed
qed auto

lemma index_byte_append: "b \<notin> set s \<Longrightarrow> index_byte b (s @ b # t) = Some (length s)"
  by (induction s) auto

lemma index_byte_None: "index_byte b s = None \<longleftrightarrow> b \<notin> set s"
  by (induction s) auto

section \<open>Case\<close>

definition is_ascii :: "string \<Rightarrow> bool" where
  "is_ascii s \<longleftrightarrow> list_all (\<lambda>c. (of_char c :: nat) < 128) s"

definition lower_byte :: "char \<Rightarrow> char" where
  "lower_byte c = (if 65 \<le> (of_char c :: nat) \<and> (of_char c :: nat) \<le> 90 then char_of ((of_char c :: nat) + 32) else c)"

definition to_lower :: "(string \<Rightarrow> string) \<Rightarrow> string \<Rightarrow> string" where
  "to_lower unicode s = (if is_ascii s then map lower_byte s else unicode s)"

definition equal_fold :: "(string \<Rightarrow> string \<Rightarrow> bool) \<Rightarrow> string \<Rightarrow> string \<Rightarrow> bool" where
  "equal_fold unicode s t =
     (if is_ascii s \<and> is_ascii t then map lower_byte s = map lower_byte t else unicode s t)"

section \<open>Paths\<close>

text \<open>\<^verbatim>\<open>filepath.Base\<close> with the separator \<^verbatim>\<open>/\<close>.\<close>

definition path_base :: "string \<Rightarrow> string" where
  "path_base path =
     (if path = [] then ''.''
      else let trimmed = rev (dropWhile (\<lambda>c. c = CHR ''/'') (rev path));
               base = rev (takeWhile (\<lambda>c. c \<noteq> CHR ''/'') (rev trimmed))
           in if base = [] then ''/'' else base)"

section \<open>Errors\<close>

text \<open>Errors built with \<^verbatim>\<open>E.New\<close>, \<^verbatim>\<open>E.Cause\<close> and \<^verbatim>\<open>E.Extend\<close>; \<open>EExternal\<close> is an error a library
  returned and \<open>EPanic\<close> a panic, which no caller in the modelled code recovers from.\<close>

datatype go_error =
    ENew string
  | ECause go_error string
  | EExtend go_error string
  | EExternal string
  | EPanic string

section \<open>Maps used as sets\<close>

text \<open>\<^verbatim>\<open>map[K]bool\<close> filled from a slice, and its lookup, which yields false for a missing key.\<close>

definition bool_map :: "'k list \<Rightarrow> ('k, bool) gomap" where
  "bool_map ks = fold (\<lambda>k m. AList.update k True m) ks []"

definition map_true :: "('k, bool) gomap \<Rightarrow> 'k \<Rightarrow> bool" where
  "map_true m k \<longleftrightarrow> map_of m k = Some True"

lemma map_of_bool_map: "map_of (fold (\<lambda>k m. AList.update k True m) ks m) k = (if k \<in> set ks then Some True else map_of m k)"
  by (induction ks arbitrary: m) auto

lemma map_true_bool_map [simp]: "map_true (bool_map ks) k \<longleftrightarrow> k \<in> set ks"
  by (simp add: map_true_def bool_map_def map_of_bool_map)

end
