(* ===== verification/User_State.thy ===== *)
theory User_State
  imports Go_Strings
begin

text \<open>
  Credential publication and authenticated sessions: \<^verbatim>\<open>common/userstate/manager.go\<close>.

  Pointers are natural numbers. A \<open>manager\<close> holds the heap of identities and the heap of
  sessions, the registry \<^verbatim>\<open>Manager.sessions\<close> and the table of every inbound. The two
  mutexes become the granularity of the steps of \<open>ustep\<close>: what the code does under the write
  side of \<^verbatim>\<open>Manager.gate\<close> is one step, what it does under \<^verbatim>\<open>Manager.mu\<close> is one step, and
  the closing of the collected sessions, which runs after the gate is released, is one step
  per session and interleaves with everything else.
\<close>

section \<open>Data\<close>

record identity =
  id_manager :: nat
  id_name :: string
  id_valid :: bool

record entry =
  e_fingerprint :: string
  e_identity :: nat

type_synonym table = "(string, entry) gomap"

record session =
  s_transport :: bool
  s_cancel :: bool
  s_identity :: "nat option"
  s_closed :: bool
  s_extra :: "nat list"

text \<open>The externally visible effects of \<^verbatim>\<open>Session.Close\<close> and \<^verbatim>\<open>Attach\<close>, in order.\<close>

datatype io_action =
    CancelContext nat
  | CloseTransport nat
  | CloseConn nat
  | CloseExtra nat

record manager =
  m_self :: nat
  m_idents :: "nat \<Rightarrow> identity"
  m_next_ident :: nat
  m_sess :: "nat \<Rightarrow> session"
  m_next_sess :: nat
  m_sessions :: "(nat, nat list) gomap"
  m_tables :: "nat \<Rightarrow> table"
  m_io :: "io_action list"

datatype user_error = ErrRevoked | CtxErr string

record sess_ctx =
  ctx_err :: "string option"
  ctx_session :: "nat option"

section \<open>The session registry\<close>

definition sessions_of :: "(nat, nat list) gomap \<Rightarrow> nat \<Rightarrow> nat list" where
  "sessions_of r i = (case map_of r i of None \<Rightarrow> [] | Some l \<Rightarrow> l)"

definition register :: "nat \<Rightarrow> nat \<Rightarrow> (nat, nat list) gomap \<Rightarrow> (nat, nat list) gomap" where
  "register i s r = AList.update i (List.insert s (sessions_of r i)) r"

definition unregister :: "nat \<Rightarrow> nat \<Rightarrow> (nat, nat list) gomap \<Rightarrow> (nat, nat list) gomap" where
  "unregister i s r =
     (let l = removeAll s (sessions_of r i)
      in if l = [] then AList.delete i r else AList.update i l r)"

definition session_count :: "manager \<Rightarrow> nat" where
  "session_count m = foldl (\<lambda>count (_, l). count + length l) 0 (m_sessions m)"

section \<open>Sessions\<close>

definition empty_identity :: identity where
  "empty_identity = \<lparr>id_manager = 0, id_name = [], id_valid = False\<rparr>"

definition empty_session :: session where
  "empty_session =
     \<lparr>s_transport = False, s_cancel = False, s_identity = None, s_closed = False, s_extra = []\<rparr>"

definition new_manager :: "nat \<Rightarrow> manager" where
  "new_manager self =
     \<lparr>m_self = self, m_idents = (\<lambda>_. empty_identity), m_next_ident = 0,
      m_sess = (\<lambda>_. empty_session), m_next_sess = 0, m_sessions = [],
      m_tables = (\<lambda>_. []), m_io = []\<rparr>"

text \<open>\<^verbatim>\<open>NewSession\<close>: a fresh session with a cancel function and an optional transport.\<close>

definition new_session :: "bool \<Rightarrow> manager \<Rightarrow> nat \<times> manager" where
  "new_session transport m =
     (let s = m_next_sess m
      in (s, m\<lparr>m_sess := (m_sess m)(s := empty_session\<lparr>s_transport := transport, s_cancel := True\<rparr>),
               m_next_sess := Suc s\<rparr>))"

definition bind_session :: "sess_ctx \<Rightarrow> nat option \<Rightarrow> manager \<Rightarrow> user_error option \<times> manager" where
  "bind_session ctx ident m =
     (case ctx_err ctx of
        Some e \<Rightarrow> (Some (CtxErr e), m)
      | None \<Rightarrow>
          (case (ctx_session ctx, ident) of
             (Some s, Some i) \<Rightarrow>
               if id_manager (m_idents m i) \<noteq> m_self m \<or> \<not> id_valid (m_idents m i)
               then (Some ErrRevoked, m)
               else if s_closed (m_sess m s) \<or>
                       (s_identity (m_sess m s) \<noteq> None \<and> s_identity (m_sess m s) \<noteq> Some i)
               then (Some ErrRevoked, m)
               else if s_identity (m_sess m s) = None
               then (None, m\<lparr>m_sess := (m_sess m)(s := (m_sess m s)\<lparr>s_identity := Some i\<rparr>),
                             m_sessions := register i s (m_sessions m)\<rparr>)
               else (None, m)
           | _ \<Rightarrow> (Some ErrRevoked, m)))"

text \<open>\<^verbatim>\<open>Attach\<close> closes the resource itself when the session is gone.\<close>

definition attach :: "sess_ctx \<Rightarrow> nat \<Rightarrow> manager \<Rightarrow> user_error option \<times> manager" where
  "attach ctx closer m =
     (case ctx_session ctx of
        None \<Rightarrow> (Some ErrRevoked, m\<lparr>m_io := m_io m @ [CloseExtra closer]\<rparr>)
      | Some s \<Rightarrow>
          if s_closed (m_sess m s)
          then (Some ErrRevoked, m\<lparr>m_io := m_io m @ [CloseExtra closer]\<rparr>)
          else (None, m\<lparr>m_sess := (m_sess m)(s := (m_sess m s)
                          \<lparr>s_extra := s_extra (m_sess m s) @ [closer]\<rparr>)\<rparr>))"

text \<open>The actions \<^verbatim>\<open>Session.Close\<close> performs once the registry entry is gone.\<close>

definition close_actions :: "nat \<Rightarrow> session \<Rightarrow> io_action list" where
  "close_actions s ses =
     (if s_cancel ses then [CancelContext s] else []) @
     (if s_transport ses then [CloseTransport s] else []) @
     [CloseConn s] @ map CloseExtra (s_extra ses)"

definition session_close :: "nat \<Rightarrow> manager \<Rightarrow> manager" where
  "session_close s m =
     (if s_closed (m_sess m s) then m
      else m\<lparr>m_sess := (m_sess m)(s := (m_sess m s)\<lparr>s_closed := True, s_extra := []\<rparr>),
             m_sessions := (case s_identity (m_sess m s) of
                              None \<Rightarrow> m_sessions m
                            | Some i \<Rightarrow> unregister i s (m_sessions m)),
             m_io := m_io m @ close_actions s (m_sess m s)\<rparr>)"

section \<open>Tables: preparing and publishing credentials\<close>

text \<open>The closure \<^verbatim>\<open>Table.Prepare\<close> returns captures the table, the new entries and the retired
  identities.\<close>

record publication =
  p_table :: nat
  p_next :: table
  p_retired :: "nat list"

definition new_identity :: "string \<Rightarrow> manager \<Rightarrow> nat \<times> manager" where
  "new_identity name m =
     (let i = m_next_ident m
      in (i, m\<lparr>m_idents := (m_idents m)(i := \<lparr>id_manager = m_self m, id_name = name,
                                               id_valid = False\<rparr>),
               m_next_ident := Suc i\<rparr>))"

text \<open>One iteration of the loop over the fingerprints, and the loop.\<close>

definition prepare_entry ::
  "table \<Rightarrow> (string \<Rightarrow> bool) \<Rightarrow> string \<Rightarrow> string \<Rightarrow> manager \<Rightarrow> entry \<times> manager" where
  "prepare_entry users force name fp m =
     (case map_of users name of
        Some old \<Rightarrow>
          if e_fingerprint old \<noteq> fp \<or> force name
          then let (i, m') = new_identity name m in (\<lparr>e_fingerprint = fp, e_identity = i\<rparr>, m')
          else (old, m)
      | None \<Rightarrow>
          let (i, m') = new_identity name m in (\<lparr>e_fingerprint = fp, e_identity = i\<rparr>, m'))"

fun prepare_entries ::
  "table \<Rightarrow> (string \<Rightarrow> bool) \<Rightarrow> (string, string) gomap \<Rightarrow> manager \<Rightarrow> table \<times> manager" where
  "prepare_entries users force [] m = ([], m)"
| "prepare_entries users force ((name, fp) # rest) m =
     (let (e, m1) = prepare_entry users force name fp m;
          (next, m2) = prepare_entries users force rest m1
      in ((name, e) # next, m2))"

definition retired_identities :: "table \<Rightarrow> table \<Rightarrow> nat list" where
  "retired_identities users next =
     map (\<lambda>(_, old). e_identity old)
       (filter (\<lambda>(name, old). map_option e_identity (map_of next name) \<noteq> Some (e_identity old)) users)"

definition table_prepare ::
  "nat \<Rightarrow> (string, string) gomap \<Rightarrow> (string \<Rightarrow> bool) \<Rightarrow> manager \<Rightarrow>
     (string, nat) gomap \<times> publication \<times> manager" where
  "table_prepare t fingerprints force m =
     (let users = m_tables m t;
          (next, m') = prepare_entries users force fingerprints m
      in (map (\<lambda>(name, e). (name, e_identity e)) next,
          \<lparr>p_table = t, p_next = next, p_retired = retired_identities users next\<rparr>, m'))"

definition set_valid :: "bool \<Rightarrow> nat list \<Rightarrow> (nat \<Rightarrow> identity) \<Rightarrow> nat \<Rightarrow> identity" where
  "set_valid b is h = fold (\<lambda>i h. h(i := (h i)\<lparr>id_valid := b\<rparr>)) is h"

definition publish :: "publication \<Rightarrow> manager \<Rightarrow> nat list \<times> manager" where
  "publish p m =
     (p_retired p,
      m\<lparr>m_idents := set_valid True (map (\<lambda>(_, e). e_identity e) (p_next p))
                      (set_valid False (p_retired p) (m_idents m)),
        m_tables := (m_tables m)(p_table p := p_next p)\<rparr>)"

text \<open>\<^verbatim>\<open>Table.Close\<close> publishes the empty table.\<close>

definition close_table :: "nat \<Rightarrow> manager \<Rightarrow> nat list \<times> manager" where
  "close_table t m =
     (let retired = map (\<lambda>(_, e). e_identity e) (m_tables m t)
      in (retired, m\<lparr>m_idents := set_valid False retired (m_idents m),
                     m_tables := (m_tables m)(t := [])\<rparr>))"

text \<open>Several publications in one transaction, as the reload of all inbounds does.\<close>

fun publish_all :: "publication list \<Rightarrow> manager \<Rightarrow> nat list \<times> manager" where
  "publish_all [] m = ([], m)"
| "publish_all (p # ps) m =
     (let (r, m1) = publish p m; (rs, m2) = publish_all ps m1 in (r @ rs, m2))"

section \<open>Commit\<close>

text \<open>The part of \<^verbatim>\<open>Manager.Commit\<close> under the gate: publish, then collect the sessions of the
  retired identities.\<close>

definition commit_gate :: "(manager \<Rightarrow> nat list \<times> manager) \<Rightarrow> manager \<Rightarrow> nat list \<times> manager" where
  "commit_gate pub m =
     (let (retired, m1) = pub m
      in (concat (map (sessions_of (m_sessions m1)) retired), m1))"

definition commit :: "(manager \<Rightarrow> nat list \<times> manager) \<Rightarrow> manager \<Rightarrow> nat \<times> manager" where
  "commit pub m =
     (let (ss, m1) = commit_gate pub m in (length ss, fold session_close ss m1))"

definition table_close :: "nat \<Rightarrow> manager \<Rightarrow> manager" where
  "table_close t m = snd (commit (close_table t) m)"

section \<open>Keys\<close>

text \<open>\<^verbatim>\<open>Key\<close>: an unnamed user is keyed by its position, behind a NUL byte no JSON name
  produces by accident.\<close>

definition user_key :: "string \<Rightarrow> nat \<Rightarrow> string" where
  "user_key name index = (if name \<noteq> [] then name else CHR 0x00 # ''anonymous:'' @ digits index)"

section \<open>Concurrent executions\<close>

text \<open>
  \<open>c_prepared\<close> are the publications built so far, \<open>c_closing\<close> the local variable
  \<^verbatim>\<open>sessions\<close> of every \<^verbatim>\<open>Commit\<close> call that has released the gate and not yet returned.
\<close>

record conc =
  c_mgr :: manager
  c_prepared :: "publication list"
  c_closing :: "nat list list"

inductive ustep :: "conc \<Rightarrow> conc \<Rightarrow> bool" where
  step_new: "new_session tr (c_mgr c) = (s, m') \<Longrightarrow> ustep c (c\<lparr>c_mgr := m'\<rparr>)"
| step_prepare: "gomap_wf fps \<Longrightarrow> table_prepare t fps force (c_mgr c) = (ids, p, m') \<Longrightarrow>
     ustep c (c\<lparr>c_mgr := m', c_prepared := p # c_prepared c\<rparr>)"
| step_commit: "set ps \<subseteq> set (c_prepared c) \<Longrightarrow>
     commit_gate (publish_all ps) (c_mgr c) = (ss, m') \<Longrightarrow>
     ustep c (c\<lparr>c_mgr := m', c_closing := ss # c_closing c\<rparr>)"
| step_table_close: "commit_gate (close_table t) (c_mgr c) = (ss, m') \<Longrightarrow>
     ustep c (c\<lparr>c_mgr := m', c_closing := ss # c_closing c\<rparr>)"
| step_drain: "c_closing c = xs @ (s # ss) # ys \<Longrightarrow>
     ustep c (c\<lparr>c_mgr := session_close s (c_mgr c), c_closing := xs @ ss # ys\<rparr>)"
| step_return: "c_closing c = xs @ [] # ys \<Longrightarrow> ustep c (c\<lparr>c_closing := xs @ ys\<rparr>)"
| step_bind: "(\<And>s. ctx_session ctx = Some s \<Longrightarrow> s < m_next_sess (c_mgr c)) \<Longrightarrow>
     (\<And>i. ident = Some i \<Longrightarrow> i < m_next_ident (c_mgr c)) \<Longrightarrow>
     bind_session ctx ident (c_mgr c) = (e, m') \<Longrightarrow> ustep c (c\<lparr>c_mgr := m'\<rparr>)"
| step_attach: "(\<And>s. ctx_session ctx = Some s \<Longrightarrow> s < m_next_sess (c_mgr c)) \<Longrightarrow>
     attach ctx closer (c_mgr c) = (e, m') \<Longrightarrow> ustep c (c\<lparr>c_mgr := m'\<rparr>)"
| step_close: "s < m_next_sess (c_mgr c) \<Longrightarrow> ustep c (c\<lparr>c_mgr := session_close s (c_mgr c)\<rparr>)"

definition conc_initial :: "conc \<Rightarrow> bool" where
  "conc_initial c \<longleftrightarrow> (\<exists>self. c = \<lparr>c_mgr = new_manager self, c_prepared = [], c_closing = []\<rparr>)"

section \<open>The registry mirrors the session heap\<close>

lemma sessions_of_register:
  "sessions_of (register i s r) j = (if j = i then List.insert s (sessions_of r i) else sessions_of r j)"
  by (simp add: sessions_of_def register_def)

lemma sessions_of_unregister:
  "sessions_of (unregister i s r) j = (if j = i then removeAll s (sessions_of r i) else sessions_of r j)"
  by (simp add: sessions_of_def unregister_def Let_def)

lemma sessions_of_Nil [simp]: "sessions_of [] i = []"
  by (simp add: sessions_of_def)

definition registry_shape :: "(nat, nat list) gomap \<Rightarrow> bool" where
  "registry_shape r \<longleftrightarrow> gomap_wf r \<and> (\<forall>(i, l) \<in> set r. l \<noteq> [] \<and> distinct l)"

lemma registry_shape_sessions_of: "registry_shape r \<Longrightarrow> distinct (sessions_of r i)"
  by (auto simp: registry_shape_def sessions_of_def split: option.split dest!: map_of_SomeD)

lemma registry_shape_register: "registry_shape r \<Longrightarrow> registry_shape (register i s r)"
  using registry_shape_sessions_of [of r i]
  by (auto simp: registry_shape_def register_def set_gomap_update List.insert_def)

lemma registry_shape_unregister: "registry_shape r \<Longrightarrow> registry_shape (unregister i s r)"
  using registry_shape_sessions_of [of r i]
  by (auto simp: registry_shape_def unregister_def Let_def set_gomap_update set_gomap_delete
      distinct_removeAll)

text \<open>The invariant of the manager: a session is registered under an identity exactly when it is
  open and bound to it.\<close>

definition registry_ok :: "manager \<Rightarrow> bool" where
  "registry_ok m \<longleftrightarrow> registry_shape (m_sessions m) \<and>
     (\<forall>i s. s \<in> set (sessions_of (m_sessions m) i) \<longleftrightarrow>
        s < m_next_sess m \<and> s_identity (m_sess m s) = Some i \<and> \<not> s_closed (m_sess m s))"

lemma registry_okD:
  "registry_ok m \<Longrightarrow> s \<in> set (sessions_of (m_sessions m) i) \<longleftrightarrow>
     s < m_next_sess m \<and> s_identity (m_sess m s) = Some i \<and> \<not> s_closed (m_sess m s)"
  by (simp add: registry_ok_def)

lemma registry_ok_new_manager [simp]: "registry_ok (new_manager self)"
  by (simp add: registry_ok_def registry_shape_def new_manager_def)

lemma registry_ok_new_session:
  "registry_ok m \<Longrightarrow> new_session tr m = (s, m') \<Longrightarrow> registry_ok m'"
  by (auto simp: registry_ok_def new_session_def Let_def empty_session_def less_Suc_eq)

lemma registry_ok_session_close:
  assumes ok: "registry_ok m" and s: "s < m_next_sess m"
  shows "registry_ok (session_close s m)"
proof (cases "s_identity (m_sess m s)")
  case None
  with ok show ?thesis by (auto simp: registry_ok_def session_close_def)
next
  case (Some i)
  with ok s show ?thesis
    by (auto simp: registry_ok_def session_close_def sessions_of_unregister
        registry_shape_unregister)
qed

lemma registry_ok_bind:
  assumes ok: "registry_ok m" and s: "\<And>s. ctx_session ctx = Some s \<Longrightarrow> s < m_next_sess m"
    and b: "bind_session ctx ident m = (e, m')"
  shows "registry_ok m'"
  using b ok s
  by (auto simp: bind_session_def registry_ok_def sessions_of_register registry_shape_register
      split: option.splits if_splits)

lemma registry_ok_attach:
  assumes "registry_ok m" and "attach ctx closer m = (e, m')"
  shows "registry_ok m'"
  using assms by (auto simp: attach_def registry_ok_def split: option.splits if_splits)

section \<open>What preparation and publication touch\<close>

lemma set_valid_apply:
  "set_valid b is h i = (if i \<in> set is then (h i)\<lparr>id_valid := b\<rparr> else h i)"
  unfolding set_valid_def by (induction "is" arbitrary: h) auto

text \<open>Publishing and preparing leave sessions alone.\<close>

definition same_sessions :: "manager \<Rightarrow> manager \<Rightarrow> bool" where
  "same_sessions m m' \<longleftrightarrow> m_self m' = m_self m \<and> m_sess m' = m_sess m \<and>
     m_next_sess m' = m_next_sess m \<and> m_sessions m' = m_sessions m \<and> m_io m' = m_io m"

lemma same_sessions_refl [simp]: "same_sessions m m"
  by (simp add: same_sessions_def)

lemma same_sessions_trans: "same_sessions a b \<Longrightarrow> same_sessions b c \<Longrightarrow> same_sessions a c"
  by (simp add: same_sessions_def)

lemma registry_ok_same_sessions: "same_sessions m m' \<Longrightarrow> registry_ok m' = registry_ok m"
  by (simp add: same_sessions_def registry_ok_def)

lemma same_sessions_publish: "publish p m = (r, m') \<Longrightarrow> same_sessions m m'"
  by (auto simp: publish_def same_sessions_def)

lemma publish_all_frame:
  "publish_all ps m = (r, m') \<Longrightarrow>
     same_sessions m m' \<and> m_next_ident m' = m_next_ident m \<and> set r = (\<Union>p\<in>set ps. set (p_retired p))"
proof (induction ps arbitrary: m r m')
  case (Cons p ps)
  then obtain r1 m1 rs where p: "publish p m = (r1, m1)" and ps: "publish_all ps m1 = (rs, m')"
    and r: "r = r1 @ rs"
    by (auto split: prod.splits)
  from p have "same_sessions m m1" "m_next_ident m1 = m_next_ident m" "r1 = p_retired p"
    by (auto simp: publish_def same_sessions_def)
  with Cons.IH [OF ps] r show ?case by (auto intro: same_sessions_trans)
qed simp

lemma publish_all_valid:
  "publish_all ps m = (r, m') \<Longrightarrow> id_valid (m_idents m i) \<Longrightarrow> i \<notin> set r \<Longrightarrow>
     id_valid (m_idents m' i)"
proof (induction ps arbitrary: m r m')
  case (Cons p ps)
  then obtain r1 m1 rs where p: "publish p m = (r1, m1)" and ps: "publish_all ps m1 = (rs, m')"
    and r: "r = r1 @ rs"
    by (auto split: prod.splits)
  have "id_valid (m_idents m1 i)"
    using p r Cons.prems(2,3) by (auto simp: publish_def set_valid_apply)
  with Cons.IH [OF ps] r Cons.prems(3) show ?case by simp
qed simp

lemma close_table_frame:
  "close_table t m = (r, m') \<Longrightarrow> same_sessions m m' \<and> m_next_ident m' = m_next_ident m"
  by (auto simp: close_table_def same_sessions_def Let_def)

lemma close_table_valid:
  "close_table t m = (r, m') \<Longrightarrow> id_valid (m_idents m i) \<Longrightarrow> i \<notin> set r \<Longrightarrow> id_valid (m_idents m' i)"
  by (auto simp: close_table_def Let_def set_valid_apply)

lemma new_identity_frame:
  "new_identity name m = (i, m') \<Longrightarrow>
     same_sessions m m' \<and> m_tables m' = m_tables m \<and> i = m_next_ident m \<and>
     m_next_ident m' = Suc (m_next_ident m) \<and>
     m_idents m' i = \<lparr>id_manager = m_self m, id_name = name, id_valid = False\<rparr> \<and>
     (\<forall>j < m_next_ident m. m_idents m' j = m_idents m j)"
  by (auto simp: new_identity_def same_sessions_def Let_def)

lemma prepare_entry_frame:
  "prepare_entry users force name fp m = (e, m') \<Longrightarrow>
     same_sessions m m' \<and> m_tables m' = m_tables m \<and> m_next_ident m \<le> m_next_ident m' \<and>
     (\<forall>j < m_next_ident m. m_idents m' j = m_idents m j)"
  using new_identity_frame [of name m]
  by (auto simp: prepare_entry_def split: option.splits if_splits prod.splits)

lemma prepare_entries_ConsE:
  assumes "prepare_entries users force ((name, fp) # rest) m = (next, m')"
  obtains e m1 next' where "prepare_entry users force name fp m = (e, m1)"
    and "prepare_entries users force rest m1 = (next', m')" and "next = (name, e) # next'"
  using assms by (auto split: prod.splits)

lemma prepare_entries_frame:
  "prepare_entries users force fps m = (next, m') \<Longrightarrow>
     same_sessions m m' \<and> m_tables m' = m_tables m \<and> m_next_ident m \<le> m_next_ident m' \<and>
     (\<forall>j < m_next_ident m. m_idents m' j = m_idents m j)"
proof (induction fps arbitrary: m "next")
  case (Cons x fps)
  obtain name fp where x: "x = (name, fp)" by force
  from Cons.prems [unfolded x] obtain e m1 n where
    e: "prepare_entry users force name fp m = (e, m1)" and
    rest: "prepare_entries users force fps m1 = (n, m')"
    by (rule prepare_entries_ConsE)
  from prepare_entry_frame [OF e] Cons.IH [OF rest] show ?case
    by (auto intro: same_sessions_trans)
qed simp

lemma table_prepare_frame:
  "table_prepare t fps force m = (ids, p, m') \<Longrightarrow>
     same_sessions m m' \<and> m_tables m' = m_tables m \<and> m_next_ident m \<le> m_next_ident m' \<and>
     (\<forall>j < m_next_ident m. m_idents m' j = m_idents m j)"
  using prepare_entries_frame [of "m_tables m t" force fps m]
  by (auto simp: table_prepare_def Let_def split: prod.splits)

section \<open>Revocation under every interleaving\<close>

text \<open>An open session bound to an identity either has valid credentials or is on the list of a
  \<^verbatim>\<open>Commit\<close> call that is about to close it.\<close>

definition conc_inv :: "conc \<Rightarrow> bool" where
  "conc_inv c \<longleftrightarrow> registry_ok (c_mgr c) \<and>
     (\<forall>ss \<in> set (c_closing c). \<forall>s \<in> set ss. s < m_next_sess (c_mgr c)) \<and>
     (\<forall>s i. s < m_next_sess (c_mgr c) \<longrightarrow> s_identity (m_sess (c_mgr c) s) = Some i \<longrightarrow>
        i < m_next_ident (c_mgr c) \<and>
        (s_closed (m_sess (c_mgr c) s) \<or> id_valid (m_idents (c_mgr c) i) \<or>
         (\<exists>ss \<in> set (c_closing c). s \<in> set ss)))"

lemma conc_inv_initial: "conc_initial c \<Longrightarrow> conc_inv c"
  by (auto simp: conc_initial_def conc_inv_def) (simp_all add: new_manager_def)

lemma conc_inv_commit:
  assumes inv: "conc_inv c" and pub: "pub (c_mgr c) = (r, m')"
    and frame: "same_sessions (c_mgr c) m' \<and> m_next_ident m' = m_next_ident (c_mgr c)"
    and valid: "\<And>i. id_valid (m_idents (c_mgr c) i) \<Longrightarrow> i \<notin> set r \<Longrightarrow> id_valid (m_idents m' i)"
    and gate: "commit_gate pub (c_mgr c) = (ss, m'')"
  shows "conc_inv (c\<lparr>c_mgr := m'', c_closing := ss # c_closing c\<rparr>)"
proof -
  have m'': "m'' = m'" and ss: "ss = concat (map (sessions_of (m_sessions m')) r)"
    using gate pub by (auto simp: commit_gate_def Let_def)
  have ok: "registry_ok m'" using inv frame registry_ok_same_sessions by (auto simp: conc_inv_def)
  have mem: "s \<in> set ss \<longleftrightarrow> (\<exists>i \<in> set r. s < m_next_sess m' \<and> s_identity (m_sess m' s) = Some i \<and>
      \<not> s_closed (m_sess m' s))" for s
    using registry_okD [OF ok] by (auto simp: ss)
  have old: "\<forall>ss \<in> set (c_closing c). \<forall>s \<in> set ss. s < m_next_sess m'"
    using inv frame by (simp add: conc_inv_def same_sessions_def)
  have "i < m_next_ident m' \<and> (s_closed (m_sess m' s) \<or> id_valid (m_idents m' i) \<or>
         s \<in> set ss \<or> (\<exists>ss \<in> set (c_closing c). s \<in> set ss))"
    if "s < m_next_sess m'" "s_identity (m_sess m' s) = Some i" for s i
  proof -
    from that inv frame have "i < m_next_ident m' \<and> (s_closed (m_sess m' s) \<or>
        id_valid (m_idents (c_mgr c) i) \<or> (\<exists>ss \<in> set (c_closing c). s \<in> set ss))"
      by (simp add: conc_inv_def same_sessions_def)
    with that mem valid show ?thesis by blast
  qed
  with ok mem old show ?thesis by (auto simp: conc_inv_def m'')
qed

lemma session_close_fields:
  "m_next_sess (session_close s m) = m_next_sess m"
  "m_next_ident (session_close s m) = m_next_ident m"
  "m_idents (session_close s m) = m_idents m"
  "m_self (session_close s m) = m_self m"
  "m_tables (session_close s m) = m_tables m"
  "s_identity (m_sess (session_close s m) t) = s_identity (m_sess m t)"
  "s_closed (m_sess (session_close s m) t) \<longleftrightarrow> t = s \<or> s_closed (m_sess m t)"
  by (auto simp: session_close_def)

lemma conc_inv_close:
  "conc_inv c \<Longrightarrow> s < m_next_sess (c_mgr c) \<Longrightarrow> conc_inv (c\<lparr>c_mgr := session_close s (c_mgr c)\<rparr>)"
  using registry_ok_session_close by (auto simp: conc_inv_def session_close_fields)

lemma conc_inv_bind:
  assumes inv: "conc_inv c" and s: "\<And>s. ctx_session ctx = Some s \<Longrightarrow> s < m_next_sess (c_mgr c)"
    and i: "\<And>i. ident = Some i \<Longrightarrow> i < m_next_ident (c_mgr c)"
    and b: "bind_session ctx ident (c_mgr c) = (e, m')"
  shows "conc_inv (c\<lparr>c_mgr := m'\<rparr>)"
proof -
  have "registry_ok m'" by (rule registry_ok_bind [OF _ s b]) (use inv in \<open>simp_all add: conc_inv_def\<close>)
  with b inv i show ?thesis
    by (auto simp: conc_inv_def bind_session_def split: option.splits if_splits)
qed

lemma conc_inv_attach:
  assumes "conc_inv c" and "attach ctx closer (c_mgr c) = (e, m')"
  shows "conc_inv (c\<lparr>c_mgr := m'\<rparr>)"
  using assms registry_ok_attach [of "c_mgr c" ctx closer e m']
  by (auto simp: conc_inv_def attach_def split: option.splits if_splits)

lemma conc_invD:
  assumes "conc_inv c"
  shows "registry_ok (c_mgr c)"
    and "ss \<in> set (c_closing c) \<Longrightarrow> s \<in> set ss \<Longrightarrow> s < m_next_sess (c_mgr c)"
    and "s < m_next_sess (c_mgr c) \<Longrightarrow> s_identity (m_sess (c_mgr c) s) = Some i \<Longrightarrow> i < m_next_ident (c_mgr c)"
    and "s < m_next_sess (c_mgr c) \<Longrightarrow> s_identity (m_sess (c_mgr c) s) = Some i \<Longrightarrow>
        s_closed (m_sess (c_mgr c) s) \<or> id_valid (m_idents (c_mgr c) i) \<or> (\<exists>ss \<in> set (c_closing c). s \<in> set ss)"
  using assms by (simp_all add: conc_inv_def)

lemma conc_inv_new:
  assumes inv: "conc_inv c" and n: "new_session tr (c_mgr c) = (s, m')"
  shows "conc_inv (c\<lparr>c_mgr := m'\<rparr>)"
proof -
  have "registry_ok m'" using conc_invD(1) [OF inv] n by (rule registry_ok_new_session)
  moreover have m': "m_next_sess m' = Suc (m_next_sess (c_mgr c))" "m_idents m' = m_idents (c_mgr c)"
    "m_next_ident m' = m_next_ident (c_mgr c)"
    "\<And>t. s_identity (m_sess m' t) = (if t = m_next_sess (c_mgr c) then None else s_identity (m_sess (c_mgr c) t))"
    "\<And>t. t \<noteq> m_next_sess (c_mgr c) \<Longrightarrow> m_sess m' t = m_sess (c_mgr c) t"
    using n by (auto simp: new_session_def Let_def empty_session_def)
  ultimately show ?thesis
    using conc_invD(2-4) [OF inv] unfolding conc_inv_def
    by (auto simp: m' less_Suc_eq split: if_splits)
qed

lemma conc_inv_prepare:
  assumes inv: "conc_inv c" and p: "table_prepare t fps force (c_mgr c) = (ids, p, m')"
  shows "conc_inv (c\<lparr>c_mgr := m', c_prepared := p # c_prepared c\<rparr>)"
proof -
  note fr = table_prepare_frame [OF p]
  have "registry_ok m'"
    using conc_invD(1) [OF inv] fr registry_ok_same_sessions [of "c_mgr c" m'] by simp
  moreover have "i < m_next_ident m' \<and> m_idents m' i = m_idents (c_mgr c) i"
    if "s < m_next_sess (c_mgr c)" "s_identity (m_sess (c_mgr c) s) = Some i" for s i
    using fr conc_invD(3) [OF inv that] by simp
  ultimately show ?thesis
    using fr conc_invD(2,4) [OF inv] unfolding conc_inv_def same_sessions_def by simp
qed

lemma conc_inv_step: "ustep c c' \<Longrightarrow> conc_inv c \<Longrightarrow> conc_inv c'"
proof (induction rule: ustep.induct)
  case (step_commit ps c ss m')
  obtain r m1 where "publish_all ps (c_mgr c) = (r, m1)" by fastforce
  note pub = this
  from step_commit.prems pub show ?case
    by (rule conc_inv_commit)
      (use step_commit.hyps pub publish_all_frame publish_all_valid in \<open>simp_all\<close>)
next
  case (step_table_close t c ss m')
  obtain r m1 where "close_table t (c_mgr c) = (r, m1)" by fastforce
  note pub = this
  from step_table_close.prems pub show ?case
    by (rule conc_inv_commit)
      (use step_table_close.hyps pub close_table_frame close_table_valid in \<open>simp_all\<close>)
next
  case (step_drain c xs s ss ys)
  then have "s < m_next_sess (c_mgr c)" by (simp add: conc_inv_def)
  then have "conc_inv (c\<lparr>c_mgr := session_close s (c_mgr c)\<rparr>)"
    by (rule conc_inv_close [OF step_drain.prems])
  then show ?case unfolding conc_inv_def using step_drain.hyps
    by (simp add: session_close_fields) blast
next
  case (step_return c xs ys)
  then show ?case by (auto simp: conc_inv_def)
qed (auto intro: conc_inv_new conc_inv_prepare conc_inv_bind conc_inv_attach conc_inv_close)

interpretation user_sys: invariant_system conc_initial ustep conc_inv
  by unfold_locales (auto intro: conc_inv_initial conc_inv_step)

section \<open>What a commit closes\<close>

lemma fold_session_close_fields:
  "m_next_sess (fold session_close ss m) = m_next_sess m"
  "m_next_ident (fold session_close ss m) = m_next_ident m"
  "m_idents (fold session_close ss m) = m_idents m"
  "m_tables (fold session_close ss m) = m_tables m"
  "m_self (fold session_close ss m) = m_self m"
  "s_identity (m_sess (fold session_close ss m) t) = s_identity (m_sess m t)"
  "s_closed (m_sess (fold session_close ss m) t) \<longleftrightarrow> t \<in> set ss \<or> s_closed (m_sess m t)"
  by (induction ss arbitrary: m) (auto simp: session_close_fields)

lemma registry_ok_fold_close:
  "registry_ok m \<Longrightarrow> \<forall>s \<in> set ss. s < m_next_sess m \<Longrightarrow> registry_ok (fold session_close ss m)"
  by (induction ss arbitrary: m) (simp_all add: session_close_fields registry_ok_session_close)

lemma commit_gate_sessions:
  assumes ok: "registry_ok m" and pub: "pub m = (r, m1)" and fr: "same_sessions m m1"
    and g: "commit_gate pub m = (ss, m2)"
  shows "m2 = m1" and "registry_ok m1"
    and "set ss = {s. s < m_next_sess m \<and> \<not> s_closed (m_sess m s) \<and>
                    (\<exists>i \<in> set r. s_identity (m_sess m s) = Some i)}"
proof -
  show "m2 = m1" using g pub by (auto simp: commit_gate_def Let_def)
  show ok1: "registry_ok m1" using ok fr registry_ok_same_sessions by blast
  show "set ss = {s. s < m_next_sess m \<and> \<not> s_closed (m_sess m s) \<and>
                    (\<exists>i \<in> set r. s_identity (m_sess m s) = Some i)}"
    using g pub registry_okD [OF ok1] fr
    by (auto simp: commit_gate_def Let_def same_sessions_def)
qed

lemma commit_gate_distinct:
  assumes ok: "registry_ok m" and pub: "pub m = (r, m1)" and fr: "same_sessions m m1"
    and d: "distinct r" and g: "commit_gate pub m = (ss, m2)"
  shows "distinct ss"
proof -
  have ok1: "registry_ok m1" using ok fr registry_ok_same_sessions by blast
  have ss: "ss = concat (map (sessions_of (m_sessions m1)) r)"
    using g pub by (auto simp: commit_gate_def Let_def)
  have "distinct (concat (map (sessions_of (m_sessions m1)) r))" using d
  proof (induction r)
    case (Cons i r)
    have "distinct (sessions_of (m_sessions m1) i)"
      using ok1 registry_shape_sessions_of by (simp add: registry_ok_def)
    moreover have "set (sessions_of (m_sessions m1) i) \<inter>
        set (concat (map (sessions_of (m_sessions m1)) r)) = {}"
      using Cons.prems registry_okD [OF ok1] by auto
    ultimately show ?case using Cons by simp
  qed simp
  with ss show ?thesis by simp
qed

section \<open>Identities across an update\<close>

text \<open>Every entry of every table holds a valid identity of its own, named after the user.\<close>

definition tables_ok :: "manager \<Rightarrow> bool" where
  "tables_ok m \<longleftrightarrow> (\<forall>t. gomap_wf (m_tables m t)) \<and>
     (\<forall>t name e. map_of (m_tables m t) name = Some e \<longrightarrow>
        e_identity e < m_next_ident m \<and>
        m_idents m (e_identity e) = \<lparr>id_manager = m_self m, id_name = name, id_valid = True\<rparr>) \<and>
     (\<forall>t t' name name' e e'. map_of (m_tables m t) name = Some e \<longrightarrow>
        map_of (m_tables m t') name' = Some e' \<longrightarrow> e_identity e = e_identity e' \<longrightarrow> t = t' \<and> name = name')"

lemma tables_okD:
  assumes "tables_ok m"
  shows "gomap_wf (m_tables m t)"
    and "map_of (m_tables m t) name = Some e \<Longrightarrow> e_identity e < m_next_ident m"
    and "map_of (m_tables m t) name = Some e \<Longrightarrow>
      m_idents m (e_identity e) = \<lparr>id_manager = m_self m, id_name = name, id_valid = True\<rparr>"
    and "map_of (m_tables m t) name = Some e \<Longrightarrow> map_of (m_tables m t') name' = Some e' \<Longrightarrow>
      e_identity e = e_identity e' \<Longrightarrow> t = t' \<and> name = name'"
  using assms unfolding tables_ok_def by blast+

lemma tables_ok_new_manager: "tables_ok (new_manager self)"
  by (simp add: tables_ok_def new_manager_def)

text \<open>What the loop body computes for one user: the old entry when the fingerprint is unchanged and
  the policy was not forced, otherwise a fresh, not yet valid identity.\<close>

definition entry_for ::
  "table \<Rightarrow> (string \<Rightarrow> bool) \<Rightarrow> manager \<Rightarrow> manager \<Rightarrow> string \<Rightarrow> string \<Rightarrow> entry \<Rightarrow> bool" where
  "entry_for users force m m' name fp e \<longleftrightarrow> e_fingerprint e = fp \<and>
     (if \<exists>old. map_of users name = Some old \<and> e_fingerprint old = fp \<and> \<not> force name
      then map_of users name = Some e
      else m_next_ident m \<le> e_identity e \<and> e_identity e < m_next_ident m' \<and>
           m_idents m' (e_identity e) = \<lparr>id_manager = m_self m, id_name = name, id_valid = False\<rparr>)"

lemma entry_for_prepare_entry:
  "prepare_entry users force name fp m = (e, m') \<Longrightarrow> entry_for users force m m' name fp e"
  using new_identity_frame [of name m]
  by (auto simp: prepare_entry_def entry_for_def split: option.splits if_splits prod.splits)

lemma entry_for_mono:
  assumes "entry_for users force m1 m2 name fp e"
    and "m_self m1 = m_self m" and "m_next_ident m \<le> m_next_ident m1"
    and "m_next_ident m2 \<le> m_next_ident m3" and "\<forall>j < m_next_ident m2. m_idents m3 j = m_idents m2 j"
  shows "entry_for users force m m3 name fp e"
  using assms by (auto simp: entry_for_def split: if_splits)

lemma prepare_entries_spec:
  "prepare_entries users force fps m = (next, m') \<Longrightarrow>
     list_all2 (\<lambda>(name, fp) (name', e). name' = name \<and> entry_for users force m m' name fp e) fps next"
proof (induction fps arbitrary: m "next")
  case (Cons x fps)
  obtain name fp where x: "x = (name, fp)" by force
  from Cons.prems [unfolded x] obtain e m1 n where
    e: "prepare_entry users force name fp m = (e, m1)" and
    rest: "prepare_entries users force fps m1 = (n, m')" and n: "next = (name, e) # n"
    by (rule prepare_entries_ConsE)
  note f1 = prepare_entry_frame [OF e] and f2 = prepare_entries_frame [OF rest]
  have "entry_for users force m m' name fp e"
    by (rule entry_for_mono [OF entry_for_prepare_entry [OF e]]) (use f2 in auto)
  moreover have "list_all2 (\<lambda>(name, fp) (name', e). name' = name \<and>
      entry_for users force m m' name fp e) fps n"
    using Cons.IH [OF rest]
    by (rule list_all2_mono) (use f1 in \<open>auto simp: same_sessions_def elim: entry_for_mono\<close>)
  ultimately show ?case by (simp add: x n)
qed simp

lemma prepare_entries_names:
  "prepare_entries users force fps m = (next, m') \<Longrightarrow> map fst next = map fst fps"
  by (drule prepare_entries_spec) (induction rule: list_all2_induct, auto)

lemma prepare_entries_lookup:
  assumes "prepare_entries users force fps m = (next, m')"
  shows "(case map_of fps name of None \<Rightarrow> map_of next name = None
     | Some fp \<Rightarrow> \<exists>e. map_of next name = Some e \<and> entry_for users force m m' name fp e)"
  using prepare_entries_spec [OF assms]
  by (induction rule: list_all2_induct) (auto split: option.splits)

lemma prepare_entries_inj:
  assumes "prepare_entries users force fps m = (next, m')" and "gomap_wf fps"
    and "\<And>name e. map_of users name = Some e \<Longrightarrow> e_identity e < m_next_ident m"
    and "\<And>name name' e e'. map_of users name = Some e \<Longrightarrow> map_of users name' = Some e' \<Longrightarrow>
      e_identity e = e_identity e' \<Longrightarrow> name = name'"
    and "map_of next a = Some x" and "map_of next b = Some y" and "e_identity x = e_identity y"
  shows "a = b"
  using assms
proof (induction fps arbitrary: m "next" a b x y)
  case (Cons z fps)
  obtain name fp where z: "z = (name, fp)" by force
  from Cons.prems(1) [unfolded z] obtain e m1 n where
    e: "prepare_entry users force name fp m = (e, m1)" and
    rest: "prepare_entries users force fps m1 = (n, m')" and n: "next = (name, e) # n"
    by (rule prepare_entries_ConsE)
  have cases: "map_of users name = Some e \<and> m1 = m \<or>
      e_identity e = m_next_ident m \<and> m_next_ident m1 = Suc (m_next_ident m)"
    using e new_identity_frame [of name m]
    by (auto simp: prepare_entry_def split: option.splits if_splits prod.splits)
  have lt: "e_identity e < m_next_ident m1"
    using cases Cons.prems(3) [of name e] by (elim disjE) simp_all
  have old: "map_of users name = Some e" if "e_identity e < m_next_ident m"
    using cases that by (elim disjE) simp_all
  have le: "m_next_ident m \<le> m_next_ident m1" using prepare_entry_frame [OF e] by simp
  have other: "c = name" if c: "map_of n c = Some w" "e_identity w = e_identity e" for c w
  proof -
    have "map_of users c = Some w \<or> m_next_ident m1 \<le> e_identity w"
      using prepare_entries_lookup [OF rest, of c] c(1)
      by (auto simp: entry_for_def split: option.splits if_splits)
    with c(2) lt have w: "map_of users c = Some w" by simp
    have "map_of users name = Some e"
      by (rule old) (use Cons.prems(3) [OF w] c(2) in simp)
    from Cons.prems(4) [OF w this c(2)] show ?thesis .
  qed
  have IH: "c = d" if "map_of n c = Some v" "map_of n d = Some w" "e_identity v = e_identity w" for c d v w
  proof (rule Cons.IH [OF rest _ _ Cons.prems(4) that])
    show "gomap_wf fps" using Cons.prems(2) z by simp
    show "e_identity e < m_next_ident m1" if "map_of users name = Some e" for name e
      using Cons.prems(3) [OF that] le by simp
  qed
  consider "a = name" "b = name" | "a = name" "b \<noteq> name" | "a \<noteq> name" "b = name" | "a \<noteq> name" "b \<noteq> name"
    by blast
  then show ?case
  proof cases
    case 2
    with Cons.prems(5-7) other [of b y] show ?thesis by (simp add: n)
  next
    case 3
    with Cons.prems(5-7) other [of a x] show ?thesis by (simp add: n)
  next
    case 4
    with Cons.prems(5-7) IH [of a x b y] show ?thesis by (simp add: n)
  qed simp
qed simp

lemma retired_identities_set:
  assumes "gomap_wf users"
  shows "set (retired_identities users next) =
    {e_identity e |e name. map_of users name = Some e \<and>
       map_option e_identity (map_of next name) \<noteq> Some (e_identity e)}"
proof -
  have "(name, e) \<in> set users \<longleftrightarrow> map_of users name = Some e" for name e
    using assms by simp
  then show ?thesis unfolding retired_identities_def by (auto simp: image_iff)
qed

text \<open>Preparing and publishing a table, the two halves of one update.\<close>

lemma prepare_publish:
  assumes prep: "table_prepare t fps force m = (ids, p, m1)" and pub: "publish p m1 = (r, m2)"
  shows "prepare_entries (m_tables m t) force fps m = (p_next p, m1)"
    and "r = retired_identities (m_tables m t) (p_next p)"
    and "m_tables m2 = (m_tables m)(t := p_next p)"
    and "m_idents m2 = set_valid True (map (\<lambda>(_, e). e_identity e) (p_next p)) (set_valid False r (m_idents m1))"
    and "m_next_ident m2 = m_next_ident m1" and "m_self m2 = m_self m"
    and "same_sessions m m2"
proof -
  show n: "prepare_entries (m_tables m t) force fps m = (p_next p, m1)"
    using prep by (auto simp: table_prepare_def Let_def split: prod.splits)
  have p: "p_table p = t" "p_retired p = retired_identities (m_tables m t) (p_next p)"
    using prep by (auto simp: table_prepare_def Let_def split: prod.splits)
  note fr = prepare_entries_frame [OF n]
  have r: "r = p_retired p" and m2: "m2 = m1\<lparr>m_idents := set_valid True (map (\<lambda>(_, e). e_identity e) (p_next p))
                      (set_valid False (p_retired p) (m_idents m1)),
        m_tables := (m_tables m1)(p_table p := p_next p)\<rparr>"
    using pub by (auto simp: publish_def)
  show "r = retired_identities (m_tables m t) (p_next p)" using r p by simp
  show "m_tables m2 = (m_tables m)(t := p_next p)" using m2 p fr by simp
  show "m_idents m2 = set_valid True (map (\<lambda>(_, e). e_identity e) (p_next p)) (set_valid False r (m_idents m1))"
    using m2 r by simp
  show "m_next_ident m2 = m_next_ident m1" "m_self m2 = m_self m" "same_sessions m m2"
    using m2 fr by (simp_all add: same_sessions_def)
qed

lemma update_kept:
  assumes ok: "tables_ok m" and prep: "table_prepare t fps force m = (ids, p, m1)"
    and e: "map_of (p_next p) name = Some e"
  shows "map_of (m_tables m t) name = Some e \<and> e_identity e < m_next_ident m \<or>
      m_next_ident m \<le> e_identity e \<and> e_identity e < m_next_ident m1 \<and>
      m_idents m1 (e_identity e) = \<lparr>id_manager = m_self m, id_name = name, id_valid = False\<rparr>"
proof -
  have n: "prepare_entries (m_tables m t) force fps m = (p_next p, m1)"
    using prep by (auto simp: table_prepare_def Let_def split: prod.splits)
  obtain fp where ef: "entry_for (m_tables m t) force m m1 name fp e"
    using prepare_entries_lookup [OF n, of name] e by (auto split: option.splits)
  then show ?thesis
    using tables_okD(2) [OF ok, of t name e] by (auto simp: entry_for_def split: if_splits)
qed

lemma update_retired:
  assumes ok: "tables_ok m" and prep: "table_prepare t fps force m = (ids, p, m1)"
    and pub: "publish p m1 = (r, m2)"
  shows "i \<in> set r \<longleftrightarrow> (\<exists>name e. map_of (m_tables m t) name = Some e \<and> e_identity e = i \<and>
       map_option e_identity (map_of (p_next p) name) \<noteq> Some i)"
  using retired_identities_set [OF tables_okD(1) [OF ok], of t "p_next p"]
    prepare_publish(2) [OF prep pub] by auto

lemma update_not_retired:
  assumes ok: "tables_ok m" and prep: "table_prepare t fps force m = (ids, p, m1)"
    and pub: "publish p m1 = (r, m2)" and e: "map_of (p_next p) name = Some e"
  shows "e_identity e \<notin> set r"
proof
  assume "e_identity e \<in> set r"
  then obtain b old where old: "map_of (m_tables m t) b = Some old" "e_identity old = e_identity e"
    and ne: "map_option e_identity (map_of (p_next p) b) \<noteq> Some (e_identity e)"
    using update_retired [OF ok prep pub] by auto
  have "e_identity e < m_next_ident m" using tables_okD(2) [OF ok old(1)] old(2) by simp
  then have "map_of (m_tables m t) name = Some e" using update_kept [OF ok prep e] by auto
  from tables_okD(4) [OF ok old(1) this old(2)] e ne show False by simp
qed

lemma update_valid:
  assumes ok: "tables_ok m" and prep: "table_prepare t fps force m = (ids, p, m1)"
    and pub: "publish p m1 = (r, m2)" and e: "map_of (p_next p) name = Some e"
  shows "m_idents m2 (e_identity e) = \<lparr>id_manager = m_self m, id_name = name, id_valid = True\<rparr>"
proof -
  note fr = prepare_entries_frame [OF prepare_publish(1) [OF prep pub]]
  have m1: "id_manager (m_idents m1 (e_identity e)) = m_self m \<and> id_name (m_idents m1 (e_identity e)) = name"
    using update_kept [OF ok prep e]
  proof
    assume o: "map_of (m_tables m t) name = Some e \<and> e_identity e < m_next_ident m"
    then have "m_idents m1 (e_identity e) = m_idents m (e_identity e)" using fr by simp
    with o tables_okD(3) [OF ok, of t name e] show ?thesis by simp
  qed simp
  have "e_identity e \<in> set (map (\<lambda>(_, e). e_identity e) (p_next p))"
    using map_of_SomeD [OF e] by force
  then show ?thesis
    using m1 update_not_retired [OF ok prep pub e]
    unfolding prepare_publish(4) [OF prep pub]
    by (cases "m_idents m1 (e_identity e)") (simp add: set_valid_apply)
qed

lemma update_frame_ident:
  assumes ok: "tables_ok m" and wf: "gomap_wf fps"
    and prep: "table_prepare t fps force m = (ids, p, m1)" and pub: "publish p m1 = (r, m2)"
    and lt: "i < m_next_ident m" and nt: "\<And>name e. map_of (m_tables m t) name = Some e \<Longrightarrow> e_identity e \<noteq> i"
  shows "m_idents m2 i = m_idents m i"
proof -
  note n = prepare_publish(1) [OF prep pub] and fr = prepare_entries_frame [OF prepare_publish(1) [OF prep pub]]
  have "gomap_wf (p_next p)" using prepare_entries_names [OF n] wf by simp
  then have "i \<notin> set (map (\<lambda>(_, e). e_identity e) (p_next p))"
    using update_kept [OF ok prep] nt lt by fastforce
  moreover have "i \<notin> set r" unfolding update_retired [OF ok prep pub] using nt by blast
  ultimately show ?thesis
    unfolding prepare_publish(4) [OF prep pub] using fr lt by (simp add: set_valid_apply)
qed

lemma tables_ok_update:
  assumes ok: "tables_ok m" and wf: "gomap_wf fps"
    and prep: "table_prepare t fps force m = (ids, p, m1)" and pub: "publish p m1 = (r, m2)"
  shows "tables_ok m2"
proof -
  note n = prepare_publish(1) [OF prep pub] and fr = prepare_entries_frame [OF prepare_publish(1) [OF prep pub]]
  note tb = prepare_publish(3) [OF prep pub] and ni = prepare_publish(5) [OF prep pub]
    and self = prepare_publish(6) [OF prep pub]
  have wfn: "gomap_wf (p_next p)" using prepare_entries_names [OF n] wf by simp
  have idents: "e_identity e < m_next_ident m2 \<and>
      m_idents m2 (e_identity e) = \<lparr>id_manager = m_self m2, id_name = name, id_valid = True\<rparr>"
    if e: "map_of (m_tables m2 t') name = Some e" for t' name e
  proof (cases "t' = t")
    case True
    with e tb have e': "map_of (p_next p) name = Some e" by simp
    show ?thesis using update_valid [OF ok prep pub e'] update_kept [OF ok prep e'] fr ni self by auto
  next
    case False
    with e tb have e': "map_of (m_tables m t') name = Some e" by simp
    have "m_idents m2 (e_identity e) = m_idents m (e_identity e)"
      by (rule update_frame_ident [OF ok wf prep pub tables_okD(2) [OF ok e']])
        (use tables_okD(4) [OF ok _ e'] False in blast)
    with tables_okD(2,3) [OF ok e'] fr ni self show ?thesis by simp
  qed
  have new: "map_of (m_tables m t) a = Some x" if x: "map_of (p_next p) a = Some x"
    and y: "map_of (m_tables m t') b = Some y" and eq: "e_identity x = e_identity y" for a x t' b y
    using update_kept [OF ok prep x] tables_okD(2) [OF ok y] eq by auto
  have "t1 = t2 \<and> a = b" if x: "map_of (m_tables m2 t1) a = Some x" and y: "map_of (m_tables m2 t2) b = Some y"
    and eq: "e_identity x = e_identity y" for t1 t2 a b x y
  proof -
    consider "t1 = t" "t2 = t" | "t1 = t" "t2 \<noteq> t" | "t1 \<noteq> t" "t2 = t" | "t1 \<noteq> t" "t2 \<noteq> t" by blast
    then show ?thesis
    proof cases
      case 1
      have inj: "c = d" if "map_of (m_tables m t) c = Some v" "map_of (m_tables m t) d = Some w"
        "e_identity v = e_identity w" for c d v w
        using tables_okD(4) [OF ok that] by simp
      have "a = b"
      proof (rule prepare_entries_inj [OF n wf _ _ _ _ eq])
        show "map_of (p_next p) a = Some x" "map_of (p_next p) b = Some y" using x y tb 1 by simp_all
      qed (blast intro: tables_okD(2) [OF ok] inj)+
      with 1 show ?thesis by simp
    next
      case 2
      with x y tb have y': "map_of (m_tables m t2) b = Some y" and x': "map_of (p_next p) a = Some x" by simp_all
      from tables_okD(4) [OF ok new [OF x' y' eq] y' eq] 2 show ?thesis by simp
    next
      case 3
      with x y tb have y': "map_of (p_next p) b = Some y" and x': "map_of (m_tables m t1) a = Some x" by simp_all
      from tables_okD(4) [OF ok new [OF y' x' eq [symmetric]] x' eq [symmetric]] 3 show ?thesis by simp
    next
      case 4
      then show ?thesis using x y tb tables_okD(4) [OF ok _ _ eq] by simp
    qed
  qed
  moreover have "gomap_wf (m_tables m2 t')" for t' using wfn tb tables_okD(1) [OF ok] by simp
  ultimately show ?thesis using idents unfolding tables_ok_def by blast
qed

end
