(* ===== verification/User_Sessions.thy ===== *)
theory User_Sessions
  imports User_State
begin

text \<open>
  What \<^verbatim>\<open>common/userstate/manager.go\<close> promises to the rest of the program, on top of the
  definitions and the invariants of \<open>User_State\<close>.
\<close>

section \<open>Counting sessions\<close>

lemma foldl_add_length:
  "foldl (\<lambda>count (_, l). count + length l) n r = n + sum_list (map (length \<circ> snd) r)"
  by (induction r arbitrary: n) auto

lemma finite_registered: "finite (\<Union>i. set (sessions_of r i))"
proof -
  have "(\<Union>i. set (sessions_of r i)) = (\<Union>i \<in> fst ` set r. set (sessions_of r i))"
  proof (intro equalityI UN_least)
    fix i
    show "set (sessions_of r i) \<subseteq> (\<Union>i \<in> fst ` set r. set (sessions_of r i))"
      by (cases "i \<in> fst ` set r") (auto simp: sessions_of_def map_of_eq_None_iff [THEN iffD2])
  qed auto
  then show ?thesis by simp
qed

lemma card_registry:
  assumes "registry_shape r" and "\<And>i j. i \<noteq> j \<Longrightarrow> set (sessions_of r i) \<inter> set (sessions_of r j) = {}"
  shows "sum_list (map (length \<circ> snd) r) = card (\<Union>i. set (sessions_of r i))"
  using assms
proof (induction r)
  case (Cons x r)
  obtain i l where x: "x = (i, l)" by force
  have fresh: "sessions_of r i = []"
  proof -
    have "map_of r i = None" using Cons.prems(1) by (simp add: x registry_shape_def map_of_eq_None_iff)
    then show ?thesis by (simp add: sessions_of_def)
  qed
  have tail: "sessions_of (x # r) j = (if j = i then l else sessions_of r j)" for j
    by (simp add: x sessions_of_def)
  have shape: "registry_shape r" using Cons.prems(1) by (auto simp: registry_shape_def)
  have disj: "set (sessions_of r j) \<inter> set (sessions_of r k) = {}" if "j \<noteq> k" for j k
    using Cons.prems(2) [OF that] fresh by (cases "j = i"; cases "k = i") (simp_all add: tail)
  have un: "(\<Union>j. set (sessions_of (x # r) j)) = set l \<union> (\<Union>j. set (sessions_of r j))"
  proof (intro equalityI subsetI)
    fix t assume "t \<in> (\<Union>j. set (sessions_of (x # r) j))"
    then obtain j where "t \<in> set (if j = i then l else sessions_of r j)" using tail by auto
    then show "t \<in> set l \<union> (\<Union>j. set (sessions_of r j))" by (cases "j = i") auto
  next
    fix t assume "t \<in> set l \<union> (\<Union>j. set (sessions_of r j))"
    then consider "t \<in> set l" | j where "t \<in> set (sessions_of r j)" by auto
    then show "t \<in> (\<Union>j. set (sessions_of (x # r) j))"
    proof cases
      case 1
      then have "t \<in> set (sessions_of (x # r) i)" by (simp add: tail)
      then show ?thesis by (rule UN_I [OF UNIV_I])
    next
      case 2
      then have "t \<in> set (sessions_of (x # r) j)" using fresh by (cases "j = i") (simp_all add: tail)
      then show ?thesis by (rule UN_I [OF UNIV_I])
    qed
  qed
  have fin: "finite (\<Union>j. set (sessions_of r j))" by (rule finite_registered)
  have "set l \<inter> set (sessions_of r j) = {}" for j
  proof (cases "j = i")
    case False
    then show ?thesis using Cons.prems(2) [of i j] by (simp add: tail)
  qed (simp add: fresh)
  then have "set l \<inter> (\<Union>j. set (sessions_of r j)) = {}" by auto
  moreover have "distinct l" using Cons.prems(1) by (simp add: x registry_shape_def)
  ultimately show ?case
    using Cons.IH [OF shape disj] fin by (simp add: un [unfolded x] card_Un_disjoint distinct_card x)
qed simp

lemma session_count_registry:
  assumes ok: "registry_ok m"
  shows "session_count m = card {s. s < m_next_sess m \<and> s_identity (m_sess m s) \<noteq> None \<and> \<not> s_closed (m_sess m s)}"
proof -
  have "set (sessions_of (m_sessions m) i) \<inter> set (sessions_of (m_sessions m) j) = {}" if "i \<noteq> j" for i j
    using that by (simp add: disjoint_iff registry_okD [OF ok])
  moreover have "(\<Union>i. set (sessions_of (m_sessions m) i)) =
      {s. s < m_next_sess m \<and> s_identity (m_sess m s) \<noteq> None \<and> \<not> s_closed (m_sess m s)}"
    by (simp add: set_eq_iff registry_okD [OF ok] not_None_eq)
  moreover have "registry_shape (m_sessions m)" using ok by (simp add: registry_ok_def)
  ultimately show ?thesis
    using card_registry [of "m_sessions m"] by (simp add: session_count_def foldl_add_length)
qed

section \<open>Properties\<close>

text \<open>C3: Revocation is complete under every interleaving. In every state reachable by any
  interleaving of new sessions, logins, attachments, client closes, table updates and table
  shutdowns, once no commit is still closing sessions, every open authenticated session holds an
  identity whose credentials are valid.\<close>

theorem revoked_sessions_closed:
  assumes "conc_initial c0" and "ustep\<^sup>*\<^sup>* c0 c" and "c_closing c = []"
    and "s < m_next_sess (c_mgr c)" and "s_identity (m_sess (c_mgr c) s) = Some i"
    and "\<not> s_closed (m_sess (c_mgr c) s)"
  shows "id_valid (m_idents (c_mgr c) i)"
  using conc_invD(4) [OF user_sys.inv_reachable [OF assms(1,2)] assms(4,5)] assms(3,6) by simp


text \<open>A run with one user who is published and logs in.\<close>

definition demo_prepared :: "publication \<times> manager" where
  "demo_prepared = snd (table_prepare 0 [(''alice'', ''fp'')] (\<lambda>_. False) (new_manager 7))"

definition demo_committed :: "nat list \<times> manager" where
  "demo_committed = commit_gate (publish_all [fst demo_prepared]) (snd demo_prepared)"

definition demo_accepted :: "nat \<times> manager" where
  "demo_accepted = new_session False (snd demo_committed)"

definition demo_bound :: "user_error option \<times> manager" where
  "demo_bound = bind_session \<lparr>ctx_err = None, ctx_session = Some 0\<rparr> (Some 0) (snd demo_accepted)"

lemmas demo_defs = demo_prepared_def demo_committed_def demo_accepted_def demo_bound_def

lemma demo_facts:
  "fst demo_committed = []" "m_next_sess (snd demo_accepted) = 1" "m_next_ident (snd demo_accepted) = 1"
  "m_next_sess (snd demo_bound) = 1" "s_identity (m_sess (snd demo_bound) 0) = Some 0"
  "\<not> s_closed (m_sess (snd demo_bound) 0)"
  unfolding demo_defs by code_simp+

lemma demo_run:
  "conc_initial \<lparr>c_mgr = new_manager 7, c_prepared = [], c_closing = []\<rparr>"
  "ustep\<^sup>*\<^sup>* \<lparr>c_mgr = new_manager 7, c_prepared = [], c_closing = []\<rparr>
     \<lparr>c_mgr = snd demo_bound, c_prepared = [fst demo_prepared], c_closing = []\<rparr>"
proof -
  let ?s = "\<lambda>m ps cl. \<lparr>c_mgr = m, c_prepared = ps, c_closing = cl\<rparr>"
  let ?ps = "[fst demo_prepared]"
  have "ustep (?s (new_manager 7) [] []) (?s (snd demo_prepared) ?ps [])"
    using ustep.step_prepare [of "[(''alice'', ''fp'')]" 0 "\<lambda>_. False" "?s (new_manager 7) [] []"
        _ "fst demo_prepared" "snd demo_prepared"]
    by (simp add: demo_prepared_def prod_eq_iff)
  moreover have "ustep (?s (snd demo_prepared) ?ps []) (?s (snd demo_committed) ?ps [[]])"
    using ustep.step_commit [of ?ps "?s (snd demo_prepared) ?ps []" "[]" "snd demo_committed"] demo_facts(1)
    by (simp add: demo_committed_def prod_eq_iff)
  moreover have "ustep (?s (snd demo_committed) ?ps [[]]) (?s (snd demo_committed) ?ps [])"
    using ustep.step_return [of "?s (snd demo_committed) ?ps [[]]" "[]" "[]"] by simp
  moreover have "ustep (?s (snd demo_committed) ?ps []) (?s (snd demo_accepted) ?ps [])"
    using ustep.step_new [of False "?s (snd demo_committed) ?ps []" "fst demo_accepted" "snd demo_accepted"]
    by (simp add: demo_accepted_def)
  moreover have "ustep (?s (snd demo_accepted) ?ps []) (?s (snd demo_bound) ?ps [])"
    using ustep.step_bind [of "\<lparr>ctx_err = None, ctx_session = Some 0\<rparr>" "?s (snd demo_accepted) ?ps []"
        "Some 0" "fst demo_bound" "snd demo_bound"] demo_facts(2,3)
    by (simp add: demo_bound_def)
  ultimately show "ustep\<^sup>*\<^sup>* (?s (new_manager 7) [] []) (?s (snd demo_bound) ?ps [])"
    by (meson converse_rtranclp_into_rtranclp rtranclp.rtrancl_refl)
  show "conc_initial (?s (new_manager 7) [] [])" by (auto simp: conc_initial_def)
qed

theorem revoked_sessions_closed_witness:
  "s_identity (m_sess (snd demo_bound) 0) = Some 0 \<and> \<not> s_closed (m_sess (snd demo_bound) 0) \<and>
   id_valid (m_idents (snd demo_bound) 0)"
  using revoked_sessions_closed [OF demo_run, of 0 0] demo_facts by simp

lemma demo_registry: "registry_ok (snd demo_bound)"
  using conc_invD(1) [OF user_sys.inv_reachable [OF demo_run]] by simp

text \<open>A commit closes the right sessions and counts them. Publishing a set of tables closes
  exactly the open sessions bound to an identity that is retired, leaves every other session
  alone, keeps the registry in step, and the number it returns is the number of sessions it
  closed.\<close>

theorem commit_closes_retired:
  assumes ok: "registry_ok m" and pub: "publish_all ps m = (r, m1)" and d: "distinct r"
    and com: "commit (publish_all ps) m = (n, m2)"
  shows "registry_ok m2 \<and>
    (\<forall>s < m_next_sess m. s_closed (m_sess m2 s) \<longleftrightarrow>
       s_closed (m_sess m s) \<or> (\<exists>i \<in> set r. s_identity (m_sess m s) = Some i)) \<and>
    n = card {s. s < m_next_sess m \<and> \<not> s_closed (m_sess m s) \<and> s_closed (m_sess m2 s)}"
proof -
  have fr: "same_sessions m m1" using publish_all_frame [OF pub] by simp
  obtain ss where g: "commit_gate (publish_all ps) m = (ss, m1)"
    using pub by (simp add: commit_gate_def)
  have m2: "m2 = fold session_close ss m1" and n: "n = length ss" using com g by (auto simp: commit_def)
  note ss = commit_gate_sessions(2,3) [OF ok pub fr g]
  have sm: "m_sess m1 = m_sess m" "m_next_sess m1 = m_next_sess m" using fr by (simp_all add: same_sessions_def)
  have closed: "s_closed (m_sess m2 s) \<longleftrightarrow> s \<in> set ss \<or> s_closed (m_sess m s)" for s
    by (simp add: m2 fold_session_close_fields sm)
  have reg: "registry_ok m2" unfolding m2 by (rule registry_ok_fold_close [OF ss(1)]) (simp add: ss(2) sm)
  have n: "n = card (set ss)" using commit_gate_distinct [OF ok pub fr d g] by (simp add: n distinct_card)
  have set: "set ss = {s. s < m_next_sess m \<and> \<not> s_closed (m_sess m s) \<and> s_closed (m_sess m2 s)}"
    unfolding closed unfolding ss(2) by blast
  have mid: "\<forall>s < m_next_sess m. s_closed (m_sess m2 s) \<longleftrightarrow>
       s_closed (m_sess m s) \<or> (\<exists>i \<in> set r. s_identity (m_sess m s) = Some i)"
    unfolding closed unfolding ss(2) by blast
  show ?thesis using reg mid n [unfolded set] by (intro conjI)
qed

definition demo_drop :: publication where
  "demo_drop = \<lparr>p_table = 0, p_next = [], p_retired = [0]\<rparr>"

theorem commit_closes_retired_witness:
  "fst (commit (publish_all [demo_drop]) (snd demo_bound)) = 1 \<and>
   s_closed (m_sess (snd (commit (publish_all [demo_drop]) (snd demo_bound))) 0)"
proof -
  have r: "publish_all [demo_drop] (snd demo_bound) =
      ([0], snd (publish_all [demo_drop] (snd demo_bound)))"
    by (simp add: demo_drop_def publish_def)
  have "{s. s < 1 \<and> \<not> s_closed (m_sess (snd demo_bound) s) \<and>
      s_closed (m_sess (snd (commit (publish_all [demo_drop]) (snd demo_bound))) s)} = {0}"
    using commit_closes_retired [OF demo_registry r _ surjective_pairing] demo_facts by auto
  then show ?thesis
    using commit_closes_retired [OF demo_registry r _ surjective_pairing] demo_facts by simp
qed

text \<open>C34: The session counter is exact. In every reachable state \<^verbatim>\<open>SessionCount\<close> is the number
  of authenticated sessions that are still open.\<close>

theorem session_count_exact:
  assumes "conc_initial c0" and "ustep\<^sup>*\<^sup>* c0 c"
  shows "session_count (c_mgr c) =
    card {s. s < m_next_sess (c_mgr c) \<and> s_identity (m_sess (c_mgr c) s) \<noteq> None \<and>
             \<not> s_closed (m_sess (c_mgr c) s)}"
  by (rule session_count_registry [OF conc_invD(1) [OF user_sys.inv_reachable [OF assms]]])

theorem session_count_exact_witness:
  "session_count (snd demo_bound) = 1 \<and>
   card {s. s < 1 \<and> s_identity (m_sess (snd demo_bound) s) \<noteq> None \<and> \<not> s_closed (m_sess (snd demo_bound) s)} = 1"
proof -
  have "{s. s < 1 \<and> s_identity (m_sess (snd demo_bound) s) \<noteq> None \<and> \<not> s_closed (m_sess (snd demo_bound) s)} = {0}"
    using demo_facts by auto
  then show ?thesis using session_count_exact [OF demo_run] demo_facts by simp
qed

section \<open>The life of one user across an update\<close>

lemma tables_ok_same:
  "tables_ok m \<Longrightarrow> m_tables m' = m_tables m \<Longrightarrow> m_idents m' = m_idents m \<Longrightarrow>
     m_next_ident m' = m_next_ident m \<Longrightarrow> m_self m' = m_self m \<Longrightarrow> tables_ok m'"
  unfolding tables_ok_def by simp

lemma update_lookup:
  assumes prep: "table_prepare t fps force m = (ids, p, m1)" and old: "map_of (m_tables m t) name = Some e"
  shows "map_of fps name = Some (e_fingerprint e) \<Longrightarrow> \<not> force name \<Longrightarrow> map_of (p_next p) name = Some e"
    and "map_of fps name = Some (e_fingerprint e) \<and> \<not> force name \<or> map_of (p_next p) name = None \<or>
      (\<exists>e'. map_of (p_next p) name = Some e' \<and> m_next_ident m \<le> e_identity e')"
proof -
  have n: "prepare_entries (m_tables m t) force fps m = (p_next p, m1)"
    using prep by (auto simp: table_prepare_def Let_def split: prod.splits)
  note l = prepare_entries_lookup [OF n, of name]
  show "map_of (p_next p) name = Some e" if "map_of fps name = Some (e_fingerprint e)" "\<not> force name"
    using l that old by (auto simp: entry_for_def)
  show "map_of fps name = Some (e_fingerprint e) \<and> \<not> force name \<or> map_of (p_next p) name = None \<or>
      (\<exists>e'. map_of (p_next p) name = Some e' \<and> m_next_ident m \<le> e_identity e')"
    using l old by (cases "map_of fps name") (auto simp: entry_for_def split: if_splits)
qed

lemma update_dropped:
  assumes ok: "tables_ok m" and wf: "gomap_wf fps"
    and prep: "table_prepare t fps force m = (ids, p, m1)" and pub: "publish p m1 = (r, m2)" and ret: "i \<in> set r"
  shows "map_of (m_tables m2 t') name' = Some e' \<Longrightarrow> e_identity e' \<noteq> i" and "\<not> id_valid (m_idents m2 i)"
proof -
  note pp = prepare_publish [OF prep pub]
  obtain name e where old: "map_of (m_tables m t) name = Some e" and i: "e_identity e = i"
    using ret update_retired [OF ok prep pub] by blast
  have none: "e_identity e' \<noteq> i" if e': "map_of (m_tables m2 t') name' = Some e'" for t' name' e'
  proof (cases "t' = t")
    case True
    then have "map_of (p_next p) name' = Some e'" using e' pp(3) by simp
    then show ?thesis using update_not_retired [OF ok prep pub] ret by metis
  next
    case False
    then have "map_of (m_tables m t') name' = Some e'" using e' pp(3) by simp
    then show ?thesis using tables_okD(4) [OF ok _ old] False i by metis
  qed
  then show "map_of (m_tables m2 t') name' = Some e' \<Longrightarrow> e_identity e' \<noteq> i" .
  have "i \<notin> set (map (\<lambda>(_, e). e_identity e) (p_next p))"
  proof
    assume "i \<in> set (map (\<lambda>(_, e). e_identity e) (p_next p))"
    then obtain name' e' where "(name', e') \<in> set (p_next p)" "e_identity e' = i" by auto
    moreover have "gomap_wf (p_next p)" using prepare_entries_names [OF pp(1)] wf by simp
    ultimately show False using none [of t name' e'] pp(3) by simp
  qed
  then show "\<not> id_valid (m_idents m2 i)" using ret pp(4) by (simp add: set_valid_apply)
qed

text \<open>C4: The life of a user across an update of its inbound. A user whose credentials and policy
  are unchanged keeps its entry, its identity stays valid and its sessions stay as they are; a user
  that is removed, whose credentials change or whose policy is forced loses its identity: no table
  mentions it any more, no session can be bound to it, and every session bound to it is closed. All
  tables stay well formed.\<close>

theorem user_update_lifecycle:
  assumes reg: "registry_ok m" and ok: "tables_ok m" and wf: "gomap_wf fps"
    and prep: "table_prepare t fps force m = (ids, p, m1)"
    and com: "commit (publish p) m1 = (n, m2)"
    and old: "map_of (m_tables m t) name = Some e"
  shows "tables_ok m2 \<and>
    (if map_of fps name = Some (e_fingerprint e) \<and> \<not> force name
     then map_of (m_tables m2 t) name = Some e \<and> id_valid (m_idents m2 (e_identity e)) \<and>
       (\<forall>s < m_next_sess m. s_identity (m_sess m s) = Some (e_identity e) \<longrightarrow>
          s_closed (m_sess m2 s) = s_closed (m_sess m s))
     else \<not> id_valid (m_idents m2 (e_identity e)) \<and>
       (\<forall>t' name' e'. map_of (m_tables m2 t') name' = Some e' \<longrightarrow> e_identity e' \<noteq> e_identity e) \<and>
       (\<forall>ctx. fst (bind_session ctx (Some (e_identity e)) m2) \<noteq> None) \<and>
       (\<forall>s < m_next_sess m. s_identity (m_sess m s) = Some (e_identity e) \<longrightarrow> s_closed (m_sess m2 s)))"
proof -
  obtain r mp where pub: "publish p m1 = (r, mp)" by fastforce
  note pp = prepare_publish [OF prep pub] and fr = table_prepare_frame [OF prep]
  obtain ss where g: "commit_gate (publish p) m1 = (ss, mp)" using pub by (simp add: commit_gate_def)
  have m2: "m2 = fold session_close ss mp" using com g by (auto simp: commit_def)
  have reg1: "registry_ok m1" using reg registry_ok_same_sessions [of m m1] fr by simp
  have ss: "set ss = {s. s < m_next_sess m \<and> \<not> s_closed (m_sess m s) \<and> (\<exists>i \<in> set r. s_identity (m_sess m s) = Some i)}"
    using commit_gate_sessions(3) [OF reg1 pub same_sessions_publish [OF pub] g] fr
    by (simp add: same_sessions_def)
  have sess: "s_closed (m_sess m2 s) \<longleftrightarrow> s \<in> set ss \<or> s_closed (m_sess m s)" for s
    using pp(7) by (simp add: m2 fold_session_close_fields same_sessions_def)
  have f2: "m_tables m2 = m_tables mp" "m_idents m2 = m_idents mp" "m_next_ident m2 = m_next_ident mp"
    "m_self m2 = m_self mp" by (simp_all add: m2 fold_session_close_fields)
  have tok: "tables_ok m2" by (rule tables_ok_same [OF tables_ok_update [OF ok wf prep pub] f2])
  show ?thesis
  proof (cases "map_of fps name = Some (e_fingerprint e) \<and> \<not> force name")
    case True
    then have new: "map_of (p_next p) name = Some e" using update_lookup(1) [OF prep old] by simp
    have "id_valid (m_idents m2 (e_identity e))" using update_valid [OF ok prep pub new] f2 by simp
    moreover have "e_identity e \<notin> set r" by (rule update_not_retired [OF ok prep pub new])
    ultimately show ?thesis using True tok new pp(3) f2 by (simp add: sess ss)
  next
    case False
    have lt: "e_identity e < m_next_ident m" by (rule tables_okD(2) [OF ok old])
    have ret: "e_identity e \<in> set r"
      unfolding update_retired [OF ok prep pub]
      by (intro exI [of _ name] exI [of _ e]) (use update_lookup(2) [OF prep old] False lt old in auto)
    note dropped = update_dropped [OF ok wf prep pub ret]
    then have inv: "\<not> id_valid (m_idents m2 (e_identity e))" using f2 by simp
    then have "fst (bind_session ctx (Some (e_identity e)) m2) \<noteq> None" for ctx
      by (auto simp: bind_session_def split: option.splits)
    then show ?thesis using False tok dropped(1) f2 inv ret by (auto simp: sess ss)
  qed
qed

lemma demo_tables: "tables_ok (snd demo_bound)"
proof -
  let ?f = "[(''alice'', ''fp'')] :: (string, string) gomap"
  have "tables_ok (snd demo_committed)"
    by (rule tables_ok_update [OF tables_ok_new_manager [of 7], of ?f 0 "\<lambda>_. False"
          "fst (table_prepare 0 ?f (\<lambda>_. False) (new_manager 7))" "fst demo_prepared" "snd demo_prepared"
          "fst (publish (fst demo_prepared) (snd demo_prepared))"])
      (simp_all add: demo_prepared_def demo_committed_def commit_gate_def split_beta)
  then show ?thesis
    by (rule tables_ok_same)
      (simp_all add: demo_bound_def demo_accepted_def bind_session_def new_session_def Let_def)
qed

theorem user_update_lifecycle_witness:
  "\<exists>ids p m1 n m2. table_prepare 0 [] (\<lambda>_. False) (snd demo_bound) = (ids, p, m1) \<and>
     commit (publish p) m1 = (n, m2) \<and> \<not> id_valid (m_idents m2 0) \<and> s_closed (m_sess m2 0)"
proof -
  obtain ids p m1 where prep: "table_prepare 0 [] (\<lambda>_. False) (snd demo_bound) = (ids, p, m1)"
    by (metis prod_cases3)
  obtain n m2 where com: "commit (publish p) m1 = (n, m2)" by fastforce
  have "map_of (m_tables (snd demo_bound) 0) ''alice'' = Some \<lparr>e_fingerprint = ''fp'', e_identity = 0\<rparr>"
    unfolding demo_defs by code_simp
  from user_update_lifecycle [OF demo_registry demo_tables _ prep com this] demo_facts
  have "\<not> id_valid (m_idents m2 0) \<and> s_closed (m_sess m2 0)" by simp
  with prep com show ?thesis by blast
qed

text \<open>Login. Binding a session succeeds exactly when the context is live, the session exists, is
  open and not bound to another identity, and the identity is a valid one of this manager; the
  session is then bound and registered under it. A failed login changes nothing.\<close>

theorem bind_session_iff:
  "(fst (bind_session ctx ident m) = None \<longleftrightarrow>
      (\<exists>s i. ctx_err ctx = None \<and> ctx_session ctx = Some s \<and> ident = Some i \<and>
         id_manager (m_idents m i) = m_self m \<and> id_valid (m_idents m i) \<and>
         \<not> s_closed (m_sess m s) \<and> s_identity (m_sess m s) \<in> {None, Some i})) \<and>
   (case bind_session ctx ident m of
      (None, m') \<Rightarrow> s_identity (m_sess m' (the (ctx_session ctx))) = ident \<and>
        (if s_identity (m_sess m (the (ctx_session ctx))) = None
         then the (ctx_session ctx) \<in> set (sessions_of (m_sessions m') (the ident)) else m' = m)
    | (Some e, m') \<Rightarrow> m' = m \<and> (e = ErrRevoked \<or> Some e = map_option CtxErr (ctx_err ctx)))"
  by (auto simp: bind_session_def sessions_of_register split: option.splits if_splits)

end
