(* ===== verification/User_Traffic.thy ===== *)
theory User_Traffic
  imports Go_Prelude "HOL-Library.Char_ord" "HOL-Library.List_Lexorder" "HOL-Library.Product_Lexorder"
    "HOL-Library.Multiset"
begin

text \<open>
  Per-user traffic accounting: \<^verbatim>\<open>common/userstate/traffic.go\<close>. A \<^verbatim>\<open>*TrafficCounter\<close> is an
  index into \<open>t_heap\<close>; the two \<^verbatim>\<open>atomic.Int64\<close> of a counter are 64-bit words, whose addition
  wraps. The wrapper connections of the \<^verbatim>\<open>bufio\<close> package call the count functions with the number
  of bytes they move: \<open>count_upload\<close> and \<open>count_download\<close> are those calls.
\<close>

section \<open>Counters\<close>

record traffic =
  t_counters :: "(string \<times> string, nat) gomap"
  t_heap :: "(64 word \<times> 64 word) list"

record traffic_snapshot =
  ts_inbound :: string
  ts_user :: string
  ts_upload :: "64 word"
  ts_download :: "64 word"

datatype tconn = PlainConn | CounterConn nat

definition counter :: "string \<Rightarrow> string \<Rightarrow> traffic \<Rightarrow> nat option \<times> traffic" where
  "counter inbound user m =
     (if user = [] then (None, m)
      else case map_of (t_counters m) (inbound, user) of
             Some c \<Rightarrow> (Some c, m)
           | None \<Rightarrow>
               let c = length (t_heap m)
               in (Some c, m\<lparr>t_counters := AList.update (inbound, user) c (t_counters m),
                             t_heap := t_heap m @ [(0, 0)]\<rparr>))"

definition routed_connection :: "string \<Rightarrow> string \<Rightarrow> traffic \<Rightarrow> tconn \<times> traffic" where
  "routed_connection inbound user m =
     (case counter inbound user m of
        (None, m') \<Rightarrow> (PlainConn, m')
      | (Some c, m') \<Rightarrow> (CounterConn c, m'))"

definition routed_packet_connection :: "string \<Rightarrow> string \<Rightarrow> traffic \<Rightarrow> tconn \<times> traffic" where
  "routed_packet_connection inbound user m =
     (case counter inbound user m of
        (None, m') \<Rightarrow> (PlainConn, m')
      | (Some c, m') \<Rightarrow> (CounterConn c, m'))"

definition count_upload :: "tconn \<Rightarrow> 64 word \<Rightarrow> traffic \<Rightarrow> traffic" where
  "count_upload conn n m =
     (case conn of
        PlainConn \<Rightarrow> m
      | CounterConn c \<Rightarrow> m\<lparr>t_heap := (t_heap m)[c := (fst (t_heap m ! c) + n, snd (t_heap m ! c))]\<rparr>)"

definition count_download :: "tconn \<Rightarrow> 64 word \<Rightarrow> traffic \<Rightarrow> traffic" where
  "count_download conn n m =
     (case conn of
        PlainConn \<Rightarrow> m
      | CounterConn c \<Rightarrow> m\<lparr>t_heap := (t_heap m)[c := (fst (t_heap m ! c), snd (t_heap m ! c) + n)]\<rparr>)"

text \<open>The keys are pairwise different, so the comparison of \<^verbatim>\<open>sort.Slice\<close> is a strict order on the
  snapshots and the sorted slice is unique.\<close>

definition counters :: "traffic \<Rightarrow> traffic_snapshot list" where
  "counters m =
     sort_key (\<lambda>s. (ts_inbound s, ts_user s))
       (map (\<lambda>((inbound, user), c). \<lparr>ts_inbound = inbound, ts_user = user,
               ts_upload = fst (t_heap m ! c), ts_download = snd (t_heap m ! c)\<rparr>) (t_counters m))"

section \<open>Runs\<close>

text \<open>A run opens connections, in the order of \<open>TRoute\<close> events, and moves bytes on them in any
  interleaving.\<close>

datatype tevent =
    TRoute bool string string
  | TUp nat "64 word"
  | TDown nat "64 word"

fun tstep :: "tevent \<Rightarrow> traffic \<times> tconn list \<Rightarrow> traffic \<times> tconn list" where
  "tstep (TRoute packet inbound user) (m, conns) =
     (let (c, m') = (if packet then routed_packet_connection inbound user m
                     else routed_connection inbound user m)
      in (m', conns @ [c]))"
| "tstep (TUp i n) (m, conns) = (if i < length conns then (count_upload (conns ! i) n m, conns) else (m, conns))"
| "tstep (TDown i n) (m, conns) = (if i < length conns then (count_download (conns ! i) n m, conns) else (m, conns))"

text \<open>The accounting the code promises: one pair of totals for each inbound and named user, and
  every connection adds to the pair of its own key.\<close>

type_synonym volumes = "string \<times> string \<Rightarrow> (64 word \<times> 64 word) option"

fun account :: "tevent \<Rightarrow> (string \<times> string) option list \<times> volumes \<Rightarrow> (string \<times> string) option list \<times> volumes" where
  "account (TRoute packet inbound user) (ks, vol) =
     (if user = [] then (ks @ [None], vol)
      else (ks @ [Some (inbound, user)],
            if vol (inbound, user) = None then vol((inbound, user) \<mapsto> (0, 0)) else vol))"
| "account (TUp i n) (ks, vol) =
     (ks, if i < length ks then case ks ! i of None \<Rightarrow> vol
          | Some k \<Rightarrow> vol(k := map_option (\<lambda>(u, d). (u + n, d)) (vol k)) else vol)"
| "account (TDown i n) (ks, vol) =
     (ks, if i < length ks then case ks ! i of None \<Rightarrow> vol
          | Some k \<Rightarrow> vol(k := map_option (\<lambda>(u, d). (u, d + n)) (vol k)) else vol)"

definition traffic_empty :: traffic where
  "traffic_empty = \<lparr>t_counters = [], t_heap = []\<rparr>"

section \<open>The counters implement the accounting\<close>

definition conn_key :: "traffic \<Rightarrow> tconn \<Rightarrow> (string \<times> string) option \<Rightarrow> bool" where
  "conn_key m conn k \<longleftrightarrow>
     (case conn of PlainConn \<Rightarrow> k = None
      | CounterConn c \<Rightarrow> (\<exists>k'. k = Some k' \<and> map_of (t_counters m) k' = Some c))"

definition traffic_ok :: "traffic \<Rightarrow> bool" where
  "traffic_ok m \<longleftrightarrow> gomap_wf (t_counters m) \<and>
     (\<forall>k c. map_of (t_counters m) k = Some c \<longrightarrow> c < length (t_heap m)) \<and>
     (\<forall>k k' c. map_of (t_counters m) k = Some c \<longrightarrow> map_of (t_counters m) k' = Some c \<longrightarrow> k = k')"

definition traffic_sim ::
  "traffic \<times> tconn list \<Rightarrow> (string \<times> string) option list \<times> volumes \<Rightarrow> bool" where
  "traffic_sim s a \<longleftrightarrow> traffic_ok (fst s) \<and> list_all2 (conn_key (fst s)) (snd s) (fst a) \<and>
     (\<forall>k. snd a k = map_option (\<lambda>c. t_heap (fst s) ! c) (map_of (t_counters (fst s)) k))"

lemma counter_spec:
  assumes ok: "traffic_ok m" and c: "counter inbound user m = (r, m')" and u: "user \<noteq> []"
  shows "traffic_ok m'" and "conn_key m conn kc \<Longrightarrow> conn_key m' conn kc"
    and "\<exists>c. r = Some c \<and> map_of (t_counters m') (inbound, user) = Some c"
    and "map_option (\<lambda>c. t_heap m' ! c) (map_of (t_counters m') k) =
      (if k = (inbound, user) \<and> map_of (t_counters m) k = None then Some (0, 0)
       else map_option (\<lambda>c. t_heap m ! c) (map_of (t_counters m) k))"
proof -
  have lt: "\<And>k c. map_of (t_counters m) k = Some c \<Longrightarrow> c < length (t_heap m)"
    and inj: "\<And>k k' c. map_of (t_counters m) k = Some c \<Longrightarrow> map_of (t_counters m) k' = Some c \<Longrightarrow> k = k'"
    and wf: "gomap_wf (t_counters m)"
    using ok unfolding traffic_ok_def by blast+
  consider c where "map_of (t_counters m) (inbound, user) = Some c" "m' = m" "r = Some c"
    | "map_of (t_counters m) (inbound, user) = None" "r = Some (length (t_heap m))"
      "m' = m\<lparr>t_counters := AList.update (inbound, user) (length (t_heap m)) (t_counters m), t_heap := t_heap m @ [(0, 0)]\<rparr>"
    using c u by (auto simp: counter_def Let_def split: option.splits)
  note cs = this
  show "traffic_ok m'"
    using cs
  proof cases
    case 2
    have mo: "map_of (t_counters m') k = (if k = (inbound, user) then Some (length (t_heap m)) else map_of (t_counters m) k)" for k
      by (simp add: 2(3))
    have lt': "c < length (t_heap m')" if "map_of (t_counters m') k = Some c" for k c
      using that lt [of k c] 2(3) by (cases "k = (inbound, user)") (simp_all add: mo)
    have inj': "k = k'" if "map_of (t_counters m') k = Some c" "map_of (t_counters m') k' = Some c" for k k' c
      using that lt [of k c] lt [of k' c] inj [of k c k']
      by (cases "k = (inbound, user)"; cases "k' = (inbound, user)") (simp_all add: mo)
    have "gomap_wf (t_counters m')" using wf by (simp add: 2(3))
    then show ?thesis unfolding traffic_ok_def
      by (intro conjI allI impI) (assumption, erule lt', erule (1) inj')
  qed (use ok in simp)
  show "conn_key m' conn kc" if "conn_key m conn kc"
    using cs
  proof cases
    case 2
    have "map_of (t_counters m') k' = Some c'" if "map_of (t_counters m) k' = Some c'" for k' c'
      using that 2(1) by (cases "k' = (inbound, user)") (simp_all add: 2(3))
    then show ?thesis using that by (cases conn) (auto simp: conn_key_def)
  qed (use that in simp)
  show "\<exists>c. r = Some c \<and> map_of (t_counters m') (inbound, user) = Some c"
    using cs by cases simp_all
  show "map_option (\<lambda>c. t_heap m' ! c) (map_of (t_counters m') k) =
      (if k = (inbound, user) \<and> map_of (t_counters m) k = None then Some (0, 0)
       else map_option (\<lambda>c. t_heap m ! c) (map_of (t_counters m) k))"
    using cs
  proof cases
    case 2
    then show ?thesis using lt [of k] by (cases "map_of (t_counters m) k") (auto simp: nth_append)
  next
    case (1 c)
    then show ?thesis by (cases "k = (inbound, user)") simp_all
  qed
qed

lemma routed_eq: "routed_packet_connection = routed_connection"
  by (simp add: fun_eq_iff routed_packet_connection_def routed_connection_def)

lemma sim_route:
  assumes sim: "traffic_sim (m, conns) (ks, vol)" and r: "routed_connection inbound user m = (c, m')"
  shows "traffic_sim (m', conns @ [c]) (account (TRoute packet inbound user) (ks, vol))"
proof (cases "user = []")
  case True
  then show ?thesis using sim r
    by (auto simp: routed_connection_def counter_def traffic_sim_def conn_key_def list_all2_appendI)
next
  case False
  obtain r' where cn: "counter inbound user m = (r', m')" and c: "c = (case r' of None \<Rightarrow> PlainConn | Some c \<Rightarrow> CounterConn c)"
    using r by (auto simp: routed_connection_def split: prod.splits option.splits)
  have ok: "traffic_ok m" and l: "list_all2 (conn_key m) conns ks"
    and v: "\<And>k. vol k = map_option (\<lambda>c. t_heap m ! c) (map_of (t_counters m) k)"
    using sim by (auto simp: traffic_sim_def)
  note spec = counter_spec [OF ok cn False]
  have "list_all2 (conn_key m') conns ks" by (rule list_all2_mono [OF l]) (rule spec(2))
  moreover have "conn_key m' c (Some (inbound, user))" using spec(3) by (auto simp: c conn_key_def)
  ultimately have "list_all2 (conn_key m') (conns @ [c]) (ks @ [Some (inbound, user)])"
    by (simp add: list_all2_appendI)
  moreover have "(if vol (inbound, user) = None then vol((inbound, user) \<mapsto> (0, 0)) else vol) k =
      map_option (\<lambda>c. t_heap m' ! c) (map_of (t_counters m') k)" for k
    unfolding spec(4) by (cases "k = (inbound, user)") (simp_all add: v)
  ultimately show ?thesis using False spec(1) by (simp add: traffic_sim_def)
qed

text \<open>Adding to one counter changes the totals of one key only, because no two keys share a
  counter.\<close>

lemma sim_count:
  assumes sim: "traffic_sim (m, conns) (ks, vol)" and i: "i < length ks" and k: "ks ! i = Some k"
    and c: "conns ! i = CounterConn c"
  shows "traffic_sim (m\<lparr>t_heap := (t_heap m)[c := f (t_heap m ! c)]\<rparr>, conns) (ks, vol(k := map_option f (vol k)))"
proof -
  let ?m = "m\<lparr>t_heap := (t_heap m)[c := f (t_heap m ! c)]\<rparr>"
  have ok: "traffic_ok m" and l: "list_all2 (conn_key m) conns ks"
    and v: "\<And>k. vol k = map_option (\<lambda>c. t_heap m ! c) (map_of (t_counters m) k)"
    using sim by (auto simp: traffic_sim_def)
  have kc: "map_of (t_counters m) k = Some c"
    using list_all2_nthD2 [OF l i] k c by (simp add: conn_key_def)
  have lt: "c < length (t_heap m)" using ok kc unfolding traffic_ok_def by blast
  have ne: "c' \<noteq> c" if "map_of (t_counters m) k' = Some c'" "k' \<noteq> k" for k' c'
    using ok kc that unfolding traffic_ok_def by blast
  have "(vol(k := map_option f (vol k))) k' = map_option (\<lambda>c. t_heap ?m ! c) (map_of (t_counters ?m) k')" for k'
    using kc lt ne [of k'] by (cases "map_of (t_counters m) k'"; cases "k' = k") (simp_all add: v)
  moreover have "conn_key ?m = conn_key m" by (auto simp: fun_eq_iff conn_key_def split: tconn.split)
  moreover have "traffic_ok ?m" using ok by (simp add: traffic_ok_def)
  ultimately show ?thesis using l by (simp add: traffic_sim_def)
qed

lemma sim_counts:
  assumes sim: "traffic_sim (m, conns) (ks, vol)"
  shows "traffic_sim (tstep (TUp i n) (m, conns)) (account (TUp i n) (ks, vol))"
    and "traffic_sim (tstep (TDown i n) (m, conns)) (account (TDown i n) (ks, vol))"
proof -
  have l: "list_all2 (conn_key m) conns ks" using sim by (simp add: traffic_sim_def)
  then have len: "length conns = length ks" by (rule list_all2_lengthD)
  have plain: "ks ! i = None" if "i < length ks" "conns ! i = PlainConn"
    using list_all2_nthD2 [OF l that(1)] that(2) by (simp add: conn_key_def)
  have counted: "\<exists>k. ks ! i = Some k" if "i < length ks" "conns ! i = CounterConn c" for c
    using list_all2_nthD2 [OF l that(1)] that(2) by (auto simp: conn_key_def)
  show "traffic_sim (tstep (TUp i n) (m, conns)) (account (TUp i n) (ks, vol))"
    using sim plain counted sim_count [OF sim, of i _ _ "\<lambda>(u, d). (u + n, d)"]
    by (cases "i < length ks"; cases "conns ! i") (auto simp: len count_upload_def split_beta)
  show "traffic_sim (tstep (TDown i n) (m, conns)) (account (TDown i n) (ks, vol))"
    using sim plain counted sim_count [OF sim, of i _ _ "\<lambda>(u, d). (u, d + n)"]
    by (cases "i < length ks"; cases "conns ! i") (auto simp: len count_download_def split_beta)
qed

lemma sim_step: "traffic_sim s a \<Longrightarrow> traffic_sim (tstep e s) (account e a)"
  using sim_route sim_counts
  by (cases e; cases s; cases a) (auto simp: routed_eq split: prod.splits simp del: account.simps tstep.simps(2,3))

lemma sim_run: "traffic_sim s a \<Longrightarrow> traffic_sim (fold tstep es s) (fold account es a)"
  by (induction es arbitrary: s a) (simp_all add: sim_step)

lemma counters_sorted:
  assumes "traffic_ok m"
  shows "sorted_wrt (\<lambda>s t. (ts_inbound s, ts_user s) < (ts_inbound t, ts_user t)) (counters m)"
proof -
  let ?key = "\<lambda>s. (ts_inbound s, ts_user s)"
  have "sorted (map ?key (counters m))" by (simp add: counters_def)
  moreover have "distinct (map ?key (counters m))"
  proof -
    have "mset (map ?key (counters m)) = mset (map fst (t_counters m))"
      by (simp add: counters_def multiset.map_comp comp_def split_beta)
    then show ?thesis using assms mset_eq_imp_distinct_iff unfolding traffic_ok_def by blast
  qed
  ultimately have "sorted_wrt (<) (map ?key (counters m))" by (simp add: strict_sorted_iff)
  then show ?thesis by (simp add: sorted_wrt_map)
qed

text \<open>C40: Traffic accounting. However connections of any users and inbounds are opened and however
  their reads and writes interleave, the snapshot list is strictly ordered by inbound and user (so
  each pair occurs once), and it lists exactly the accounted pairs with the totals, modulo 64-bit
  wrap-around, of all bytes moved on the connections of that pair.\<close>

theorem traffic_accounting:
  "case (fold tstep es (traffic_empty, []), fold account es ([], \<lambda>_. None)) of
     ((m, conns), (ks, vol)) \<Rightarrow>
       sorted_wrt (\<lambda>s t. (ts_inbound s, ts_user s) < (ts_inbound t, ts_user t)) (counters m) \<and>
       set (counters m) = {\<lparr>ts_inbound = i, ts_user = u, ts_upload = up, ts_download = down\<rparr> | i u up down.
                             vol (i, u) = Some (up, down)}"
proof -
  obtain m conns ks vol where eq: "fold tstep es (traffic_empty, []) = (m, conns)"
    "fold account es ([], \<lambda>_. None) = (ks, vol)" by fastforce
  have "traffic_sim (traffic_empty, []) ([], \<lambda>_. None)"
    by (simp add: traffic_sim_def traffic_ok_def traffic_empty_def)
  from sim_run [OF this, of es] have sim: "traffic_sim (m, conns) (ks, vol)" by (simp add: eq)
  then have wf: "gomap_wf (t_counters m)" and ok: "traffic_ok m"
    and v: "\<And>k. vol k = map_option (\<lambda>c. t_heap m ! c) (map_of (t_counters m) k)"
    by (auto simp: traffic_sim_def traffic_ok_def)
  have "set (counters m) = {\<lparr>ts_inbound = i, ts_user = u, ts_upload = up, ts_download = down\<rparr> | i u up down.
      \<exists>c. map_of (t_counters m) (i, u) = Some c \<and> t_heap m ! c = (up, down)}"
    unfolding map_of_in_iff [OF wf] counters_def by force
  with counters_sorted [OF ok] show ?thesis by (simp add: eq v)
qed

end
