(* ===== verification/Netip.thy ===== *)
theory Netip
  imports Go_Strings
begin

unbundle bit_operations_syntax

text \<open>
  The part of Go's \<^verbatim>\<open>net/netip\<close> the rule engine uses: addresses, prefixes, their parsers, and the
  membership and overlap tests. The zero \<^verbatim>\<open>netip.Addr\<close>, which is not a valid address, is \<open>None\<close>
  of type \<open>addr option\<close>.
\<close>

section \<open>Addresses and prefixes\<close>

datatype addr = V4 "32 word" | V6 "128 word" string

datatype prefix = Prefix (prefix_addr: addr) (prefix_bits: nat)

fun is4 :: "addr \<Rightarrow> bool" where
  "is4 (V4 _) = True"
| "is4 (V6 _ _) = False"

definition is6 :: "addr \<Rightarrow> bool" where
  "is6 a \<longleftrightarrow> \<not> is4 a"

fun prefix_valid :: "prefix \<Rightarrow> bool" where
  "prefix_valid (Prefix (V4 _) bits) = (bits \<le> 32)"
| "prefix_valid (Prefix (V6 _ zone) bits) = (bits \<le> 128 \<and> zone = [])"

text \<open>\<^verbatim>\<open>Prefix.Contains\<close>: an address with a zone is in no prefix, and the two families are
  disjoint.\<close>

fun prefix_contains :: "prefix \<Rightarrow> addr \<Rightarrow> bool" where
  "prefix_contains (Prefix (V4 p) bits) (V4 a) =
     (bits \<le> 32 \<and> drop_bit (32 - bits) p = drop_bit (32 - bits) a)"
| "prefix_contains (Prefix (V6 p zp) bits) (V6 a za) =
     (bits \<le> 128 \<and> zp = [] \<and> za = [] \<and> drop_bit (128 - bits) p = drop_bit (128 - bits) a)"
| "prefix_contains _ _ = False"

text \<open>\<^verbatim>\<open>Prefix.Overlaps\<close>: compare at the shorter length.\<close>

fun prefix_overlaps :: "prefix \<Rightarrow> prefix \<Rightarrow> bool" where
  "prefix_overlaps (Prefix (V4 p) m) (Prefix (V4 q) n) =
     (m \<le> 32 \<and> n \<le> 32 \<and> drop_bit (32 - min m n) p = drop_bit (32 - min m n) q)"
| "prefix_overlaps (Prefix (V6 p zp) m) (Prefix (V6 q zq) n) =
     (m \<le> 128 \<and> n \<le> 128 \<and> zp = [] \<and> zq = [] \<and> drop_bit (128 - min m n) p = drop_bit (128 - min m n) q)"
| "prefix_overlaps _ _ = False"

section \<open>Parsers\<close>

fun split_on :: "char \<Rightarrow> string \<Rightarrow> string list" where
  "split_on b [] = [[]]"
| "split_on b (c # cs) =
     (if c = b then [] # split_on b cs
      else case split_on b cs of [] \<Rightarrow> [[c]] | f # fs \<Rightarrow> (c # f) # fs)"

definition parse_octet :: "string \<Rightarrow> 8 word option" where
  "parse_octet s =
     (if length s > 1 \<and> hd s = CHR ''0'' then None
      else map_option word_of_nat (parse_uint 8 s))"

text \<open>\<^verbatim>\<open>parseIPv4Fields\<close>: four dot separated octets without leading zeros.\<close>

definition parse_ipv4_fields :: "string \<Rightarrow> 8 word list option" where
  "parse_ipv4_fields s =
     (let fs = map parse_octet (split_on (CHR ''.'') s)
      in if length fs = 4 \<and> None \<notin> set fs then Some (map the fs) else None)"

definition from_bytes :: "8 word list \<Rightarrow> 'a::len word" where
  "from_bytes bs = foldl (\<lambda>n b. push_bit 8 n OR ucast b) 0 bs"

definition parse_ipv4 :: "string \<Rightarrow> addr option" where
  "parse_ipv4 s = map_option (\<lambda>bs. V4 (from_bytes bs)) (parse_ipv4_fields s)"

definition hex_value :: "char \<Rightarrow> nat option" where
  "hex_value c =
     (let n = of_char c :: nat
      in if 48 \<le> n \<and> n \<le> 57 then Some (n - 48)
         else if 97 \<le> n \<and> n \<le> 102 then Some (n - 87)
         else if 65 \<le> n \<and> n \<le> 70 then Some (n - 55) else None)"

text \<open>
  The main loop of \<^verbatim>\<open>parseIPv6\<close>. \<open>ip\<close> are the bytes parsed so far, \<open>ellipsis\<close> is the position of
  \<^verbatim>\<open>::\<close>, \<open>s\<close> the rest. The result is the three of them when the loop ends.
\<close>

function (sequential) parse_ipv6_loop ::
  "8 word list \<Rightarrow> nat option \<Rightarrow> string \<Rightarrow> (8 word list \<times> nat option \<times> string) option" where
  "parse_ipv6_loop ip ellipsis s =
     (if length ip \<ge> 16 then Some (ip, ellipsis, s)
      else
        let ds = takeWhile (\<lambda>c. hex_value c \<noteq> None) s;
            acc = foldl (\<lambda>n c. 16 * n + the (hex_value c)) 0 ds;
            rest = drop (length ds) s
        in if length ds > 4 \<or> ds = [] then None
           else if rest \<noteq> [] \<and> hd rest = CHR ''.'' then
             (if ellipsis = None \<and> length ip \<noteq> 12 then None
              else if length ip + 4 > 16 then None
              else map_option (\<lambda>bs. (ip @ bs, ellipsis, [])) (parse_ipv4_fields s))
           else
             let ip' = ip @ [word_of_nat (acc div 256), word_of_nat acc]
             in if rest = [] then Some (ip', ellipsis, [])
                else if hd rest \<noteq> CHR '':'' \<or> length rest = 1 then None
                else if hd (tl rest) = CHR '':'' then
                  (if ellipsis \<noteq> None then None
                   else if tl (tl rest) = [] then Some (ip', Some (length ip'), [])
                   else parse_ipv6_loop ip' (Some (length ip')) (tl (tl rest)))
                else parse_ipv6_loop ip' ellipsis (tl rest))"
  by pat_completeness auto
termination by (relation "measure (\<lambda>(ip, _, _). 16 - length ip)") auto

definition parse_ipv6 :: "string \<Rightarrow> addr option" where
  "parse_ipv6 input =
     (let (s, zone) = (case index_byte (CHR ''%'') input of
                         None \<Rightarrow> (input, None)
                       | Some i \<Rightarrow> (take i input, Some (drop (Suc i) input)))
      in if zone = Some [] then None
         else let z = (case zone of None \<Rightarrow> [] | Some z \<Rightarrow> z);
                  lead = has_prefix ''::'' s;
                  s' = (if lead then drop 2 s else s)
              in if lead \<and> s' = [] then Some (V6 0 z)
                 else case parse_ipv6_loop [] (if lead then Some 0 else None) s' of
                        None \<Rightarrow> None
                      | Some (ip, ellipsis, rest) \<Rightarrow>
                          if rest \<noteq> [] then None
                          else if length ip < 16 then
                            (case ellipsis of
                               None \<Rightarrow> None
                             | Some e \<Rightarrow> Some (V6 (from_bytes (take e ip @ replicate (16 - length ip) 0 @ drop e ip)) z))
                          else if ellipsis \<noteq> None then None
                          else Some (V6 (from_bytes ip) z))"

text \<open>\<^verbatim>\<open>netip.ParseAddr\<close>: the first of the three bytes decides.\<close>

fun parse_addr_kind :: "string \<Rightarrow> char option" where
  "parse_addr_kind [] = None"
| "parse_addr_kind (c # cs) = (if c \<in> {CHR ''.'', CHR '':'', CHR ''%''} then Some c else parse_addr_kind cs)"

definition parse_addr :: "string \<Rightarrow> addr option" where
  "parse_addr s =
     (case parse_addr_kind s of
        None \<Rightarrow> None
      | Some k \<Rightarrow> if k = CHR ''.'' then parse_ipv4 s else if k = CHR '':'' then parse_ipv6 s else None)"

text \<open>\<^verbatim>\<open>netip.ParsePrefix\<close>: the bits follow the last slash, without sign or leading zero.\<close>

definition parse_prefix :: "string \<Rightarrow> prefix option" where
  "parse_prefix s =
     (if CHR ''/'' \<notin> set s then None
      else let bits_str = rev (takeWhile (\<lambda>c. c \<noteq> CHR ''/'') (rev s));
               addr_str = take (length s - length bits_str - 1) s
           in case parse_addr addr_str of
                None \<Rightarrow> None
              | Some a \<Rightarrow>
                  let max_bits = (if is4 a then 32 else 128)
                  in if (case a of V6 _ zone \<Rightarrow> zone \<noteq> [] | V4 _ \<Rightarrow> False) then None
                     else if length bits_str > 1 \<and> hd bits_str = CHR ''0'' then None
                     else case parse_uint 63 bits_str of
                            None \<Rightarrow> None
                          | Some bits \<Rightarrow> if bits > max_bits then None else Some (Prefix a bits))"

lemma parse_prefix_valid: "parse_prefix s = Some p \<Longrightarrow> prefix_valid p"
  by (auto simp: parse_prefix_def Let_def split: if_splits option.splits addr.splits)

section \<open>Overlap\<close>

lemma drop_bit_less:
  fixes x y :: "'a::len word"
  shows "drop_bit m x = drop_bit m y \<Longrightarrow> m \<le> n \<Longrightarrow> drop_bit n x = drop_bit n y"
  by (metis drop_bit_drop_bit le_add_diff_inverse2)

text \<open>Two valid prefixes overlap exactly when some address is in both.\<close>

lemma drop_bit_overlap:
  fixes p q :: "'a::len word"
  assumes "m \<le> w" and "n \<le> w"
  shows "drop_bit (w - min m n) p = drop_bit (w - min m n) q \<longleftrightarrow>
    (\<exists>a. drop_bit (w - m) p = drop_bit (w - m) a \<and> drop_bit (w - n) q = drop_bit (w - n) a)"
proof
  assume eq: "drop_bit (w - min m n) p = drop_bit (w - min m n) q"
  show "\<exists>a. drop_bit (w - m) p = drop_bit (w - m) a \<and> drop_bit (w - n) q = drop_bit (w - n) a"
  proof (cases "m \<le> n")
    case True
    then show ?thesis using eq by (intro exI [of _ q]) (simp add: min_def)
  next
    case False
    then show ?thesis using eq by (intro exI [of _ p]) (simp add: min_def)
  qed
next
  assume "\<exists>a. drop_bit (w - m) p = drop_bit (w - m) a \<and> drop_bit (w - n) q = drop_bit (w - n) a"
  then obtain a where a: "drop_bit (w - m) p = drop_bit (w - m) a" "drop_bit (w - n) q = drop_bit (w - n) a"
    by blast
  have "drop_bit (w - min m n) p = drop_bit (w - min m n) a"
    by (rule drop_bit_less [OF a(1)]) simp
  moreover have "drop_bit (w - min m n) q = drop_bit (w - min m n) a"
    by (rule drop_bit_less [OF a(2)]) simp
  ultimately show "drop_bit (w - min m n) p = drop_bit (w - min m n) q" by simp
qed

lemma prefix_contains_V4:
  "prefix_contains (Prefix (V4 p) m) a \<longleftrightarrow> (\<exists>z. a = V4 z \<and> m \<le> 32 \<and> drop_bit (32 - m) p = drop_bit (32 - m) z)"
  by (cases a) auto

lemma prefix_contains_V6:
  "prefix_contains (Prefix (V6 p zp) m) a \<longleftrightarrow>
     (\<exists>z. a = V6 z [] \<and> m \<le> 128 \<and> zp = [] \<and> drop_bit (128 - m) p = drop_bit (128 - m) z)"
  by (cases a) auto

lemma prefix_overlaps_iff:
  assumes "prefix_valid p" and "prefix_valid q"
  shows "prefix_overlaps p q \<longleftrightarrow> (\<exists>a. prefix_contains p a \<and> prefix_contains q a)"
proof -
  obtain a m b n where p: "p = Prefix a m" and q: "q = Prefix b n" by (cases p; cases q)
  consider x y where "a = V4 x" "b = V4 y" | x y z where "a = V4 x" "b = V6 y z"
    | x y z where "a = V6 x z" "b = V4 y" | x y z z' where "a = V6 x z" "b = V6 y z'"
    by (cases a; cases b)
  then show ?thesis
  proof cases
    case 1
    then show ?thesis using assms drop_bit_overlap [of m 32 n x y]
      by (auto simp: p q prefix_contains_V4)
  next
    case 4
    then show ?thesis using assms drop_bit_overlap [of m 128 n x y]
      by (auto simp: p q prefix_contains_V6)
  qed (auto simp: p q prefix_contains_V4 prefix_contains_V6)
qed

end
