(* ===== verification/Rule_Item.thy ===== *)
theory Rule_Item
  imports Netip
begin

text \<open>
  The conditions of a rule: \<^verbatim>\<open>route/rule/rule_item_*.go\<close> and the three
  \<^verbatim>\<open>rule_*_interface_address.go\<close> files, with the connection metadata of \<^verbatim>\<open>adapter/inbound.go\<close> they
  read. A matcher of a library, which the code only calls through its \<^verbatim>\<open>Match\<close> method, is that
  method. What the items ask of the running program (network interfaces, WIFI state, the Clash
  mode) is a record of the answers.
\<close>

section \<open>Metadata\<close>

record socksaddr =
  sa_addr :: "addr option"
  sa_port :: "16 word"
  sa_fqdn :: string

record connection_owner =
  po_user_id :: "32 word"
  po_user_name :: string
  po_process_path :: string
  po_android_packages :: "string list"

record metadata =
  md_inbound :: string
  md_ip_version :: "8 word"
  md_network :: string
  md_source :: socksaddr
  md_destination :: socksaddr
  md_user :: string
  md_outbound :: string
  md_protocol :: string
  md_domain :: string
  md_client :: string
  md_destination_addresses :: "addr list"
  md_process_info :: "connection_owner option"
  md_query_type :: "16 word"
  md_ipcidr_match_source :: bool
  md_ipcidr_accept_empty :: bool
  md_source_address_match :: bool
  md_source_port_match :: bool
  md_destination_address_match :: bool
  md_destination_port_match :: bool
  md_did_match :: bool
  md_ignore_destination_ipcidr_match :: bool

definition reset_rule_match_cache :: "metadata \<Rightarrow> metadata" where
  "reset_rule_match_cache c =
     c\<lparr>md_source_address_match := False, md_source_port_match := False,
       md_destination_address_match := False, md_destination_port_match := False,
       md_did_match := False\<rparr>"

definition reset_rule_cache :: "metadata \<Rightarrow> metadata" where
  "reset_rule_cache c =
     reset_rule_match_cache (c\<lparr>md_ipcidr_match_source := False, md_ipcidr_accept_empty := False\<rparr>)"

text \<open>The host name the domain conditions look at.\<close>

definition domain_host :: "metadata \<Rightarrow> string" where
  "domain_host md = (if md_domain md \<noteq> [] then md_domain md else sa_fqdn (md_destination md))"

section \<open>What the items are built from\<close>

type_synonym interface_type = "8 word"

record net_interface =
  if_name :: string
  if_addresses :: "prefix list"
  if_type :: interface_type
  if_expensive :: bool
  if_constrained :: bool

text \<open>Libraries: the domain and AdGuard matchers, IP sets, the public address test, regular
  expressions, the Unicode parts of \<^verbatim>\<open>strings\<close>, and names of DNS types and prefixes.\<close>

record libs =
  lib_matcher :: "string list \<Rightarrow> string list \<Rightarrow> bool \<Rightarrow> string \<Rightarrow> bool"
  lib_adguard :: "string list \<Rightarrow> string \<Rightarrow> bool"
  lib_ip_set :: "(prefix + addr) list \<Rightarrow> string + (addr \<Rightarrow> bool)"
  lib_is_public :: "addr \<Rightarrow> bool"
  lib_regexp :: "string \<Rightarrow> string + (string \<Rightarrow> bool)"
  lib_lower :: "string \<Rightarrow> string"
  lib_fold :: "string \<Rightarrow> string \<Rightarrow> bool"
  lib_dns_type :: "16 word \<Rightarrow> string option"
  lib_prefix_string :: "prefix \<Rightarrow> string"
  lib_trim :: "string \<Rightarrow> string"

text \<open>The running program: interfaces, WIFI, Clash mode, and outbounds with preferred routes.\<close>

type_synonym preferred = "(string \<Rightarrow> bool) \<times> (addr \<Rightarrow> bool)"

record services =
  sv_default_network_interface :: "net_interface option"
  sv_network_interfaces :: "net_interface list"
  sv_my_interfaces :: "string list"
  sv_finder_interfaces :: "net_interface list"
  sv_monitor_default :: "net_interface option"
  sv_wifi_ssid :: string
  sv_wifi_bssid :: string
  sv_clash_mode :: "string option"
  sv_outbound :: "string \<Rightarrow> (string \<times> preferred option) option"
  sv_is_android :: bool

section \<open>Items\<close>

datatype item =
    InboundItem "string list" "(string, bool) gomap"
  | IPVersionItem bool
  | NetworkItem "string list" "(string, bool) gomap"
  | AuthUserItem "string list" "(string, bool) gomap"
  | ProtocolItem "string list" "(string, bool) gomap"
  | ClientItem "string list" "(string, bool) gomap"
  | DomainItem "string \<Rightarrow> bool" string
  | DomainKeywordItem "string list"
  | DomainRegexItem "(string \<Rightarrow> bool) list" string
  | AdGuardDomainItem "string \<Rightarrow> bool"
  | IPCIDRItem "addr \<Rightarrow> bool" bool string
  | IPIsPrivateItem bool
  | IPAcceptAnyItem
  | PortItem "16 word list" "(16 word, bool) gomap" bool
  | PortRangeItem bool "string list" "(16 word \<times> 16 word) list"
  | ProcessItem "string list" "(string, bool) gomap"
  | ProcessPathItem "string list" "(string, bool) gomap"
  | ProcessPathRegexItem "(string \<Rightarrow> bool) list" string
  | PackageNameItem "string list" "(string, bool) gomap"
  | UserItem "string list" "(string, bool) gomap"
  | UserIdItem "32 word list" "(32 word, bool) gomap"
  | OutboundItem "string list" "(string, bool) gomap" bool
  | QueryTypeItem "16 word list" "(16 word, bool) gomap"
  | ClashModeItem bool string
  | NetworkTypeItem "interface_type list"
  | NetworkIsExpensiveItem
  | NetworkIsConstrainedItem
  | WIFISSIDItem "string list" "(string, bool) gomap"
  | WIFIBSSIDItem "string list" "(string, bool) gomap"
  | InterfaceAddressItem "(string, prefix list) gomap" string
  | NetworkInterfaceAddressItem "(interface_type, prefix list) gomap" string
  | DefaultInterfaceAddressItem "prefix list"
  | PreferredByItem "string list" "preferred list"

section \<open>Descriptions\<close>

definition one_or_list :: "string \<Rightarrow> string list \<Rightarrow> string" where
  "one_or_list label xs = (if length xs = 1 then label @ hd xs else label @ ''['' @ join '' '' xs @ '']'')"

definition one_or_three :: "string \<Rightarrow> string list \<Rightarrow> string" where
  "one_or_three label xs =
     (if length xs = 1 then label @ hd xs
      else if length xs > 3 then label @ ''['' @ join '' '' (take 3 xs) @ ''...]''
      else label @ ''['' @ join '' '' xs @ '']'')"

text \<open>The regular expression items cut the list without the dots.\<close>

definition one_or_cut :: "string \<Rightarrow> string list \<Rightarrow> string" where
  "one_or_cut label xs =
     (if length xs = 1 then label @ hd xs
      else if length xs > 3 then label @ ''['' @ join '' '' (take 3 xs) @ '']''
      else label @ ''['' @ join '' '' xs @ '']'')"

definition interface_type_string :: "interface_type \<Rightarrow> string" where
  "interface_type_string t =
     (if t = 0 then ''wifi'' else if t = 1 then ''cellular'' else if t = 2 then ''ethernet''
      else if t = 3 then ''other'' else digits (unat t))"

definition dns_query_type_string :: "libs \<Rightarrow> 16 word \<Rightarrow> string" where
  "dns_query_type_string L t = (case lib_dns_type L t of Some name \<Rightarrow> name | None \<Rightarrow> digits (unat t))"

section \<open>Constructors\<close>

definition NewInboundRule :: "string list \<Rightarrow> item" where
  "NewInboundRule inbounds = InboundItem inbounds (bool_map inbounds)"

definition NewIPVersionItem :: "bool \<Rightarrow> item" where
  "NewIPVersionItem isIPv6 = IPVersionItem isIPv6"

definition NewNetworkItem :: "string list \<Rightarrow> item" where
  "NewNetworkItem networks = NetworkItem networks (bool_map networks)"

definition NewAuthUserItem :: "string list \<Rightarrow> item" where
  "NewAuthUserItem users = AuthUserItem users (bool_map users)"

definition NewProtocolItem :: "string list \<Rightarrow> item" where
  "NewProtocolItem protocols = ProtocolItem protocols (bool_map protocols)"

definition NewClientItem :: "string list \<Rightarrow> item" where
  "NewClientItem clients = ClientItem clients (bool_map clients)"

definition NewDomainItem :: "libs \<Rightarrow> string list \<Rightarrow> string list \<Rightarrow> go_error + item" where
  "NewDomainItem L domains domainSuffixes =
     (if [] \<in> set domains then Inl (ENew ''domain: empty item is not allowed'')
      else if [] \<in> set domainSuffixes then Inl (ENew ''domain_suffix: empty item is not allowed'')
      else
        let d = (if length domains > 0 then one_or_three ''domain='' domains else []);
            description =
              (if length domainSuffixes > 0
               then (if length d > 0 then d @ '' '' else d) @ one_or_three ''domain_suffix='' domainSuffixes
               else d)
        in Inr (DomainItem (lib_matcher L domains domainSuffixes False) description))"

definition NewRawDomainItem :: "(string \<Rightarrow> bool) \<Rightarrow> item" where
  "NewRawDomainItem matcher = DomainItem matcher ''domain/domain_suffix=<binary>''"

definition NewDomainKeywordItem :: "string list \<Rightarrow> item" where
  "NewDomainKeywordItem keywords = DomainKeywordItem keywords"

text \<open>The loop that compiles the expressions; the index is part of the error.\<close>

fun compile_all :: "libs \<Rightarrow> nat \<Rightarrow> string list \<Rightarrow> go_error + (string \<Rightarrow> bool) list" where
  "compile_all L i [] = Inr []"
| "compile_all L i (e # es) =
     (case lib_regexp L e of
        Inl err \<Rightarrow> Inl (ECause (EExternal err) (''parse expression '' @ digits i))
      | Inr m \<Rightarrow> rbind (compile_all L (Suc i) es) (\<lambda>ms. Inr (m # ms)))"

definition NewDomainRegexItem :: "libs \<Rightarrow> string list \<Rightarrow> go_error + item" where
  "NewDomainRegexItem L expressions =
     rbind (compile_all L 0 expressions) (\<lambda>matchers.
       Inr (DomainRegexItem matchers (one_or_cut ''domain_regex='' expressions)))"

definition NewAdGuardDomainItem :: "libs \<Rightarrow> string list \<Rightarrow> item" where
  "NewAdGuardDomainItem L ruleLines = AdGuardDomainItem (lib_adguard L ruleLines)"

definition NewRawAdGuardDomainItem :: "(string \<Rightarrow> bool) \<Rightarrow> item" where
  "NewRawAdGuardDomainItem matcher = AdGuardDomainItem matcher"

text \<open>The loop of \<^verbatim>\<open>NewIPCIDRItem\<close>: a prefix, else an address, else an error.\<close>

fun collect_prefixes :: "nat \<Rightarrow> string list \<Rightarrow> go_error + (prefix + addr) list" where
  "collect_prefixes i [] = Inr []"
| "collect_prefixes i (s # ss) =
     (case parse_prefix s of
        Some p \<Rightarrow> rbind (collect_prefixes (Suc i) ss) (\<lambda>es. Inr (Inl p # es))
      | None \<Rightarrow>
          (case parse_addr s of
             Some a \<Rightarrow> rbind (collect_prefixes (Suc i) ss) (\<lambda>es. Inr (Inr a # es))
           | None \<Rightarrow> Inl (ECause (EExternal s) (''parse ['' @ digits i @ '']''))))"

definition NewIPCIDRItem :: "libs \<Rightarrow> bool \<Rightarrow> string list \<Rightarrow> go_error + item" where
  "NewIPCIDRItem L isSource prefixStrings =
     rbind (collect_prefixes 0 prefixStrings) (\<lambda>entries.
       let description = one_or_three (if isSource then ''source_ip_cidr='' else ''ip_cidr='') prefixStrings
       in case lib_ip_set L entries of
            Inl err \<Rightarrow> Inl (EExternal err)
          | Inr ipSet \<Rightarrow> Inr (IPCIDRItem ipSet isSource description))"

definition NewRawIPCIDRItem :: "bool \<Rightarrow> (addr \<Rightarrow> bool) \<Rightarrow> item" where
  "NewRawIPCIDRItem isSource ipSet =
     IPCIDRItem ipSet isSource ((if isSource then ''source_ip_cidr='' else ''ip_cidr='') @ ''<binary>'')"

definition NewIPIsPrivateItem :: "bool \<Rightarrow> item" where
  "NewIPIsPrivateItem isSource = IPIsPrivateItem isSource"

definition NewIPAcceptAnyItem :: item where
  "NewIPAcceptAnyItem = IPAcceptAnyItem"

definition NewPortItem :: "bool \<Rightarrow> 16 word list \<Rightarrow> item" where
  "NewPortItem isSource ports = PortItem ports (bool_map ports) isSource"

definition ErrBadPortRange :: go_error where
  "ErrBadPortRange = ENew ''bad port range''"

definition parse_port_range :: "string \<Rightarrow> go_error + (16 word \<times> 16 word)" where
  "parse_port_range portRange =
     (case index_byte (CHR '':'') portRange of
        None \<Rightarrow> Inl (EExtend ErrBadPortRange portRange)
      | Some subIndex \<Rightarrow>
          let bad = Inl (ECause (EExternal ''strconv.ParseUint'') (''bad port range: '' @ portRange));
              end' = (if subIndex = length portRange - 1 then Some 65535
                      else parse_uint 16 (drop (subIndex + 1) portRange))
          in case (if subIndex > 0 then parse_uint 16 (take subIndex portRange) else Some 0) of
               None \<Rightarrow> bad
             | Some start \<Rightarrow> (case end' of
                   None \<Rightarrow> bad
                 | Some e \<Rightarrow> Inr (word_of_nat start, word_of_nat e)))"

fun parse_port_ranges :: "string list \<Rightarrow> go_error + (16 word \<times> 16 word) list" where
  "parse_port_ranges [] = Inr []"
| "parse_port_ranges (r # rs) =
     rbind (parse_port_range r) (\<lambda>x. rbind (parse_port_ranges rs) (\<lambda>xs. Inr (x # xs)))"

definition NewPortRangeItem :: "bool \<Rightarrow> string list \<Rightarrow> go_error + item" where
  "NewPortRangeItem isSource rangeList =
     rbind (parse_port_ranges rangeList) (\<lambda>portRangeList. Inr (PortRangeItem isSource rangeList portRangeList))"

definition NewProcessItem :: "string list \<Rightarrow> item" where
  "NewProcessItem names = ProcessItem names (bool_map names)"

definition NewProcessPathItem :: "string list \<Rightarrow> item" where
  "NewProcessPathItem names = ProcessPathItem names (bool_map names)"

definition NewProcessPathRegexItem :: "libs \<Rightarrow> string list \<Rightarrow> go_error + item" where
  "NewProcessPathRegexItem L expressions =
     rbind (compile_all L 0 expressions) (\<lambda>matchers.
       Inr (ProcessPathRegexItem matchers (one_or_cut ''process_path_regex='' expressions)))"

definition NewPackageNameItem :: "string list \<Rightarrow> item" where
  "NewPackageNameItem names = PackageNameItem names (bool_map names)"

definition NewUserItem :: "string list \<Rightarrow> item" where
  "NewUserItem users = UserItem users (bool_map users)"

definition NewUserIDItem :: "32 word list \<Rightarrow> item" where
  "NewUserIDItem ids = UserIdItem ids (bool_map ids)"

text \<open>The name \<^verbatim>\<open>any\<close> is not put into the map.\<close>

definition NewOutboundRule :: "string list \<Rightarrow> item" where
  "NewOutboundRule outbounds =
     OutboundItem outbounds (bool_map (filter (\<lambda>o'. o' \<noteq> ''any'') outbounds)) (''any'' \<in> set outbounds)"

definition NewQueryTypeItem :: "16 word list \<Rightarrow> item" where
  "NewQueryTypeItem types = QueryTypeItem types (bool_map types)"

definition NewClashModeItem :: "string \<Rightarrow> item" where
  "NewClashModeItem mode = ClashModeItem False mode"

definition NewNetworkTypeItem :: "interface_type list \<Rightarrow> item" where
  "NewNetworkTypeItem types = NetworkTypeItem types"

definition NewNetworkIsExpensiveItem :: item where
  "NewNetworkIsExpensiveItem = NetworkIsExpensiveItem"

definition NewNetworkIsConstrainedItem :: item where
  "NewNetworkIsConstrainedItem = NetworkIsConstrainedItem"

definition NewWIFISSIDItem :: "string list \<Rightarrow> item" where
  "NewWIFISSIDItem ssids = WIFISSIDItem ssids (bool_map ssids)"

text \<open>\<^verbatim>\<open>strings.TrimSpace\<close>: a byte of \<^verbatim>\<open>0x80\<close> or above at either end, once ASCII space is gone, makes
  the library look at runes.\<close>

definition is_space :: "char \<Rightarrow> bool" where
  "is_space c \<longleftrightarrow> (of_char c :: nat) \<in> {9, 10, 11, 12, 13, 32}"

definition trim_space :: "(string \<Rightarrow> string) \<Rightarrow> string \<Rightarrow> string" where
  "trim_space unicode s =
     (let t = rev (dropWhile is_space (rev (dropWhile is_space s)))
      in if t \<noteq> [] \<and> ((of_char (hd t) :: nat) \<ge> 128 \<or> (of_char (last t) :: nat) \<ge> 128) then unicode t else t)"

text \<open>Pairs of hexadecimal digits, and the 6-byte forms of \<^verbatim>\<open>net.ParseMAC\<close>: six pairs with colons or
  dashes, or three groups of two pairs with dots.\<close>

fun hex_pairs :: "string \<Rightarrow> nat list option" where
  "hex_pairs [] = Some []"
| "hex_pairs [c] = None"
| "hex_pairs (c # d # cs) =
     (case (hex_value c, hex_value d, hex_pairs cs) of
        (Some x, Some y, Some r) \<Rightarrow> Some ((16 * x + y) # r)
      | _ \<Rightarrow> None)"

definition parse_mac6 :: "string \<Rightarrow> nat list option" where
  "parse_mac6 s =
     (if length s = 17 \<and> s ! 2 \<in> {CHR '':'', CHR ''-''} then
        (let fs = split_on (s ! 2) s
         in if map length fs = replicate 6 2 then hex_pairs (concat fs) else None)
      else if length s = 14 \<and> s ! 4 = CHR ''.'' then
        (let fs = split_on (CHR ''.'') s
         in if map length fs = replicate 3 4 then hex_pairs (concat fs) else None)
      else None)"

definition hex_digit :: "nat \<Rightarrow> char" where
  "hex_digit n = (if n < 10 then char_of (48 + n) else char_of (87 + n))"

definition mac_string :: "nat list \<Rightarrow> string" where
  "mac_string bs = join '':'' (map (\<lambda>b. [hex_digit (b div 16), hex_digit (b mod 16)]) bs)"

definition NormalizeWIFIBSSID :: "libs \<Rightarrow> string \<Rightarrow> string" where
  "NormalizeWIFIBSSID L bssid0 =
     (let bssid = trim_space (lib_trim L) bssid0
      in if bssid = [] then []
         else case parse_mac6 bssid of
                Some parsed \<Rightarrow> mac_string parsed
              | None \<Rightarrow>
                  if length bssid = 12
                  then (case hex_pairs bssid of Some decoded \<Rightarrow> mac_string decoded | None \<Rightarrow> bssid)
                  else bssid)"

definition NewWIFIBSSIDItem :: "libs \<Rightarrow> string list \<Rightarrow> item" where
  "NewWIFIBSSIDItem L bssids = WIFIBSSIDItem bssids (bool_map (map (NormalizeWIFIBSSID L) bssids))"

definition NewInterfaceAddressItem :: "libs \<Rightarrow> (string \<times> prefix list) list \<Rightarrow> item" where
  "NewInterfaceAddressItem L entries =
     InterfaceAddressItem (fold (\<lambda>(k, ps) m. AList.update k ps m) entries [])
       (''interface_address=['' @
        join '' '' (map (\<lambda>(k, ps). k @ ''='' @ join '','' (map (lib_prefix_string L) ps)) entries) @ '']'')"

definition NewNetworkInterfaceAddressItem :: "libs \<Rightarrow> (interface_type \<times> prefix list) list \<Rightarrow> item" where
  "NewNetworkInterfaceAddressItem L entries =
     NetworkInterfaceAddressItem (fold (\<lambda>(k, ps) m. AList.update k ps m) entries [])
       (''network_interface_address=['' @
        join '' '' (map (\<lambda>(k, ps). interface_type_string k @ ''='' @ join '','' (map (lib_prefix_string L) ps)) entries) @
        '']'')"

definition NewDefaultInterfaceAddressItem :: "prefix list \<Rightarrow> item" where
  "NewDefaultInterfaceAddressItem addresses = DefaultInterfaceAddressItem addresses"

definition NewPreferredByItem :: "string list \<Rightarrow> item" where
  "NewPreferredByItem outboundTags = PreferredByItem outboundTags []"

section \<open>Starting\<close>

definition ClashModeItem_Start :: "services \<Rightarrow> string \<Rightarrow> item" where
  "ClashModeItem_Start S mode = ClashModeItem (sv_clash_mode S \<noteq> None) mode"

text \<open>The loop appends to the field as it goes, so a failed start leaves a partial list behind.\<close>

fun PreferredByItem_Start :: "services \<Rightarrow> string list \<Rightarrow> preferred list \<Rightarrow> go_error option \<times> preferred list" where
  "PreferredByItem_Start S [] outbounds = (None, outbounds)"
| "PreferredByItem_Start S (tag # tags) outbounds =
     (case sv_outbound S tag of
        None \<Rightarrow> (Some (ENew (''outbound not found: '' @ tag)), outbounds)
      | Some (_, Some p) \<Rightarrow> PreferredByItem_Start S tags (outbounds @ [p])
      | Some (ty, None) \<Rightarrow>
          (Some (ENew (''outbound type does not support preferred routes: '' @ ty)), outbounds))"

text \<open>The items with a \<^verbatim>\<open>Start\<close> method.\<close>

fun item_start :: "services \<Rightarrow> item \<Rightarrow> go_error option \<times> item" where
  "item_start S (ClashModeItem _ mode) = (None, ClashModeItem_Start S mode)"
| "item_start S (PreferredByItem tags outbounds) =
     (let (e, os) = PreferredByItem_Start S tags outbounds in (e, PreferredByItem tags os))"
| "item_start S it = (None, it)"

section \<open>Matching\<close>

definition DomainItem_Match :: "libs \<Rightarrow> (string \<Rightarrow> bool) \<Rightarrow> metadata \<Rightarrow> bool" where
  "DomainItem_Match L matcher md =
     (let host = domain_host md in host \<noteq> [] \<and> matcher (to_lower (lib_lower L) host))"

definition AdGuardDomainItem_Match :: "libs \<Rightarrow> (string \<Rightarrow> bool) \<Rightarrow> metadata \<Rightarrow> bool" where
  "AdGuardDomainItem_Match L matcher md =
     (let host = domain_host md in host \<noteq> [] \<and> matcher (to_lower (lib_lower L) host))"

definition DomainKeywordItem_Match :: "libs \<Rightarrow> string list \<Rightarrow> metadata \<Rightarrow> bool" where
  "DomainKeywordItem_Match L keywords md =
     (let host = domain_host md
      in host \<noteq> [] \<and> list_ex (\<lambda>keyword. str_contains (to_lower (lib_lower L) host) keyword) keywords)"

definition DomainRegexItem_Match :: "libs \<Rightarrow> (string \<Rightarrow> bool) list \<Rightarrow> metadata \<Rightarrow> bool" where
  "DomainRegexItem_Match L matchers md =
     (let host = domain_host md
      in host \<noteq> [] \<and> list_ex (\<lambda>matcher. matcher (to_lower (lib_lower L) host)) matchers)"

definition IPCIDRItem_Match :: "(addr \<Rightarrow> bool) \<Rightarrow> bool \<Rightarrow> metadata \<Rightarrow> bool" where
  "IPCIDRItem_Match ipSet isSource md =
     (if isSource \<or> md_ipcidr_match_source md
      then (case sa_addr (md_source md) of None \<Rightarrow> False | Some a \<Rightarrow> ipSet a)
      else case sa_addr (md_destination md) of
             Some a \<Rightarrow> ipSet a
           | None \<Rightarrow>
               if md_destination_addresses md \<noteq> [] then list_ex ipSet (md_destination_addresses md)
               else md_ipcidr_accept_empty md)"

definition IPIsPrivateItem_Match :: "libs \<Rightarrow> bool \<Rightarrow> metadata \<Rightarrow> bool" where
  "IPIsPrivateItem_Match L isSource md =
     (case (if isSource then sa_addr (md_source md) else sa_addr (md_destination md)) of
        Some a \<Rightarrow> \<not> lib_is_public L a
      | None \<Rightarrow> \<not> isSource \<and> list_ex (\<lambda>a. \<not> lib_is_public L a) (md_destination_addresses md))"

definition IPAcceptAnyItem_Match :: "metadata \<Rightarrow> bool" where
  "IPAcceptAnyItem_Match md \<longleftrightarrow> md_destination_addresses md \<noteq> []"

definition IPVersionItem_Match :: "bool \<Rightarrow> metadata \<Rightarrow> bool" where
  "IPVersionItem_Match isIPv6 md \<longleftrightarrow>
     md_ip_version md \<noteq> 0 \<and> (md_ip_version md = 6) = isIPv6 \<or>
     (case sa_addr (md_destination md) of None \<Rightarrow> False | Some a \<Rightarrow> is6 a = isIPv6)"

definition PortItem_Match :: "(16 word, bool) gomap \<Rightarrow> bool \<Rightarrow> metadata \<Rightarrow> bool" where
  "PortItem_Match portMap isSource md =
     map_true portMap (if isSource then sa_port (md_source md) else sa_port (md_destination md))"

definition PortRangeItem_Match :: "bool \<Rightarrow> (16 word \<times> 16 word) list \<Rightarrow> metadata \<Rightarrow> bool" where
  "PortRangeItem_Match isSource ranges md =
     (let port = (if isSource then sa_port (md_source md) else sa_port (md_destination md))
      in list_ex (\<lambda>(start, end'). port \<ge> start \<and> port \<le> end') ranges)"

definition ProcessItem_Match :: "(string, bool) gomap \<Rightarrow> metadata \<Rightarrow> bool" where
  "ProcessItem_Match processMap md =
     (case md_process_info md of
        None \<Rightarrow> False
      | Some p \<Rightarrow> po_process_path p \<noteq> [] \<and> map_true processMap (path_base (po_process_path p)))"

definition ProcessPathItem_Match :: "services \<Rightarrow> (string, bool) gomap \<Rightarrow> metadata \<Rightarrow> bool" where
  "ProcessPathItem_Match S processMap md =
     (case md_process_info md of
        None \<Rightarrow> False
      | Some p \<Rightarrow>
          po_process_path p \<noteq> [] \<and> map_true processMap (po_process_path p) \<or>
          sv_is_android S \<and> list_ex (map_true processMap) (po_android_packages p))"

definition ProcessPathRegexItem_Match :: "(string \<Rightarrow> bool) list \<Rightarrow> metadata \<Rightarrow> bool" where
  "ProcessPathRegexItem_Match matchers md =
     (case md_process_info md of
        None \<Rightarrow> False
      | Some p \<Rightarrow> po_process_path p \<noteq> [] \<and> list_ex (\<lambda>matcher. matcher (po_process_path p)) matchers)"

definition PackageNameItem_Match :: "(string, bool) gomap \<Rightarrow> metadata \<Rightarrow> bool" where
  "PackageNameItem_Match packageMap md =
     (case md_process_info md of
        None \<Rightarrow> False
      | Some p \<Rightarrow> list_ex (map_true packageMap) (po_android_packages p))"

definition UserItem_Match :: "(string, bool) gomap \<Rightarrow> metadata \<Rightarrow> bool" where
  "UserItem_Match userMap md =
     (case md_process_info md of
        None \<Rightarrow> False
      | Some p \<Rightarrow> po_user_name p \<noteq> [] \<and> map_true userMap (po_user_name p))"

definition UserIdItem_Match :: "(32 word, bool) gomap \<Rightarrow> metadata \<Rightarrow> bool" where
  "UserIdItem_Match userIdMap md =
     (case md_process_info md of
        None \<Rightarrow> False
      | Some p \<Rightarrow> po_user_id p \<noteq> -1 \<and> map_true userIdMap (po_user_id p))"

definition OutboundItem_Match :: "(string, bool) gomap \<Rightarrow> bool \<Rightarrow> metadata \<Rightarrow> bool" where
  "OutboundItem_Match outboundMap matchAny md =
     (if matchAny then md_outbound md \<noteq> [] else map_true outboundMap (md_outbound md))"

definition QueryTypeItem_Match :: "(16 word, bool) gomap \<Rightarrow> metadata \<Rightarrow> bool" where
  "QueryTypeItem_Match typeMap md \<longleftrightarrow> md_query_type md \<noteq> 0 \<and> map_true typeMap (md_query_type md)"

definition ClashModeItem_Match :: "libs \<Rightarrow> services \<Rightarrow> bool \<Rightarrow> string \<Rightarrow> bool" where
  "ClashModeItem_Match L S started mode =
     (started \<and> (case sv_clash_mode S of None \<Rightarrow> False | Some m \<Rightarrow> equal_fold (lib_fold L) m mode))"

definition NetworkTypeItem_Match :: "services \<Rightarrow> interface_type list \<Rightarrow> bool" where
  "NetworkTypeItem_Match S types =
     (case sv_default_network_interface S of None \<Rightarrow> False | Some i \<Rightarrow> if_type i \<in> set types)"

definition NetworkIsExpensiveItem_Match :: "services \<Rightarrow> bool" where
  "NetworkIsExpensiveItem_Match S =
     (case sv_default_network_interface S of None \<Rightarrow> False | Some i \<Rightarrow> if_expensive i)"

definition NetworkIsConstrainedItem_Match :: "services \<Rightarrow> bool" where
  "NetworkIsConstrainedItem_Match S =
     (case sv_default_network_interface S of None \<Rightarrow> False | Some i \<Rightarrow> if_constrained i)"

text \<open>\<^verbatim>\<open>common.Find\<close> yields the zero interface, with an empty name, when nothing is found.\<close>

definition InterfaceAddressItem_Match :: "services \<Rightarrow> (string, prefix list) gomap \<Rightarrow> bool" where
  "InterfaceAddressItem_Match S addrs =
     list_all (\<lambda>(ifName, addresses).
       case find (\<lambda>it. if_name it = ifName) (sv_finder_interfaces S) of
         None \<Rightarrow> False
       | Some iface \<Rightarrow>
           if_name iface \<noteq> [] \<and>
           \<not> list_all (\<lambda>address. list_all (\<lambda>it. \<not> prefix_overlaps address it) (if_addresses iface)) addresses) addrs"

definition NetworkInterfaceAddressItem_Match :: "services \<Rightarrow> (interface_type, prefix list) gomap \<Rightarrow> bool" where
  "NetworkInterfaceAddressItem_Match S addrs =
     list_all (\<lambda>(ifType, addresses).
       list_ex (\<lambda>iface. if_name iface \<notin> set (sv_my_interfaces S) \<and> if_type iface = ifType \<and>
         list_ex (\<lambda>it. list_ex (\<lambda>prefix. prefix_overlaps prefix it) addresses) (if_addresses iface))
         (sv_network_interfaces S)) addrs"

definition DefaultInterfaceAddressItem_Match :: "services \<Rightarrow> prefix list \<Rightarrow> bool" where
  "DefaultInterfaceAddressItem_Match S addresses =
     (case sv_monitor_default S of
        None \<Rightarrow> False
      | Some iface \<Rightarrow>
          list_all (\<lambda>address. \<not> list_all (\<lambda>it. \<not> prefix_overlaps address it) (if_addresses iface)) addresses)"

definition PreferredByItem_Match :: "preferred list \<Rightarrow> metadata \<Rightarrow> bool" where
  "PreferredByItem_Match outbounds md \<longleftrightarrow>
     (domain_host md \<noteq> [] \<and> list_ex (\<lambda>(preferredDomain, _). preferredDomain (domain_host md)) outbounds) \<or>
     (case sa_addr (md_destination md) of
        None \<Rightarrow> False
      | Some a \<Rightarrow> list_ex (\<lambda>(_, preferredAddress). preferredAddress a) outbounds) \<or>
     list_ex (\<lambda>a. list_ex (\<lambda>(_, preferredAddress). preferredAddress a) outbounds) (md_destination_addresses md)"

definition InboundItem_Match :: "(string, bool) gomap \<Rightarrow> metadata \<Rightarrow> bool" where
  [simp]: "InboundItem_Match inboundMap md \<longleftrightarrow> map_true inboundMap (md_inbound md)"

definition NetworkItem_Match :: "(string, bool) gomap \<Rightarrow> metadata \<Rightarrow> bool" where
  [simp]: "NetworkItem_Match networkMap md \<longleftrightarrow> map_true networkMap (md_network md)"

definition AuthUserItem_Match :: "(string, bool) gomap \<Rightarrow> metadata \<Rightarrow> bool" where
  [simp]: "AuthUserItem_Match userMap md \<longleftrightarrow> map_true userMap (md_user md)"

definition ProtocolItem_Match :: "(string, bool) gomap \<Rightarrow> metadata \<Rightarrow> bool" where
  [simp]: "ProtocolItem_Match protocolMap md \<longleftrightarrow> map_true protocolMap (md_protocol md)"

definition ClientItem_Match :: "(string, bool) gomap \<Rightarrow> metadata \<Rightarrow> bool" where
  [simp]: "ClientItem_Match clientMap md \<longleftrightarrow> map_true clientMap (md_client md)"

definition WIFISSIDItem_Match :: "(string, bool) gomap \<Rightarrow> services \<Rightarrow> bool" where
  [simp]: "WIFISSIDItem_Match ssidMap S \<longleftrightarrow> map_true ssidMap (sv_wifi_ssid S)"

definition WIFIBSSIDItem_Match :: "(string, bool) gomap \<Rightarrow> services \<Rightarrow> bool" where
  [simp]: "WIFIBSSIDItem_Match bssidMap S \<longleftrightarrow> map_true bssidMap (sv_wifi_bssid S)"

fun item_match :: "libs \<Rightarrow> services \<Rightarrow> metadata \<Rightarrow> item \<Rightarrow> bool" where
  "item_match L S md (InboundItem _ inboundMap) = InboundItem_Match inboundMap md"
| "item_match L S md (IPVersionItem isIPv6) = IPVersionItem_Match isIPv6 md"
| "item_match L S md (NetworkItem _ networkMap) = NetworkItem_Match networkMap md"
| "item_match L S md (AuthUserItem _ userMap) = AuthUserItem_Match userMap md"
| "item_match L S md (ProtocolItem _ protocolMap) = ProtocolItem_Match protocolMap md"
| "item_match L S md (ClientItem _ clientMap) = ClientItem_Match clientMap md"
| "item_match L S md (DomainItem matcher _) = DomainItem_Match L matcher md"
| "item_match L S md (DomainKeywordItem keywords) = DomainKeywordItem_Match L keywords md"
| "item_match L S md (DomainRegexItem matchers _) = DomainRegexItem_Match L matchers md"
| "item_match L S md (AdGuardDomainItem matcher) = AdGuardDomainItem_Match L matcher md"
| "item_match L S md (IPCIDRItem ipSet isSource _) = IPCIDRItem_Match ipSet isSource md"
| "item_match L S md (IPIsPrivateItem isSource) = IPIsPrivateItem_Match L isSource md"
| "item_match L S md IPAcceptAnyItem = IPAcceptAnyItem_Match md"
| "item_match L S md (PortItem _ portMap isSource) = PortItem_Match portMap isSource md"
| "item_match L S md (PortRangeItem isSource _ ranges) = PortRangeItem_Match isSource ranges md"
| "item_match L S md (ProcessItem _ processMap) = ProcessItem_Match processMap md"
| "item_match L S md (ProcessPathItem _ processMap) = ProcessPathItem_Match S processMap md"
| "item_match L S md (ProcessPathRegexItem matchers _) = ProcessPathRegexItem_Match matchers md"
| "item_match L S md (PackageNameItem _ packageMap) = PackageNameItem_Match packageMap md"
| "item_match L S md (UserItem _ userMap) = UserItem_Match userMap md"
| "item_match L S md (UserIdItem _ userIdMap) = UserIdItem_Match userIdMap md"
| "item_match L S md (OutboundItem _ outboundMap matchAny) = OutboundItem_Match outboundMap matchAny md"
| "item_match L S md (QueryTypeItem _ typeMap) = QueryTypeItem_Match typeMap md"
| "item_match L S md (ClashModeItem started mode) = ClashModeItem_Match L S started mode"
| "item_match L S md (NetworkTypeItem types) = NetworkTypeItem_Match S types"
| "item_match L S md NetworkIsExpensiveItem = NetworkIsExpensiveItem_Match S"
| "item_match L S md NetworkIsConstrainedItem = NetworkIsConstrainedItem_Match S"
| "item_match L S md (WIFISSIDItem _ ssidMap) = WIFISSIDItem_Match ssidMap S"
| "item_match L S md (WIFIBSSIDItem _ bssidMap) = WIFIBSSIDItem_Match bssidMap S"
| "item_match L S md (InterfaceAddressItem addrs _) = InterfaceAddressItem_Match S addrs"
| "item_match L S md (NetworkInterfaceAddressItem addrs _) = NetworkInterfaceAddressItem_Match S addrs"
| "item_match L S md (DefaultInterfaceAddressItem addresses) = DefaultInterfaceAddressItem_Match S addresses"
| "item_match L S md (PreferredByItem _ outbounds) = PreferredByItem_Match outbounds md"

section \<open>String forms\<close>

definition InboundItem_String :: "string list \<Rightarrow> string" where
  "InboundItem_String inbounds = one_or_list ''inbound='' inbounds"

definition IPVersionItem_String :: "bool \<Rightarrow> string" where
  "IPVersionItem_String isIPv6 = ''ip_version='' @ (if isIPv6 then ''6'' else ''4'')"

definition NetworkItem_String :: "string list \<Rightarrow> string" where
  "NetworkItem_String networks = one_or_list ''network='' networks"

definition AuthUserItem_String :: "string list \<Rightarrow> string" where
  "AuthUserItem_String users = one_or_list ''auth_user='' users"

definition ProtocolItem_String :: "string list \<Rightarrow> string" where
  "ProtocolItem_String protocols = one_or_list ''protocol='' protocols"

definition ClientItem_String :: "string list \<Rightarrow> string" where
  "ClientItem_String clients = one_or_list ''client='' clients"

definition DomainItem_String :: "string \<Rightarrow> string" where
  "DomainItem_String description = description"

definition DomainKeywordItem_String :: "string list \<Rightarrow> string" where
  "DomainKeywordItem_String keywords = one_or_three ''domain_keyword='' keywords"

definition DomainRegexItem_String :: "string \<Rightarrow> string" where
  "DomainRegexItem_String description = description"

definition AdGuardDomainItem_String :: "string" where
  "AdGuardDomainItem_String = ''!adguard_domain_rules=<binary>''"

definition IPCIDRItem_String :: "string \<Rightarrow> string" where
  "IPCIDRItem_String description = description"

definition IPIsPrivateItem_String :: "bool \<Rightarrow> string" where
  "IPIsPrivateItem_String isSource = (if isSource then ''source_ip_is_private=true'' else ''ip_is_private=true'')"

definition IPAcceptAnyItem_String :: "string" where
  "IPAcceptAnyItem_String = ''ip_accept_any=true''"

definition PortItem_String :: "16 word list \<Rightarrow> bool \<Rightarrow> string" where
  "PortItem_String ports isSource = one_or_list (if isSource then ''source_port='' else ''port='') (map (\<lambda>p. digits (unat p)) ports)"

definition PortRangeItem_String :: "bool \<Rightarrow> string list \<Rightarrow> string" where
  "PortRangeItem_String isSource ranges = one_or_list (if isSource then ''source_port_range='' else ''port_range='') ranges"

definition ProcessItem_String :: "string list \<Rightarrow> string" where
  "ProcessItem_String processes = one_or_list ''process_name='' processes"

definition ProcessPathItem_String :: "string list \<Rightarrow> string" where
  "ProcessPathItem_String processes = one_or_list ''process_path='' processes"

definition ProcessPathRegexItem_String :: "string \<Rightarrow> string" where
  "ProcessPathRegexItem_String description = description"

definition PackageNameItem_String :: "string list \<Rightarrow> string" where
  "PackageNameItem_String names = one_or_list ''package_name='' names"

definition UserItem_String :: "string list \<Rightarrow> string" where
  "UserItem_String users = one_or_list ''user='' users"

definition UserIdItem_String :: "32 word list \<Rightarrow> string" where
  "UserIdItem_String ids = one_or_list ''user_id='' (map (\<lambda>i. int_digits (sint i)) ids)"

definition OutboundItem_String :: "string list \<Rightarrow> string" where
  "OutboundItem_String outbounds = one_or_list ''outbound='' outbounds"

definition QueryTypeItem_String :: "libs \<Rightarrow> 16 word list \<Rightarrow> string" where
  "QueryTypeItem_String L types = one_or_list ''query_type='' (map (dns_query_type_string L) types)"

definition ClashModeItem_String :: "string \<Rightarrow> string" where
  "ClashModeItem_String mode = ''clash_mode='' @ mode"

definition NetworkTypeItem_String :: "interface_type list \<Rightarrow> string" where
  "NetworkTypeItem_String types = one_or_list ''network_type='' (map interface_type_string types)"

definition NetworkIsExpensiveItem_String :: "string" where
  "NetworkIsExpensiveItem_String = ''network_is_expensive=true''"

definition NetworkIsConstrainedItem_String :: "string" where
  "NetworkIsConstrainedItem_String = ''network_is_expensive=true''"

definition WIFISSIDItem_String :: "string list \<Rightarrow> string" where
  "WIFISSIDItem_String ssids = one_or_list ''wifi_ssid='' ssids"

definition WIFIBSSIDItem_String :: "string list \<Rightarrow> string" where
  "WIFIBSSIDItem_String bssids = one_or_list ''wifi_bssid='' bssids"

definition InterfaceAddressItem_String :: "string \<Rightarrow> string" where
  "InterfaceAddressItem_String description = description"

definition NetworkInterfaceAddressItem_String :: "string \<Rightarrow> string" where
  "NetworkInterfaceAddressItem_String description = description"

definition DefaultInterfaceAddressItem_String :: "libs \<Rightarrow> prefix list \<Rightarrow> string" where
  "DefaultInterfaceAddressItem_String L addresses = one_or_three ''default_interface_address='' (map (lib_prefix_string L) addresses)"

definition PreferredByItem_String :: "string list \<Rightarrow> string" where
  "PreferredByItem_String tags = one_or_list ''preferred_by='' tags"

fun item_string :: "libs \<Rightarrow> item \<Rightarrow> string" where
  "item_string L (InboundItem inbounds _) = InboundItem_String inbounds"
| "item_string L (IPVersionItem isIPv6) = IPVersionItem_String isIPv6"
| "item_string L (NetworkItem networks _) = NetworkItem_String networks"
| "item_string L (AuthUserItem users _) = AuthUserItem_String users"
| "item_string L (ProtocolItem protocols _) = ProtocolItem_String protocols"
| "item_string L (ClientItem clients _) = ClientItem_String clients"
| "item_string L (DomainItem _ description) = DomainItem_String description"
| "item_string L (DomainKeywordItem keywords) = DomainKeywordItem_String keywords"
| "item_string L (DomainRegexItem _ description) = DomainRegexItem_String description"
| "item_string L (AdGuardDomainItem _) = AdGuardDomainItem_String"
| "item_string L (IPCIDRItem _ _ description) = IPCIDRItem_String description"
| "item_string L (IPIsPrivateItem isSource) = IPIsPrivateItem_String isSource"
| "item_string L IPAcceptAnyItem = IPAcceptAnyItem_String"
| "item_string L (PortItem ports _ isSource) = PortItem_String ports isSource"
| "item_string L (PortRangeItem isSource ranges _) = PortRangeItem_String isSource ranges"
| "item_string L (ProcessItem processes _) = ProcessItem_String processes"
| "item_string L (ProcessPathItem processes _) = ProcessPathItem_String processes"
| "item_string L (ProcessPathRegexItem _ description) = ProcessPathRegexItem_String description"
| "item_string L (PackageNameItem names _) = PackageNameItem_String names"
| "item_string L (UserItem users _) = UserItem_String users"
| "item_string L (UserIdItem ids _) = UserIdItem_String ids"
| "item_string L (OutboundItem outbounds _ _) = OutboundItem_String outbounds"
| "item_string L (QueryTypeItem types _) = QueryTypeItem_String L types"
| "item_string L (ClashModeItem _ mode) = ClashModeItem_String mode"
| "item_string L (NetworkTypeItem types) = NetworkTypeItem_String types"
| "item_string L NetworkIsExpensiveItem = NetworkIsExpensiveItem_String"
| "item_string L NetworkIsConstrainedItem = NetworkIsConstrainedItem_String"
| "item_string L (WIFISSIDItem ssids _) = WIFISSIDItem_String ssids"
| "item_string L (WIFIBSSIDItem bssids _) = WIFIBSSIDItem_String bssids"
| "item_string L (InterfaceAddressItem _ description) = InterfaceAddressItem_String description"
| "item_string L (NetworkInterfaceAddressItem _ description) = NetworkInterfaceAddressItem_String description"
| "item_string L (DefaultInterfaceAddressItem addresses) = DefaultInterfaceAddressItem_String L addresses"
| "item_string L (PreferredByItem tags _) = PreferredByItem_String tags"

section \<open>Port ranges\<close>

lemma colon_not_digit: "CHR '':'' \<notin> set (digits n)"
  using digits_value(1) [of n] by (auto simp: list_all_iff is_digit_def)

lemma parse_port_range_forms:
  fixes a b :: "16 word"
  shows "parse_port_range (digits (unat a) @ '':'' @ digits (unat b)) = Inr (a, b)"
    and "parse_port_range ('':'' @ digits (unat b)) = Inr (0, b)"
    and "parse_port_range (digits (unat a) @ '':'') = Inr (a, - 1)"
proof -
  have lt: "unat w < 2 ^ 16" for w :: "16 word" using unsigned_less [of w] by simp
  have ix: "index_byte (CHR '':'') (digits n @ CHR '':'' # t) = Some (length (digits n))" for n t
    using index_byte_append [OF colon_not_digit] .
  have pos: "0 < length (digits n)" for n using digits_value(2) [of n] by simp
  note facts = parse_port_range_def ix parse_uint_digits lt [simplified] pos [simplified] digits_value(2)
  show "parse_port_range (digits (unat a) @ '':'' @ digits (unat b)) = Inr (a, b)"
    "parse_port_range ('':'' @ digits (unat b)) = Inr (0, b)"
    "parse_port_range (digits (unat a) @ '':'') = Inr (a, - 1)"
    using facts by (simp_all add: facts Let_def)
qed

definition item_port :: "bool \<Rightarrow> metadata \<Rightarrow> 16 word" where
  "item_port src md = (if src then sa_port (md_source md) else sa_port (md_destination md))"

text \<open>Port ranges. A range written with both bounds, without a start or without an end is accepted and matches exactly
  the ports between its bounds, both included, an absent bound being the end of the 16-bit range; a text without a
  colon is rejected.\<close>

theorem port_range_semantics:
  fixes a b :: "16 word"
  shows "(\<exists>it1 it2 it3. NewPortRangeItem src [digits (unat a) @ '':'' @ digits (unat b)] = Inr it1 \<and>
     NewPortRangeItem src ['':'' @ digits (unat b)] = Inr it2 \<and> NewPortRangeItem src [digits (unat a) @ '':''] = Inr it3 \<and>
     item_match L S md it1 = (a \<le> item_port src md \<and> item_port src md \<le> b) \<and>
     item_match L S md it2 = (item_port src md \<le> b) \<and> item_match L S md it3 = (a \<le> item_port src md)) \<and>
     NewPortRangeItem src [digits n] = Inl (EExtend ErrBadPortRange (digits n))"
proof
  have top: "w \<le> - 1" for w :: "16 word" by (rule word_n1_ge)
  show "NewPortRangeItem src [digits n] = Inl (EExtend ErrBadPortRange (digits n))"
    using colon_not_digit [of n] by (simp add: NewPortRangeItem_def parse_port_range_def index_byte_None [THEN iffD2])
  show "\<exists>it1 it2 it3. NewPortRangeItem src [digits (unat a) @ '':'' @ digits (unat b)] = Inr it1 \<and>
     NewPortRangeItem src ['':'' @ digits (unat b)] = Inr it2 \<and> NewPortRangeItem src [digits (unat a) @ '':''] = Inr it3 \<and>
     item_match L S md it1 = (a \<le> item_port src md \<and> item_port src md \<le> b) \<and>
     item_match L S md it2 = (item_port src md \<le> b) \<and> item_match L S md it3 = (a \<le> item_port src md)"
    using parse_port_range_forms(1) [of a b] parse_port_range_forms(2) [of b] parse_port_range_forms(3) [of a] top
    by (simp add: NewPortRangeItem_def PortRangeItem_Match_def item_port_def Let_def)
qed

end
