(* ===== verification/Match_State.thy ===== *)
theory Match_State
  imports Go_Prelude
begin

unbundle bit_operations_syntax

text \<open>
  The state sets of the rule engine: \<^verbatim>\<open>route/rule/match_state.go\<close>. A \<^verbatim>\<open>ruleMatchState\<close> is a
  byte whose four low bits say which groups of conditions have been met; a
  \<^verbatim>\<open>ruleMatchStateSet\<close> is a 16-bit word used as a set of such states. \<open>states\<close> reads the word as
  the set it stands for, and every operation is shown to be the set operation.
\<close>

section \<open>States and sets of states\<close>

type_synonym match_state = "8 word"
type_synonym match_state_set = "16 word"

definition ruleMatchSourceAddress :: match_state where "ruleMatchSourceAddress = push_bit 0 1"
definition ruleMatchSourcePort :: match_state where "ruleMatchSourcePort = push_bit 1 1"
definition ruleMatchDestinationAddress :: match_state where "ruleMatchDestinationAddress = push_bit 2 1"
definition ruleMatchDestinationPort :: match_state where "ruleMatchDestinationPort = push_bit 3 1"

definition has :: "match_state \<Rightarrow> match_state \<Rightarrow> bool" where
  "has s target \<longleftrightarrow> s AND target \<noteq> 0"

definition singleRuleMatchState :: "match_state \<Rightarrow> match_state_set" where
  "singleRuleMatchState state = push_bit (unat state) 1"

definition emptyRuleMatchState :: match_state_set where
  "emptyRuleMatchState = singleRuleMatchState 0"

definition isEmpty :: "match_state_set \<Rightarrow> bool" where
  "isEmpty s \<longleftrightarrow> s = 0"

definition contains :: "match_state_set \<Rightarrow> match_state \<Rightarrow> bool" where
  "contains s state \<longleftrightarrow> s AND push_bit (unat state) 1 \<noteq> 0"

definition add :: "match_state_set \<Rightarrow> match_state \<Rightarrow> match_state_set" where
  "add s state = s OR singleRuleMatchState state"

definition merge :: "match_state_set \<Rightarrow> match_state_set \<Rightarrow> match_state_set" where
  "merge s other = s OR other"

text \<open>\<^verbatim>\<open>range ruleMatchState(16)\<close>.\<close>

definition range16 :: "match_state list" where
  "range16 = map word_of_nat [0..<16]"

definition combine :: "match_state_set \<Rightarrow> match_state_set \<Rightarrow> match_state_set" where
  "combine s other =
     (if isEmpty s \<or> isEmpty other then 0
      else fold (\<lambda>left combined.
                   if \<not> contains s left then combined
                   else fold (\<lambda>right combined.
                                if \<not> contains other right then combined
                                else add combined (left OR right)) range16 combined) range16 0)"

definition withBase :: "match_state_set \<Rightarrow> match_state \<Rightarrow> match_state_set" where
  "withBase s base =
     (if isEmpty s then 0
      else fold (\<lambda>state withBase. if \<not> contains s state then withBase else add withBase (state OR base)) range16 0)"

definition filterStates :: "(match_state \<Rightarrow> bool) \<Rightarrow> match_state_set \<Rightarrow> match_state_set" where
  "filterStates allowed s =
     fold (\<lambda>state filtered. if contains s state \<and> allowed state then add filtered state else filtered) range16 0"

section \<open>The word as a set\<close>

definition states :: "match_state_set \<Rightarrow> match_state set" where
  "states s = {state. bit s (unat state)}"

definition valid_state :: "match_state \<Rightarrow> bool" where
  "valid_state state \<longleftrightarrow> unat state < 16"

named_theorems state_simps

lemma bit_single: "bit (push_bit n 1 :: 16 word) m \<longleftrightarrow> m = n \<and> n < 16"
  by (auto simp: push_bit_of_1 bit_exp_iff possible_bit_word)

lemma contains_iff [state_simps]: "contains s state \<longleftrightarrow> state \<in> states s"
  by (simp add: contains_def states_def push_bit_of_1 and_exp_eq_0_iff_not_bit)

lemma states_valid: "state \<in> states s \<Longrightarrow> valid_state state"
  using bit_imp_le_length [of s "unat state"] by (simp add: states_def valid_state_def)

lemma range16_iff: "state \<in> set range16 \<longleftrightarrow> valid_state state"
proof -
  have "state = word_of_nat (unat state)" by simp
  moreover have "unat (word_of_nat n :: 8 word) = n" if "n < 16" for n
    using that by (simp add: unat_of_nat take_bit_nat_eq_self)
  ultimately show ?thesis unfolding range16_def valid_state_def by force
qed

lemma valid_or [simp]: "valid_state a \<Longrightarrow> valid_state b \<Longrightarrow> valid_state (a OR b)"
proof -
  assume "valid_state a" "valid_state b"
  then have "take_bit 4 (unat (a OR b)) = unat (a OR b)"
    by (simp add: valid_state_def unsigned_or_eq take_bit_or take_bit_nat_eq_self)
  then have "unat (a OR b) < 2 ^ 4" by (metis take_bit_nat_less_exp)
  then show "valid_state (a OR b)" by (simp add: valid_state_def)
qed

lemma valid_zero [simp]: "valid_state 0" by (simp add: valid_state_def)

lemma states_zero [state_simps]: "states 0 = {}" by (simp add: states_def)

lemma states_inject: "states s = states t \<Longrightarrow> s = t"
proof (rule bit_word_eqI)
  fix n assume eq: "states s = states t" and n: "n < LENGTH(16)"
  then have "unat (word_of_nat n :: match_state) = n" by (simp add: unat_of_nat take_bit_nat_eq_self)
  then show "bit s n \<longleftrightarrow> bit t n"
    using eq unfolding states_def set_eq_iff by (metis mem_Collect_eq)
qed

lemma isEmpty_iff [state_simps]: "isEmpty s \<longleftrightarrow> states s = {}"
  unfolding isEmpty_def using states_inject [of s 0] states_zero by auto

lemma states_single [state_simps]: "valid_state state \<Longrightarrow> states (singleRuleMatchState state) = {state}"
  by (auto simp: states_def singleRuleMatchState_def bit_single valid_state_def word_unat_eq_iff
      simp del: push_bit_of_1)

lemma states_empty_state [state_simps]: "states emptyRuleMatchState = {0}"
  by (simp add: emptyRuleMatchState_def states_single)

lemma states_merge [state_simps]: "states (merge s t) = states s \<union> states t"
  by (auto simp: states_def merge_def bit_or_iff)

lemma states_add [state_simps]: "valid_state state \<Longrightarrow> states (add s state) = insert state (states s)"
  using states_merge [of s "singleRuleMatchState state"]
  by (simp add: add_def merge_def states_single)

text \<open>The three loops of the file add, for every member of the set, some states.\<close>

lemma states_fold:
  "(\<And>x s. x \<in> set xs \<Longrightarrow> states (f x s) = states s \<union> g x) \<Longrightarrow>
     states (fold f xs s) = states s \<union> (\<Union>x \<in> set xs. g x)"
  by (induction xs arbitrary: s) auto

lemma range16_UN: "(\<Union>x \<in> set range16. if contains s x then g x else {}) = (\<Union>x \<in> states s. g x)"
proof -
  have "set range16 \<inter> states s = states s" using range16_iff states_valid by blast
  then show ?thesis unfolding contains_iff by (auto split: if_splits)
qed

lemma states_filter [state_simps]: "states (filterStates allowed s) = {state \<in> states s. allowed state}"
proof -
  have "states (filterStates allowed s) = states 0 \<union>
      (\<Union>x \<in> set range16. if contains s x then (if allowed x then {x} else {}) else {})"
    unfolding filterStates_def by (rule states_fold) (simp add: states_add range16_iff)
  then show ?thesis unfolding range16_UN by (auto simp: states_zero split: if_splits)
qed

lemma states_withBase [state_simps]:
  assumes b: "valid_state base"
  shows "states (withBase s base) = (\<lambda>state. state OR base) ` states s"
proof (cases "isEmpty s")
  case False
  then have "withBase s base = fold (\<lambda>state withBase. if \<not> contains s state then withBase else add withBase (state OR base)) range16 0"
    by (simp add: withBase_def)
  then have "states (withBase s base) = states 0 \<union>
      (\<Union>x \<in> set range16. if contains s x then {x OR base} else {})"
    by (simp only:) (rule states_fold, simp add: states_add range16_iff b)
  then show ?thesis unfolding range16_UN by (auto simp: states_zero)
qed (simp add: withBase_def isEmpty_iff states_zero)

lemma states_combine [state_simps]:
  "states (combine s t) = {a OR b | a b. a \<in> states s \<and> b \<in> states t}"
proof (cases "isEmpty s \<or> isEmpty t")
  case True
  then show ?thesis by (auto simp: combine_def isEmpty_iff states_zero)
next
  case False
  have inner: "states (fold (\<lambda>right combined. if \<not> contains t right then combined else add combined (left OR right)) range16 c) =
      states c \<union> (\<Union>b \<in> set range16. if contains t b then {left OR b} else {})" if "valid_state left" for left c
    by (rule states_fold) (simp add: states_add range16_iff that)
  from False have "combine s t = fold (\<lambda>left combined. if \<not> contains s left then combined
      else fold (\<lambda>right combined. if \<not> contains t right then combined else add combined (left OR right)) range16 combined) range16 0"
    by (simp add: combine_def)
  then have "states (combine s t) = states 0 \<union> (\<Union>a \<in> set range16. if contains s a
      then \<Union>b \<in> set range16. if contains t b then {a OR b} else {} else {})"
    by (simp only:) (rule states_fold, simp add: inner range16_iff)
  then show ?thesis unfolding range16_UN by (auto simp: states_zero)
qed

text \<open>Reading a group bit distributes over the union of states.\<close>

lemma has_or [state_simps]: "has (a OR b) g \<longleftrightarrow> has a g \<or> has b g"
  by (simp add: has_def bit.conj_disj_distrib2 or_eq_0_iff)

lemma has_zero [state_simps]: "\<not> has 0 g" by (simp add: has_def)

section \<open>Algebra\<close>

text \<open>\<^const>\<open>merge\<close> is the union and \<^const>\<open>combine\<close> the pointwise union of states; the set holding only the empty
  state is neutral for the latter.\<close>

interpretation merge_sets: semilattice_neutr merge 0
proof
  fix a b c
  show "merge (merge a b) c = merge a (merge b c)" by (rule states_inject) (simp add: states_merge Un_assoc)
  show "merge a b = merge b a" by (rule states_inject) (simp add: states_merge Un_commute)
  show "merge a a = a" by (rule states_inject) (simp add: states_merge)
  show "merge a 0 = a" by (rule states_inject) (simp add: states_merge states_zero)
qed

lemma states_combine_UN: "states (combine s t) = (\<Union>a \<in> states s. \<Union>b \<in> states t. {a OR b})"
  by (auto simp: states_combine)

interpretation combine_sets: comm_monoid combine emptyRuleMatchState
proof
  fix a b c
  show "combine (combine a b) c = combine a (combine b c)"
    by (rule states_inject) (simp add: states_combine_UN or.assoc)
  show "combine a b = combine b a"
    by (rule states_inject) (subst (1 2) states_combine_UN, subst SUP_commute, simp add: or.commute)
  show "combine a emptyRuleMatchState = a"
    by (rule states_inject) (simp add: states_combine_UN states_empty_state)
qed

text \<open>The sets of match states. The 16-bit words of the rule engine represent sets of match states faithfully: two words
  are equal when they hold the same states, and every operation of the file computes the set operation it stands
  for.\<close>

theorem match_state_sets:
  assumes st: "valid_state st"
  shows "(states s = states t) = (s = t) \<and> isEmpty s = (states s = {}) \<and> contains s st = (st \<in> states s) \<and>
    states (add s st) = insert st (states s) \<and> states (singleRuleMatchState st) = {st} \<and>
    states emptyRuleMatchState = {0} \<and> states (merge s t) = states s \<union> states t \<and>
    states (combine s t) = {a OR b | a b. a \<in> states s \<and> b \<in> states t} \<and>
    states (withBase s st) = (\<lambda>a. a OR st) ` states s \<and> states (filterStates p s) = {a \<in> states s. p a}"
  using states_inject by (auto simp: state_simps st)

theorem match_state_sets_witness:
  "valid_state ruleMatchDestinationPort \<and> states (add 0 ruleMatchDestinationPort) = {ruleMatchDestinationPort}"
proof
  show v: "valid_state ruleMatchDestinationPort" by (simp add: valid_state_def ruleMatchDestinationPort_def)
  from match_state_sets [OF v, of 0] show "states (add 0 ruleMatchDestinationPort) = {ruleMatchDestinationPort}"
    by (simp add: states_zero)
qed

end
