(* ===== verification/Rule_Match.thy ===== *)
theory Rule_Match
  imports Rule_Item Match_State
begin

text \<open>
  Evaluation of rules: \<^verbatim>\<open>route/rule/rule_abstract.go\<close>, \<^verbatim>\<open>rule_item_rule_set.go\<close> and the matching
  half of \<^verbatim>\<open>rule_set_local.go\<close>, \<^verbatim>\<open>rule_set_remote.go\<close>, \<^verbatim>\<open>rule_default.go\<close>, \<^verbatim>\<open>rule_headless.go\<close> and
  \<^verbatim>\<open>rule_dns.go\<close>. The four groups of conditions contribute bits to a state; a rule-set item passes
  the state on to the rules of its sets, which may add bits of their own, and the filter at the end
  asks for the bits of the groups the rule has conditions in.
\<close>

section \<open>Rules\<close>

record default_items =
  items :: "item list"
  sourceAddressItems :: "item list"
  sourcePortItems :: "item list"
  destinationAddressItems :: "item list"
  destinationIPCIDRItems :: "item list"
  destinationPortItems :: "item list"
  allItems :: "item list"

text \<open>
  \<^verbatim>\<open>abstractDefaultRule\<close> and \<^verbatim>\<open>abstractLogicalRule\<close>. The rule-set item, which the constructors append
  to \<^verbatim>\<open>allItems\<close> last, is the second argument; a rule set is the list of its rules with the flag of its
  metadata that says whether it has IP conditions.
\<close>

datatype rule =
    DefaultRule default_items "rule_set_item option" bool
  | LogicalRule "rule list" string bool
and rule_set_item =
    RuleSetItem "string list" "rule_set list" bool bool
and rule_set =
    RuleSet "rule list" bool

definition LogicalTypeAnd :: string where "LogicalTypeAnd = ''and''"
definition LogicalTypeOr :: string where "LogicalTypeOr = ''or''"

section \<open>The groups of a default rule\<close>

definition matchAnyItem :: "libs \<Rightarrow> services \<Rightarrow> item list \<Rightarrow> metadata \<Rightarrow> bool" where
  "matchAnyItem L S its md = list_ex (item_match L S md) its"

definition destinationIPCIDRMatchesSource :: "default_items \<Rightarrow> metadata \<Rightarrow> bool" where
  "destinationIPCIDRMatchesSource r md \<longleftrightarrow>
     \<not> md_ignore_destination_ipcidr_match md \<and> md_ipcidr_match_source md \<and> destinationIPCIDRItems r \<noteq> []"

definition destinationIPCIDRMatchesDestination :: "default_items \<Rightarrow> metadata \<Rightarrow> bool" where
  "destinationIPCIDRMatchesDestination r md \<longleftrightarrow>
     \<not> md_ignore_destination_ipcidr_match md \<and> \<not> md_ipcidr_match_source md \<and> destinationIPCIDRItems r \<noteq> []"

definition requiresSourceAddressMatch :: "default_items \<Rightarrow> metadata \<Rightarrow> bool" where
  "requiresSourceAddressMatch r md \<longleftrightarrow> sourceAddressItems r \<noteq> [] \<or> destinationIPCIDRMatchesSource r md"

definition requiresDestinationAddressMatch :: "default_items \<Rightarrow> metadata \<Rightarrow> bool" where
  "requiresDestinationAddressMatch r md \<longleftrightarrow>
     destinationAddressItems r \<noteq> [] \<or> destinationIPCIDRMatchesDestination r md"

text \<open>One group: when it has conditions, remember that something was evaluated and set the bit when one
  of them holds.\<close>

definition group_step ::
  "libs \<Rightarrow> services \<Rightarrow> item list \<Rightarrow> match_state \<Rightarrow> match_state \<times> metadata \<Rightarrow> match_state \<times> metadata" where
  "group_step L S its flag = (\<lambda>(st, md).
     if its = [] then (st, md)
     else let md' = md\<lparr>md_did_match := True\<rparr>
          in (if matchAnyItem L S its md' then st OR flag else st, md'))"

text \<open>The destination IP conditions count for the source or for the destination, as the metadata says;
  they are not evaluated when the flag is set already.\<close>

definition cidr_step ::
  "libs \<Rightarrow> services \<Rightarrow> bool \<Rightarrow> item list \<Rightarrow> match_state \<Rightarrow> match_state \<times> metadata \<Rightarrow> match_state \<times> metadata" where
  "cidr_step L S active its flag = (\<lambda>(st, md).
     if active \<and> \<not> has st flag then
       (let md' = md\<lparr>md_did_match := True\<rparr>
        in (if matchAnyItem L S its md' then st OR flag else st, md'))
     else if active then (st, md\<lparr>md_did_match := True\<rparr>)
     else (st, md))"

definition group_states :: "libs \<Rightarrow> services \<Rightarrow> default_items \<Rightarrow> metadata \<Rightarrow> match_state \<Rightarrow> match_state \<times> metadata" where
  "group_states L S r md st =
     (let p1 = group_step L S (sourceAddressItems r) ruleMatchSourceAddress (st, md);
          p2 = cidr_step L S (destinationIPCIDRMatchesSource r (snd p1)) (destinationIPCIDRItems r) ruleMatchSourceAddress p1;
          p3 = group_step L S (sourcePortItems r) ruleMatchSourcePort p2;
          p4 = group_step L S (destinationAddressItems r) ruleMatchDestinationAddress p3;
          p5 = cidr_step L S (destinationIPCIDRMatchesDestination r (snd p4)) (destinationIPCIDRItems r) ruleMatchDestinationAddress p4
      in group_step L S (destinationPortItems r) ruleMatchDestinationPort p5)"

text \<open>The conditions outside the groups; the loop stops at the first one that fails.\<close>

fun items_step :: "libs \<Rightarrow> services \<Rightarrow> item list \<Rightarrow> metadata \<Rightarrow> bool \<times> metadata" where
  "items_step L S [] md = (True, md)"
| "items_step L S (it # its) md =
     (let md' = md\<lparr>md_did_match := True\<rparr>
      in if item_match L S md' it then items_step L S its md' else (False, md'))"

definition state_allowed :: "default_items \<Rightarrow> metadata \<Rightarrow> match_state \<Rightarrow> bool" where
  "state_allowed r md state \<longleftrightarrow>
     (requiresSourceAddressMatch r md \<longrightarrow> has state ruleMatchSourceAddress) \<and>
     (sourcePortItems r \<noteq> [] \<longrightarrow> has state ruleMatchSourcePort) \<and>
     (requiresDestinationAddressMatch r md \<longrightarrow> has state ruleMatchDestinationAddress) \<and>
     (destinationPortItems r \<noteq> [] \<longrightarrow> has state ruleMatchDestinationPort)"

definition invertedFailure :: "bool \<Rightarrow> match_state \<Rightarrow> match_state_set" where
  "invertedFailure invert base = (if invert then withBase emptyRuleMatchState base else 0)"

text \<open>
  \<^verbatim>\<open>abstractDefaultRule.matchStatesWithBase\<close>; \<open>set_states\<close> is the evaluation of the rule-set item when
  there is one. The second component of the result is the metadata, whose \<^verbatim>\<open>DidMatch\<close> the call may
  have set.
\<close>

definition default_matchStatesWithBase ::
  "libs \<Rightarrow> services \<Rightarrow> default_items \<Rightarrow> (metadata \<Rightarrow> match_state \<Rightarrow> match_state_set) option \<Rightarrow> bool \<Rightarrow>
     metadata \<Rightarrow> match_state \<Rightarrow> match_state_set \<times> metadata" where
  "default_matchStatesWithBase L S r set_states invert md inheritedBase =
     (if allItems r = [] \<and> set_states = None then (withBase emptyRuleMatchState inheritedBase, md)
      else
        let evaluationBase = (if invert then 0 else inheritedBase);
            (baseState, md1) = group_states L S r md evaluationBase;
            (ok, md2) = items_step L S (items r) md1
        in if \<not> ok then (invertedFailure invert inheritedBase, md2)
           else
             let (stateSet0, md3) =
                   (case set_states of
                      Some f \<Rightarrow> (f (md2\<lparr>md_did_match := True\<rparr>) baseState, md2\<lparr>md_did_match := True\<rparr>)
                    | None \<Rightarrow> (singleRuleMatchState baseState, md2));
                 stateSet = filterStates (state_allowed r md3) stateSet0
             in if isEmpty stateSet then (invertedFailure invert inheritedBase, md3)
                else if invert then
                  (if md_ignore_destination_ipcidr_match md3 \<and> stateSet = emptyRuleMatchState \<and>
                      \<not> md_did_match md3 \<and> destinationIPCIDRItems r \<noteq> []
                   then (withBase emptyRuleMatchState inheritedBase, md3)
                   else (0, md3))
                else (stateSet, md3))"

section \<open>Rule sets and logical rules\<close>

text \<open>The loop of a logical \<^verbatim>\<open>and\<close> over the results of the nested rules: it stops at an empty one.\<close>

fun and_states :: "match_state_set list \<Rightarrow> match_state_set \<Rightarrow> match_state_set option" where
  "and_states [] stateSet = Some stateSet"
| "and_states (n # ns) stateSet = (if isEmpty n then None else and_states ns (combine stateSet n))"

definition logical_states :: "string \<Rightarrow> bool \<Rightarrow> match_state \<Rightarrow> match_state \<Rightarrow> match_state_set list \<Rightarrow> match_state_set" where
  "logical_states mode invert base evaluationBase nested =
     (if mode = LogicalTypeAnd then
        (case and_states nested (withBase emptyRuleMatchState evaluationBase) of
           None \<Rightarrow> if invert then withBase emptyRuleMatchState base else 0
         | Some stateSet \<Rightarrow> if invert then 0 else stateSet)
      else
        let stateSet = foldl merge 0 nested
        in if isEmpty stateSet then (if invert then withBase emptyRuleMatchState base else 0)
           else if invert then 0 else stateSet)"

fun rule_matchStatesWithBase :: "libs \<Rightarrow> services \<Rightarrow> rule \<Rightarrow> metadata \<Rightarrow> match_state \<Rightarrow> match_state_set \<times> metadata"
and rule_set_item_matchStatesWithBase :: "libs \<Rightarrow> services \<Rightarrow> rule_set_item \<Rightarrow> metadata \<Rightarrow> match_state \<Rightarrow> match_state_set"
and rule_set_matchStatesWithBase :: "libs \<Rightarrow> services \<Rightarrow> rule_set \<Rightarrow> metadata \<Rightarrow> match_state \<Rightarrow> match_state_set" where
  "rule_matchStatesWithBase L S (DefaultRule r set_item invert) md base =
     default_matchStatesWithBase L S r
       (case set_item of None \<Rightarrow> None | Some i \<Rightarrow> Some (\<lambda>md b. rule_set_item_matchStatesWithBase L S i md b))
       invert md base"
| "rule_matchStatesWithBase L S (LogicalRule rules mode invert) md base =
     (let evaluationBase = (if invert then 0 else base)
      in (logical_states mode invert base evaluationBase
            (map (\<lambda>rule. fst (rule_matchStatesWithBase L S rule (reset_rule_cache md) evaluationBase)) rules), md))"
| "rule_set_item_matchStatesWithBase L S (RuleSetItem tags sets matchSource acceptEmpty) md base =
     foldl merge 0
       (map (\<lambda>set. rule_set_matchStatesWithBase L S set
                ((reset_rule_match_cache md)\<lparr>md_ipcidr_match_source := matchSource, md_ipcidr_accept_empty := acceptEmpty\<rparr>)
                base) sets)"
| "rule_set_matchStatesWithBase L S (RuleSet rules _) md base =
     foldl merge 0
       (map (\<lambda>rule. fst (rule_matchStatesWithBase L S rule (reset_rule_match_cache md) base)) rules)"

definition rule_Match :: "libs \<Rightarrow> services \<Rightarrow> rule \<Rightarrow> metadata \<Rightarrow> bool \<times> metadata" where
  "rule_Match L S r md =
     (let (stateSet, md') = rule_matchStatesWithBase L S r md 0 in (\<not> isEmpty stateSet, md'))"

definition matches :: "libs \<Rightarrow> services \<Rightarrow> rule \<Rightarrow> metadata \<Rightarrow> bool" where
  "matches L S r md = fst (rule_Match L S r md)"

section \<open>DNS rules\<close>

text \<open>Before the lookup the destination addresses are not known, so the IP conditions are left out.\<close>

definition dns_Match :: "libs \<Rightarrow> services \<Rightarrow> rule \<Rightarrow> metadata \<Rightarrow> bool \<times> metadata" where
  "dns_Match L S r md =
     (let (ok, md') = rule_Match L S r (md\<lparr>md_ignore_destination_ipcidr_match := True\<rparr>)
      in (ok, md'\<lparr>md_ignore_destination_ipcidr_match := False\<rparr>))"

definition dns_MatchAddressLimit :: "libs \<Rightarrow> services \<Rightarrow> rule \<Rightarrow> metadata \<Rightarrow> bool \<times> metadata" where
  "dns_MatchAddressLimit L S r md = rule_Match L S r md"

fun ContainsDestinationIPCIDRRule :: "rule_set_item \<Rightarrow> bool" where
  "ContainsDestinationIPCIDRRule (RuleSetItem tags sets matchSource acceptEmpty) =
     (\<not> matchSource \<and> list_ex (\<lambda>s. case s of RuleSet _ containsIPCIDRRule \<Rightarrow> containsIPCIDRRule) sets)"

fun WithAddressLimit :: "rule \<Rightarrow> bool" where
  "WithAddressLimit (DefaultRule r set_item invert) =
     (destinationIPCIDRItems r \<noteq> [] \<or>
      (case set_item of None \<Rightarrow> False | Some i \<Rightarrow> ContainsDestinationIPCIDRRule i))"
| "WithAddressLimit (LogicalRule rules mode invert) = list_ex WithAddressLimit rules"

end
