(* ===== verification/Rule_Action.thy ===== *)
theory Rule_Action
  imports Rule_Item
begin

text \<open>
  What a matched rule does: \<^verbatim>\<open>route/rule/rule_action.go\<close> and the option types of
  \<^verbatim>\<open>option/rule_action.go\<close> it is built from. Times and durations are nanoseconds.
\<close>

section \<open>Options\<close>

record raw_route_options =
  ro_override_address :: string
  ro_override_port :: "16 word"
  ro_network_strategy :: "8 word option"
  ro_fallback_delay :: "32 word"
  ro_udp_disable_domain_unmapping :: bool
  ro_udp_connect :: bool
  ro_udp_timeout :: int
  ro_tls_fragment :: bool
  ro_tls_fragment_fallback_delay :: int
  ro_tls_record_fragment :: bool

record direct_options =
  do_bind_interface :: string
  do_inet4_bind_address :: "addr option"
  do_inet6_bind_address :: "addr option"
  do_routing_mark :: "32 word"
  do_reuse_addr :: bool
  do_connect_timeout :: int
  do_tcp_fast_open :: bool
  do_tcp_multi_path :: bool
  do_udp_fragment :: "bool option"
  do_domain_strategy :: "8 word"
  do_fallback_delay :: int

record resolve_options =
  re_server :: string
  re_strategy :: "8 word"
  re_disable_cache :: bool
  re_rewrite_ttl :: "32 word option"
  re_client_subnet :: "prefix option"

record rule_action_options =
  ao_action :: string
  ao_route_outbound :: string
  ao_route :: raw_route_options
  ao_route_options :: raw_route_options
  ao_direct :: direct_options
  ao_bypass_outbound :: string
  ao_bypass :: raw_route_options
  ao_reject_method :: string
  ao_reject_no_drop :: bool
  ao_sniffer :: "string list"
  ao_sniff_timeout :: int
  ao_resolve :: resolve_options

record dns_rr =
  rr_name :: string
  rr_data :: string

record dns_rule_action_options =
  dao_action :: string
  dao_server :: string
  dao_route :: resolve_options
  dao_route_options :: resolve_options
  dao_reject_method :: string
  dao_reject_no_drop :: bool
  dao_rcode :: int
  dao_answer :: "dns_rr list"
  dao_ns :: "dns_rr list"
  dao_extra :: "dns_rr list"

text \<open>Libraries: address parsing and printing, the dialer, durations, and the DNS package.\<close>

record action_libs =
  al_parse_socksaddr :: "string \<Rightarrow> socksaddr"
  al_addr_string :: "socksaddr \<Rightarrow> string"
  al_ip_string :: "addr \<Rightarrow> string"
  al_new_dialer :: "direct_options \<Rightarrow> string option"
  al_duration_string :: "int \<Rightarrow> string"
  al_hex :: "32 word \<Rightarrow> string"
  al_rcode_string :: "int \<Rightarrow> string"
  al_rr_string :: "dns_rr \<Rightarrow> string"

section \<open>Actions\<close>

record action_route_options =
  OverrideAddress :: socksaddr
  OverridePort :: "16 word"
  NetworkStrategy :: "8 word option"
  NetworkType :: "interface_type list option"
  FallbackNetworkType :: "interface_type list option"
  FallbackDelay :: int
  UDPDisableDomainUnmapping :: bool
  UDPConnect :: bool
  UDPTimeout :: int
  TLSFragment :: bool
  TLSFragmentFallbackDelay :: int
  TLSRecordFragment :: bool

record action_dns_options =
  dns_strategy :: "8 word"
  dns_disable_cache :: bool
  dns_rewrite_ttl :: "32 word option"
  dns_client_subnet :: "prefix option"

datatype sniffer =
    TLSClientHello | HTTPHost | QUICClientHello | StreamDomainNameQuery | DomainNameQuery | STUNMessage
  | BitTorrent | UTP | UDPTracker | DTLSRecord | SSH | RDP | NTP

datatype rule_action =
    RuleActionRoute string action_route_options
  | RuleActionRouteOptions action_route_options
  | RuleActionBypass string action_route_options
  | RuleActionDirect string
  | RuleActionReject string bool
  | RuleActionHijackDNS
  | RuleActionSniff "string list" "sniffer list" "sniffer list" int
  | RuleActionResolve string action_dns_options
  | RuleActionDNSRoute string action_dns_options
  | RuleActionDNSRouteOptions action_dns_options
  | RuleActionPredefined int "dns_rr list" "dns_rr list" "dns_rr list"

definition no_route_options :: action_route_options where
  "no_route_options = \<lparr>OverrideAddress = \<lparr>sa_addr = None, sa_port = 0, sa_fqdn = []\<rparr>, OverridePort = 0,
     NetworkStrategy = None, NetworkType = None, FallbackNetworkType = None, FallbackDelay = 0,
     UDPDisableDomainUnmapping = False, UDPConnect = False, UDPTimeout = 0, TLSFragment = False,
     TLSFragmentFallbackDelay = 0, TLSRecordFragment = False\<rparr>"

text \<open>The fields of the \<^verbatim>\<open>route\<close> and \<^verbatim>\<open>bypass\<close> actions, and those of \<^verbatim>\<open>route-options\<close>, which has one
  more.\<close>

definition route_fields :: "action_libs \<Rightarrow> raw_route_options \<Rightarrow> action_route_options" where
  "route_fields A ro = no_route_options
     \<lparr>OverrideAddress := al_parse_socksaddr A (ro_override_address ro),
      OverridePort := ro_override_port ro,
      NetworkStrategy := ro_network_strategy ro,
      FallbackDelay := uint (ro_fallback_delay ro),
      UDPDisableDomainUnmapping := ro_udp_disable_domain_unmapping ro,
      UDPConnect := ro_udp_connect ro,
      TLSFragment := ro_tls_fragment ro,
      TLSFragmentFallbackDelay := ro_tls_fragment_fallback_delay ro,
      TLSRecordFragment := ro_tls_record_fragment ro\<rparr>"

definition route_options_fields :: "action_libs \<Rightarrow> raw_route_options \<Rightarrow> action_route_options" where
  "route_options_fields A ro = (route_fields A ro)\<lparr>UDPTimeout := ro_udp_timeout ro\<rparr>"

fun domain_strategy_string :: "nat \<Rightarrow> go_error + string" where
  "domain_strategy_string n =
     (if n = 0 then Inr [] else if n = 1 then Inr ''prefer_ipv4'' else if n = 2 then Inr ''prefer_ipv6''
      else if n = 3 then Inr ''ipv4_only'' else if n = 4 then Inr ''ipv6_only''
      else Inl (EPanic ''unknown domain strategy: ''))"

text \<open>\<^verbatim>\<open>DirectActionOptions.Descriptions\<close>.\<close>

definition direct_descriptions :: "action_libs \<Rightarrow> direct_options \<Rightarrow> go_error + string list" where
  "direct_descriptions A d =
     rbind (domain_strategy_string (unat (do_domain_strategy d))) (\<lambda>strategy. Inr (
       (if do_bind_interface d \<noteq> [] then [''bind_interface='' @ do_bind_interface d] else []) @
       (case do_inet4_bind_address d of None \<Rightarrow> [] | Some a \<Rightarrow> [''inet4_bind_address='' @ al_ip_string A a]) @
       (case do_inet6_bind_address d of None \<Rightarrow> [] | Some a \<Rightarrow> [''inet6_bind_address='' @ al_ip_string A a]) @
       (if do_routing_mark d \<noteq> 0 then [''routing_mark='' @ ''0x'' @ al_hex A (do_routing_mark d)] else []) @
       (if do_reuse_addr d then [''reuse_addr''] else []) @
       (if do_connect_timeout d \<noteq> 0 then [''connect_timeout='' @ al_duration_string A (do_connect_timeout d)] else []) @
       (if do_tcp_fast_open d then [''tcp_fast_open''] else []) @
       (if do_tcp_multi_path d then [''tcp_multi_path''] else []) @
       (case do_udp_fragment d of None \<Rightarrow> [] | Some b \<Rightarrow> [''udp_fragment='' @ (if b then ''true'' else ''false'')]) @
       (if do_domain_strategy d \<noteq> 0 then [''domain_strategy='' @ strategy] else []) @
       (if do_fallback_delay d \<noteq> 0 then [''fallback_delay='' @ al_duration_string A (do_fallback_delay d)] else [])))"

text \<open>\<^verbatim>\<open>RuleActionSniff.build\<close>: the loop over the names appends to both lists and stops at an unknown name.\<close>

fun sniff_build :: "string list \<Rightarrow> sniffer list \<Rightarrow> sniffer list \<Rightarrow> go_error + sniffer list \<times> sniffer list" where
  "sniff_build [] stream packet = Inr (stream, packet)"
| "sniff_build (name # names) stream packet =
     (if name = ''tls'' then sniff_build names (stream @ [TLSClientHello]) packet
      else if name = ''http'' then sniff_build names (stream @ [HTTPHost]) packet
      else if name = ''quic'' then sniff_build names stream (packet @ [QUICClientHello])
      else if name = ''dns'' then sniff_build names (stream @ [StreamDomainNameQuery]) (packet @ [DomainNameQuery])
      else if name = ''stun'' then sniff_build names stream (packet @ [STUNMessage])
      else if name = ''bittorrent'' then sniff_build names (stream @ [BitTorrent]) (packet @ [UTP] @ [UDPTracker])
      else if name = ''dtls'' then sniff_build names stream (packet @ [DTLSRecord])
      else if name = ''ssh'' then sniff_build names (stream @ [SSH]) packet
      else if name = ''rdp'' then sniff_build names (stream @ [RDP]) packet
      else if name = ''ntp'' then sniff_build names stream (packet @ [NTP])
      else Inl (ENew (''unknown sniffer: '' @ name)))"

definition direct_description :: "string list \<Rightarrow> string" where
  "direct_description ds =
     (case ds of [] \<Rightarrow> [] | [d] \<Rightarrow> ''('' @ d @ '')'' | [d, e] \<Rightarrow> ''('' @ d @ '','' @ e @ '')''
      | d # e # _ \<Rightarrow> ''('' @ d @ '','' @ e @ '',...)'')"

definition resolve_fields :: "resolve_options \<Rightarrow> action_dns_options" where
  "resolve_fields re = \<lparr>dns_strategy = re_strategy re, dns_disable_cache = re_disable_cache re,
     dns_rewrite_ttl = re_rewrite_ttl re, dns_client_subnet = re_client_subnet re\<rparr>"

definition NewRuleAction :: "action_libs \<Rightarrow> rule_action_options \<Rightarrow> go_error + rule_action option" where
  "NewRuleAction A a =
     (let t = ao_action a in
      if t = [] then Inr None
      else if t = ''route'' then Inr (Some (RuleActionRoute (ao_route_outbound a) (route_fields A (ao_route a))))
      else if t = ''route-options'' then Inr (Some (RuleActionRouteOptions (route_options_fields A (ao_route_options a))))
      else if t = ''bypass'' then Inr (Some (RuleActionBypass (ao_bypass_outbound a) (route_fields A (ao_bypass a))))
      else if t = ''direct'' then
        (case al_new_dialer A (ao_direct a) of
           Some err \<Rightarrow> Inl (EExternal err)
         | None \<Rightarrow> rbind (direct_descriptions A (ao_direct a)) (\<lambda>ds. Inr (Some (RuleActionDirect (direct_description ds)))))
      else if t = ''reject'' then Inr (Some (RuleActionReject (ao_reject_method a) (ao_reject_no_drop a)))
      else if t = ''hijack-dns'' then Inr (Some RuleActionHijackDNS)
      else if t = ''sniff'' then
        rbind (sniff_build (ao_sniffer a) [] []) (\<lambda>(stream, packet).
          Inr (Some (RuleActionSniff (ao_sniffer a) stream packet (ao_sniff_timeout a))))
      else if t = ''resolve'' then Inr (Some (RuleActionResolve (re_server (ao_resolve a)) (resolve_fields (ao_resolve a))))
      else Inl (EPanic (''unknown rule action: '' @ t)))"

definition NewDNSRuleAction :: "dns_rule_action_options \<Rightarrow> go_error + rule_action option" where
  "NewDNSRuleAction a =
     (let t = dao_action a in
      if t = [] then Inr None
      else if t = ''route'' then Inr (Some (RuleActionDNSRoute (dao_server a) (resolve_fields (dao_route a))))
      else if t = ''route-options'' then Inr (Some (RuleActionDNSRouteOptions (resolve_fields (dao_route_options a))))
      else if t = ''reject'' then Inr (Some (RuleActionReject (dao_reject_method a) (dao_reject_no_drop a)))
      else if t = ''predefined'' then
        Inr (Some (RuleActionPredefined (dao_rcode a) (dao_answer a) (dao_ns a) (dao_extra a)))
      else Inl (EPanic (''unknown rule action: '' @ t)))"

section \<open>Types and descriptions\<close>

fun action_type :: "rule_action \<Rightarrow> string" where
  "action_type (RuleActionRoute _ _) = ''route''"
| "action_type (RuleActionRouteOptions _) = ''route-options''"
| "action_type (RuleActionBypass _ _) = ''bypass''"
| "action_type (RuleActionDirect _) = ''direct''"
| "action_type (RuleActionReject _ _) = ''reject''"
| "action_type RuleActionHijackDNS = ''hijack-dns''"
| "action_type (RuleActionSniff _ _ _ _) = ''sniff''"
| "action_type (RuleActionResolve _ _) = ''resolve''"
| "action_type (RuleActionDNSRoute _ _) = ''route''"
| "action_type (RuleActionDNSRouteOptions _) = ''route-options''"
| "action_type (RuleActionPredefined _ _ _ _) = ''predefined''"

text \<open>\<^verbatim>\<open>Socksaddr.IsValid\<close>: an address or a name.\<close>

definition socksaddr_valid :: "socksaddr \<Rightarrow> bool" where
  "socksaddr_valid a \<longleftrightarrow> sa_addr a \<noteq> None \<or> sa_fqdn a \<noteq> []"

definition network_strategy_string :: "8 word \<Rightarrow> string" where
  "network_strategy_string s =
     (if s = 0 then ''default'' else if s = 1 then ''fallback'' else if s = 2 then ''hybrid'' else digits (unat s))"

definition Descriptions :: "action_libs \<Rightarrow> action_route_options \<Rightarrow> string list" where
  "Descriptions A r =
     (if socksaddr_valid (OverrideAddress r) then [''override-address='' @ al_addr_string A (OverrideAddress r)] else []) @
     (if OverridePort r > 0 then [''override-port='' @ digits (unat (OverridePort r))] else []) @
     (case NetworkStrategy r of None \<Rightarrow> [] | Some s \<Rightarrow> [''network-strategy='' @ network_strategy_string s]) @
     (case NetworkType r of None \<Rightarrow> [] | Some ts \<Rightarrow> [''network-type='' @ join '','' (map interface_type_string ts)]) @
     (case FallbackNetworkType r of None \<Rightarrow> []
      | Some _ \<Rightarrow> [''fallback-network-type='' @
          join '','' (map interface_type_string (case NetworkType r of None \<Rightarrow> [] | Some ts \<Rightarrow> ts))]) @
     (if FallbackDelay r > 0 then [''fallback-delay='' @ al_duration_string A (FallbackDelay r)] else []) @
     (if UDPDisableDomainUnmapping r then [''udp-disable-domain-unmapping''] else []) @
     (if UDPConnect r then [''udp-connect''] else []) @
     (if UDPTimeout r > 0 then [''udp-timeout''] else []) @
     (if TLSFragment r then [''tls-fragment''] else []) @
     (if TLSFragmentFallbackDelay r > 0
      then [''tls-fragment-fallback-delay='' @ al_duration_string A (TLSFragmentFallbackDelay r)] else []) @
     (if TLSRecordFragment r then [''tls-record-fragment''] else [])"

definition dns_option_descriptions :: "libs \<Rightarrow> action_dns_options \<Rightarrow> string list" where
  "dns_option_descriptions L d =
     (if dns_disable_cache d then [''disable-cache''] else []) @
     (case dns_rewrite_ttl d of None \<Rightarrow> [] | Some ttl \<Rightarrow> [''rewrite-ttl='' @ digits (unat ttl)]) @
     (case dns_client_subnet d of None \<Rightarrow> [] | Some p \<Rightarrow> [''client-subnet='' @ lib_prefix_string L p])"

fun action_string :: "libs \<Rightarrow> action_libs \<Rightarrow> rule_action \<Rightarrow> go_error + string" where
  "action_string L A (RuleActionRoute outbound r) = Inr (''route('' @ join '','' (outbound # Descriptions A r) @ '')'')"
| "action_string L A (RuleActionRouteOptions r) = Inr (''route-options('' @ join '','' (Descriptions A r) @ '')'')"
| "action_string L A (RuleActionBypass outbound r) =
     Inr (if outbound = [] then ''bypass()'' else ''bypass('' @ join '','' (outbound # Descriptions A r) @ '')'')"
| "action_string L A (RuleActionDirect description) = Inr (''direct'' @ description)"
| "action_string L A (RuleActionReject method _) =
     Inr (if method = ''default'' then ''reject'' else ''reject('' @ method @ '')'')"
| "action_string L A RuleActionHijackDNS = Inr ''hijack-dns''"
| "action_string L A (RuleActionSniff names _ _ timeout) =
     Inr (if names = [] \<and> timeout = 0 then ''sniff''
          else if names \<noteq> [] \<and> timeout = 0 then ''sniff('' @ join '','' names @ '')''
          else if names = [] \<and> timeout > 0 then ''sniff('' @ al_duration_string A timeout @ '')''
          else ''sniff('' @ join '','' names @ '','' @ al_duration_string A timeout @ '')'')"
| "action_string L A (RuleActionResolve server d) =
     rbind (domain_strategy_string (unat (dns_strategy d))) (\<lambda>strategy.
       let options = (if server \<noteq> [] then [server] else []) @
             (if dns_strategy d \<noteq> 0 then [strategy] else []) @
             (if dns_disable_cache d then [''disable_cache''] else []) @
             (case dns_rewrite_ttl d of None \<Rightarrow> [] | Some ttl \<Rightarrow> [''rewrite_ttl='' @ digits (unat ttl)]) @
             (case dns_client_subnet d of None \<Rightarrow> [] | Some p \<Rightarrow> [''client_subnet='' @ lib_prefix_string L p])
       in Inr (if options = [] then ''resolve'' else ''resolve('' @ join '','' options @ '')''))"
| "action_string L A (RuleActionDNSRoute server d) =
     Inr (''route('' @ join '','' (server # dns_option_descriptions L d) @ '')'')"
| "action_string L A (RuleActionDNSRouteOptions d) =
     Inr (''route-options('' @ join '','' (dns_option_descriptions L d) @ '')'')"
| "action_string L A (RuleActionPredefined rcode answer ns extra) =
     Inr (''predefined('' @ join '','' (al_rcode_string A rcode # map (al_rr_string A) (answer @ ns @ extra)) @ '')'')"

section \<open>Checks on the options\<close>

definition reject_options_check :: "string \<Rightarrow> bool \<Rightarrow> go_error + string" where
  "reject_options_check method no_drop =
     (let m = (if method = [] \<or> method = ''default'' then Inr ''default''
               else if method = ''drop'' \<or> method = ''reply'' then Inr method
               else Inl (ENew (''unknown reject method: '' @ method)))
      in rbind m (\<lambda>m. if m = ''drop'' \<and> no_drop then Inl (ENew ''no_drop is not available in current context'') else Inr m))"

definition empty_raw_route_options :: raw_route_options where
  "empty_raw_route_options = \<lparr>ro_override_address = [], ro_override_port = 0, ro_network_strategy = None,
     ro_fallback_delay = 0, ro_udp_disable_domain_unmapping = False, ro_udp_connect = False, ro_udp_timeout = 0,
     ro_tls_fragment = False, ro_tls_fragment_fallback_delay = 0, ro_tls_record_fragment = False\<rparr>"

definition route_options_check :: "raw_route_options \<Rightarrow> go_error option" where
  "route_options_check r =
     (if r = empty_raw_route_options then Some (ENew ''empty route option action'')
      else if ro_tls_fragment r \<and> ro_tls_record_fragment r
      then Some (ENew ''`tls_fragment` and `tls_record_fragment` are mutually exclusive'')
      else None)"

definition zero_resolve_options :: resolve_options where
  "zero_resolve_options = \<lparr>re_server = [], re_strategy = 0, re_disable_cache = False, re_rewrite_ttl = None,
     re_client_subnet = None\<rparr>"

definition zero_direct_options :: direct_options where
  "zero_direct_options = \<lparr>do_bind_interface = [], do_inet4_bind_address = None, do_inet6_bind_address = None,
     do_routing_mark = 0, do_reuse_addr = False, do_connect_timeout = 0, do_tcp_fast_open = False,
     do_tcp_multi_path = False, do_udp_fragment = None, do_domain_strategy = 0, do_fallback_delay = 0\<rparr>"

definition zero_rule_action :: rule_action_options where
  "zero_rule_action = \<lparr>ao_action = [], ao_route_outbound = [], ao_route = empty_raw_route_options,
     ao_route_options = empty_raw_route_options, ao_direct = zero_direct_options, ao_bypass_outbound = [],
     ao_bypass = empty_raw_route_options, ao_reject_method = [], ao_reject_no_drop = False, ao_sniffer = [],
     ao_sniff_timeout = 0, ao_resolve = zero_resolve_options\<rparr>"

definition zero_dns_rule_action :: dns_rule_action_options where
  "zero_dns_rule_action = \<lparr>dao_action = [], dao_server = [], dao_route = zero_resolve_options,
     dao_route_options = zero_resolve_options, dao_reject_method = [], dao_reject_no_drop = False, dao_rcode = 0,
     dao_answer = [], dao_ns = [], dao_extra = []\<rparr>"

section \<open>Rejecting\<close>

datatype reject_result = RejectReset | RejectDrop | RejectNone | RejectPanic

text \<open>\<^verbatim>\<open>RuleActionReject.Error\<close> at time \<open>now\<close> with the times of the recent rejections.\<close>

definition reject_error :: "string \<Rightarrow> bool \<Rightarrow> int \<Rightarrow> int list \<Rightarrow> reject_result \<times> int list" where
  "reject_error method no_drop now dropCounter =
     (if method = ''drop'' then (RejectDrop, dropCounter)
      else if method = ''reply'' then (RejectNone, dropCounter)
      else if method \<noteq> ''default'' then (RejectPanic, dropCounter)
      else if no_drop then (RejectReset, dropCounter)
      else
        let dropCounter' = filter (\<lambda>t. now - t \<le> 30 * 10 ^ 9) dropCounter @ [now]
        in (if length dropCounter' > 50 then RejectDrop else RejectReset, dropCounter'))"

fun reject_run :: "string \<Rightarrow> bool \<Rightarrow> int list \<Rightarrow> int list \<Rightarrow> reject_result list" where
  "reject_run method no_drop [] c = []"
| "reject_run method no_drop (t # ts) c =
     (let (r, c') = reject_error method no_drop t c in r # reject_run method no_drop ts c')"

section \<open>Predefined answers\<close>

definition has_suffix :: "string \<Rightarrow> string \<Rightarrow> bool" where
  "has_suffix s suf = has_prefix (rev suf) (rev s)"

definition rewriteRecords :: "dns_rr list \<Rightarrow> string \<Rightarrow> dns_rr list" where
  "rewriteRecords records qname =
     map (\<lambda>it. if has_prefix ''*'' (rr_name it) \<and> has_suffix qname (tl (rr_name it)) then it\<lparr>rr_name := qname\<rparr> else it) records"

record dns_msg =
  dm_id :: "16 word"
  dm_response :: bool
  dm_authoritative :: bool
  dm_recursion_desired :: bool
  dm_recursion_available :: bool
  dm_rcode :: int
  dm_question :: "string list"
  dm_answer :: "dns_rr list"
  dm_ns :: "dns_rr list"
  dm_extra :: "dns_rr list"

text \<open>A request without a question makes the code panic on the index.\<close>

definition predefined_response :: "int \<Rightarrow> dns_rr list \<Rightarrow> dns_rr list \<Rightarrow> dns_rr list \<Rightarrow> dns_msg \<Rightarrow> go_error + dns_msg" where
  "predefined_response rcode answer ns extra request =
     (case dm_question request of
        [] \<Rightarrow> Inl (EPanic ''index out of range'')
      | q # _ \<Rightarrow> Inr \<lparr>dm_id = dm_id request, dm_response = True, dm_authoritative = True, dm_recursion_desired = True,
          dm_recursion_available = True, dm_rcode = rcode, dm_question = dm_question request,
          dm_answer = rewriteRecords answer q, dm_ns = rewriteRecords ns q, dm_extra = rewriteRecords extra q\<rparr>)"

section \<open>Properties\<close>

lemma has_suffix_iff: "has_suffix s suf \<longleftrightarrow> (\<exists>t. s = t @ suf)"
proof -
  have "has_suffix s suf \<longleftrightarrow> (\<exists>t. rev s = rev suf @ t)" by (simp add: has_suffix_def has_prefix_iff)
  also have "\<dots> \<longleftrightarrow> (\<exists>t. s = t @ suf)" by (metis rev_append rev_rev_ident)
  finally show ?thesis .
qed

lemma reject_window:
  assumes "sorted (ps @ now # [])"
  shows "reject_error ''default'' False now (filter (\<lambda>t. last (now # ps) - t \<le> 30 * 10 ^ 9) ps) =
    (if length (filter (\<lambda>t. now - t \<le> 30 * 10 ^ 9) (ps @ [now])) > 50 then RejectDrop else RejectReset,
     filter (\<lambda>t. now - t \<le> 30 * 10 ^ 9) (ps @ [now]))"
proof -
  have le: "last (now # ps) \<le> now" using assms by (cases ps rule: rev_cases) (auto simp: sorted_append)
  have "filter (\<lambda>t. now - t \<le> 30 * 10 ^ 9) (filter (\<lambda>t. last (now # ps) - t \<le> 30 * 10 ^ 9) ps) =
      filter (\<lambda>t. now - t \<le> 30 * 10 ^ 9) ps"
    unfolding filter_filter by (rule filter_cong [OF refl]) (use le in auto)
  then show ?thesis by (simp add: reject_error_def)
qed

lemma reject_run_window:
  "sorted (ps @ ts) \<Longrightarrow> i < length ts \<Longrightarrow>
     reject_run ''default'' False ts (filter (\<lambda>t. last (0 # ps) - t \<le> 30 * 10 ^ 9) ps) ! i =
     (if length (filter (\<lambda>t. ts ! i - t \<le> 30 * 10 ^ 9) (ps @ take (Suc i) ts)) > 50 then RejectDrop else RejectReset)"
proof (induction ts arbitrary: ps i)
  case (Cons now ts)
  have lst: "filter (\<lambda>t. last (0 # ps) - t \<le> 30 * 10 ^ 9) ps = filter (\<lambda>t. last (now # ps) - t \<le> 30 * 10 ^ 9) ps"
    by (cases ps) auto
  have s: "sorted (ps @ [now])" using Cons.prems(1) by (auto simp: sorted_append)
  show ?case
  proof (cases i)
    case 0
    then show ?thesis using reject_window [OF s] by (simp only: lst reject_run.simps) (simp split: prod.splits)
  next
    case (Suc k)
    have "reject_run ''default'' False ts (filter (\<lambda>t. last (0 # (ps @ [now])) - t \<le> 30 * 10 ^ 9) (ps @ [now])) ! k =
      (if length (filter (\<lambda>t. ts ! k - t \<le> 30 * 10 ^ 9) ((ps @ [now]) @ take (Suc k) ts)) > 50 then RejectDrop else RejectReset)"
      by (rule Cons.IH) (use Cons.prems Suc in simp_all)
    then show ?thesis
      using Suc reject_window [OF s] by (simp only: lst reject_run.simps) (simp split: prod.splits)
  qed
qed simp

text \<open>Flood control of the reject action. For rejections at times that do not go back, the answer to one
  of them is to drop, instead of to reset, exactly when more than fifty rejections, itself included, fall
  into the thirty seconds up to it.\<close>

theorem reject_flood_control:
  assumes "sorted ts" and "i < length ts"
  shows "reject_run ''default'' False ts [] ! i =
    (if length (filter (\<lambda>t. ts ! i - t \<le> 30 * 10 ^ 9) (take (Suc i) ts)) > 50 then RejectDrop else RejectReset)"
  using reject_run_window [of "[]" ts i] assms by simp

theorem reject_flood_control_witness:
  "reject_run ''default'' False [0, 5] [] ! 1 = RejectReset"
  using reject_flood_control [of "[0, 5]" 1] by simp

text \<open>The \<^verbatim>\<open>route\<close> and \<^verbatim>\<open>bypass\<close> actions lose their UDP timeout: whatever \<^verbatim>\<open>udp_timeout\<close> the options give,
  the built action has none, while \<^verbatim>\<open>route-options\<close> keeps it.\<close>

theorem route_action_udp_timeout:
  "(case NewRuleAction A (a\<lparr>ao_action := ''route''\<rparr>) of
      Inr (Some (RuleActionRoute _ r)) \<Rightarrow> UDPTimeout r = 0 | _ \<Rightarrow> False) \<and>
   (case NewRuleAction A (a\<lparr>ao_action := ''bypass''\<rparr>) of
      Inr (Some (RuleActionBypass _ r)) \<Rightarrow> UDPTimeout r = 0 | _ \<Rightarrow> False) \<and>
   (case NewRuleAction A (a\<lparr>ao_action := ''route-options''\<rparr>) of
      Inr (Some (RuleActionRouteOptions r)) \<Rightarrow> UDPTimeout r = ro_udp_timeout (ao_route_options a) | _ \<Rightarrow> False)"
  by (simp add: NewRuleAction_def route_fields_def route_options_fields_def no_route_options_def)

end
