(* ===== verification/Rule_Build.thy ===== *)
theory Rule_Build
  imports Rule_Match Rule_Action
begin

text \<open>
  Building rules from options: \<^verbatim>\<open>NewRule\<close>, \<^verbatim>\<open>NewHeadlessRule\<close> and \<^verbatim>\<open>NewDNSRule\<close> of
  \<^verbatim>\<open>route/rule/rule_default.go\<close>, \<^verbatim>\<open>rule_headless.go\<close> and \<^verbatim>\<open>rule_dns.go\<close>, with the validity checks of
  \<^verbatim>\<open>option/rule.go\<close>, \<^verbatim>\<open>option/rule_set.go\<close> and \<^verbatim>\<open>option/rule_dns.go\<close>. \<open>conds\<close> has the fields of
  \<^verbatim>\<open>RawDefaultRule\<close>, \<^verbatim>\<open>RawDefaultDNSRule\<close> and \<^verbatim>\<open>DefaultHeadlessRule\<close>; a field one of them does not
  have keeps its zero value. A nil slice and an empty one are the same list.
\<close>

section \<open>Options\<close>

record conds =
  c_inbound :: "string list"
  c_ip_version :: int
  c_query_type :: "16 word list"
  c_network :: "string list"
  c_auth_user :: "string list"
  c_protocol :: "string list"
  c_client :: "string list"
  c_domain :: "string list"
  c_domain_suffix :: "string list"
  c_domain_keyword :: "string list"
  c_domain_regex :: "string list"
  c_geosite :: "string list"
  c_source_geoip :: "string list"
  c_geoip :: "string list"
  c_source_ip_cidr :: "string list"
  c_source_ip_is_private :: bool
  c_ip_cidr :: "string list"
  c_ip_is_private :: bool
  c_ip_accept_any :: bool
  c_source_port :: "16 word list"
  c_source_port_range :: "string list"
  c_port :: "16 word list"
  c_port_range :: "string list"
  c_process_name :: "string list"
  c_process_path :: "string list"
  c_process_path_regex :: "string list"
  c_package_name :: "string list"
  c_user :: "string list"
  c_user_id :: "32 word list"
  c_outbound :: "string list"
  c_clash_mode :: string
  c_network_type :: "interface_type list"
  c_network_is_expensive :: bool
  c_network_is_constrained :: bool
  c_wifi_ssid :: "string list"
  c_wifi_bssid :: "string list"
  c_interface_address :: "(string \<times> prefix list) list"
  c_network_interface_address :: "(interface_type \<times> prefix list) list"
  c_default_interface_address :: "prefix list"
  c_preferred_by :: "string list"
  c_rule_set :: "string list"
  c_rule_set_match_source :: bool
  c_rule_set_accept_empty :: bool
  c_deprecated_match_source :: bool
  c_domain_matcher :: "(string \<Rightarrow> bool) option"
  c_source_ip_set :: "(addr \<Rightarrow> bool) option"
  c_ip_set :: "(addr \<Rightarrow> bool) option"
  c_adguard_domain :: "string list"
  c_adguard_matcher :: "(string \<Rightarrow> bool) option"
  c_invert :: bool

text \<open>\<^verbatim>\<open>reflect.DeepEqual\<close> with the zero value of the conditions, the flag \<^verbatim>\<open>invert\<close> apart.\<close>

definition conds_empty :: "conds \<Rightarrow> bool" where
  "conds_empty c \<longleftrightarrow>
     c_inbound c = [] \<and> c_ip_version c = 0 \<and> c_query_type c = [] \<and> c_network c = [] \<and> c_auth_user c = [] \<and>
     c_protocol c = [] \<and> c_client c = [] \<and> c_domain c = [] \<and> c_domain_suffix c = [] \<and> c_domain_keyword c = [] \<and>
     c_domain_regex c = [] \<and> c_geosite c = [] \<and> c_source_geoip c = [] \<and> c_geoip c = [] \<and> c_source_ip_cidr c = [] \<and>
     \<not> c_source_ip_is_private c \<and> c_ip_cidr c = [] \<and> \<not> c_ip_is_private c \<and> \<not> c_ip_accept_any c \<and>
     c_source_port c = [] \<and> c_source_port_range c = [] \<and> c_port c = [] \<and> c_port_range c = [] \<and>
     c_process_name c = [] \<and> c_process_path c = [] \<and> c_process_path_regex c = [] \<and> c_package_name c = [] \<and>
     c_user c = [] \<and> c_user_id c = [] \<and> c_outbound c = [] \<and> c_clash_mode c = [] \<and> c_network_type c = [] \<and>
     \<not> c_network_is_expensive c \<and> \<not> c_network_is_constrained c \<and> c_wifi_ssid c = [] \<and> c_wifi_bssid c = [] \<and>
     c_interface_address c = [] \<and> c_network_interface_address c = [] \<and> c_default_interface_address c = [] \<and>
     c_preferred_by c = [] \<and> c_rule_set c = [] \<and> \<not> c_rule_set_match_source c \<and> \<not> c_rule_set_accept_empty c \<and>
     \<not> c_deprecated_match_source c \<and> c_domain_matcher c = None \<and> c_source_ip_set c = None \<and> c_ip_set c = None \<and>
     c_adguard_domain c = [] \<and> c_adguard_matcher c = None"

section \<open>Adding conditions\<close>

definition empty_items :: default_items where
  "empty_items = \<lparr>items = [], sourceAddressItems = [], sourcePortItems = [], destinationAddressItems = [],
     destinationIPCIDRItems = [], destinationPortItems = [], allItems = []\<rparr>"

definition add_item :: "item \<Rightarrow> default_items \<Rightarrow> default_items" where
  "add_item it r = r\<lparr>items := items r @ [it]\<rparr>"

definition add_source_address :: "item \<Rightarrow> default_items \<Rightarrow> default_items" where
  "add_source_address it r = r\<lparr>sourceAddressItems := sourceAddressItems r @ [it]\<rparr>"

definition add_source_port :: "item \<Rightarrow> default_items \<Rightarrow> default_items" where
  "add_source_port it r = r\<lparr>sourcePortItems := sourcePortItems r @ [it]\<rparr>"

definition add_destination_address :: "item \<Rightarrow> default_items \<Rightarrow> default_items" where
  "add_destination_address it r = r\<lparr>destinationAddressItems := destinationAddressItems r @ [it]\<rparr>"

definition add_destination_ipcidr :: "item \<Rightarrow> default_items \<Rightarrow> default_items" where
  "add_destination_ipcidr it r = r\<lparr>destinationIPCIDRItems := destinationIPCIDRItems r @ [it]\<rparr>"

definition add_destination_port :: "item \<Rightarrow> default_items \<Rightarrow> default_items" where
  "add_destination_port it r = r\<lparr>destinationPortItems := destinationPortItems r @ [it]\<rparr>"

definition add_all :: "item \<Rightarrow> default_items \<Rightarrow> default_items" where
  "add_all it r = r\<lparr>allItems := allItems r @ [it]\<rparr>"

text \<open>One \<^verbatim>\<open>if\<close> of a constructor: make a condition, perhaps with an error, and append it to lists of the rule, or
  refuse. The lists a step appends to are its second argument.\<close>

type_synonym step = "default_items \<Rightarrow> go_error + default_items"

definition when_add :: "bool \<Rightarrow> (item \<Rightarrow> default_items \<Rightarrow> default_items) list \<Rightarrow> item \<Rightarrow> step" where
  "when_add c appends it r = (if c then Inr (fold (\<lambda>app. app it) appends r) else Inr r)"

definition when_try :: "bool \<Rightarrow> (item \<Rightarrow> default_items \<Rightarrow> default_items) list \<Rightarrow> go_error + item \<Rightarrow> step" where
  "when_try c appends e r = (if c then rbind e (\<lambda>it. Inr (fold (\<lambda>app. app it) appends r)) else Inr r)"

definition when_fail :: "bool \<Rightarrow> string \<Rightarrow> step" where
  "when_fail c msg r = (if c then Inl (ENew msg) else Inr r)"

definition cause :: "string \<Rightarrow> go_error + 'a \<Rightarrow> go_error + 'a" where
  "cause msg e = (case e of Inl err \<Rightarrow> Inl (ECause err msg) | Inr x \<Rightarrow> Inr x)"

definition ip_version_step :: "int \<Rightarrow> step" where
  "ip_version_step v r =
     (if v > 0 then
        (if v = 4 \<or> v = 6 then when_add True [add_item, add_all] (NewIPVersionItem (v = 6)) r
         else Inl (ENew (''invalid ip version: '' @ int_digits v)))
      else Inr r)"

definition geosite_removed :: string where
  "geosite_removed = ''geosite database is deprecated in sing-box 1.8.0 and removed in sing-box 1.12.0''"

definition geoip_removed :: string where
  "geoip_removed = ''geoip database is deprecated in sing-box 1.8.0 and removed in sing-box 1.12.0''"

definition match_source_removed :: string where
  "match_source_removed = ''rule_set_ipcidr_match_source is deprecated in sing-box 1.10.0 and removed in sing-box 1.11.0''"

section \<open>Route rules\<close>

definition default_rule_steps_1 :: "libs \<Rightarrow> conds \<Rightarrow> step list" where
  "default_rule_steps_1 L c =
     [when_add (c_inbound c \<noteq> []) [add_item, add_all] (NewInboundRule (c_inbound c)),
      ip_version_step (c_ip_version c),
      when_add (c_network c \<noteq> []) [add_item, add_all] (NewNetworkItem (c_network c)),
      when_add (c_auth_user c \<noteq> []) [add_item, add_all] (NewAuthUserItem (c_auth_user c)),
      when_add (c_protocol c \<noteq> []) [add_item, add_all] (NewProtocolItem (c_protocol c)),
      when_add (c_client c \<noteq> []) [add_item, add_all] (NewClientItem (c_client c)),
      when_try (c_domain c \<noteq> [] \<or> c_domain_suffix c \<noteq> []) [add_destination_address, add_all] (NewDomainItem L (c_domain c) (c_domain_suffix c)),
      when_add (c_domain_keyword c \<noteq> []) [add_destination_address, add_all] (NewDomainKeywordItem (c_domain_keyword c)),
      when_try (c_domain_regex c \<noteq> []) [add_destination_address, add_all] (NewDomainRegexItem L (c_domain_regex c)),
      when_fail (c_geosite c \<noteq> []) geosite_removed,
      when_fail (c_source_geoip c \<noteq> []) geoip_removed,
      when_fail (c_geoip c \<noteq> []) geoip_removed,
      when_try (c_source_ip_cidr c \<noteq> []) [add_source_address, add_all] (cause ''source_ip_cidr'' (NewIPCIDRItem L True (c_source_ip_cidr c))),
      when_add (c_source_ip_is_private c) [add_source_address, add_all] (NewIPIsPrivateItem True),
      when_try (c_ip_cidr c \<noteq> []) [add_destination_ipcidr, add_all] (cause ''ipcidr'' (NewIPCIDRItem L False (c_ip_cidr c))),
      when_add (c_ip_is_private c) [add_destination_ipcidr, add_all] (NewIPIsPrivateItem False)]"

definition default_rule_steps_2 :: "libs \<Rightarrow> conds \<Rightarrow> step list" where
  "default_rule_steps_2 L c =
     [when_add (c_source_port c \<noteq> []) [add_source_port, add_all] (NewPortItem True (c_source_port c)),
      when_try (c_source_port_range c \<noteq> []) [add_source_port, add_all] (cause ''source_port_range'' (NewPortRangeItem True (c_source_port_range c))),
      when_add (c_port c \<noteq> []) [add_destination_port, add_all] (NewPortItem False (c_port c)),
      when_try (c_port_range c \<noteq> []) [add_destination_port, add_all] (cause ''port_range'' (NewPortRangeItem False (c_port_range c))),
      when_add (c_process_name c \<noteq> []) [add_item, add_all] (NewProcessItem (c_process_name c)),
      when_add (c_process_path c \<noteq> []) [add_item, add_all] (NewProcessPathItem (c_process_path c)),
      when_try (c_process_path_regex c \<noteq> []) [add_item, add_all] (cause ''process_path_regex'' (NewProcessPathRegexItem L (c_process_path_regex c))),
      when_add (c_package_name c \<noteq> []) [add_item, add_all] (NewPackageNameItem (c_package_name c)),
      when_add (c_user c \<noteq> []) [add_item, add_all] (NewUserItem (c_user c)),
      when_add (c_user_id c \<noteq> []) [add_item, add_all] (NewUserIDItem (c_user_id c))]"

definition network_steps :: "libs \<Rightarrow> conds \<Rightarrow> step list" where
  "network_steps L c =
     [when_add (c_network_type c \<noteq> []) [add_item, add_all] (NewNetworkTypeItem (c_network_type c)),
      when_add (c_network_is_expensive c) [add_item, add_all] NewNetworkIsExpensiveItem,
      when_add (c_network_is_constrained c) [add_item, add_all] NewNetworkIsConstrainedItem,
      when_add (c_wifi_ssid c \<noteq> []) [add_item, add_all] (NewWIFISSIDItem (c_wifi_ssid c)),
      when_add (c_wifi_bssid c \<noteq> []) [add_item, add_all] (NewWIFIBSSIDItem L (c_wifi_bssid c))]"

definition address_steps :: "libs \<Rightarrow> conds \<Rightarrow> step list" where
  "address_steps L c =
     [when_add (c_network_interface_address c \<noteq> []) [add_item, add_all] (NewNetworkInterfaceAddressItem L (c_network_interface_address c)),
      when_add (c_default_interface_address c \<noteq> []) [add_item, add_all] (NewDefaultInterfaceAddressItem (c_default_interface_address c))]"

definition default_rule_steps_3 :: "libs \<Rightarrow> conds \<Rightarrow> step list" where
  "default_rule_steps_3 L c =
     [when_add (c_clash_mode c \<noteq> []) [add_item, add_all] (NewClashModeItem (c_clash_mode c))] @
     network_steps L c @
     [when_add (c_interface_address c \<noteq> []) [add_item, add_all] (NewInterfaceAddressItem L (c_interface_address c))] @
     address_steps L c @
     [when_add (c_preferred_by c \<noteq> []) [add_item, add_all] (NewPreferredByItem (c_preferred_by c))]"

text \<open>The rule-set item, not started yet.\<close>

definition NewRuleSetItem :: "string list \<Rightarrow> bool \<Rightarrow> bool \<Rightarrow> rule_set_item" where
  "NewRuleSetItem tagList ipCIDRMatchSource ipCidrAcceptEmpty =
     RuleSetItem tagList [] ipCIDRMatchSource ipCidrAcceptEmpty"

definition rule_set_step :: "conds \<Rightarrow> bool \<Rightarrow> go_error + rule_set_item option" where
  "rule_set_step c acceptEmpty =
     (if c_rule_set c \<noteq> [] then
        (if c_deprecated_match_source c then Inl (ENew match_source_removed)
         else Inr (Some (NewRuleSetItem (c_rule_set c) (c_rule_set_match_source c) acceptEmpty)))
      else Inr None)"

definition run_steps :: "step list \<Rightarrow> go_error + default_items" where
  "run_steps steps = rfold (\<lambda>step r. step r) steps empty_items"

definition default_rule_conds :: "libs \<Rightarrow> conds \<Rightarrow> go_error + rule" where
  "default_rule_conds L c =
     rbind (run_steps (default_rule_steps_1 L c @ default_rule_steps_2 L c @ default_rule_steps_3 L c)) (\<lambda>r.
     rbind (rule_set_step c False) (\<lambda>set_item. Inr (DefaultRule r set_item (c_invert c))))"

definition NewDefaultRule ::
  "libs \<Rightarrow> action_libs \<Rightarrow> conds \<Rightarrow> rule_action_options \<Rightarrow> go_error + rule \<times> rule_action option" where
  "NewDefaultRule L A c a =
     rbind (cause ''action'' (NewRuleAction A a)) (\<lambda>action.
     rbind (default_rule_conds L c) (\<lambda>r. Inr (r, action)))"

text \<open>
  \<^verbatim>\<open>option.Rule\<close>: the type, the default options with their action, and the logical options (mode, rules,
  inversion, action). The validity of a default rule compares the action as well.
\<close>

datatype rule_options =
  RuleOptions string conds rule_action_options string "rule_options list" bool rule_action_options

definition DefaultRule_IsValid :: "conds \<Rightarrow> rule_action_options \<Rightarrow> bool" where
  "DefaultRule_IsValid c a \<longleftrightarrow> \<not> (conds_empty c \<and> a = zero_rule_action)"

text \<open>\<^verbatim>\<open>common.All\<close> stops at the first rule that is not valid; an unknown type panics.\<close>

fun Rule_IsValid :: "rule_options \<Rightarrow> go_error + bool"
and Rules_AllValid :: "rule_options list \<Rightarrow> go_error + bool" where
  "Rule_IsValid (RuleOptions type c a mode rules invert la) =
     (if type = ''default'' then Inr (DefaultRule_IsValid c a)
      else if type = ''logical'' then (if rules = [] then Inr False else Rules_AllValid rules)
      else Inl (EPanic (''unknown rule type: '' @ type)))"
| "Rules_AllValid [] = Inr True"
| "Rules_AllValid (r # rs) = rbind (Rule_IsValid r) (\<lambda>b. if b then Rules_AllValid rs else Inr False)"

definition missing_outbound :: "bool \<Rightarrow> rule_action_options \<Rightarrow> bool" where
  "missing_outbound checkOutbound a \<longleftrightarrow>
     (ao_action a = [] \<or> ao_action a = ''route'') \<and> ao_route_outbound a = [] \<and> checkOutbound"

definition logical_mode :: "string \<Rightarrow> go_error + string" where
  "logical_mode mode =
     (if mode = LogicalTypeAnd then Inr LogicalTypeAnd
      else if mode = LogicalTypeOr then Inr LogicalTypeOr
      else Inl (ENew (''unknown logical mode: '' @ mode)))"

text \<open>\<^verbatim>\<open>NewRule\<close> with \<^verbatim>\<open>NewLogicalRule\<close>, whose loop over the nested options is \<open>NewSubRules\<close>.\<close>

fun NewRule :: "libs \<Rightarrow> action_libs \<Rightarrow> bool \<Rightarrow> rule_options \<Rightarrow> go_error + rule \<times> rule_action option"
and NewSubRules :: "libs \<Rightarrow> action_libs \<Rightarrow> nat \<Rightarrow> rule_options list \<Rightarrow> go_error + rule list" where
  "NewRule L A checkOutbound (RuleOptions type c a mode rules invert la) =
     (if type = [] \<or> type = ''default'' then
        (if \<not> DefaultRule_IsValid c a then Inl (ENew ''missing conditions'')
         else if missing_outbound checkOutbound a then Inl (ENew ''missing outbound field'')
         else NewDefaultRule L A c a)
      else if type = ''logical'' then
        rbind (if rules = [] then Inr False else Rules_AllValid rules) (\<lambda>valid.
          if \<not> valid then Inl (ENew ''missing conditions'')
          else if missing_outbound checkOutbound la then Inl (ENew ''missing outbound field'')
          else
            rbind (cause ''action'' (NewRuleAction A la)) (\<lambda>action.
            rbind (logical_mode mode) (\<lambda>m.
            rbind (NewSubRules L A 0 rules) (\<lambda>rs. Inr (LogicalRule rs m invert, action)))))
      else Inl (ENew (''unknown rule type: '' @ type)))"
| "NewSubRules L A i [] = Inr []"
| "NewSubRules L A i (r # rs) =
     rbind (cause (''sub rule['' @ digits i @ '']'') (NewRule L A False r)) (\<lambda>(q, _).
     rbind (NewSubRules L A (Suc i) rs) (\<lambda>qs. Inr (q # qs)))"

section \<open>Headless rules\<close>

definition headless_rule_steps_1 :: "libs \<Rightarrow> conds \<Rightarrow> step list" where
  "headless_rule_steps_1 L c =
     [when_add (c_query_type c \<noteq> []) [add_item, add_all] (NewQueryTypeItem (c_query_type c)),
      when_add (c_network c \<noteq> []) [add_item, add_all] (NewNetworkItem (c_network c)),
      (if c_domain c \<noteq> [] \<or> c_domain_suffix c \<noteq> []
       then when_try True [add_destination_address, add_all] (NewDomainItem L (c_domain c) (c_domain_suffix c))
       else case c_domain_matcher c of None \<Rightarrow> Inr | Some m \<Rightarrow> when_add True [add_destination_address, add_all] (NewRawDomainItem m)),
      when_add (c_domain_keyword c \<noteq> []) [add_destination_address, add_all] (NewDomainKeywordItem (c_domain_keyword c)),
      when_try (c_domain_regex c \<noteq> []) [add_destination_address, add_all] (cause ''domain_regex'' (NewDomainRegexItem L (c_domain_regex c))),
      (if c_source_ip_cidr c \<noteq> []
       then when_try True [add_source_address, add_all] (cause ''source_ip_cidr'' (NewIPCIDRItem L True (c_source_ip_cidr c)))
       else case c_source_ip_set c of None \<Rightarrow> Inr | Some s \<Rightarrow> when_add True [add_source_address, add_all] (NewRawIPCIDRItem True s)),
      (if c_ip_cidr c \<noteq> []
       then when_try True [add_destination_ipcidr, add_all] (cause ''ipcidr'' (NewIPCIDRItem L False (c_ip_cidr c)))
       else case c_ip_set c of None \<Rightarrow> Inr | Some s \<Rightarrow> when_add True [add_destination_ipcidr, add_all] (NewRawIPCIDRItem False s))]"

definition headless_rule_steps_2 :: "libs \<Rightarrow> conds \<Rightarrow> step list" where
  "headless_rule_steps_2 L c =
     [when_add (c_source_port c \<noteq> []) [add_source_port, add_all] (NewPortItem True (c_source_port c)),
      when_try (c_source_port_range c \<noteq> []) [add_source_port, add_all] (cause ''source_port_range'' (NewPortRangeItem True (c_source_port_range c))),
      when_add (c_port c \<noteq> []) [add_destination_port, add_all] (NewPortItem False (c_port c)),
      when_try (c_port_range c \<noteq> []) [add_destination_port, add_all] (cause ''port_range'' (NewPortRangeItem False (c_port_range c))),
      when_add (c_process_name c \<noteq> []) [add_item, add_all] (NewProcessItem (c_process_name c)),
      when_add (c_process_path c \<noteq> []) [add_item, add_all] (NewProcessPathItem (c_process_path c)),
      when_try (c_process_path_regex c \<noteq> []) [add_item, add_all] (cause ''process_path_regex'' (NewProcessPathRegexItem L (c_process_path_regex c))),
      when_add (c_package_name c \<noteq> []) [add_item, add_all] (NewPackageNameItem (c_package_name c))]"

definition adguard_step :: "libs \<Rightarrow> conds \<Rightarrow> step" where
  "adguard_step L c =
     (if c_adguard_domain c \<noteq> [] then when_add True [add_destination_address, add_all] (NewAdGuardDomainItem L (c_adguard_domain c))
      else case c_adguard_matcher c of None \<Rightarrow> Inr | Some m \<Rightarrow> when_add True [add_destination_address, add_all] (NewRawAdGuardDomainItem m))"

text \<open>Without a network manager the network conditions are left out.\<close>

definition NewDefaultHeadlessRule :: "libs \<Rightarrow> bool \<Rightarrow> conds \<Rightarrow> go_error + rule" where
  "NewDefaultHeadlessRule L has_network_manager c =
     rbind (run_steps (headless_rule_steps_1 L c @ headless_rule_steps_2 L c @
              (if has_network_manager then network_steps L c @ address_steps L c else []) @ [adguard_step L c])) (\<lambda>r.
     Inr (DefaultRule r None (c_invert c)))"

text \<open>\<^verbatim>\<open>option.HeadlessRule\<close>: type, default options, and mode, rules and inversion of the logical ones.\<close>

datatype headless_options = HeadlessOptions string conds string "headless_options list" bool

fun HeadlessRule_IsValid :: "headless_options \<Rightarrow> go_error + bool"
and HeadlessRules_AllValid :: "headless_options list \<Rightarrow> go_error + bool" where
  "HeadlessRule_IsValid (HeadlessOptions type c mode rules invert) =
     (if type = ''default'' \<or> type = [] then Inr (\<not> conds_empty c)
      else if type = ''logical'' then (if rules = [] then Inr False else HeadlessRules_AllValid rules)
      else Inl (EPanic (''unknown rule type: '' @ type)))"
| "HeadlessRules_AllValid [] = Inr True"
| "HeadlessRules_AllValid (r # rs) = rbind (HeadlessRule_IsValid r) (\<lambda>b. if b then HeadlessRules_AllValid rs else Inr False)"

fun NewHeadlessRule :: "libs \<Rightarrow> bool \<Rightarrow> headless_options \<Rightarrow> go_error + rule"
and NewHeadlessRules :: "libs \<Rightarrow> bool \<Rightarrow> nat \<Rightarrow> headless_options list \<Rightarrow> go_error + rule list" where
  "NewHeadlessRule L n (HeadlessOptions type c mode rules invert) =
     (if type = [] \<or> type = ''default'' then
        (if conds_empty c then Inl (ENew ''missing conditions'') else NewDefaultHeadlessRule L n c)
      else if type = ''logical'' then
        rbind (if rules = [] then Inr False else HeadlessRules_AllValid rules) (\<lambda>valid.
          if \<not> valid then Inl (ENew ''missing conditions'')
          else
            rbind (logical_mode mode) (\<lambda>m.
            rbind (NewHeadlessRules L n 0 rules) (\<lambda>rs. Inr (LogicalRule rs m invert))))
      else Inl (ENew (''unknown rule type: '' @ type)))"
| "NewHeadlessRules L n i [] = Inr []"
| "NewHeadlessRules L n i (r # rs) =
     rbind (cause (''sub rule['' @ digits i @ '']'') (NewHeadlessRule L n r)) (\<lambda>q.
     rbind (NewHeadlessRules L n (Suc i) rs) (\<lambda>qs. Inr (q # qs)))"

section \<open>DNS rules\<close>

definition dns_rule_steps_1 :: "libs \<Rightarrow> conds \<Rightarrow> step list" where
  "dns_rule_steps_1 L c =
     [when_add (c_inbound c \<noteq> []) [add_item, add_all] (NewInboundRule (c_inbound c)),
      ip_version_step (c_ip_version c),
      when_add (c_query_type c \<noteq> []) [add_item, add_all] (NewQueryTypeItem (c_query_type c)),
      when_add (c_network c \<noteq> []) [add_item, add_all] (NewNetworkItem (c_network c)),
      when_add (c_auth_user c \<noteq> []) [add_item, add_all] (NewAuthUserItem (c_auth_user c)),
      when_add (c_protocol c \<noteq> []) [add_item, add_all] (NewProtocolItem (c_protocol c)),
      when_try (c_domain c \<noteq> [] \<or> c_domain_suffix c \<noteq> []) [add_destination_address, add_all] (NewDomainItem L (c_domain c) (c_domain_suffix c)),
      when_add (c_domain_keyword c \<noteq> []) [add_destination_address, add_all] (NewDomainKeywordItem (c_domain_keyword c)),
      when_try (c_domain_regex c \<noteq> []) [add_destination_address, add_all] (cause ''domain_regex'' (NewDomainRegexItem L (c_domain_regex c))),
      when_fail (c_geosite c \<noteq> []) geosite_removed,
      when_fail (c_source_geoip c \<noteq> []) geoip_removed,
      when_fail (c_geoip c \<noteq> []) geoip_removed,
      when_try (c_source_ip_cidr c \<noteq> []) [add_source_address, add_all] (cause ''source_ip_cidr'' (NewIPCIDRItem L True (c_source_ip_cidr c))),
      when_try (c_ip_cidr c \<noteq> []) [add_destination_ipcidr, add_all] (cause ''ip_cidr'' (NewIPCIDRItem L False (c_ip_cidr c))),
      when_add (c_source_ip_is_private c) [add_source_address, add_all] (NewIPIsPrivateItem True),
      when_add (c_ip_is_private c) [add_destination_ipcidr, add_all] (NewIPIsPrivateItem False),
      when_add (c_ip_accept_any c) [add_destination_ipcidr, add_all] NewIPAcceptAnyItem]"

definition dns_rule_steps_3 :: "libs \<Rightarrow> conds \<Rightarrow> step list" where
  "dns_rule_steps_3 L c =
     [when_add (c_outbound c \<noteq> []) [add_item, add_all] (NewOutboundRule (c_outbound c)),
      when_add (c_clash_mode c \<noteq> []) [add_item, add_all] (NewClashModeItem (c_clash_mode c))] @
     network_steps L c @
     [when_add (c_interface_address c \<noteq> []) [add_item, add_all] (NewInterfaceAddressItem L (c_interface_address c))] @
     address_steps L c"

definition NewDefaultDNSRule :: "libs \<Rightarrow> conds \<Rightarrow> dns_rule_action_options \<Rightarrow> go_error + rule \<times> rule_action option" where
  "NewDefaultDNSRule L c a =
     rbind (NewDNSRuleAction a) (\<lambda>action.
     rbind (run_steps (dns_rule_steps_1 L c @ default_rule_steps_2 L c @ dns_rule_steps_3 L c)) (\<lambda>r.
     rbind (rule_set_step c (c_rule_set_accept_empty c)) (\<lambda>set_item. Inr (DefaultRule r set_item (c_invert c), action))))"

datatype dns_rule_options =
  DNSRuleOptions string conds dns_rule_action_options string "dns_rule_options list" bool dns_rule_action_options

definition missing_server :: "bool \<Rightarrow> dns_rule_action_options \<Rightarrow> bool" where
  "missing_server checkServer a \<longleftrightarrow> (dao_action a = [] \<or> dao_action a = ''route'') \<and> dao_server a = [] \<and> checkServer"

fun DNSRule_IsValid :: "dns_rule_options \<Rightarrow> go_error + bool"
and DNSRules_AllValid :: "dns_rule_options list \<Rightarrow> go_error + bool" where
  "DNSRule_IsValid (DNSRuleOptions type c a mode rules invert la) =
     (if type = ''default'' then Inr (\<not> (conds_empty c \<and> a = zero_dns_rule_action))
      else if type = ''logical'' then (if rules = [] then Inr False else DNSRules_AllValid rules)
      else Inl (EPanic (''unknown DNS rule type: '' @ type)))"
| "DNSRules_AllValid [] = Inr True"
| "DNSRules_AllValid (r # rs) = rbind (DNSRule_IsValid r) (\<lambda>b. if b then DNSRules_AllValid rs else Inr False)"

fun NewDNSRule :: "libs \<Rightarrow> bool \<Rightarrow> dns_rule_options \<Rightarrow> go_error + rule \<times> rule_action option"
and NewDNSSubRules :: "libs \<Rightarrow> nat \<Rightarrow> dns_rule_options list \<Rightarrow> go_error + rule list" where
  "NewDNSRule L checkServer (DNSRuleOptions type c a mode rules invert la) =
     (if type = [] \<or> type = ''default'' then
        (if conds_empty c \<and> a = zero_dns_rule_action then Inl (ENew ''missing conditions'')
         else if missing_server checkServer a then Inl (ENew ''missing server field'')
         else NewDefaultDNSRule L c a)
      else if type = ''logical'' then
        rbind (if rules = [] then Inr False else DNSRules_AllValid rules) (\<lambda>valid.
          if \<not> valid then Inl (ENew ''missing conditions'')
          else if missing_server checkServer la then Inl (ENew ''missing server field'')
          else
            rbind (NewDNSRuleAction la) (\<lambda>action.
            rbind (logical_mode mode) (\<lambda>m.
            rbind (NewDNSSubRules L 0 rules) (\<lambda>rs. Inr (LogicalRule rs m invert, action)))))
      else Inl (ENew (''unknown rule type: '' @ type)))"
| "NewDNSSubRules L i [] = Inr []"
| "NewDNSSubRules L i (r # rs) =
     rbind (cause (''sub rule['' @ digits i @ '']'') (NewDNSRule L False r)) (\<lambda>(q, _).
     rbind (NewDNSSubRules L (Suc i) rs) (\<lambda>qs. Inr (q # qs)))"

end
