(* ===== verification/Rule_Semantics.thy ===== *)
theory Rule_Semantics
  imports Rule_Match
begin

unbundle bit_operations_syntax

text \<open>
  What the rule engine of \<open>Rule_Match\<close> computes, in terms of the conditions only. \<open>own_bits\<close> are the
  bits a default rule contributes, \<open>rule_holds\<close> is the conjunction over its groups; the properties say
  that the state machinery decides exactly these, that logical rules are the Boolean connectives, and
  that a rule set extends a rule the way concatenating the conditions would.
\<close>

section \<open>Flags\<close>

definition is_flag :: "match_state \<Rightarrow> bool" where
  "is_flag f \<longleftrightarrow> f \<in> {ruleMatchSourceAddress, ruleMatchSourcePort, ruleMatchDestinationAddress, ruleMatchDestinationPort}"

lemmas flag_defs = ruleMatchSourceAddress_def ruleMatchSourcePort_def
  ruleMatchDestinationAddress_def ruleMatchDestinationPort_def

lemma has_flag [simp]:
  "has ruleMatchSourceAddress f \<longleftrightarrow> f = ruleMatchSourceAddress"
  "has ruleMatchSourcePort f \<longleftrightarrow> f = ruleMatchSourcePort"
  "has ruleMatchDestinationAddress f \<longleftrightarrow> f = ruleMatchDestinationAddress"
  "has ruleMatchDestinationPort f \<longleftrightarrow> f = ruleMatchDestinationPort" if "is_flag f"
  using that by (auto simp: is_flag_def has_def flag_defs)

lemma flag_distinct [simp]:
  "ruleMatchSourceAddress \<noteq> ruleMatchSourcePort" "ruleMatchSourceAddress \<noteq> ruleMatchDestinationAddress"
  "ruleMatchSourceAddress \<noteq> ruleMatchDestinationPort" "ruleMatchSourcePort \<noteq> ruleMatchDestinationAddress"
  "ruleMatchSourcePort \<noteq> ruleMatchDestinationPort" "ruleMatchDestinationAddress \<noteq> ruleMatchDestinationPort"
  by (simp_all add: flag_defs)

lemma is_flag_simps [simp]: "is_flag ruleMatchSourceAddress" "is_flag ruleMatchSourcePort"
  "is_flag ruleMatchDestinationAddress" "is_flag ruleMatchDestinationPort"
  by (simp_all add: is_flag_def)

lemma valid_flag [simp]: "is_flag f \<Longrightarrow> valid_state f"
  by (auto simp: is_flag_def valid_state_def flag_defs)

lemma has_absorb: "is_flag f \<Longrightarrow> has s f \<Longrightarrow> s OR f = s"
proof -
  assume f: "is_flag f" and h: "has s f"
  obtain k where k: "f = push_bit k 1" using f unfolding is_flag_def flag_defs by blast
  have "bit s k" using h unfolding has_def k by (simp add: push_bit_of_1 and_exp_eq_0_iff_not_bit)
  then show "s OR f = s"
    by (intro bit_word_eqI) (auto simp: k bit_or_iff push_bit_of_1 bit_exp_iff)
qed

section \<open>Conditions do not see the evaluation flags\<close>

text \<open>Two metadata that differ only in the cache of the evaluation.\<close>

definition same_conditions :: "metadata \<Rightarrow> metadata \<Rightarrow> bool" where
  "same_conditions md md' \<longleftrightarrow> reset_rule_match_cache md = reset_rule_match_cache md'"

lemma item_match_reset: "item_match L S (reset_rule_match_cache md) it = item_match L S md it"
  by (cases it)
    (simp_all add: reset_rule_match_cache_def domain_host_def DomainItem_Match_def AdGuardDomainItem_Match_def
      DomainKeywordItem_Match_def DomainRegexItem_Match_def IPCIDRItem_Match_def IPIsPrivateItem_Match_def
      IPAcceptAnyItem_Match_def IPVersionItem_Match_def PortItem_Match_def PortRangeItem_Match_def
      ProcessItem_Match_def ProcessPathItem_Match_def ProcessPathRegexItem_Match_def PackageNameItem_Match_def
      UserItem_Match_def UserIdItem_Match_def OutboundItem_Match_def QueryTypeItem_Match_def PreferredByItem_Match_def
      split: option.split)

lemma item_match_same: "same_conditions md md' \<Longrightarrow> item_match L S md it = item_match L S md' it"
  unfolding same_conditions_def using item_match_reset by metis

lemma item_match_did [simp]: "item_match L S (md\<lparr>md_did_match := b\<rparr>) it = item_match L S md it"
  by (rule item_match_same) (simp add: same_conditions_def reset_rule_match_cache_def)

lemma matchAnyItem_did [simp]: "matchAnyItem L S its (md\<lparr>md_did_match := b\<rparr>) = matchAnyItem L S its md"
  by (simp add: matchAnyItem_def list_ex_iff)

lemma matchAnyItem_append [simp]:
  "matchAnyItem L S (a @ b) md \<longleftrightarrow> matchAnyItem L S a md \<or> matchAnyItem L S b md"
  by (simp add: matchAnyItem_def)

lemma matchAnyItem_Nil [simp]: "\<not> matchAnyItem L S [] md"
  by (simp add: matchAnyItem_def)

section \<open>The bits of one rule\<close>

definition src_hit :: "libs \<Rightarrow> services \<Rightarrow> default_items \<Rightarrow> metadata \<Rightarrow> bool" where
  "src_hit L S r md \<longleftrightarrow> matchAnyItem L S (sourceAddressItems r) md \<or>
     destinationIPCIDRMatchesSource r md \<and> matchAnyItem L S (destinationIPCIDRItems r) md"

definition dst_hit :: "libs \<Rightarrow> services \<Rightarrow> default_items \<Rightarrow> metadata \<Rightarrow> bool" where
  "dst_hit L S r md \<longleftrightarrow> matchAnyItem L S (destinationAddressItems r) md \<or>
     destinationIPCIDRMatchesDestination r md \<and> matchAnyItem L S (destinationIPCIDRItems r) md"

definition own_bits :: "libs \<Rightarrow> services \<Rightarrow> default_items \<Rightarrow> metadata \<Rightarrow> match_state" where
  "own_bits L S r md =
     (if src_hit L S r md then ruleMatchSourceAddress else 0) OR
     (if matchAnyItem L S (sourcePortItems r) md then ruleMatchSourcePort else 0) OR
     (if dst_hit L S r md then ruleMatchDestinationAddress else 0) OR
     (if matchAnyItem L S (destinationPortItems r) md then ruleMatchDestinationPort else 0)"

definition touched :: "default_items \<Rightarrow> metadata \<Rightarrow> bool" where
  "touched r md \<longleftrightarrow> requiresSourceAddressMatch r md \<or> sourcePortItems r \<noteq> [] \<or>
     requiresDestinationAddressMatch r md \<or> destinationPortItems r \<noteq> []"

lemma valid_own_bits [simp]: "valid_state (own_bits L S r md)"
  by (simp add: own_bits_def)

lemma group_step_eq:
  "group_step L S its f (st, md) =
     (st OR (if matchAnyItem L S its md then f else 0), md\<lparr>md_did_match := md_did_match md \<or> its \<noteq> []\<rparr>)"
  by (auto simp: group_step_def Let_def)

lemma cidr_step_eq:
  "is_flag f \<Longrightarrow> cidr_step L S active its f (st, md) =
     (st OR (if active \<and> matchAnyItem L S its md then f else 0), md\<lparr>md_did_match := md_did_match md \<or> active\<rparr>)"
  by (auto simp: cidr_step_def Let_def has_absorb)

lemma cidr_did [simp]:
  "destinationIPCIDRMatchesSource r (md\<lparr>md_did_match := b\<rparr>) = destinationIPCIDRMatchesSource r md"
  "destinationIPCIDRMatchesDestination r (md\<lparr>md_did_match := b\<rparr>) = destinationIPCIDRMatchesDestination r md"
  "state_allowed r (md\<lparr>md_did_match := b\<rparr>) = state_allowed r md"
  by (simp_all add: fun_eq_iff destinationIPCIDRMatchesSource_def destinationIPCIDRMatchesDestination_def
      state_allowed_def requiresSourceAddressMatch_def requiresDestinationAddressMatch_def)

lemma or_if_merge:
  fixes f x :: match_state
  shows "(if a then f else 0) OR ((if b then f else 0) OR x) = (if a \<or> b then f else 0) OR x"
  by simp

lemma group_states_eq:
  "group_states L S r md st =
     (st OR own_bits L S r md, md\<lparr>md_did_match := md_did_match md \<or> touched r md\<rparr>)"
proof -
  have 1: "fst (group_states L S r md st) =
      ((((st OR (if matchAnyItem L S (sourceAddressItems r) md then ruleMatchSourceAddress else 0)) OR
       (if destinationIPCIDRMatchesSource r md \<and> matchAnyItem L S (destinationIPCIDRItems r) md
        then ruleMatchSourceAddress else 0)) OR
       (if matchAnyItem L S (sourcePortItems r) md then ruleMatchSourcePort else 0)) OR
      (if matchAnyItem L S (destinationAddressItems r) md then ruleMatchDestinationAddress else 0) OR
       (if destinationIPCIDRMatchesDestination r md \<and> matchAnyItem L S (destinationIPCIDRItems r) md
        then ruleMatchDestinationAddress else 0)) OR
      (if matchAnyItem L S (destinationPortItems r) md then ruleMatchDestinationPort else 0)"
    unfolding group_states_def Let_def group_step_eq cidr_step_eq [OF is_flag_simps(1)]
      cidr_step_eq [OF is_flag_simps(3)]
    by (simp only: fst_conv snd_conv matchAnyItem_did cidr_did or.assoc)
  then have "fst (group_states L S r md st) = st OR own_bits L S r md"
    unfolding own_bits_def src_hit_def dst_hit_def by (simp only: or.assoc or_if_merge)
  moreover have "snd (group_states L S r md st) = md\<lparr>md_did_match := md_did_match md \<or> touched r md\<rparr>"
    unfolding group_states_def Let_def group_step_eq cidr_step_eq [OF is_flag_simps(1)]
      cidr_step_eq [OF is_flag_simps(3)]
    by (simp add: touched_def requiresSourceAddressMatch_def requiresDestinationAddressMatch_def
        del: imp_disjL, rule arg_cong [of _ _ "\<lambda>b. md\<lparr>md_did_match := b\<rparr>"], blast)
  ultimately show ?thesis by (simp add: prod_eq_iff)
qed

lemma items_step_fst: "fst (items_step L S its md) \<longleftrightarrow> (\<forall>it \<in> set its. item_match L S md it)"
  by (induction its arbitrary: md) (auto simp: Let_def)

lemma items_step_snd: "\<exists>b. snd (items_step L S its md) = md\<lparr>md_did_match := b\<rparr>"
proof (induction its arbitrary: md)
  case Nil
  then show ?case by (intro exI [of _ "md_did_match md"]) simp
next
  case (Cons it its)
  show ?case using Cons.IH [of "md\<lparr>md_did_match := True\<rparr>"] by (auto simp: Let_def)
qed

lemma items_step_did:
  "fst (items_step L S its md) \<Longrightarrow>
     md_did_match (snd (items_step L S its md)) \<longleftrightarrow> md_did_match md \<or> its \<noteq> []"
  by (induction its arbitrary: md) (auto simp: Let_def split: if_splits)

section \<open>One default rule\<close>

definition items_hold :: "libs \<Rightarrow> services \<Rightarrow> default_items \<Rightarrow> metadata \<Rightarrow> bool" where
  "items_hold L S r md \<longleftrightarrow> (\<forall>it \<in> set (items r). item_match L S md it)"

text \<open>An inverted rule whose only conditions are IP conditions is left open before a DNS lookup.\<close>

definition deferred :: "default_items \<Rightarrow> metadata \<Rightarrow> bool" where
  "deferred r md \<longleftrightarrow> md_ignore_destination_ipcidr_match md \<and> \<not> md_did_match md \<and> \<not> touched r md \<and>
     items r = [] \<and> destinationIPCIDRItems r \<noteq> []"

text \<open>The states a default rule yields, given the states of its rule-set item.\<close>

definition inner_states ::
  "libs \<Rightarrow> services \<Rightarrow> default_items \<Rightarrow> (metadata \<Rightarrow> match_state \<Rightarrow> match_state_set) option \<Rightarrow> metadata \<Rightarrow> match_state \<Rightarrow> match_state set" where
  "inner_states L S r f md base =
     {st \<in> (case f of None \<Rightarrow> {base OR own_bits L S r md}
                  | Some g \<Rightarrow> states (g (md\<lparr>md_did_match := True\<rparr>) (base OR own_bits L S r md))).
      state_allowed r md st}"

lemma default_states:
  assumes b: "valid_state base" and ne: "allItems r \<noteq> [] \<or> f \<noteq> None"
  shows "states (fst (default_matchStatesWithBase L S r f invert md base)) =
    (if \<not> invert then (if items_hold L S r md then inner_states L S r f md base else {})
     else if items_hold L S r md \<and> inner_states L S r f md 0 \<noteq> {} \<and>
             \<not> (f = None \<and> deferred r md \<and> inner_states L S r f md 0 = {0}) then {} else {base})"
proof -
  let ?b = "if invert then 0 else base"
  let ?md1 = "md\<lparr>md_did_match := md_did_match md \<or> touched r md\<rparr>"
  have vb: "valid_state (?b OR own_bits L S r md)" using b by simp
  obtain ok md2 where it: "items_step L S (items r) ?md1 = (ok, md2)" by fastforce
  have ok: "ok \<longleftrightarrow> items_hold L S r md" using items_step_fst [of L S "items r" ?md1] it by (auto simp: items_hold_def)
  obtain d where md2: "md2 = md\<lparr>md_did_match := d\<rparr>" using items_step_snd [of L S "items r" ?md1] it by auto
  have d: "d \<longleftrightarrow> md_did_match md \<or> touched r md \<or> items r \<noteq> []" if ok
    using items_step_did [of L S "items r" ?md1] it that md2 by auto
  have fail: "states (invertedFailure invert base) = (if invert then {base} else {})"
    using b by (simp add: invertedFailure_def state_simps)
  define s where "s = filterStates (state_allowed r md)
    (case f of None \<Rightarrow> singleRuleMatchState (?b OR own_bits L S r md)
             | Some g \<Rightarrow> g (md\<lparr>md_did_match := True\<rparr>) (?b OR own_bits L S r md))"
  have sts: "states s = inner_states L S r f md ?b"
    using vb unfolding s_def by (cases f) (auto simp: inner_states_def states_filter states_single)
  have single: "s = emptyRuleMatchState \<longleftrightarrow> states s = {0}"
    using states_inject [of s emptyRuleMatchState] states_empty_state by metis
  have eq: "fst (default_matchStatesWithBase L S r f invert md base) =
      (if \<not> ok \<or> isEmpty s then invertedFailure invert base
       else if invert then
         (if md_ignore_destination_ipcidr_match md \<and> s = emptyRuleMatchState \<and> f = None \<and> \<not> d \<and>
             destinationIPCIDRItems r \<noteq> []
          then withBase emptyRuleMatchState base else 0)
       else s)"
    using ne by (cases f) (simp_all add: default_matchStatesWithBase_def group_states_eq it md2 s_def)
  show ?thesis
    unfolding eq if_distrib [of states] fail states_zero states_withBase [OF b] states_empty_state single
      isEmpty_iff sts ok [symmetric]
    using d by (auto simp: deferred_def)
qed

lemma has_own_bits [simp]:
  "has (own_bits L S r md) ruleMatchSourceAddress \<longleftrightarrow> src_hit L S r md"
  "has (own_bits L S r md) ruleMatchSourcePort \<longleftrightarrow> matchAnyItem L S (sourcePortItems r) md"
  "has (own_bits L S r md) ruleMatchDestinationAddress \<longleftrightarrow> dst_hit L S r md"
  "has (own_bits L S r md) ruleMatchDestinationPort \<longleftrightarrow> matchAnyItem L S (destinationPortItems r) md"
  by (simp_all add: own_bits_def has_or has_zero flag_distinct [symmetric])

text \<open>A rule without rule sets, as a condition: every condition outside the groups holds, and every group
  that has conditions has one that holds.\<close>

definition rule_holds :: "libs \<Rightarrow> services \<Rightarrow> default_items \<Rightarrow> metadata \<Rightarrow> bool" where
  "rule_holds L S r md \<longleftrightarrow> items_hold L S r md \<and>
     (requiresSourceAddressMatch r md \<longrightarrow> src_hit L S r md) \<and>
     (sourcePortItems r \<noteq> [] \<longrightarrow> matchAnyItem L S (sourcePortItems r) md) \<and>
     (requiresDestinationAddressMatch r md \<longrightarrow> dst_hit L S r md) \<and>
     (destinationPortItems r \<noteq> [] \<longrightarrow> matchAnyItem L S (destinationPortItems r) md)"

lemma rule_holds_alt: "rule_holds L S r md \<longleftrightarrow> items_hold L S r md \<and> state_allowed r md (own_bits L S r md)"
  by (simp add: rule_holds_def state_allowed_def)

lemma untouched_bits: "\<not> touched r md \<Longrightarrow> own_bits L S r md = 0"
  by (auto simp: touched_def own_bits_def src_hit_def dst_hit_def requiresSourceAddressMatch_def
      requiresDestinationAddressMatch_def)

lemma inner_None:
  "inner_states L S r None md base =
     (if state_allowed r md (base OR own_bits L S r md) then {base OR own_bits L S r md} else {})"
  by (auto simp: inner_states_def)

lemma matches_states: "matches L S r md \<longleftrightarrow> states (fst (rule_matchStatesWithBase L S r md 0)) \<noteq> {}"
  by (simp add: matches_def rule_Match_def split_beta isEmpty_iff)

lemma default_rule_matches:
  "matches L S (DefaultRule r None invert) md \<longleftrightarrow>
     allItems r = [] \<or> (rule_holds L S r md \<and> \<not> (invert \<and> deferred r md)) = (\<not> invert)"
proof (cases "allItems r = []")
  case True
  then show ?thesis by (simp add: matches_states default_matchStatesWithBase_def states_withBase states_empty_state)
next
  case False
  then show ?thesis
    using default_states [of 0 r None L S invert md] untouched_bits [of r md L S]
    by (auto simp: matches_states rule_holds_alt inner_None deferred_def)
qed

text \<open>C17: A rule without rule sets decides its conditions. It matches when it has no condition at all;
  otherwise, not inverted, exactly when every plain condition holds and every group of address and port
  conditions that is present has a condition that holds; inverted, exactly in the other case, or when the
  decision is deferred to the response of a DNS lookup.\<close>

theorem default_rule_semantics:
  "matches L S (DefaultRule r None invert) md \<longleftrightarrow>
     allItems r = [] \<or> (rule_holds L S r md \<and> \<not> (invert \<and> deferred r md)) = (\<not> invert)"
  by (rule default_rule_matches)

section \<open>Logical rules\<close>

lemma states_foldl_merge: "states (foldl merge s xs) = states s \<union> (\<Union>x \<in> set xs. states x)"
  by (induction xs arbitrary: s) (auto simp: states_merge)

lemma and_states_iff:
  assumes "states s \<noteq> {}"
  shows "(case and_states ns s of None \<Rightarrow> False | Some t \<Rightarrow> states t \<noteq> {}) \<longleftrightarrow> (\<forall>n \<in> set ns. states n \<noteq> {})"
    and "and_states ns s = None \<longleftrightarrow> (\<exists>n \<in> set ns. states n = {})"
proof -
  have ne: "states (combine s n) \<noteq> {}" if "states n \<noteq> {}" "states s \<noteq> {}" for s n
    using that by (auto simp: states_combine)
  show "(case and_states ns s of None \<Rightarrow> False | Some t \<Rightarrow> states t \<noteq> {}) \<longleftrightarrow> (\<forall>n \<in> set ns. states n \<noteq> {})"
    using assms by (induction ns arbitrary: s) (simp_all add: isEmpty_iff ne)
  show "and_states ns s = None \<longleftrightarrow> (\<exists>n \<in> set ns. states n = {})"
    using assms by (induction ns arbitrary: s) (simp_all add: isEmpty_iff ne)
qed

text \<open>C23: Logical rules are the Boolean connectives. A rule of mode \<^verbatim>\<open>and\<close> matches when all of its rules match
  on their own, any other mode when one does, and inversion negates the answer.\<close>

theorem logical_rule_semantics:
  "matches L S (LogicalRule rules mode invert) md \<longleftrightarrow>
     (if mode = LogicalTypeAnd then list_all (\<lambda>r. matches L S r (reset_rule_cache md)) rules
      else list_ex (\<lambda>r. matches L S r (reset_rule_cache md)) rules) = (\<not> invert)"
proof -
  let ?ns = "map (\<lambda>rule. fst (rule_matchStatesWithBase L S rule (reset_rule_cache md) 0)) rules"
  have e: "states (withBase emptyRuleMatchState 0) = {0}" by (simp add: states_withBase states_empty_state)
  have "matches L S (LogicalRule rules mode invert) md \<longleftrightarrow> states (logical_states mode invert 0 0 ?ns) \<noteq> {}"
    by (simp add: matches_states)
  also have "\<dots> \<longleftrightarrow> (if mode = LogicalTypeAnd then \<forall>n \<in> set ?ns. states n \<noteq> {} else \<exists>n \<in> set ?ns. states n \<noteq> {}) = (\<not> invert)"
  proof (cases "mode = LogicalTypeAnd")
    case True
    then show ?thesis
      using and_states_iff [of "withBase emptyRuleMatchState 0" ?ns] e
      by (auto simp: logical_states_def states_zero split: option.splits)
  next
    case False
    then show ?thesis
      using e by (auto simp: logical_states_def Let_def isEmpty_iff states_foldl_merge states_zero)
  qed
  finally show ?thesis by (auto simp: matches_states list_all_iff list_ex_iff)
qed

section \<open>Rule sets extend a rule\<close>

text \<open>The conditions of two rules side by side.\<close>

definition merge_items :: "default_items \<Rightarrow> default_items \<Rightarrow> default_items" where
  "merge_items a b =
     \<lparr>items = items a @ items b,
      sourceAddressItems = sourceAddressItems a @ sourceAddressItems b,
      sourcePortItems = sourcePortItems a @ sourcePortItems b,
      destinationAddressItems = destinationAddressItems a @ destinationAddressItems b,
      destinationIPCIDRItems = destinationIPCIDRItems a @ destinationIPCIDRItems b,
      destinationPortItems = destinationPortItems a @ destinationPortItems b,
      allItems = allItems a @ allItems b\<rparr>"

text \<open>Every condition a constructor adds to a group is in \<^verbatim>\<open>allItems\<close>.\<close>

definition items_wf :: "default_items \<Rightarrow> bool" where
  "items_wf r \<longleftrightarrow> set (items r) \<union> set (sourceAddressItems r) \<union> set (sourcePortItems r) \<union>
     set (destinationAddressItems r) \<union> set (destinationIPCIDRItems r) \<union> set (destinationPortItems r) \<subseteq>
     set (allItems r)"

lemma items_hold_merge [simp]: "items_hold L S (merge_items a b) md \<longleftrightarrow> items_hold L S a md \<and> items_hold L S b md"
  by (auto simp: items_hold_def merge_items_def)

lemma hit_merge [simp]:
  "src_hit L S (merge_items a b) md \<longleftrightarrow> src_hit L S a md \<or> src_hit L S b md"
  "dst_hit L S (merge_items a b) md \<longleftrightarrow> dst_hit L S a md \<or> dst_hit L S b md"
  "matchAnyItem L S (sourcePortItems (merge_items a b)) md \<longleftrightarrow>
     matchAnyItem L S (sourcePortItems a) md \<or> matchAnyItem L S (sourcePortItems b) md"
  "matchAnyItem L S (destinationPortItems (merge_items a b)) md \<longleftrightarrow>
     matchAnyItem L S (destinationPortItems a) md \<or> matchAnyItem L S (destinationPortItems b) md"
  by (auto simp: src_hit_def dst_hit_def merge_items_def destinationIPCIDRMatchesSource_def
      destinationIPCIDRMatchesDestination_def)

lemma own_bits_merge: "own_bits L S (merge_items a b) md = own_bits L S a md OR own_bits L S b md"
proof -
  have expand: "(if p \<or> q then f else 0) = (if p then f else 0) OR (if q then f else 0)" for p q and f :: match_state
    by simp
  show ?thesis unfolding own_bits_def hit_merge expand by (simp only: or.assoc or.commute or.left_commute)
qed

lemma requires_merge:
  "requiresSourceAddressMatch (merge_items a b) md \<longleftrightarrow> requiresSourceAddressMatch a md \<or> requiresSourceAddressMatch b md"
  "requiresDestinationAddressMatch (merge_items a b) md \<longleftrightarrow>
     requiresDestinationAddressMatch a md \<or> requiresDestinationAddressMatch b md"
  by (auto simp: merge_items_def requiresSourceAddressMatch_def requiresDestinationAddressMatch_def
      destinationIPCIDRMatchesSource_def destinationIPCIDRMatchesDestination_def)

lemma state_allowed_merge: "state_allowed (merge_items a b) md st \<longleftrightarrow> state_allowed a md st \<and> state_allowed b md st"
proof -
  have "sourcePortItems (merge_items a b) \<noteq> [] \<longleftrightarrow> sourcePortItems a \<noteq> [] \<or> sourcePortItems b \<noteq> []"
    "destinationPortItems (merge_items a b) \<noteq> [] \<longleftrightarrow> destinationPortItems a \<noteq> [] \<or> destinationPortItems b \<noteq> []"
    by (simp_all add: merge_items_def)
  then show ?thesis unfolding state_allowed_def requires_merge by blast
qed

lemma reset_flags [simp]:
  "md_ignore_destination_ipcidr_match (reset_rule_match_cache md) = md_ignore_destination_ipcidr_match md"
  "md_ipcidr_match_source (reset_rule_match_cache md) = md_ipcidr_match_source md"
  by (simp_all add: reset_rule_match_cache_def)

lemma cidr_reset [simp]:
  "destinationIPCIDRMatchesSource r (reset_rule_match_cache md) = destinationIPCIDRMatchesSource r md"
  "destinationIPCIDRMatchesDestination r (reset_rule_match_cache md) = destinationIPCIDRMatchesDestination r md"
  "matchAnyItem L S its (reset_rule_match_cache md) = matchAnyItem L S its md"
  by (simp_all add: destinationIPCIDRMatchesSource_def destinationIPCIDRMatchesDestination_def
      matchAnyItem_def list_ex_iff item_match_reset)

lemma conditions_reset [simp]:
  "items_hold L S r (reset_rule_match_cache md) = items_hold L S r md"
  "own_bits L S r (reset_rule_match_cache md) = own_bits L S r md"
  "state_allowed r (reset_rule_match_cache md) = state_allowed r md"
  by (simp_all add: fun_eq_iff items_hold_def item_match_reset own_bits_def src_hit_def dst_hit_def
      state_allowed_def requiresSourceAddressMatch_def requiresDestinationAddressMatch_def)

text \<open>What a rule of the set adds to the rule that refers to the set: a plain rule adds its conditions, an
  inverted one and one without conditions is decided on its own.\<close>

definition extended_match :: "libs \<Rightarrow> services \<Rightarrow> default_items \<Rightarrow> default_items \<Rightarrow> bool \<Rightarrow> metadata \<Rightarrow> bool" where
  "extended_match L S r q invert md =
     (if invert \<or> allItems q = []
      then matches L S (DefaultRule r None False) md \<and>
           matches L S (DefaultRule q None invert) (reset_rule_match_cache md)
      else matches L S (DefaultRule (merge_items r q) None False) md)"

lemma items_wf_Nil:
  "items_wf r \<Longrightarrow> allItems r = [] \<Longrightarrow> rule_holds L S r md"
  by (auto simp: items_wf_def rule_holds_def items_hold_def requiresSourceAddressMatch_def
      requiresDestinationAddressMatch_def destinationIPCIDRMatchesSource_def destinationIPCIDRMatchesDestination_def)

lemma extended_match_states:
  assumes wf: "items_wf r"
  shows "extended_match L S r q invert md \<longleftrightarrow> items_hold L S r md \<and>
    (\<exists>st \<in> states (fst (rule_matchStatesWithBase L S (DefaultRule q None invert) (reset_rule_match_cache md)
        (own_bits L S r md))). state_allowed r md st)"
proof -
  let ?md = "reset_rule_match_cache md" and ?b = "own_bits L S r md"
  have r: "matches L S (DefaultRule r None False) md \<longleftrightarrow> items_hold L S r md \<and> state_allowed r md ?b"
    using default_rule_matches items_wf_Nil [OF wf] by (auto simp: rule_holds_alt)
  consider "allItems q = []" | "allItems q \<noteq> []" invert | "allItems q \<noteq> []" "\<not> invert" by blast
  then show ?thesis
  proof cases
    case 1
    then show ?thesis
      using r default_rule_matches [of L S q invert ?md]
      by (simp add: extended_match_def default_matchStatesWithBase_def states_withBase states_empty_state)
  next
    case 2
    then have "states (fst (rule_matchStatesWithBase L S (DefaultRule q None invert) ?md ?b)) =
        (if matches L S (DefaultRule q None invert) ?md then {?b} else {})"
      by (simp add: matches_states default_states)
    then show ?thesis using 2 r by (simp add: extended_match_def)
  next
    case 3
    then have "states (fst (rule_matchStatesWithBase L S (DefaultRule q None invert) ?md ?b)) =
        (if items_hold L S q md \<and> state_allowed q md (?b OR own_bits L S q md) then {?b OR own_bits L S q md} else {})"
      by (simp add: default_states inner_None)
    moreover have "allItems (merge_items r q) \<noteq> []" using 3 by (simp add: merge_items_def)
    ultimately show ?thesis
      using 3 default_rule_matches [of L S "merge_items r q" False md]
      by (auto simp: extended_match_def rule_holds_alt own_bits_merge state_allowed_merge)
  qed
qed

lemma UN_filter_nonempty:
  "{st \<in> (\<Union>(qs, c) \<in> A. \<Union>(q, i) \<in> set qs. T q i). P st} \<noteq> {} \<longleftrightarrow>
     (\<exists>(qs, c) \<in> A. \<exists>(q, i) \<in> set qs. \<exists>st \<in> T q i. P st)"
  by (simp add: split_beta) blast

text \<open>A rule set extends the rule that refers to it. Let the sets consist of default rules and let the
  rule look at IP conditions the way the sets do. Then the rule matches exactly when some rule of some set
  extends it to a match: a plain rule of the set by putting its conditions next to those of the referring
  rule, group by group, so that a group is satisfied by a condition of either; an inverted rule, or one
  without conditions, by matching on its own beside the referring rule.\<close>

theorem rule_set_extends:
  assumes wf: "items_wf r"
    and src: "md_ipcidr_match_source md = matchSource" and acc: "md_ipcidr_accept_empty md = acceptEmpty"
    and sets: "sets = map (\<lambda>(qs, c). RuleSet (map (\<lambda>(q, i). DefaultRule q None i) qs) c) css"
  shows "matches L S (DefaultRule r (Some (RuleSetItem tags sets matchSource acceptEmpty)) False) md \<longleftrightarrow>
    (\<exists>(qs, c) \<in> set css. \<exists>(q, i) \<in> set qs. extended_match L S r q i md)"
proof -
  let ?f = "\<lambda>md b. rule_set_item_matchStatesWithBase L S (RuleSetItem tags sets matchSource acceptEmpty) md b"
  let ?md = "reset_rule_match_cache md" and ?b = "own_bits L S r md"
  have md: "reset_rule_match_cache ((reset_rule_match_cache (md\<lparr>md_did_match := True\<rparr>))
      \<lparr>md_ipcidr_match_source := matchSource, md_ipcidr_accept_empty := acceptEmpty\<rparr>) = ?md"
    using src acc by (cases md) (simp add: reset_rule_match_cache_def)
  have "states (?f (md\<lparr>md_did_match := True\<rparr>) ?b) = (\<Union>(qs, c) \<in> set css. \<Union>(q, i) \<in> set qs.
      states (fst (rule_matchStatesWithBase L S (DefaultRule q None i) ?md ?b)))"
    by (simp add: sets states_foldl_merge states_zero md split_beta)
  then have "inner_states L S r (Some ?f) md 0 = {st \<in> (\<Union>(qs, c) \<in> set css. \<Union>(q, i) \<in> set qs.
      states (fst (rule_matchStatesWithBase L S (DefaultRule q None i) ?md ?b))). state_allowed r md st}"
    by (simp add: inner_states_def)
  moreover have "matches L S (DefaultRule r (Some (RuleSetItem tags sets matchSource acceptEmpty)) False) md \<longleftrightarrow>
      items_hold L S r md \<and> inner_states L S r (Some ?f) md 0 \<noteq> {}"
    using default_states [of 0 r "Some ?f" L S False md]
    by (simp add: matches_states del: rule_set_item_matchStatesWithBase.simps)
  ultimately have "matches L S (DefaultRule r (Some (RuleSetItem tags sets matchSource acceptEmpty)) False) md \<longleftrightarrow>
      items_hold L S r md \<and> (\<exists>(qs, c) \<in> set css. \<exists>(q, i) \<in> set qs.
        \<exists>st \<in> states (fst (rule_matchStatesWithBase L S (DefaultRule q None i) ?md ?b)). state_allowed r md st)"
    by (simp only: UN_filter_nonempty)
  then show ?thesis unfolding extended_match_states [OF wf] by blast
qed

text \<open>A connection to port 443 of a host whose name has the keyword of the rule set.\<close>

definition demo_libs :: libs where
  "demo_libs = \<lparr>lib_matcher = (\<lambda>domains suffixes legacy host. host \<in> set domains), lib_adguard = (\<lambda>_ _. False),
     lib_ip_set = (\<lambda>es. Inr (\<lambda>a. list_ex (\<lambda>e. case e of Inl p \<Rightarrow> prefix_contains p a | Inr b \<Rightarrow> a = b) es)),
     lib_is_public = (\<lambda>_. True), lib_regexp = (\<lambda>_. Inl ''unsupported''), lib_lower = id, lib_fold = (=),
     lib_dns_type = (\<lambda>_. None), lib_prefix_string = (\<lambda>_. []), lib_trim = id\<rparr>"

definition demo_services :: services where
  "demo_services = \<lparr>sv_default_network_interface = None, sv_network_interfaces = [], sv_my_interfaces = [],
     sv_finder_interfaces = [], sv_monitor_default = None, sv_wifi_ssid = [], sv_wifi_bssid = [],
     sv_clash_mode = None, sv_outbound = (\<lambda>_. None), sv_is_android = False\<rparr>"

definition demo_md :: metadata where
  "demo_md = \<lparr>md_inbound = ''in'', md_ip_version = 4, md_network = ''tcp'',
     md_source = \<lparr>sa_addr = Some (V4 1), sa_port = 5000, sa_fqdn = []\<rparr>,
     md_destination = \<lparr>sa_addr = None, sa_port = 443, sa_fqdn = ''ads.example''\<rparr>,
     md_user = [], md_outbound = [], md_protocol = [], md_domain = [], md_client = [],
     md_destination_addresses = [], md_process_info = None, md_query_type = 0,
     md_ipcidr_match_source = False, md_ipcidr_accept_empty = False,
     md_source_address_match = False, md_source_port_match = False, md_destination_address_match = False,
     md_destination_port_match = False, md_did_match = False, md_ignore_destination_ipcidr_match = False\<rparr>"

definition no_items :: default_items where
  "no_items = \<lparr>items = [], sourceAddressItems = [], sourcePortItems = [], destinationAddressItems = [],
     destinationIPCIDRItems = [], destinationPortItems = [], allItems = []\<rparr>"

definition demo_rule :: default_items where
  "demo_rule = no_items\<lparr>destinationPortItems := [NewPortItem False [443]], allItems := [NewPortItem False [443]]\<rparr>"

definition demo_set_rule :: default_items where
  "demo_set_rule = no_items\<lparr>destinationAddressItems := [NewDomainKeywordItem [''ads'']],
     allItems := [NewDomainKeywordItem [''ads'']]\<rparr>"

theorem rule_set_extends_witness:
  "matches demo_libs demo_services
     (DefaultRule demo_rule (Some (RuleSetItem [''block''] [RuleSet [DefaultRule demo_set_rule None False] False] False False)) False)
     demo_md"
proof -
  have wf: "items_wf demo_rule" by (simp add: items_wf_def demo_rule_def no_items_def)
  have "rule_holds demo_libs demo_services (merge_items demo_rule demo_set_rule) demo_md"
    unfolding rule_holds_alt by code_simp
  then have "extended_match demo_libs demo_services demo_rule demo_set_rule False demo_md"
    using default_rule_matches [of demo_libs demo_services "merge_items demo_rule demo_set_rule" False demo_md]
    by (auto simp: extended_match_def demo_set_rule_def no_items_def)
  then show ?thesis
    using rule_set_extends [OF wf, of demo_md False False _ "[([(demo_set_rule, False)], False)]" demo_libs demo_services]
    by (simp add: demo_md_def)
qed

end
