(* ===== verification/Dns_Rule.thy ===== *)
theory Dns_Rule
  imports Rule_Semantics
begin

unbundle bit_operations_syntax

text \<open>
  The two phases of a DNS rule, \<^verbatim>\<open>route/rule/rule_dns.go\<close>. Before the lookup \<^verbatim>\<open>Match\<close> leaves the IP conditions
  out; only a rule that reports an address limit is checked again against the response. So a rule
  without an address limit must decide the same in both phases.
\<close>

section \<open>The check of a response\<close>

text \<open>\<^verbatim>\<open>addressLimitResponseCheck\<close> of \<^verbatim>\<open>dns/router.go\<close>: the rule is evaluated again on a copy of the metadata with
  the addresses of the response. There is no check for a rule without an address limit.\<close>

definition addressLimitResponseCheck ::
  "libs \<Rightarrow> services \<Rightarrow> rule option \<Rightarrow> metadata \<Rightarrow> (addr list \<Rightarrow> bool) option" where
  "addressLimitResponseCheck L S rule md =
     (case rule of
        None \<Rightarrow> None
      | Some r \<Rightarrow>
          if \<not> WithAddressLimit r then None
          else Some (\<lambda>responseAddrs. fst (dns_MatchAddressLimit L S r (md\<lparr>md_destination_addresses := responseAddrs\<rparr>))))"

section \<open>Rules without IP conditions\<close>

text \<open>The conditions that look at the addresses of the destination.\<close>

fun reads_answer :: "item \<Rightarrow> bool" where
  "reads_answer (IPCIDRItem ipSet isSource description) = (\<not> isSource)"
| "reads_answer (IPIsPrivateItem isSource) = (\<not> isSource)"
| "reads_answer IPAcceptAnyItem = True"
| "reads_answer (PreferredByItem tags outbounds) = True"
| "reads_answer it = False"

text \<open>Outside the group of the destination IP conditions, nothing looks at them.\<close>

definition answer_free :: "default_items \<Rightarrow> bool" where
  "answer_free r \<longleftrightarrow> list_all (\<lambda>it. \<not> reads_answer it)
     (items r @ sourceAddressItems r @ sourcePortItems r @ destinationAddressItems r @ destinationPortItems r)"

fun no_cidr :: "rule \<Rightarrow> bool" and no_cidr_item :: "rule_set_item \<Rightarrow> bool" and no_cidr_set :: "rule_set \<Rightarrow> bool" where
  "no_cidr (DefaultRule r set_item invert) \<longleftrightarrow> destinationIPCIDRItems r = [] \<and> answer_free r \<and>
     (case set_item of None \<Rightarrow> True | Some i \<Rightarrow> no_cidr_item i)"
| "no_cidr (LogicalRule rules mode invert) \<longleftrightarrow> list_all no_cidr rules"
| "no_cidr_item (RuleSetItem tags sets matchSource acceptEmpty) \<longleftrightarrow> list_all no_cidr_set sets"
| "no_cidr_set (RuleSet rules c) \<longleftrightarrow> list_all no_cidr rules"

text \<open>The flag in the metadata of a rule set is right.\<close>

fun set_honest :: "rule_set \<Rightarrow> bool" where
  "set_honest (RuleSet rules c) \<longleftrightarrow> c \<or> list_all no_cidr rules"

text \<open>The rule sets are honest, no reference to one turns its IP conditions to the source, and the other groups of the
  rule do not look at the answer.\<close>

fun sets_honest :: "rule \<Rightarrow> bool" and sets_honest_item :: "rule_set_item \<Rightarrow> bool" where
  "sets_honest (DefaultRule r set_item invert) \<longleftrightarrow> answer_free r \<and>
     (case set_item of None \<Rightarrow> True | Some i \<Rightarrow> sets_honest_item i)"
| "sets_honest (LogicalRule rules mode invert) \<longleftrightarrow> list_all sets_honest rules"
| "sets_honest_item (RuleSetItem tags sets matchSource acceptEmpty) \<longleftrightarrow> \<not> matchSource \<and> list_all set_honest sets"

lemma no_address_limit:
  "\<not> WithAddressLimit r \<Longrightarrow> sets_honest r \<Longrightarrow> no_cidr r"
proof (induction r rule: WithAddressLimit.induct)
  case (1 r set_item invert)
  show ?case
  proof (cases set_item)
    case (Some i)
    obtain tags sets src acc where i: "i = RuleSetItem tags sets src acc" by (cases i)
    have "no_cidr_set s" if "s \<in> set sets" for s
    proof (cases s)
      case (RuleSet rules c)
      then show ?thesis using that 1 by (force simp: Some i list_all_iff list_ex_iff)
    qed
    then show ?thesis using 1 by (simp add: Some i list_all_iff)
  qed (use 1 in simp)
next
  case (2 rules mode invert)
  then show ?case by (auto simp: list_all_iff list_ex_iff)
qed

section \<open>The answer does not matter without IP conditions\<close>

text \<open>The metadata of the same question at another moment: the flag of the pre-lookup phase, \<^verbatim>\<open>DidMatch\<close> and the
  addresses may differ.\<close>

definition answered :: "bool \<Rightarrow> bool \<Rightarrow> addr list \<Rightarrow> metadata \<Rightarrow> metadata" where
  "answered i d a md =
     md\<lparr>md_destination_addresses := a, md_did_match := d, md_ignore_destination_ipcidr_match := i\<rparr>"

lemma item_match_answered [simp]:
  "\<not> reads_answer it \<Longrightarrow> item_match L S (answered i d a md) it = item_match L S md it"
  by (cases it)
    (simp_all add: answered_def domain_host_def DomainItem_Match_def AdGuardDomainItem_Match_def
      DomainKeywordItem_Match_def DomainRegexItem_Match_def IPCIDRItem_Match_def IPIsPrivateItem_Match_def
      IPVersionItem_Match_def PortItem_Match_def PortRangeItem_Match_def
      ProcessItem_Match_def ProcessPathItem_Match_def ProcessPathRegexItem_Match_def PackageNameItem_Match_def
      UserItem_Match_def UserIdItem_Match_def OutboundItem_Match_def QueryTypeItem_Match_def
      split: option.split)

lemma answered_commute:
  "reset_rule_cache (answered i d a md) = answered i False a (reset_rule_cache md)"
  "reset_rule_match_cache (answered i d a md) = answered i False a (reset_rule_match_cache md)"
  "(answered i d a md)\<lparr>md_did_match := b\<rparr> = answered i b a (md\<lparr>md_did_match := b\<rparr>)"
  "(answered i d a md)\<lparr>md_ipcidr_match_source := s, md_ipcidr_accept_empty := e\<rparr> =
     answered i d a (md\<lparr>md_ipcidr_match_source := s, md_ipcidr_accept_empty := e\<rparr>)"
  by (simp_all add: reset_rule_cache_def reset_rule_match_cache_def answered_def)

lemma matchAnyItem_answered:
  "list_all (\<lambda>it. \<not> reads_answer it) its \<Longrightarrow> matchAnyItem L S its (answered i d a md) = matchAnyItem L S its md"
  by (auto simp: matchAnyItem_def list_ex_iff list_all_iff)

lemma conditions_answered:
  assumes "destinationIPCIDRItems r = []" and "answer_free r"
  shows "items_hold L S r (answered i d a md) = items_hold L S r md"
    and "own_bits L S r (answered i d a md) = own_bits L S r md"
    and "state_allowed r (answered i d a md) = state_allowed r md"
    and "\<not> deferred r md'"
proof -
  show "own_bits L S r (answered i d a md) = own_bits L S r md"
    using assms by (simp add: own_bits_def src_hit_def dst_hit_def destinationIPCIDRMatchesSource_def
        destinationIPCIDRMatchesDestination_def answer_free_def matchAnyItem_answered)
  show "items_hold L S r (answered i d a md) = items_hold L S r md"
    using assms(2) by (simp add: items_hold_def answer_free_def list_all_iff)
qed (use assms(1) in \<open>simp_all add: fun_eq_iff state_allowed_def requiresSourceAddressMatch_def
  requiresDestinationAddressMatch_def destinationIPCIDRMatchesSource_def destinationIPCIDRMatchesDestination_def deferred_def\<close>)

lemma default_answered:
  assumes no: "destinationIPCIDRItems r = []" "answer_free r" and b: "valid_state base"
    and f: "\<And>g i d a md b. f = Some g \<Longrightarrow> valid_state b \<Longrightarrow> states (g (answered i d a md) b) = states (g md b)"
  shows "states (fst (default_matchStatesWithBase L S r f invert (answered i d a md) base)) =
    states (fst (default_matchStatesWithBase L S r f invert md base))"
proof (cases "allItems r = [] \<and> f = None")
  case True
  then show ?thesis by (simp add: default_matchStatesWithBase_def)
next
  case False
  have "inner_states L S r f (answered i d a md) base = inner_states L S r f md base" if "valid_state base" for base
    using f [of _ "base OR own_bits L S r md"] that
    by (cases f) (simp_all add: inner_states_def conditions_answered [OF no] answered_commute)
  then show ?thesis
    using False b default_states [of base r f L S invert "answered i d a md"] default_states [of base r f L S invert md]
    by (simp add: conditions_answered [OF no])
qed

lemma UN_states_cong: "(\<And>x. x \<in> set xs \<Longrightarrow> states (f x) = states (g x)) \<Longrightarrow>
    states (foldl merge 0 (map f xs)) = states (foldl merge 0 (map g xs))"
  by (simp add: states_foldl_merge)

lemma logical_answered:
  assumes "\<And>x. x \<in> set xs \<Longrightarrow> states (f x) = states (g x)"
  shows "logical_states mode invert base evaluationBase (map f xs) = logical_states mode invert base evaluationBase (map g xs)"
proof -
  have "map f xs = map g xs" using assms states_inject by (intro map_cong) auto
  then show ?thesis by (simp only:)
qed

lemma answered_states:
  "no_cidr r \<Longrightarrow> valid_state base \<Longrightarrow>
     states (fst (rule_matchStatesWithBase L S r (answered i d a md) base)) = states (fst (rule_matchStatesWithBase L S r md base))"
  "no_cidr_item it \<Longrightarrow> valid_state base \<Longrightarrow>
     states (rule_set_item_matchStatesWithBase L S it (answered i d a md) base) = states (rule_set_item_matchStatesWithBase L S it md base)"
  "no_cidr_set s \<Longrightarrow> valid_state base \<Longrightarrow>
     states (rule_set_matchStatesWithBase L S s (answered i d a md) base) = states (rule_set_matchStatesWithBase L S s md base)"
proof (induction r and it and s arbitrary: i d a md base and i d a md base and i d a md base
    rule: no_cidr_no_cidr_item_no_cidr_set.induct)
  case (1 r set_item invert)
  show ?case unfolding rule_matchStatesWithBase.simps
    by (rule default_answered) (use 1 in \<open>auto split: option.splits\<close>)
next
  case (2 rules mode invert)
  have nested: "states (fst (rule_matchStatesWithBase L S r (answered i False a (reset_rule_cache md)) b)) =
      states (fst (rule_matchStatesWithBase L S r (reset_rule_cache md) b))" if "r \<in> set rules" "valid_state b" for r b
    using 2 that by (auto simp: list_all_iff)
  let ?b = "if invert then 0 else base"
  have "logical_states mode invert base ?b (map (\<lambda>r. fst (rule_matchStatesWithBase L S r (answered i False a (reset_rule_cache md)) ?b)) rules) =
      logical_states mode invert base ?b (map (\<lambda>r. fst (rule_matchStatesWithBase L S r (reset_rule_cache md) ?b)) rules)"
    by (rule logical_answered, rule nested) (use 2(3) in simp_all)
  then show ?case unfolding rule_matchStatesWithBase.simps Let_def answered_commute fst_conv by (simp only:)
next
  case (3 tags sets matchSource acceptEmpty)
  show ?case unfolding rule_set_item_matchStatesWithBase.simps answered_commute
    by (rule UN_states_cong) (use 3 in \<open>auto simp: list_all_iff\<close>)
next
  case (4 rules c)
  show ?case unfolding rule_set_matchStatesWithBase.simps answered_commute
    by (rule UN_states_cong) (use 4 in \<open>auto simp: list_all_iff\<close>)
qed

lemma matches_answered: "no_cidr r \<Longrightarrow> matches L S r (answered i d a md) = matches L S r md"
  using answered_states(1) [of r 0 L S i d a md] by (simp add: matches_states)

text \<open>Evaluating a rule changes nothing of the metadata but \<^verbatim>\<open>DidMatch\<close>.\<close>

lemma rule_Match_snd: "\<exists>b. snd (rule_Match L S q md) = md\<lparr>md_did_match := b\<rparr>"
proof (cases q)
  case (DefaultRule r set_item invert)
  have "\<exists>b. snd (default_matchStatesWithBase L S r f invert md 0) = md\<lparr>md_did_match := b\<rparr>" for f
  proof -
    obtain st md1 where g: "group_states L S r md 0 = (st, md1)" by fastforce
    then obtain b1 where md1: "md1 = md\<lparr>md_did_match := b1\<rparr>" using group_states_eq [of L S r md 0] by auto
    obtain ok md2 where i: "items_step L S (items r) md1 = (ok, md2)" by fastforce
    then obtain b2 where md2: "md2 = md\<lparr>md_did_match := b2\<rparr>" using items_step_snd [of L S "items r" md1] by (auto simp: md1)
    define P where "P = (\<lambda>x. \<exists>b. x = md\<lparr>md_did_match := b\<rparr>)"
    have P: "P md" "P md2" "P (md2\<lparr>md_did_match := True\<rparr>)" by (auto simp: P_def md2 intro: exI [of _ "md_did_match md"])
    have "P (snd (default_matchStatesWithBase L S r f invert md 0))"
      unfolding default_matchStatesWithBase_def g i Let_def prod.case if_cancel using P
      by (cases f) (simp_all only: option.case prod.case if_distrib [of snd] if_distrib [of P] snd_conv if_cancel simp_thms)
    then show ?thesis by (simp add: P_def)
  qed
  then show ?thesis by (simp add: rule_Match_def DefaultRule case_prod_beta)
next
  case (LogicalRule rules mode invert)
  show ?thesis by (rule exI [of _ "md_did_match md"]) (simp add: rule_Match_def LogicalRule Let_def)
qed

lemma dns_prelookup:
  assumes "\<not> WithAddressLimit r" and "sets_honest r" and m: "dns_Match L S r md = (ok, md')"
  shows "fst (dns_MatchAddressLimit L S r (md'\<lparr>md_destination_addresses := addrs\<rparr>)) = ok"
proof -
  let ?pre = "md\<lparr>md_ignore_destination_ipcidr_match := True\<rparr>"
  have no: "no_cidr r" using assms(1,2) by (rule no_address_limit)
  obtain d where d: "snd (rule_Match L S r ?pre) = ?pre\<lparr>md_did_match := d\<rparr>" using rule_Match_snd by blast
  have ok: "ok = matches L S r ?pre" and md': "md' = (snd (rule_Match L S r ?pre))\<lparr>md_ignore_destination_ipcidr_match := False\<rparr>"
    using m by (auto simp: dns_Match_def matches_def split_beta)
  have "md'\<lparr>md_destination_addresses := addrs\<rparr> = answered False d addrs ?pre"
    unfolding md' d by (simp add: answered_def)
  then show ?thesis using matches_answered [OF no] by (simp add: dns_MatchAddressLimit_def ok flip: matches_def)
qed

section \<open>A reference that turns IP conditions to the source\<close>

text \<open>The rule of the set lists one network, and the connection does not come from it.\<close>

definition source_set_rule :: default_items where
  "source_set_rule = no_items\<lparr>destinationIPCIDRItems := [NewRawIPCIDRItem False (\<lambda>a. a = V4 9)],
     allItems := [NewRawIPCIDRItem False (\<lambda>a. a = V4 9)]\<rparr>"

definition source_dns_rule :: rule where
  "source_dns_rule = DefaultRule no_items
     (Some (RuleSetItem [''lan''] [RuleSet [DefaultRule source_set_rule None False] True] True False)) False"

lemma no_items_trivial:
  "own_bits L S no_items md = 0" "state_allowed no_items md st" "items_hold L S no_items md"
  by (simp_all add: no_items_def own_bits_def src_hit_def dst_hit_def state_allowed_def items_hold_def
      requiresSourceAddressMatch_def requiresDestinationAddressMatch_def destinationIPCIDRMatchesSource_def
      destinationIPCIDRMatchesDestination_def)

lemma source_dns_rule_matches:
  "matches L S source_dns_rule md \<longleftrightarrow> rule_holds L S source_set_rule
     ((reset_rule_match_cache md)\<lparr>md_ipcidr_match_source := True, md_ipcidr_accept_empty := False\<rparr>)"
proof -
  let ?md = "(reset_rule_match_cache md)\<lparr>md_ipcidr_match_source := True, md_ipcidr_accept_empty := False\<rparr>"
  have ne: "allItems source_set_rule \<noteq> []" by (simp add: source_set_rule_def)
  have md: "reset_rule_match_cache ((reset_rule_match_cache (md\<lparr>md_did_match := True\<rparr>))
      \<lparr>md_ipcidr_match_source := True, md_ipcidr_accept_empty := False\<rparr>) = ?md"
    by (simp add: reset_rule_match_cache_def)
  have "states (rule_set_item_matchStatesWithBase L S (RuleSetItem [''lan''] [RuleSet [DefaultRule source_set_rule None False] True] True False)
      (md\<lparr>md_did_match := True\<rparr>) 0) = (if rule_holds L S source_set_rule ?md then {own_bits L S source_set_rule ?md} else {})"
    using default_states [of 0 source_set_rule None L S False ?md] ne
    by (simp add: merge_def md inner_None rule_holds_alt)
  then show ?thesis
    using default_states [of 0 no_items "Some (rule_set_item_matchStatesWithBase L S
      (RuleSetItem [''lan''] [RuleSet [DefaultRule source_set_rule None False] True] True False))" L S False md]
    by (simp add: matches_states source_dns_rule_def inner_states_def no_items_trivial
        del: rule_set_item_matchStatesWithBase.simps)
qed

text \<open>With \<^verbatim>\<open>rule_set_ip_cidr_match_source\<close> the phases disagree and nothing corrects it: the source
  address is known before the lookup, yet the pre-lookup phase drops the IP conditions of the set, and the rule
  reports no address limit, so the dropped condition is never checked. A rule whose set does not contain the
  source still matches.\<close>

theorem dns_source_set_unchecked:
  "fst (dns_Match demo_libs demo_services source_dns_rule demo_md) \<and>
   \<not> WithAddressLimit source_dns_rule \<and>
   \<not> fst (dns_MatchAddressLimit demo_libs demo_services source_dns_rule demo_md)"
proof -
  have "fst (dns_Match demo_libs demo_services source_dns_rule demo_md) =
      matches demo_libs demo_services source_dns_rule (demo_md\<lparr>md_ignore_destination_ipcidr_match := True\<rparr>)"
    by (simp add: dns_Match_def matches_def split_beta)
  moreover have "fst (dns_MatchAddressLimit demo_libs demo_services source_dns_rule demo_md) =
      matches demo_libs demo_services source_dns_rule demo_md"
    by (simp add: dns_MatchAddressLimit_def matches_def)
  moreover have "\<not> WithAddressLimit source_dns_rule" by (simp add: source_dns_rule_def no_items_def)
  ultimately show ?thesis
    unfolding source_dns_rule_matches
    by (simp add: rule_holds_def items_hold_def source_set_rule_def no_items_def reset_rule_match_cache_def
        demo_md_def requiresSourceAddressMatch_def requiresDestinationAddressMatch_def src_hit_def
        destinationIPCIDRMatchesSource_def destinationIPCIDRMatchesDestination_def matchAnyItem_def
        NewRawIPCIDRItem_def IPCIDRItem_Match_def)
qed

end
