(* ===== verification/Rule_Sets.thy ===== *)
theory Rule_Sets
  imports Rule_Build Dns_Rule
begin

text \<open>
  Rule sets: \<^verbatim>\<open>route/rule/rule_set.go\<close>, \<^verbatim>\<open>rule_set_local.go\<close> and \<^verbatim>\<open>rule_set_remote.go\<close>, and the start of
  rules and of rule-set items. A decoded file, source or binary, is its version with the rule options it holds; reading
  and decoding it is an argument, because the JSON decoder and the file system are not part of the program. Callbacks
  are numbers; the calls made are returned.
\<close>

section \<open>Looking into options\<close>

definition isProcessHeadlessRule :: "conds \<Rightarrow> bool" where
  "isProcessHeadlessRule c \<longleftrightarrow>
     c_process_name c \<noteq> [] \<or> c_process_path c \<noteq> [] \<or> c_process_path_regex c \<noteq> [] \<or> c_package_name c \<noteq> []"

definition isWIFIHeadlessRule :: "conds \<Rightarrow> bool" where
  "isWIFIHeadlessRule c \<longleftrightarrow> c_wifi_ssid c \<noteq> [] \<or> c_wifi_bssid c \<noteq> []"

definition isIPCIDRHeadlessRule :: "conds \<Rightarrow> bool" where
  "isIPCIDRHeadlessRule c \<longleftrightarrow> c_ip_cidr c \<noteq> [] \<or> c_ip_set c \<noteq> None"

fun HasHeadlessRule :: "(conds \<Rightarrow> bool) \<Rightarrow> headless_options list \<Rightarrow> bool" where
  "HasHeadlessRule cond [] = False"
| "HasHeadlessRule cond (HeadlessOptions type c mode rules invert # rest) =
     ((type = ''default'' \<and> cond c) \<or> (type = ''logical'' \<and> HasHeadlessRule cond rules) \<or> HasHeadlessRule cond rest)"

text \<open>\<^verbatim>\<open>extractIPSetFromRule\<close>: the IP sets of the destination conditions, nested rules included.\<close>

fun extractIPSetFromRule :: "rule \<Rightarrow> (addr \<Rightarrow> bool) list" where
  "extractIPSetFromRule (DefaultRule r _ _) =
     concat (map (\<lambda>it. case it of IPCIDRItem ipSet _ _ \<Rightarrow> [ipSet] | _ \<Rightarrow> []) (destinationIPCIDRItems r))"
| "extractIPSetFromRule (LogicalRule rules _ _) = concat (map extractIPSetFromRule rules)"

section \<open>State\<close>

record rule_set_metadata =
  ContainsProcessRule :: bool
  ContainsWIFIRule :: bool
  ContainsIPCIDRRule :: bool

record rule_set_state =
  rs_tag :: string
  rs_rules :: "rule list"
  rs_metadata :: rule_set_metadata
  rs_refs :: int
  rs_callbacks :: "nat list"

definition new_rule_set_state :: "string \<Rightarrow> rule_set_state" where
  "new_rule_set_state tag = \<lparr>rs_tag = tag, rs_rules = [],
     rs_metadata = \<lparr>ContainsProcessRule = False, ContainsWIFIRule = False, ContainsIPCIDRRule = False\<rparr>,
     rs_refs = 0, rs_callbacks = []\<rparr>"

text \<open>The loop of \<^verbatim>\<open>reloadRules\<close>.\<close>

fun parse_rules :: "libs \<Rightarrow> bool \<Rightarrow> nat \<Rightarrow> headless_options list \<Rightarrow> go_error + rule list" where
  "parse_rules L n i [] = Inr []"
| "parse_rules L n i (r # rs) =
     rbind (cause (''parse rule_set.rules.['' @ digits i @ '']'') (NewHeadlessRule L n r)) (\<lambda>q.
     rbind (parse_rules L n (Suc i) rs) (\<lambda>qs. Inr (q # qs)))"

definition metadata_of :: "headless_options list \<Rightarrow> rule_set_metadata" where
  "metadata_of opts = \<lparr>ContainsProcessRule = HasHeadlessRule isProcessHeadlessRule opts,
     ContainsWIFIRule = HasHeadlessRule isWIFIHeadlessRule opts,
     ContainsIPCIDRRule = HasHeadlessRule isIPCIDRHeadlessRule opts\<rparr>"

text \<open>\<^verbatim>\<open>LocalRuleSet.reloadRules\<close>: nothing changes on an error, otherwise the rules and the metadata are
  replaced under the lock and the callbacks run.\<close>

definition reloadRules ::
  "libs \<Rightarrow> bool \<Rightarrow> headless_options list \<Rightarrow> rule_set_state \<Rightarrow> go_error option \<times> nat list \<times> rule_set_state" where
  "reloadRules L n opts s =
     (case parse_rules L n 0 opts of
        Inl err \<Rightarrow> (Some err, [], s)
      | Inr rules \<Rightarrow> (None, rs_callbacks s, s\<lparr>rs_rules := rules, rs_metadata := metadata_of opts\<rparr>))"

definition IncRef :: "rule_set_state \<Rightarrow> rule_set_state" where
  "IncRef s = s\<lparr>rs_refs := rs_refs s + 1\<rparr>"

definition DecRef :: "rule_set_state \<Rightarrow> go_error + rule_set_state" where
  "DecRef s =
     (if rs_refs s - 1 < 0 then Inl (EPanic ''rule-set: negative refs'') else Inr (s\<lparr>rs_refs := rs_refs s - 1\<rparr>))"

definition Cleanup :: "rule_set_state \<Rightarrow> rule_set_state" where
  "Cleanup s = (if rs_refs s = 0 then s\<lparr>rs_rules := []\<rparr> else s)"

definition RegisterCallback :: "nat \<Rightarrow> rule_set_state \<Rightarrow> rule_set_state" where
  "RegisterCallback cb s = s\<lparr>rs_callbacks := rs_callbacks s @ [cb]\<rparr>"

definition UnregisterCallback :: "nat \<Rightarrow> rule_set_state \<Rightarrow> rule_set_state" where
  "UnregisterCallback cb s = s\<lparr>rs_callbacks := remove1 cb (rs_callbacks s)\<rparr>"

definition rule_set_Close :: "rule_set_state \<Rightarrow> rule_set_state" where
  "rule_set_Close s = s\<lparr>rs_rules := []\<rparr>"

definition ExtractIPSet :: "rule_set_state \<Rightarrow> (addr \<Rightarrow> bool) list" where
  "ExtractIPSet s = concat (map extractIPSetFromRule (rs_rules s))"

text \<open>What a rule-set item sees of a rule set.\<close>

definition as_rule_set :: "rule_set_state \<Rightarrow> rule_set" where
  "as_rule_set s = RuleSet (rs_rules s) (ContainsIPCIDRRule (rs_metadata s))"

section \<open>Local rule sets\<close>

datatype rule_set_source = Inline "headless_options list" | LocalFile string

text \<open>\<^verbatim>\<open>PlainRuleSetCompat\<close> of \<^verbatim>\<open>option/rule_set.go\<close> and its \<^verbatim>\<open>Upgrade\<close>.\<close>

record plain_rule_set_compat =
  prs_version :: "8 word"
  prs_rules :: "headless_options list"

definition Upgrade :: "plain_rule_set_compat \<Rightarrow> go_error + headless_options list" where
  "Upgrade r =
     (if prs_version r \<in> {1, 2, 3, 4} then Inr (prs_rules r)
      else Inl (ENew (''unknown rule-set version: '' @ digits (unat (prs_version r)))))"

text \<open>A decoder of file contents; the argument tells the binary format from the source format.\<close>

type_synonym decoder = "bool \<Rightarrow> string \<Rightarrow> go_error + plain_rule_set_compat"

text \<open>\<^verbatim>\<open>reloadFile\<close>: \<open>read\<close> reads and decodes a file in one of the two formats.\<close>

definition reloadFile ::
  "libs \<Rightarrow> bool \<Rightarrow> decoder \<Rightarrow> string \<Rightarrow> string \<Rightarrow> rule_set_state \<Rightarrow> go_error option \<times> nat list \<times> rule_set_state" where
  "reloadFile L n read format path s =
     (case (if format = ''source'' \<or> format = [] then read False path
            else if format = ''binary'' then read True path
            else Inl (ENew (''unknown rule-set format: '' @ format))) of
        Inl err \<Rightarrow> (Some err, [], s)
      | Inr ruleSet \<Rightarrow>
          (case Upgrade ruleSet of
             Inl err \<Rightarrow> (Some err, [], s)
           | Inr plainRules \<Rightarrow> reloadRules L n plainRules s))"

definition NewLocalRuleSet ::
  "libs \<Rightarrow> bool \<Rightarrow> decoder \<Rightarrow> string \<Rightarrow> string \<Rightarrow> rule_set_source \<Rightarrow> go_error + rule_set_state" where
  "NewLocalRuleSet L n read tag format src =
     (case src of
        Inline opts \<Rightarrow>
          if opts = [] then Inl (ENew ''empty inline rule-set'')
          else (case reloadRules L n opts (new_rule_set_state tag) of
                  (Some err, _, _) \<Rightarrow> Inl err | (None, _, s) \<Rightarrow> Inr s)
      | LocalFile path \<Rightarrow>
          (case reloadFile L n read format path (new_rule_set_state tag) of
             (Some err, _, _) \<Rightarrow> Inl err | (None, _, s) \<Rightarrow> Inr s))"

section \<open>Remote rule sets\<close>

record saved_binary =
  sb_last_updated :: int
  sb_content :: string
  sb_last_etag :: string

record remote_rule_set =
  rr_state :: rule_set_state
  rr_last_updated :: "int option"
  rr_last_etag :: string
  rr_cache :: "saved_binary option"

text \<open>The answer of the server: a transport error, or the code and text of the status, a body that could or could not
  be read, and the Etag.\<close>

datatype http_answer = HttpFailed string | HttpStatus nat string "string + string" string

text \<open>\<^verbatim>\<open>loadBytes\<close>: the metadata and the rules are replaced one after the other under the lock, once every rule is
  built.\<close>

definition loadBytes ::
  "libs \<Rightarrow> bool \<Rightarrow> decoder \<Rightarrow> string \<Rightarrow> string \<Rightarrow> rule_set_state \<Rightarrow> go_error option \<times> nat list \<times> rule_set_state" where
  "loadBytes L n decode format content s =
     (case (if format = ''source'' then decode False content
            else if format = ''binary'' then decode True content
            else Inl (ENew (''unknown rule-set format: '' @ format))) of
        Inl err \<Rightarrow> (Some err, [], s)
      | Inr ruleSet \<Rightarrow>
          (case Upgrade ruleSet of
             Inl err \<Rightarrow> (Some err, [], s)
           | Inr plainRules \<Rightarrow>
               (case parse_rules L n 0 plainRules of
                  Inl err \<Rightarrow> (Some err, [], s)
                | Inr rules \<Rightarrow>
                    let s1 = s\<lparr>rs_metadata := metadata_of plainRules\<rparr>;
                        s2 = s1\<lparr>rs_rules := rules\<rparr>
                    in (None, rs_callbacks s2, s2))))"

text \<open>The cache file: none is configured, or saving to it succeeds or fails. \<^verbatim>\<open>SaveRuleSet\<close> is one transaction, so a
  failed save leaves the entry as it was; its error is only logged.\<close>

type_synonym cache_file = "bool option"

definition SaveRuleSet :: "cache_file \<Rightarrow> saved_binary \<Rightarrow> remote_rule_set \<Rightarrow> remote_rule_set" where
  "SaveRuleSet cacheFile saved s =
     (case cacheFile of
        Some saves \<Rightarrow> if saves then s\<lparr>rr_cache := Some saved\<rparr> else s
      | None \<Rightarrow> s)"

definition fetch ::
  "libs \<Rightarrow> bool \<Rightarrow> decoder \<Rightarrow> string \<Rightarrow> cache_file \<Rightarrow> int \<Rightarrow> http_answer \<Rightarrow> remote_rule_set \<Rightarrow>
     go_error option \<times> nat list \<times> remote_rule_set" where
  "fetch L n decode format cacheFile now answer s =
     (case answer of
        HttpFailed err \<Rightarrow> (Some (EExternal err), [], s)
      | HttpStatus code status body etag \<Rightarrow>
          if code = 304 then
            let s1 = s\<lparr>rr_last_updated := Some now\<rparr>
            in (None, [],
                case rr_cache s1 of
                  None \<Rightarrow> s1
                | Some savedRuleSet \<Rightarrow> SaveRuleSet cacheFile (savedRuleSet\<lparr>sb_last_updated := now\<rparr>) s1)
          else if code \<noteq> 200 then (Some (ENew (''unexpected status: '' @ status)), [], s)
          else case body of
                 Inl err \<Rightarrow> (Some (EExternal err), [], s)
               | Inr content \<Rightarrow>
                   (case loadBytes L n decode format content (rr_state s) of
                      (Some err, cbs, st) \<Rightarrow> (Some err, cbs, s\<lparr>rr_state := st\<rparr>)
                    | (None, cbs, st) \<Rightarrow>
                        let s1 = s\<lparr>rr_state := st\<rparr>;
                            s2 = (if etag \<noteq> [] then s1\<lparr>rr_last_etag := etag\<rparr> else s1);
                            s3 = s2\<lparr>rr_last_updated := Some now\<rparr>
                        in (None, cbs,
                            SaveRuleSet cacheFile
                              \<lparr>sb_last_updated = now, sb_content = content, sb_last_etag = rr_last_etag s3\<rparr> s3)))"

text \<open>\<^verbatim>\<open>updateOnce\<close>: after a successful update, a set nobody refers to is emptied.\<close>

definition updateOnce ::
  "libs \<Rightarrow> bool \<Rightarrow> decoder \<Rightarrow> string \<Rightarrow> cache_file \<Rightarrow> int \<Rightarrow> http_answer \<Rightarrow> remote_rule_set \<Rightarrow> remote_rule_set" where
  "updateOnce L n decode format cacheFile now answer s =
     (case fetch L n decode format cacheFile now answer s of
        (Some _, _, s') \<Rightarrow> s'
      | (None, _, s') \<Rightarrow> s'\<lparr>rr_state := Cleanup (rr_state s')\<rparr>)"

text \<open>The start: the detour must exist; restore the cache, else fetch. \<open>outbounds\<close> are the tags of the outbounds.\<close>

definition StartContext ::
  "libs \<Rightarrow> bool \<Rightarrow> decoder \<Rightarrow> string list \<Rightarrow> string \<Rightarrow> string \<Rightarrow> cache_file \<Rightarrow> int \<Rightarrow> http_answer \<Rightarrow> remote_rule_set \<Rightarrow>
     go_error option \<times> remote_rule_set" where
  "StartContext L n decode outbounds downloadDetour format cacheFile now answer s =
     (if downloadDetour \<noteq> [] \<and> downloadDetour \<notin> set outbounds
      then (Some (ENew (''download detour not found: '' @ downloadDetour)), s)
      else
        let s1 = (case (if cacheFile \<noteq> None then rr_cache s else None) of
                    None \<Rightarrow> s
                  | Some savedSet \<Rightarrow>
                      (case loadBytes L n decode format (sb_content savedSet) (rr_state s) of
                         (Some _, _, st) \<Rightarrow> s\<lparr>rr_state := st\<rparr>
                       | (None, _, st) \<Rightarrow> s\<lparr>rr_state := st, rr_last_updated := Some (sb_last_updated savedSet),
                                            rr_last_etag := sb_last_etag savedSet\<rparr>))
        in if rr_last_updated s1 = None then
             (case fetch L n decode format cacheFile now answer s1 of
                (Some err, _, s2) \<Rightarrow> (Some (ECause err (''initial rule-set: '' @ rs_tag (rr_state s))), s2)
              | (None, _, s2) \<Rightarrow> (None, s2))
           else (None, s1))"

section \<open>Starting rules\<close>

fun rule_set_item_start :: "(string \<Rightarrow> rule_set option) \<Rightarrow> rule_set_item \<Rightarrow> go_error + rule_set_item" where
  "rule_set_item_start router (RuleSetItem tags sets matchSource acceptEmpty) =
     rbind (rfold (\<lambda>tag acc. case router tag of
                     None \<Rightarrow> Inl (ENew (''rule-set not found: '' @ tag))
                   | Some rs \<Rightarrow> Inr (acc @ [rs])) tags sets)
       (\<lambda>sets'. Inr (RuleSetItem tags sets' matchSource acceptEmpty))"

text \<open>\<^verbatim>\<open>abstractDefaultRule.Start\<close> goes through \<^verbatim>\<open>allItems\<close>; the groups share the items, so all lists see the
  started ones.\<close>

definition first_start_error :: "services \<Rightarrow> item list \<Rightarrow> go_error option" where
  "first_start_error S its = (case find (\<lambda>it. fst (item_start S it) \<noteq> None) its of
     None \<Rightarrow> None | Some it \<Rightarrow> fst (item_start S it))"

definition items_started :: "services \<Rightarrow> default_items \<Rightarrow> default_items" where
  "items_started S r =
     (let f = map (\<lambda>it. snd (item_start S it))
      in \<lparr>items = f (items r), sourceAddressItems = f (sourceAddressItems r), sourcePortItems = f (sourcePortItems r),
          destinationAddressItems = f (destinationAddressItems r), destinationIPCIDRItems = f (destinationIPCIDRItems r),
          destinationPortItems = f (destinationPortItems r), allItems = f (allItems r)\<rparr>)"

fun rule_start :: "services \<Rightarrow> (string \<Rightarrow> rule_set option) \<Rightarrow> rule \<Rightarrow> go_error + rule"
and rules_start :: "services \<Rightarrow> (string \<Rightarrow> rule_set option) \<Rightarrow> rule list \<Rightarrow> go_error + rule list" where
  "rule_start S router (DefaultRule r set_item invert) =
     (case first_start_error S (allItems r) of
        Some err \<Rightarrow> Inl err
      | None \<Rightarrow>
          (case set_item of
             None \<Rightarrow> Inr (DefaultRule (items_started S r) None invert)
           | Some i \<Rightarrow> rbind (rule_set_item_start router i) (\<lambda>i'. Inr (DefaultRule (items_started S r) (Some i') invert))))"
| "rule_start S router (LogicalRule rules mode invert) =
     rbind (rules_start S router rules) (\<lambda>rules'. Inr (LogicalRule rules' mode invert))"
| "rules_start S router [] = Inr []"
| "rules_start S router (r # rs) =
     rbind (rule_start S router r) (\<lambda>r'. rbind (rules_start S router rs) (\<lambda>rs'. Inr (r' # rs')))"

text \<open>\<^verbatim>\<open>String\<close> of rules.\<close>

fun rule_set_item_string :: "rule_set_item \<Rightarrow> string" where
  "rule_set_item_string (RuleSetItem tags _ _ _) = one_or_list ''rule_set='' tags"

fun rule_string :: "libs \<Rightarrow> rule \<Rightarrow> string" where
  "rule_string L (DefaultRule r set_item invert) =
     (let s = join '' '' (map (item_string L) (allItems r) @
                (case set_item of None \<Rightarrow> [] | Some i \<Rightarrow> [rule_set_item_string i]))
      in if \<not> invert then s else ''!('' @ s @ '')'')"
| "rule_string L (LogicalRule rules mode invert) =
     (let op = (if mode = LogicalTypeAnd then ''&&'' else if mode = LogicalTypeOr then ''||'' else []);
          s = join ('' '' @ op @ '' '') (map (rule_string L) rules)
      in if \<not> invert then s else ''!('' @ s @ '')'')"

end
