(* ===== verification/Rule_Build_Props.thy ===== *)
theory Rule_Build_Props
  imports Rule_Sets
begin

text \<open>
  What the constructors of \<open>Rule_Build\<close> and the rule sets of \<open>Rule_Sets\<close> guarantee to the evaluation: built rules are
  well formed, the metadata of a rule set describes its rules, and the most common rules mean what their
  options say.
\<close>

section \<open>Steps of a constructor\<close>

named_theorems step_intros

definition step_keeps :: "(default_items \<Rightarrow> bool) \<Rightarrow> step \<Rightarrow> bool" where
  "step_keeps P st \<longleftrightarrow> (\<forall>r r'. P r \<longrightarrow> st r = Inr r' \<longrightarrow> P r')"

lemma run_steps_keeps:
  assumes "run_steps steps = Inr r" and "P empty_items" and "list_all (step_keeps P) steps"
  shows "P r"
  using assms unfolding run_steps_def by (auto simp: list_all_iff step_keeps_def intro: rfold_invariant)

lemma step_keeps_when_add [step_intros]:
  "(\<And>it r. P r \<Longrightarrow> P (app it r)) \<Longrightarrow> (\<And>it r. P r \<Longrightarrow> P (app' it r)) \<Longrightarrow> step_keeps P (when_add c [app, app'] it)"
  by (auto simp: step_keeps_def when_add_def split: if_splits)

lemma step_keeps_when_try [step_intros]:
  "(\<And>it r. P r \<Longrightarrow> P (app it r)) \<Longrightarrow> (\<And>it r. P r \<Longrightarrow> P (app' it r)) \<Longrightarrow> step_keeps P (when_try c [app, app'] e)"
  by (auto simp: step_keeps_def when_try_def rbind_eq_Inr_iff split: if_splits)

lemma step_keeps_when_fail [step_intros]: "step_keeps P (when_fail c msg)"
  by (auto simp: step_keeps_def when_fail_def split: if_splits)

lemma step_keeps_ip_version [step_intros]:
  "(\<And>b. step_keeps P (when_add True [add_item, add_all] (NewIPVersionItem b))) \<Longrightarrow> step_keeps P (ip_version_step v)"
  by (auto simp: step_keeps_def ip_version_step_def split: if_splits)

lemma step_keeps_Inr [step_intros]: "step_keeps P Inr"
  by (simp add: step_keeps_def)

lemmas add_defs = add_item_def add_source_address_def add_source_port_def add_destination_address_def
  add_destination_ipcidr_def add_destination_port_def add_all_def

lemmas steps_defs = default_rule_steps_1_def default_rule_steps_2_def default_rule_steps_3_def
  headless_rule_steps_1_def headless_rule_steps_2_def dns_rule_steps_1_def dns_rule_steps_3_def
  network_steps_def address_steps_def adguard_step_def

definition cidr_free :: "default_items \<Rightarrow> bool" where
  "cidr_free r \<longleftrightarrow> destinationIPCIDRItems r = []"

lemma cidr_free_add [step_intros]:
  "cidr_free r \<Longrightarrow> cidr_free (add_item it r)" "cidr_free r \<Longrightarrow> cidr_free (add_source_address it r)"
  "cidr_free r \<Longrightarrow> cidr_free (add_source_port it r)" "cidr_free r \<Longrightarrow> cidr_free (add_destination_address it r)"
  "cidr_free r \<Longrightarrow> cidr_free (add_destination_port it r)" "cidr_free r \<Longrightarrow> cidr_free (add_all it r)"
  by (auto simp: cidr_free_def add_defs)

lemma cidr_free_empty: "cidr_free empty_items"
  by (simp add: cidr_free_def empty_items_def)

section \<open>The groups of a built rule\<close>

text \<open>The group each condition belongs to. The conditions on the source and those on the destination are told apart
  by their flag.\<close>

datatype group = Plain | Preferred | SourceAddress | SourcePort | DestinationAddress | DestinationIP | DestinationPort

fun item_group :: "item \<Rightarrow> group" where
  "item_group (DomainItem matcher description) = DestinationAddress"
| "item_group (DomainKeywordItem keywords) = DestinationAddress"
| "item_group (DomainRegexItem matchers description) = DestinationAddress"
| "item_group (AdGuardDomainItem matcher) = DestinationAddress"
| "item_group (IPCIDRItem ipSet isSource description) = (if isSource then SourceAddress else DestinationIP)"
| "item_group (IPIsPrivateItem isSource) = (if isSource then SourceAddress else DestinationIP)"
| "item_group IPAcceptAnyItem = DestinationIP"
| "item_group (PortItem ports portMap isSource) = (if isSource then SourcePort else DestinationPort)"
| "item_group (PortRangeItem isSource ranges portRanges) = (if isSource then SourcePort else DestinationPort)"
| "item_group (PreferredByItem tags outbounds) = Preferred"
| "item_group it = Plain"

definition of_groups :: "group list \<Rightarrow> item list \<Rightarrow> item list" where
  "of_groups gs its = filter (\<lambda>it. item_group it \<in> set gs) its"

text \<open>Each list of the rule holds exactly the conditions of its group, in the order of \<^verbatim>\<open>allItems\<close>; a rule for which
  \<open>preferred\<close> is false has no \<^verbatim>\<open>preferred_by\<close> condition.\<close>

definition grouped :: "bool \<Rightarrow> default_items \<Rightarrow> bool" where
  "grouped preferred r \<longleftrightarrow>
     items r = of_groups (Plain # (if preferred then [Preferred] else [])) (allItems r) \<and>
     sourceAddressItems r = of_groups [SourceAddress] (allItems r) \<and>
     sourcePortItems r = of_groups [SourcePort] (allItems r) \<and>
     destinationAddressItems r = of_groups [DestinationAddress] (allItems r) \<and>
     destinationIPCIDRItems r = of_groups [DestinationIP] (allItems r) \<and>
     destinationPortItems r = of_groups [DestinationPort] (allItems r) \<and>
     (\<not> preferred \<longrightarrow> of_groups [Preferred] (allItems r) = [])"

lemma grouped_empty: "grouped p empty_items"
  by (simp add: grouped_def of_groups_def empty_items_def)

lemma grouped_items_wf: "grouped p r \<Longrightarrow> items_wf r"
  by (auto simp: grouped_def of_groups_def items_wf_def)

lemma reads_answer_group: "reads_answer it \<Longrightarrow> item_group it = DestinationIP \<or> item_group it = Preferred"
  by (cases it) simp_all

lemma grouped_answer_free: "grouped False r \<Longrightarrow> answer_free r"
  by (auto simp: grouped_def of_groups_def answer_free_def list_all_iff dest!: reads_answer_group)

lemma item_group_New [simp]:
  "item_group (NewInboundRule xs) = Plain" "item_group (NewIPVersionItem b) = Plain" "item_group (NewNetworkItem xs) = Plain"
  "item_group (NewAuthUserItem xs) = Plain" "item_group (NewProtocolItem xs) = Plain" "item_group (NewClientItem xs) = Plain"
  "item_group (NewProcessItem xs) = Plain" "item_group (NewProcessPathItem xs) = Plain" "item_group (NewPackageNameItem xs) = Plain"
  "item_group (NewUserItem xs) = Plain" "item_group (NewUserIDItem ids) = Plain" "item_group (NewOutboundRule xs) = Plain"
  "item_group (NewQueryTypeItem ts) = Plain" "item_group (NewClashModeItem m) = Plain" "item_group (NewNetworkTypeItem its) = Plain"
  "item_group NewNetworkIsExpensiveItem = Plain" "item_group NewNetworkIsConstrainedItem = Plain"
  "item_group (NewWIFISSIDItem xs) = Plain" "item_group (NewWIFIBSSIDItem L xs) = Plain"
  "item_group (NewInterfaceAddressItem L ia) = Plain" "item_group (NewNetworkInterfaceAddressItem L na) = Plain"
  "item_group (NewDefaultInterfaceAddressItem ps) = Plain" "item_group (NewPreferredByItem xs) = Preferred"
  "item_group (NewRawDomainItem f) = DestinationAddress" "item_group (NewDomainKeywordItem xs) = DestinationAddress"
  "item_group (NewAdGuardDomainItem L xs) = DestinationAddress" "item_group (NewRawAdGuardDomainItem f) = DestinationAddress"
  "item_group (NewRawIPCIDRItem b g) = (if b then SourceAddress else DestinationIP)"
  "item_group (NewIPIsPrivateItem b) = (if b then SourceAddress else DestinationIP)" "item_group NewIPAcceptAnyItem = DestinationIP"
  "item_group (NewPortItem b ws) = (if b then SourcePort else DestinationPort)"
  by (simp_all add: NewInboundRule_def NewIPVersionItem_def NewNetworkItem_def NewAuthUserItem_def NewProtocolItem_def
      NewClientItem_def NewProcessItem_def NewProcessPathItem_def NewPackageNameItem_def NewUserItem_def NewUserIDItem_def
      NewOutboundRule_def NewQueryTypeItem_def NewClashModeItem_def NewNetworkTypeItem_def NewNetworkIsExpensiveItem_def
      NewNetworkIsConstrainedItem_def NewWIFISSIDItem_def NewWIFIBSSIDItem_def NewInterfaceAddressItem_def
      NewNetworkInterfaceAddressItem_def NewDefaultInterfaceAddressItem_def NewPreferredByItem_def NewRawDomainItem_def
      NewDomainKeywordItem_def NewAdGuardDomainItem_def NewRawAdGuardDomainItem_def NewRawIPCIDRItem_def
      NewIPIsPrivateItem_def NewIPAcceptAnyItem_def NewPortItem_def)

text \<open>A construction that may fail gives, if anything, a condition of the group.\<close>

definition yields :: "group \<Rightarrow> go_error + item \<Rightarrow> bool" where
  "yields g e \<longleftrightarrow> (case e of Inl _ \<Rightarrow> True | Inr it \<Rightarrow> item_group it = g)"

lemma yields_New [simp]:
  "yields DestinationAddress (NewDomainItem L ds ss)" "yields DestinationAddress (NewDomainRegexItem L es)"
  "yields (if b then SourceAddress else DestinationIP) (NewIPCIDRItem L b ps)"
  "yields (if b then SourcePort else DestinationPort) (NewPortRangeItem b rs)"
  "yields Plain (NewProcessPathRegexItem L es)" "yields g (cause msg e) = yields g e"
  by (auto simp: yields_def NewDomainItem_def NewDomainRegexItem_def NewIPCIDRItem_def NewPortRangeItem_def
      NewProcessPathRegexItem_def cause_def Let_def rbind_def split: sum.split)

lemmas yields_side [simp] = yields_New(3) [of True, simplified] yields_New(3) [of False, simplified]
  yields_New(4) [of True, simplified] yields_New(4) [of False, simplified]

text \<open>A condition appended to the list of its group and to all conditions keeps the rule grouped.\<close>

named_theorems grouped_intros

lemma grouped_pair:
  "grouped p r \<Longrightarrow> item_group it = Plain \<Longrightarrow> grouped p (add_all it (add_item it r))"
  "grouped p r \<Longrightarrow> p \<Longrightarrow> item_group it = Preferred \<Longrightarrow> grouped p (add_all it (add_item it r))"
  "grouped p r \<Longrightarrow> item_group it = SourceAddress \<Longrightarrow> grouped p (add_all it (add_source_address it r))"
  "grouped p r \<Longrightarrow> item_group it = SourcePort \<Longrightarrow> grouped p (add_all it (add_source_port it r))"
  "grouped p r \<Longrightarrow> item_group it = DestinationAddress \<Longrightarrow> grouped p (add_all it (add_destination_address it r))"
  "grouped p r \<Longrightarrow> item_group it = DestinationIP \<Longrightarrow> grouped p (add_all it (add_destination_ipcidr it r))"
  "grouped p r \<Longrightarrow> item_group it = DestinationPort \<Longrightarrow> grouped p (add_all it (add_destination_port it r))"
  by (simp_all add: grouped_def of_groups_def add_defs)

lemma grouped_when_add [grouped_intros]:
  "item_group it = Plain \<Longrightarrow> step_keeps (grouped p) (when_add c [add_item, add_all] it)"
  "p \<Longrightarrow> item_group it = Preferred \<Longrightarrow> step_keeps (grouped p) (when_add c [add_item, add_all] it)"
  "item_group it = SourceAddress \<Longrightarrow> step_keeps (grouped p) (when_add c [add_source_address, add_all] it)"
  "item_group it = SourcePort \<Longrightarrow> step_keeps (grouped p) (when_add c [add_source_port, add_all] it)"
  "item_group it = DestinationAddress \<Longrightarrow> step_keeps (grouped p) (when_add c [add_destination_address, add_all] it)"
  "item_group it = DestinationIP \<Longrightarrow> step_keeps (grouped p) (when_add c [add_destination_ipcidr, add_all] it)"
  "item_group it = DestinationPort \<Longrightarrow> step_keeps (grouped p) (when_add c [add_destination_port, add_all] it)"
  by (auto simp: step_keeps_def when_add_def grouped_pair split: if_splits)

lemma grouped_when_try [grouped_intros]:
  "yields Plain e \<Longrightarrow> step_keeps (grouped p) (when_try c [add_item, add_all] e)"
  "yields SourceAddress e \<Longrightarrow> step_keeps (grouped p) (when_try c [add_source_address, add_all] e)"
  "yields SourcePort e \<Longrightarrow> step_keeps (grouped p) (when_try c [add_source_port, add_all] e)"
  "yields DestinationAddress e \<Longrightarrow> step_keeps (grouped p) (when_try c [add_destination_address, add_all] e)"
  "yields DestinationIP e \<Longrightarrow> step_keeps (grouped p) (when_try c [add_destination_ipcidr, add_all] e)"
  "yields DestinationPort e \<Longrightarrow> step_keeps (grouped p) (when_try c [add_destination_port, add_all] e)"
  by (auto simp: step_keeps_def when_try_def rbind_eq_Inr_iff yields_def grouped_pair split: if_splits)

lemmas grouped_other [grouped_intros] = step_keeps_when_fail step_keeps_ip_version step_keeps_Inr

lemma steps_grouped:
  "list_all (step_keeps (grouped True)) (default_rule_steps_1 L c @ default_rule_steps_2 L c @ default_rule_steps_3 L c)"
  "list_all (step_keeps (grouped False)) (dns_rule_steps_1 L c @ default_rule_steps_2 L c @ dns_rule_steps_3 L c)"
  "list_all (step_keeps (grouped False)) (headless_rule_steps_1 L c @ headless_rule_steps_2 L c @
     (if n then network_steps L c @ address_steps L c else []) @ [adguard_step L c])"
  by (simp_all add: steps_defs grouped_intros split: option.split)

section \<open>Built rules are well formed\<close>

fun set_item_wf :: "rule_set_item \<Rightarrow> bool" where
  "set_item_wf (RuleSetItem tags sets matchSource acceptEmpty) \<longleftrightarrow> tags \<noteq> [] \<and> sets = []"

fun rule_wf :: "bool \<Rightarrow> rule \<Rightarrow> bool" where
  "rule_wf p (DefaultRule r set_item invert) \<longleftrightarrow> grouped p r \<and> pred_option set_item_wf set_item"
| "rule_wf p (LogicalRule rules mode invert) \<longleftrightarrow>
     mode \<in> {LogicalTypeAnd, LogicalTypeOr} \<and> rules \<noteq> [] \<and> list_all (rule_wf p) rules"

lemma rule_set_step_wf: "rule_set_step c e = Inr i \<Longrightarrow> pred_option set_item_wf i"
  by (auto simp: rule_set_step_def NewRuleSetItem_def split: if_splits)

lemma NewDefaultRule_wf: "NewDefaultRule L A c a = Inr (q, action) \<Longrightarrow> rule_wf True q"
  using run_steps_keeps [of "default_rule_steps_1 L c @ default_rule_steps_2 L c @ default_rule_steps_3 L c" _ "grouped True",
      OF _ grouped_empty steps_grouped(1)]
  by (auto simp: NewDefaultRule_def default_rule_conds_def rbind_eq_Inr_iff dest: rule_set_step_wf)

lemma NewDefaultDNSRule_wf: "NewDefaultDNSRule L c a = Inr (q, action) \<Longrightarrow> rule_wf False q"
  using run_steps_keeps [of "dns_rule_steps_1 L c @ default_rule_steps_2 L c @ dns_rule_steps_3 L c" _ "grouped False",
      OF _ grouped_empty steps_grouped(2)]
  by (auto simp: NewDefaultDNSRule_def rbind_eq_Inr_iff dest: rule_set_step_wf)

lemma NewDefaultHeadlessRule_wf: "NewDefaultHeadlessRule L n c = Inr q \<Longrightarrow> rule_wf False q"
  using run_steps_keeps [OF _ grouped_empty steps_grouped(3) [of L c n]]
  by (auto simp: NewDefaultHeadlessRule_def rbind_eq_Inr_iff)

lemma cause_eq_Inr [simp]: "cause msg e = Inr x \<longleftrightarrow> e = Inr x"
  by (auto simp: cause_def split: sum.splits)

lemma cause_Inr [simp]: "cause msg (Inr x) = Inr x"
  by (simp add: cause_def)

lemma logical_mode_Inr: "logical_mode m = Inr m' \<Longrightarrow> m' = LogicalTypeAnd \<or> m' = LogicalTypeOr"
  by (auto simp: logical_mode_def split: if_splits)

lemma NewRule_wf:
  "NewRule L A b r = Inr (q, action) \<Longrightarrow> rule_wf True q"
  "NewSubRules L A i rs = Inr qs \<Longrightarrow> list_all (rule_wf True) qs \<and> length qs = length rs"
proof (induction L A b r and L A i rs arbitrary: q action and qs rule: NewRule_NewSubRules.induct)
  case (1 L A b type c a mode rules invert la)
  then show ?case
    by (auto simp: rbind_eq_Inr_iff split: if_splits dest: NewDefaultRule_wf dest!: logical_mode_Inr; blast)
qed (auto simp: rbind_eq_Inr_iff)

lemma NewDNSRule_wf:
  "NewDNSRule L b r = Inr (q, action) \<Longrightarrow> rule_wf False q"
  "NewDNSSubRules L i rs = Inr qs \<Longrightarrow> list_all (rule_wf False) qs \<and> length qs = length rs"
proof (induction L b r and L i rs arbitrary: q action and qs rule: NewDNSRule_NewDNSSubRules.induct)
  case (1 L b type c a mode rules invert la)
  then show ?case
    by (auto simp: rbind_eq_Inr_iff split: if_splits dest: NewDefaultDNSRule_wf dest!: logical_mode_Inr; blast)
qed (auto simp: rbind_eq_Inr_iff)

lemma NewHeadlessRule_wf:
  "NewHeadlessRule L n r = Inr q \<Longrightarrow> rule_wf False q"
  "NewHeadlessRules L n i rs = Inr qs \<Longrightarrow> list_all (rule_wf False) qs \<and> length qs = length rs"
proof (induction L n r and L n i rs arbitrary: q and qs rule: NewHeadlessRule_NewHeadlessRules.induct)
  case (1 L n type c mode rules invert)
  then show ?case
    by (auto simp: rbind_eq_Inr_iff split: if_splits dest: NewDefaultHeadlessRule_wf dest!: logical_mode_Inr; blast)
qed (auto simp: rbind_eq_Inr_iff)

text \<open>C38: Whatever \<^verbatim>\<open>NewRule\<close>, \<^verbatim>\<open>NewDNSRule\<close> or \<^verbatim>\<open>NewHeadlessRule\<close> builds is well formed, at every depth. The list of each
  group holds exactly those conditions of \<^verbatim>\<open>allItems\<close> that belong to the group, in the same order: source addresses,
  source ports, domains, destination IP conditions, destination ports and the others; so the destination IP items are
  not source items, and no condition is left out or entered twice. Only a route rule has a \<^verbatim>\<open>preferred_by\<close> condition. A
  rule-set item names at least one set and has none resolved, and a logical rule has one of the two modes and at least
  one nested rule.\<close>

theorem built_rules_wf:
  "(NewRule L A b r = Inr (q, action) \<longrightarrow> rule_wf True q) \<and> (NewDNSRule L b d = Inr (q, action) \<longrightarrow> rule_wf False q) \<and>
   (NewHeadlessRule L n h = Inr q \<longrightarrow> rule_wf False q)"
  using NewRule_wf(1) NewDNSRule_wf(1) NewHeadlessRule_wf(1) by blast

definition zero_conds :: conds where
  "zero_conds = \<lparr>c_inbound = [], c_ip_version = 0, c_query_type = [], c_network = [], c_auth_user = [], c_protocol = [],
     c_client = [], c_domain = [], c_domain_suffix = [], c_domain_keyword = [], c_domain_regex = [], c_geosite = [],
     c_source_geoip = [], c_geoip = [], c_source_ip_cidr = [], c_source_ip_is_private = False, c_ip_cidr = [],
     c_ip_is_private = False, c_ip_accept_any = False, c_source_port = [], c_source_port_range = [], c_port = [],
     c_port_range = [], c_process_name = [], c_process_path = [], c_process_path_regex = [], c_package_name = [],
     c_user = [], c_user_id = [], c_outbound = [], c_clash_mode = [], c_network_type = [], c_network_is_expensive = False,
     c_network_is_constrained = False, c_wifi_ssid = [], c_wifi_bssid = [], c_interface_address = [],
     c_network_interface_address = [], c_default_interface_address = [], c_preferred_by = [], c_rule_set = [],
     c_rule_set_match_source = False, c_rule_set_accept_empty = False, c_deprecated_match_source = False,
     c_domain_matcher = None, c_source_ip_set = None, c_ip_set = None, c_adguard_domain = [], c_adguard_matcher = None,
     c_invert = False\<rparr>"

definition demo_keyword_options :: headless_options where
  "demo_keyword_options = HeadlessOptions ''default'' (zero_conds\<lparr>c_domain_keyword := [''ads'']\<rparr>) [] [] False"

lemma demo_keyword_rule:
  "NewHeadlessRule demo_libs False demo_keyword_options = Inr (DefaultRule demo_set_rule None False)"
  by (simp add: demo_keyword_options_def conds_empty_def zero_conds_def NewDefaultHeadlessRule_def run_steps_def
      steps_defs when_add_def when_try_def add_defs empty_items_def demo_set_rule_def no_items_def)

text \<open>A DNS rule with conditions of three groups and a rule set.\<close>

definition demo_dns_options :: dns_rule_options where
  "demo_dns_options = DNSRuleOptions ''default''
     (zero_conds\<lparr>c_auth_user := [''alice''], c_domain_keyword := [''ads''], c_ip_accept_any := True, c_rule_set := [''block'']\<rparr>)
     (zero_dns_rule_action\<lparr>dao_action := ''reject''\<rparr>) [] [] False zero_dns_rule_action"

definition demo_dns_items :: default_items where
  "demo_dns_items = no_items\<lparr>items := [NewAuthUserItem [''alice'']], destinationAddressItems := [NewDomainKeywordItem [''ads'']],
     destinationIPCIDRItems := [NewIPAcceptAnyItem],
     allItems := [NewAuthUserItem [''alice''], NewDomainKeywordItem [''ads''], NewIPAcceptAnyItem]\<rparr>"

lemmas demo_dns_simps = conds_empty_def zero_conds_def zero_dns_rule_action_def missing_server_def NewDefaultDNSRule_def
  NewDNSRuleAction_def run_steps_def steps_defs when_add_def when_try_def when_fail_def ip_version_step_def
  rule_set_step_def NewRuleSetItem_def add_defs empty_items_def no_items_def

lemma demo_dns_rule:
  "\<exists>action. NewDNSRule demo_libs True demo_dns_options =
     Inr (DefaultRule demo_dns_items (Some (RuleSetItem [''block''] [] False False)) False, action)"
  by (simp add: demo_dns_options_def demo_dns_items_def demo_dns_simps)

theorem built_rules_wf_witness:
  "rule_wf False (DefaultRule demo_dns_items (Some (RuleSetItem [''block''] [] False False)) False)"
  using built_rules_wf [of demo_libs _ True _ "DefaultRule demo_dns_items (Some (RuleSetItem [''block''] [] False False)) False"
      _ demo_dns_options] demo_dns_rule by blast

section \<open>Metadata of rule sets\<close>

text \<open>The decoders of both formats give every rule one of the two types.\<close>

fun normal_types :: "headless_options \<Rightarrow> bool" where
  "normal_types (HeadlessOptions type c mode rules invert) \<longleftrightarrow> type \<in> {''default'', ''logical''} \<and> list_all normal_types rules"

lemma NewDefaultHeadlessRule_no_cidr:
  assumes "NewDefaultHeadlessRule L n c = Inr q" and "\<not> isIPCIDRHeadlessRule c"
  shows "no_cidr q"
proof -
  have "list_all (step_keeps cidr_free) (headless_rule_steps_1 L c @ headless_rule_steps_2 L c @
     (if n then network_steps L c @ address_steps L c else []) @ [adguard_step L c])"
    using assms(2) by (simp add: steps_defs isIPCIDRHeadlessRule_def step_intros split: option.split)
  from run_steps_keeps [OF _ cidr_free_empty this] assms(1) show ?thesis
    using NewDefaultHeadlessRule_wf [OF assms(1)]
    by (auto simp: NewDefaultHeadlessRule_def rbind_eq_Inr_iff cidr_free_def grouped_answer_free)
qed

lemma headless_no_cidr:
  "NewHeadlessRule L n r = Inr q \<Longrightarrow> normal_types r \<Longrightarrow> \<not> HasHeadlessRule isIPCIDRHeadlessRule [r] \<Longrightarrow> no_cidr q"
  "NewHeadlessRules L n i rs = Inr qs \<Longrightarrow> list_all normal_types rs \<Longrightarrow> \<not> HasHeadlessRule isIPCIDRHeadlessRule rs \<Longrightarrow>
     list_all no_cidr qs"
proof (induction L n r and L n i rs arbitrary: q and qs rule: NewHeadlessRule_NewHeadlessRules.induct)
  case (1 L n type c mode rules invert)
  then show ?case
    by (auto simp: rbind_eq_Inr_iff split: if_splits dest: NewDefaultHeadlessRule_no_cidr)
next
  case (3 L n i r rs)
  then show ?case by (cases r) (auto simp: rbind_eq_Inr_iff)
qed auto

lemma parse_rules_no_cidr:
  "parse_rules L n i rs = Inr qs \<Longrightarrow> list_all normal_types rs \<Longrightarrow> \<not> HasHeadlessRule isIPCIDRHeadlessRule rs \<Longrightarrow>
     list_all no_cidr qs"
proof (induction rs arbitrary: i qs)
  case (Cons r rs)
  have "\<not> HasHeadlessRule isIPCIDRHeadlessRule [r] \<and> \<not> HasHeadlessRule isIPCIDRHeadlessRule rs"
    using Cons.prems(3) by (cases r) auto
  then show ?case using Cons headless_no_cidr(1) [of L n r] by (auto simp: rbind_eq_Inr_iff)
qed simp

text \<open>A rule set changes by loading, from inline options, a file or the answer of a server, by counting references, by
  cleaning up, by closing and by the registration of callbacks.\<close>

inductive rule_set_change :: "libs \<Rightarrow> bool \<Rightarrow> decoder \<Rightarrow> decoder \<Rightarrow> rule_set_state \<Rightarrow> rule_set_state \<Rightarrow> bool"
  for L n read decode where
  inline: "list_all normal_types opts \<Longrightarrow> reloadRules L n opts s = (e, cbs, s') \<Longrightarrow> rule_set_change L n read decode s s'"
| from_file: "reloadFile L n read format path s = (e, cbs, s') \<Longrightarrow> rule_set_change L n read decode s s'"
| from_bytes: "loadBytes L n decode format content s = (e, cbs, s') \<Longrightarrow> rule_set_change L n read decode s s'"
| inc: "rule_set_change L n read decode s (IncRef s)"
| dec: "DecRef s = Inr s' \<Longrightarrow> rule_set_change L n read decode s s'"
| cleanup: "rule_set_change L n read decode s (Cleanup s)"
| close: "rule_set_change L n read decode s (rule_set_Close s)"
| register: "rule_set_change L n read decode s (RegisterCallback cb s)"
| unregister: "rule_set_change L n read decode s (UnregisterCallback cb s)"

definition rule_set_initial :: "rule_set_state \<Rightarrow> bool" where
  "rule_set_initial s \<longleftrightarrow> s = new_rule_set_state (rs_tag s)"

lemma initial_new: "rule_set_initial (new_rule_set_state tag)" "rule_set_initial s \<Longrightarrow> rs_rules s = []"
  by (simp add: rule_set_initial_def new_rule_set_state_def, metis rule_set_initial_def new_rule_set_state_def rule_set_state.select_convs(2))

text \<open>What a decoder gives has only the two types of rules.\<close>

definition typed :: "decoder \<Rightarrow> bool" where
  "typed decode \<longleftrightarrow> (\<forall>binary content ruleSet. decode binary content = Inr ruleSet \<longrightarrow> list_all normal_types (prs_rules ruleSet))"

lemma loaded_honest:
  "parse_rules L n i opts = Inr rules \<Longrightarrow> list_all normal_types opts \<Longrightarrow>
     rs_rules s = rules \<Longrightarrow> rs_metadata s = metadata_of opts \<Longrightarrow> set_honest (as_rule_set s)"
  by (auto simp: as_rule_set_def metadata_of_def dest: parse_rules_no_cidr)

lemma reloadRules_honest:
  "reloadRules L n opts s = (e, cbs, s') \<Longrightarrow> list_all normal_types opts \<Longrightarrow> set_honest (as_rule_set s) \<Longrightarrow> set_honest (as_rule_set s')"
  by (auto simp: reloadRules_def intro: loaded_honest split: sum.splits)

lemma Upgrade_typed:
  "typed decode \<Longrightarrow> decode b content = Inr ruleSet \<Longrightarrow> Upgrade ruleSet = Inr opts \<Longrightarrow> list_all normal_types opts"
  by (auto simp: typed_def Upgrade_def split: if_splits)

lemma reloadFile_honest:
  "reloadFile L n read format path s = (e, cbs, s') \<Longrightarrow> typed read \<Longrightarrow> set_honest (as_rule_set s) \<Longrightarrow> set_honest (as_rule_set s')"
  by (auto simp: reloadFile_def split: if_splits sum.splits dest: Upgrade_typed reloadRules_honest)

lemma loadBytes_honest:
  "loadBytes L n decode format content s = (e, cbs, s') \<Longrightarrow> typed decode \<Longrightarrow> set_honest (as_rule_set s) \<Longrightarrow> set_honest (as_rule_set s')"
  by (auto simp: loadBytes_def Let_def split: if_splits sum.splits dest: Upgrade_typed intro: loaded_honest)

interpretation rule_set_sys: invariant_system rule_set_initial "rule_set_change L n read decode"
  "\<lambda>s. typed read \<and> typed decode \<longrightarrow> set_honest (as_rule_set s)"
proof
  fix s t
  show "rule_set_initial s \<Longrightarrow> typed read \<and> typed decode \<longrightarrow> set_honest (as_rule_set s)"
    using initial_new by (auto simp: rule_set_initial_def as_rule_set_def)
  show "rule_set_change L n read decode s t \<Longrightarrow> typed read \<and> typed decode \<longrightarrow> set_honest (as_rule_set s) \<Longrightarrow>
      typed read \<and> typed decode \<longrightarrow> set_honest (as_rule_set t)"
    by (induction rule: rule_set_change.cases)
      (auto dest: reloadRules_honest reloadFile_honest loadBytes_honest
        simp: as_rule_set_def IncRef_def DecRef_def Cleanup_def rule_set_Close_def RegisterCallback_def UnregisterCallback_def
        split: if_splits)
qed

section \<open>DNS rules before and after the lookup\<close>

text \<open>No default rule of the options asks for \<^verbatim>\<open>rule_set_ip_cidr_match_source\<close>.\<close>

fun by_destination :: "dns_rule_options \<Rightarrow> bool" where
  "by_destination (DNSRuleOptions type c a mode rules invert la) \<longleftrightarrow>
     \<not> c_rule_set_match_source c \<and> list_all by_destination rules"

fun destination_sets :: "rule \<Rightarrow> bool" where
  "destination_sets (DefaultRule r set_item invert) \<longleftrightarrow>
     pred_option (\<lambda>i. case i of RuleSetItem tags sets matchSource acceptEmpty \<Rightarrow> \<not> matchSource) set_item"
| "destination_sets (LogicalRule rules mode invert) \<longleftrightarrow> list_all destination_sets rules"

lemma NewDNSRule_destination:
  "NewDNSRule L b r = Inr (q, action) \<Longrightarrow> by_destination r \<Longrightarrow> destination_sets q"
  "NewDNSSubRules L i rs = Inr qs \<Longrightarrow> list_all by_destination rs \<Longrightarrow> list_all destination_sets qs"
proof (induction L b r and L i rs arbitrary: q action and qs rule: NewDNSRule_NewDNSSubRules.induct)
  case (1 L b type c a mode rules invert la)
  then show ?case
    by (auto simp: NewDefaultDNSRule_def rule_set_step_def NewRuleSetItem_def rbind_eq_Inr_iff split: if_splits)
qed (auto simp: rbind_eq_Inr_iff)

lemma started_reads_answer [simp]: "reads_answer (snd (item_start S it)) = reads_answer it"
  by (cases it) (simp_all add: ClashModeItem_Start_def split_beta)

lemma started_answer_free: "answer_free r \<Longrightarrow> answer_free (items_started S r)"
  by (auto simp: answer_free_def items_started_def Let_def list_all_iff)

lemma resolved_sets:
  "rule_set_item_start router (RuleSetItem tags sets m e) = Inr i \<Longrightarrow> (\<And>tag rs. router tag = Some rs \<Longrightarrow> P rs) \<Longrightarrow>
     list_all P sets \<Longrightarrow> \<exists>sets'. i = RuleSetItem tags sets' m e \<and> list_all P sets'"
proof -
  assume st: "rule_set_item_start router (RuleSetItem tags sets m e) = Inr i"
    and P: "\<And>tag rs. router tag = Some rs \<Longrightarrow> P rs" and sets: "list_all P sets"
  obtain sets' where i: "i = RuleSetItem tags sets' m e" and f: "rfold (\<lambda>tag acc. case router tag of
      None \<Rightarrow> Inl (ENew (''rule-set not found: '' @ tag)) | Some rs \<Rightarrow> Inr (acc @ [rs])) tags sets = Inr sets'"
    using st by (auto simp: rbind_eq_Inr_iff)
  from f sets have "list_all P sets'"
    by (rule rfold_invariant) (auto dest: P split: option.splits)
  then show ?thesis using i by blast
qed

lemma started_honest:
  "rule_start S router q = Inr r \<Longrightarrow> (\<And>tag rs. router tag = Some rs \<Longrightarrow> set_honest rs) \<Longrightarrow>
     rule_wf False q \<Longrightarrow> destination_sets q \<Longrightarrow> sets_honest r"
  "rules_start S router qs = Inr rs \<Longrightarrow> (\<And>tag rs. router tag = Some rs \<Longrightarrow> set_honest rs) \<Longrightarrow>
     list_all (rule_wf False) qs \<Longrightarrow> list_all destination_sets qs \<Longrightarrow> list_all sets_honest rs"
proof (induction S router q and S router qs arbitrary: r and rs rule: rule_start_rules_start.induct)
  case (1 S router q set_item invert)
  have free: "answer_free (items_started S q)" using 1 by (auto intro: started_answer_free grouped_answer_free)
  show ?case
  proof (cases set_item)
    case None
    then show ?thesis using 1 free by (auto split: option.splits)
  next
    case (Some i)
    obtain tags sets m e where i: "i = RuleSetItem tags sets m e" by (cases i)
    obtain i' where r: "r = DefaultRule (items_started S q) (Some i') invert" and st: "rule_set_item_start router i = Inr i'"
      using 1(1) Some by (auto simp: rbind_eq_Inr_iff split: option.splits)
    have "list_all set_honest sets" "\<not> m" using 1 Some i by auto
    then show ?thesis using resolved_sets [OF st [unfolded i], of set_honest] 1(2) free by (auto simp: r)
  qed
qed (auto simp: rbind_eq_Inr_iff)

text \<open>C37: The phase before the lookup is exact where it is final. Take a DNS rule built from options that match rule sets by
  destination, with the rule sets in whatever states loading, updating and releasing them has produced. If the router
  has no check for the response, because the rule reports no address limit, then whatever addresses the response
  brings, evaluating the full rule on the metadata left by the first phase with these addresses gives the answer the
  first phase gave. The decoders of rule-set files are assumed to produce rules of the two types only.\<close>

theorem dns_prelookup_final:
  assumes "NewDNSRule L b opts = Inr (q, action)" and "by_destination opts"
    and "typed read" and "typed decode"
    and "\<And>tag s. stored tag = Some s \<Longrightarrow> \<exists>t. (rule_set_change L n read decode)\<^sup>*\<^sup>* (new_rule_set_state t) s"
    and "rule_start S (\<lambda>tag. map_option as_rule_set (stored tag)) q = Inr r"
    and "dns_Match L S r md = (ok, md')" and "addressLimitResponseCheck L S (Some r) md' = None"
  shows "fst (dns_MatchAddressLimit L S r (md'\<lparr>md_destination_addresses := addrs\<rparr>)) = ok"
proof (rule dns_prelookup)
  show "\<not> WithAddressLimit r" using assms(8) by (simp add: addressLimitResponseCheck_def split: if_splits)
  have "set_honest rs" if a: "map_option as_rule_set (stored tag) = Some rs" for tag rs
    using a assms(3-5) rule_set_sys.inv_reachable [OF initial_new(1), of L n read decode] by fastforce
  then show "sets_honest r"
    using started_honest(1) [OF assms(6)] NewDNSRule_wf(1) [OF assms(1)] NewDNSRule_destination(1) [OF assms(1,2)] by blast
qed (rule assms(7))

definition demo_loaded_set :: rule_set_state where
  "demo_loaded_set = (new_rule_set_state ''block'')\<lparr>rs_rules := [DefaultRule demo_set_rule None False]\<rparr>"

lemma demo_parsed: "parse_rules demo_libs False 0 [demo_keyword_options] = Inr [DefaultRule demo_set_rule None False]"
  by (simp add: demo_keyword_rule)

lemma demo_metadata: "metadata_of [demo_keyword_options] = rs_metadata (new_rule_set_state ''block'')"
  by (simp add: metadata_of_def new_rule_set_state_def demo_keyword_options_def zero_conds_def isIPCIDRHeadlessRule_def
      isProcessHeadlessRule_def isWIFIHeadlessRule_def)

definition demo_decode :: decoder where
  "demo_decode binary content =
     (if content = ''new'' then Inr \<lparr>prs_version = 1, prs_rules = [demo_keyword_options]\<rparr> else Inl (ENew ''bad content''))"

lemma demo_decode_typed: "typed demo_decode"
  by (auto simp: typed_def demo_decode_def demo_keyword_options_def split: if_splits)

lemma demo_loaded:
  "loadBytes demo_libs False demo_decode ''source'' ''new'' (new_rule_set_state ''block'') = (None, [], demo_loaded_set)"
  by (simp add: loadBytes_def demo_decode_def Upgrade_def demo_parsed demo_metadata Let_def demo_loaded_set_def
      new_rule_set_state_def del: parse_rules.simps)

text \<open>A DNS rule over that set, which asks for a domain of the set.\<close>

definition demo_lookup_options :: dns_rule_options where
  "demo_lookup_options = DNSRuleOptions ''default'' (zero_conds\<lparr>c_auth_user := [''alice''], c_rule_set := [''block'']\<rparr>)
     (zero_dns_rule_action\<lparr>dao_action := ''reject''\<rparr>) [] [] False zero_dns_rule_action"

definition demo_lookup_rule :: rule where
  "demo_lookup_rule = DefaultRule
     (no_items\<lparr>items := [NewAuthUserItem [''alice'']], allItems := [NewAuthUserItem [''alice'']]\<rparr>)
     (Some (RuleSetItem [''block''] [as_rule_set demo_loaded_set] False False)) False"

theorem dns_prelookup_final_witness:
  "addressLimitResponseCheck demo_libs demo_services (Some demo_lookup_rule) demo_md = None \<and>
   fst (dns_MatchAddressLimit demo_libs demo_services demo_lookup_rule
     ((snd (dns_Match demo_libs demo_services demo_lookup_rule demo_md))\<lparr>md_destination_addresses := [V4 9]\<rparr>)) =
   fst (dns_Match demo_libs demo_services demo_lookup_rule demo_md)"
proof
  let ?stored = "[''block'' \<mapsto> demo_loaded_set]"
  let ?q = "DefaultRule (no_items\<lparr>items := [NewAuthUserItem [''alice'']], allItems := [NewAuthUserItem [''alice'']]\<rparr>)
    (Some (RuleSetItem [''block''] [] False False)) False"
  obtain action where new: "NewDNSRule demo_libs True demo_lookup_options = Inr (?q, action)"
    by (simp add: demo_lookup_options_def demo_dns_simps)
  have dest: "by_destination demo_lookup_options" by (simp add: demo_lookup_options_def zero_conds_def)
  have reach: "\<exists>t. (rule_set_change demo_libs False demo_decode demo_decode)\<^sup>*\<^sup>* (new_rule_set_state t) s"
    if "?stored tag = Some s" for tag s
    using that r_into_rtranclp [of "rule_set_change demo_libs False demo_decode demo_decode",
        OF rule_set_change.from_bytes [OF demo_loaded]] by (auto split: if_splits)
  have start: "rule_start demo_services (\<lambda>tag. map_option as_rule_set (?stored tag)) ?q = Inr demo_lookup_rule"
    by (simp add: demo_lookup_rule_def first_start_error_def items_started_def Let_def no_items_def NewAuthUserItem_def)
  have none: "addressLimitResponseCheck demo_libs demo_services (Some demo_lookup_rule) md' = None" for md'
    by (simp add: addressLimitResponseCheck_def demo_lookup_rule_def no_items_def as_rule_set_def demo_loaded_set_def
        new_rule_set_state_def)
  show "addressLimitResponseCheck demo_libs demo_services (Some demo_lookup_rule) demo_md = None" by (rule none)
  show "fst (dns_MatchAddressLimit demo_libs demo_services demo_lookup_rule
     ((snd (dns_Match demo_libs demo_services demo_lookup_rule demo_md))\<lparr>md_destination_addresses := [V4 9]\<rparr>)) =
   fst (dns_Match demo_libs demo_services demo_lookup_rule demo_md)"
    by (rule dns_prelookup_final [OF new dest demo_decode_typed demo_decode_typed reach start _ none]) simp_all
qed

section \<open>User rules\<close>

text \<open>A step that establishes a property the later ones keep.\<close>

lemma run_steps_establishes:
  assumes run: "run_steps (xs @ st # ys) = Inr r"
    and est: "\<And>r r'. st r = Inr r' \<Longrightarrow> P r'" and keep: "list_all (step_keeps P) ys"
  shows "P r"
proof -
  obtain r1 r2 where "st r1 = Inr r2" and rest: "rfold (\<lambda>step r. step r) ys r2 = Inr r"
    using run unfolding run_steps_def rfold_append by (auto simp: rbind_eq_Inr_iff)
  then have "P r2" using est by blast
  with rest show ?thesis
    by (rule rfold_invariant) (use keep in \<open>auto simp: list_all_iff step_keeps_def\<close>)
qed

definition has_item :: "item \<Rightarrow> default_items \<Rightarrow> bool" where
  "has_item it r \<longleftrightarrow> it \<in> set (items r)"

lemma has_item_add [step_intros]:
  "has_item i r \<Longrightarrow> has_item i (add_item it r)" "has_item i r \<Longrightarrow> has_item i (add_source_address it r)"
  "has_item i r \<Longrightarrow> has_item i (add_source_port it r)" "has_item i r \<Longrightarrow> has_item i (add_destination_address it r)"
  "has_item i r \<Longrightarrow> has_item i (add_destination_ipcidr it r)" "has_item i r \<Longrightarrow> has_item i (add_destination_port it r)"
  "has_item i r \<Longrightarrow> has_item i (add_all it r)"
  by (auto simp: has_item_def add_defs)

lemma default_rule_auth_user:
  assumes run: "run_steps (default_rule_steps_1 L c @ default_rule_steps_2 L c @ default_rule_steps_3 L c) = Inr r"
    and us: "c_auth_user c \<noteq> []"
  shows "has_item (NewAuthUserItem (c_auth_user c)) r"
proof -
  let ?st = "when_add (c_auth_user c \<noteq> []) [add_item, add_all] (NewAuthUserItem (c_auth_user c))"
  have split: "default_rule_steps_1 L c = take 3 (default_rule_steps_1 L c) @ ?st # drop 4 (default_rule_steps_1 L c)"
    by (simp add: default_rule_steps_1_def)
  have keep: "list_all (step_keeps (has_item (NewAuthUserItem (c_auth_user c))))
      (drop 4 (default_rule_steps_1 L c) @ default_rule_steps_2 L c @ default_rule_steps_3 L c)"
    by (simp add: steps_defs step_intros)
  show ?thesis
  proof (rule run_steps_establishes [OF _ _ keep])
    show "run_steps (take 3 (default_rule_steps_1 L c) @ ?st # drop 4 (default_rule_steps_1 L c) @
        default_rule_steps_2 L c @ default_rule_steps_3 L c) = Inr r"
      using run by (subst (asm) split) simp
    show "\<And>r r'. ?st r = Inr r' \<Longrightarrow> has_item (NewAuthUserItem (c_auth_user c)) r'"
      using us by (auto simp: when_add_def has_item_def add_defs)
  qed
qed

lemma matches_items_hold:
  assumes m: "matches L S (DefaultRule r set_item False) md" and ne: "allItems r \<noteq> []"
  shows "items_hold L S r md"
proof -
  obtain f where "rule_matchStatesWithBase L S (DefaultRule r set_item False) md 0 = default_matchStatesWithBase L S r f False md 0"
    by simp
  then show ?thesis
    using m default_states [of 0 r f L S False md] ne by (auto simp: matches_states simp del: rule_matchStatesWithBase.simps split: if_splits)
qed

text \<open>User isolation. A rule whose options name authenticated users, and that is not inverted, once built and
  started, matches only connections of those users, whatever its other conditions and rule sets are.\<close>

theorem user_rule_isolated:
  assumes new: "NewRule L A b (RuleOptions type c a mode rules invert la) = Inr (q, action)"
    and type: "type \<noteq> ''logical''" and us: "c_auth_user c \<noteq> []" and inv: "\<not> c_invert c"
    and start: "rule_start S router q = Inr q'" and m: "matches L S q' md"
  shows "md_user md \<in> set (c_auth_user c)"
proof -
  obtain r set_item where q: "q = DefaultRule r set_item False"
    and run: "run_steps (default_rule_steps_1 L c @ default_rule_steps_2 L c @ default_rule_steps_3 L c) = Inr r"
    using new type inv by (auto simp: NewDefaultRule_def default_rule_conds_def rbind_eq_Inr_iff split: if_splits)
  let ?it = "NewAuthUserItem (c_auth_user c)"
  have it: "?it \<in> set (items r)" using default_rule_auth_user [OF run us] by (simp add: has_item_def)
  obtain set_item' where q': "q' = DefaultRule (items_started S r) set_item' False"
    using start by (auto simp: q rbind_eq_Inr_iff split: option.splits)
  have "?it \<in> set (items (items_started S r))"
    using it by (auto simp: items_started_def Let_def NewAuthUserItem_def intro!: rev_image_eqI)
  moreover have "allItems (items_started S r) \<noteq> []"
    using it grouped_items_wf [OF run_steps_keeps [OF run grouped_empty steps_grouped(1)]] by (auto simp: items_started_def Let_def items_wf_def)
  ultimately have "item_match L S md ?it"
    using matches_items_hold [OF m [unfolded q']] by (auto simp: items_hold_def)
  then show ?thesis by (simp add: NewAuthUserItem_def)
qed

definition demo_action_libs :: action_libs where
  "demo_action_libs = \<lparr>al_parse_socksaddr = (\<lambda>_. \<lparr>sa_addr = None, sa_port = 0, sa_fqdn = []\<rparr>), al_addr_string = (\<lambda>_. []),
     al_ip_string = (\<lambda>_. []), al_new_dialer = (\<lambda>_. None), al_duration_string = (\<lambda>_. []), al_hex = (\<lambda>_. []),
     al_rcode_string = (\<lambda>_. []), al_rr_string = (\<lambda>_. [])\<rparr>"

definition demo_user_options :: rule_options where
  "demo_user_options = RuleOptions ''default'' (zero_conds\<lparr>c_auth_user := [''alice'']\<rparr>)
     (zero_rule_action\<lparr>ao_action := ''route'', ao_route_outbound := ''out''\<rparr>) [] [] False zero_rule_action"

definition demo_user_items :: default_items where
  "demo_user_items = no_items\<lparr>items := [NewAuthUserItem [''alice'']], allItems := [NewAuthUserItem [''alice'']]\<rparr>"

lemma demo_user_rule:
  "\<exists>action. NewRule demo_libs demo_action_libs b demo_user_options = Inr (DefaultRule demo_user_items None False, action)"
  by (simp add: demo_user_options_def DefaultRule_IsValid_def conds_empty_def zero_conds_def zero_rule_action_def
      missing_outbound_def NewDefaultRule_def NewRuleAction_def default_rule_conds_def run_steps_def
      steps_defs when_add_def when_try_def when_fail_def ip_version_step_def rule_set_step_def add_defs empty_items_def
      demo_user_items_def no_items_def)

theorem user_rule_isolated_witness:
  "matches demo_libs demo_services (DefaultRule demo_user_items None False) (demo_md\<lparr>md_user := ''alice''\<rparr>) \<and>
   md_user (demo_md\<lparr>md_user := ''alice''\<rparr>) \<in> set [''alice'']"
proof
  have st: "rule_start demo_services (\<lambda>_. None) (DefaultRule demo_user_items None False) = Inr (DefaultRule demo_user_items None False)"
    by (simp add: first_start_error_def items_started_def Let_def demo_user_items_def no_items_def NewAuthUserItem_def)
  show m: "matches demo_libs demo_services (DefaultRule demo_user_items None False) (demo_md\<lparr>md_user := ''alice''\<rparr>)"
    by (simp add: default_rule_matches rule_holds_def items_hold_def demo_user_items_def no_items_def NewAuthUserItem_def
        requiresSourceAddressMatch_def requiresDestinationAddressMatch_def destinationIPCIDRMatchesSource_def
        destinationIPCIDRMatchesDestination_def)
  obtain action where "NewRule demo_libs demo_action_libs True demo_user_options = Inr (DefaultRule demo_user_items None False, action)"
    using demo_user_rule by blast
  from user_rule_isolated [OF this [unfolded demo_user_options_def] _ _ _ st m]
  show "md_user (demo_md\<lparr>md_user := ''alice''\<rparr>) \<in> set [''alice'']" by (simp add: zero_conds_def)
qed

end
