(* ===== verification/Rule_Set_Update.thy ===== *)
theory Rule_Set_Update
  imports Rule_Build_Props
begin

text \<open>
  Updates of remote rule sets: what an answer of the server changes, and that a failed update changes nothing. The
  interface \<open>loader\<close> states what the loaders of a rule set promise; both the file and the byte loader satisfy it.
\<close>

section \<open>The contract of a loader\<close>

text \<open>A loader either fails and leaves the set as it was, running no callback, or installs the rules of the
  decoded options with the metadata that describes them and runs every callback. Tag, references and callbacks stay.\<close>

locale loader =
  fixes load :: "rule_set_state \<Rightarrow> go_error option \<times> nat list \<times> rule_set_state"
    and accepted :: "headless_options list \<Rightarrow> rule list \<Rightarrow> bool"
  assumes load_error: "load s = (Some e, cbs, s') \<Longrightarrow> s' = s \<and> cbs = []"
    and load_ok: "load s = (None, cbs, s') \<Longrightarrow>
      \<exists>opts rules. accepted opts rules \<and> s' = s\<lparr>rs_rules := rules, rs_metadata := metadata_of opts\<rparr> \<and> cbs = rs_callbacks s"
begin

lemma load_keeps:
  "load s = (r, cbs, s') \<Longrightarrow> rs_tag s' = rs_tag s \<and> rs_refs s' = rs_refs s \<and> rs_callbacks s' = rs_callbacks s"
  using load_error [of s _ cbs s'] load_ok [of s cbs s'] by (cases r) auto

lemma load_all_or_nothing:
  "load s = (r, cbs, s') \<Longrightarrow> r = None \<or> (rs_rules s', rs_metadata s') = (rs_rules s, rs_metadata s)"
  using load_error [of s _ cbs s'] by (cases r) auto

end

text \<open>The content decodes in the configured format, with a version that is known, to options from which the rules are
  built. Only a local file may leave the format open.\<close>

definition parsed :: "libs \<Rightarrow> bool \<Rightarrow> decoder \<Rightarrow> bool \<Rightarrow> string \<Rightarrow> string \<Rightarrow> headless_options list \<Rightarrow> rule list \<Rightarrow> bool" where
  "parsed L n decode is_file format content opts rules \<longleftrightarrow>
     (format = ''binary'' \<or> format = ''source'' \<or> is_file \<and> format = []) \<and>
     rbind (decode (format = ''binary'') content) Upgrade = Inr opts \<and> parse_rules L n 0 opts = Inr rules"

lemma reloadRules_error: "reloadRules L n opts s = (Some e, cbs, s') \<Longrightarrow> s' = s \<and> cbs = []"
  by (auto simp: reloadRules_def split: sum.splits)

lemma reloadRules_ok: "reloadRules L n opts s = (None, cbs, s') \<Longrightarrow>
    \<exists>rules. parse_rules L n 0 opts = Inr rules \<and> s' = s\<lparr>rs_rules := rules, rs_metadata := metadata_of opts\<rparr> \<and> cbs = rs_callbacks s"
  by (auto simp: reloadRules_def split: sum.splits)

interpretation bytes: loader "loadBytes L n decode format content" "parsed L n decode False format content"
proof
  fix s e cbs s'
  show "loadBytes L n decode format content s = (Some e, cbs, s') \<Longrightarrow> s' = s \<and> cbs = []"
    by (auto simp: loadBytes_def Let_def split: if_splits sum.splits)
  show "loadBytes L n decode format content s = (None, cbs, s') \<Longrightarrow>
      \<exists>opts rules. parsed L n decode False format content opts rules \<and>
        s' = s\<lparr>rs_rules := rules, rs_metadata := metadata_of opts\<rparr> \<and> cbs = rs_callbacks s"
    by (auto simp: loadBytes_def parsed_def Let_def rbind_eq_Inr_iff split: if_splits sum.splits)
qed

interpretation local_file: loader "reloadFile L n read format path" "parsed L n read True format path"
proof
  fix s e cbs s'
  show "reloadFile L n read format path s = (Some e, cbs, s') \<Longrightarrow> s' = s \<and> cbs = []"
    by (auto simp: reloadFile_def split: if_splits sum.splits dest: reloadRules_error)
  show "reloadFile L n read format path s = (None, cbs, s') \<Longrightarrow>
      \<exists>opts rules. parsed L n read True format path opts rules \<and>
        s' = s\<lparr>rs_rules := rules, rs_metadata := metadata_of opts\<rparr> \<and> cbs = rs_callbacks s"
    by (auto simp: reloadFile_def parsed_def rbind_eq_Inr_iff split: if_splits sum.splits dest!: reloadRules_ok)
qed

section \<open>Fetching\<close>

text \<open>What an update by an answer 304 and by a body leave behind.\<close>

definition confirmed :: "cache_file \<Rightarrow> int \<Rightarrow> remote_rule_set \<Rightarrow> remote_rule_set" where
  "confirmed c now s = s\<lparr>rr_last_updated := Some now,
     rr_cache := (if c = Some True then map_option (\<lambda>b. b\<lparr>sb_last_updated := now\<rparr>) (rr_cache s) else rr_cache s)\<rparr>"

definition replaced ::
  "cache_file \<Rightarrow> int \<Rightarrow> string \<Rightarrow> string \<Rightarrow> headless_options list \<Rightarrow> rule list \<Rightarrow> remote_rule_set \<Rightarrow> remote_rule_set" where
  "replaced c now content etag opts rules s =
     (let etag' = (if etag = [] then rr_last_etag s else etag)
      in \<lparr>rr_state = (rr_state s)\<lparr>rs_rules := rules, rs_metadata := metadata_of opts\<rparr>, rr_last_updated = Some now,
          rr_last_etag = etag',
          rr_cache = (if c = Some True then Some \<lparr>sb_last_updated = now, sb_content = content, sb_last_etag = etag'\<rparr>
                      else rr_cache s)\<rparr>)"

lemma fetch_error:
  assumes "fetch L n decode format c now answer s = (Some e, cbs, s')" shows "s' = s \<and> cbs = []"
  using assms bytes.load_error [of L n decode format _ "rr_state s"]
  by (fastforce simp: fetch_def Let_def split: http_answer.splits if_splits sum.splits option.splits prod.splits)

lemma fetch_ok:
  assumes "fetch L n decode format c now answer s = (None, cbs, s')"
  shows "(\<exists>status body etag. answer = HttpStatus 304 status body etag \<and> s' = confirmed c now s \<and> cbs = []) \<or>
    (\<exists>status content etag opts rules. answer = HttpStatus 200 status (Inr content) etag \<and>
       parsed L n decode False format content opts rules \<and>
       s' = replaced c now content etag opts rules s \<and> cbs = rs_callbacks (rr_state s))"
proof (cases answer)
  case (HttpStatus code status body etag)
  show ?thesis
  proof (cases "code = 304")
    case True
    then have "s' = confirmed c now s \<and> cbs = []" using assms HttpStatus
      by (auto simp: fetch_def confirmed_def SaveRuleSet_def Let_def split: option.splits)
    then show ?thesis using HttpStatus True by blast
  next
    case False
    then obtain content st where b: "code = 200" "body = Inr content"
      and l: "loadBytes L n decode format content (rr_state s) = (None, cbs, st)"
      using assms HttpStatus by (auto simp: fetch_def Let_def split: if_splits sum.splits option.splits prod.splits)
    from bytes.load_ok [OF l] obtain opts rules where p: "parsed L n decode False format content opts rules"
      and st: "st = (rr_state s)\<lparr>rs_rules := rules, rs_metadata := metadata_of opts\<rparr>" and "cbs = rs_callbacks (rr_state s)" by blast
    moreover have "s' = replaced c now content etag opts rules s"
      using assms HttpStatus b l by (auto simp: fetch_def replaced_def SaveRuleSet_def Let_def st split: option.splits)
    ultimately show ?thesis using HttpStatus b by blast
  qed
qed (use assms in \<open>simp add: fetch_def\<close>)

text \<open>C39: Updates of remote rule sets. An update that fails leaves the rule set, its Etag, time stamp and cache as they were and
  runs no callback. One that succeeds was answered either with 304, and only the time stamp moves, in the cache entry
  too when it can be saved; or with 200 and a body that decodes in the configured format, and then exactly the rules of
  that body with their metadata are installed, every callback runs, the Etag of the answer is remembered if it has one,
  and the cache holds the body under the remembered Etag. A cache that cannot be saved keeps its entry and does not
  make the update fail.\<close>

theorem remote_update_atomic:
  "case fetch L n decode format c now answer s of
     (Some e, cbs, s') \<Rightarrow> s' = s \<and> cbs = []
   | (None, cbs, s') \<Rightarrow>
       (\<exists>status body etag. answer = HttpStatus 304 status body etag \<and> s' = confirmed c now s \<and> cbs = []) \<or>
       (\<exists>status content etag opts rules. answer = HttpStatus 200 status (Inr content) etag \<and>
          parsed L n decode False format content opts rules \<and>
          s' = replaced c now content etag opts rules s \<and> cbs = rs_callbacks (rr_state s))"
proof (cases "fetch L n decode format c now answer s")
  case (fields r cbs s')
  show ?thesis
  proof (cases r)
    case None
    from fetch_ok [OF fields [unfolded None]] show ?thesis by (simp only: fields None prod.case option.case)
  qed (use fields fetch_error [of L n decode format c now answer s _ cbs s'] in simp)
qed

text \<open>The header \<^verbatim>\<open>If-None-Match\<close> of the next request.\<close>

definition if_none_match :: "remote_rule_set \<Rightarrow> string option" where
  "if_none_match s = (if rr_last_etag s \<noteq> [] then Some (rr_last_etag s) else None)"

text \<open>A stale Etag. When the server sends a new body without an Etag, the rule set takes the new rules but keeps the Etag of
  the body before; the next request asks with that Etag, and an answer 304, by which the server says that the old
  body is current again, leaves the rules of the newer body.\<close>

theorem stale_etag_kept:
  assumes l: "loadBytes L n decode format content (rr_state s) = (None, cbs, st)"
  shows "\<exists>s1 s2. fetch L n decode format c now (HttpStatus 200 status (Inr content) []) s = (None, cbs, s1) \<and>
    if_none_match s1 = if_none_match s \<and> rs_rules (rr_state s1) = rs_rules st \<and>
    fetch L n decode format c later (HttpStatus 304 status' body etag) s1 = (None, [], s2) \<and> rs_rules (rr_state s2) = rs_rules st"
  using l by (simp add: fetch_def if_none_match_def SaveRuleSet_def Let_def split: option.split)

definition demo_remote :: remote_rule_set where
  "demo_remote = \<lparr>rr_state = new_rule_set_state ''block'', rr_last_updated = None, rr_last_etag = ''old-etag'', rr_cache = None\<rparr>"

theorem stale_etag_kept_witness:
  "\<exists>s1 s2. fetch demo_libs False demo_decode ''source'' None 1 (HttpStatus 200 ''200 OK'' (Inr ''new'') []) demo_remote = (None, [], s1) \<and>
    if_none_match s1 = Some ''old-etag'' \<and> rs_rules (rr_state s1) = [DefaultRule demo_set_rule None False] \<and>
    fetch demo_libs False demo_decode ''source'' None 2 (HttpStatus 304 ''304 Not Modified'' (Inr []) []) s1 = (None, [], s2) \<and>
    rs_rules (rr_state s2) = [DefaultRule demo_set_rule None False]"
proof -
  have l: "loadBytes demo_libs False demo_decode ''source'' ''new'' (rr_state demo_remote) = (None, [], demo_loaded_set)"
    by (simp add: demo_remote_def demo_loaded)
  from stale_etag_kept [OF l, of None 1 "''200 OK''" 2 "''304 Not Modified''" "Inr []" "[]"]
  show ?thesis by (simp add: if_none_match_def demo_remote_def demo_loaded_set_def)
qed

end
