(* ===== verification/Rule_Snapshot.thy ===== *)
theory Rule_Snapshot
  imports Rule_Sets
begin

text \<open>
  The rules of the running router (\<^verbatim>\<open>route/hot_add.go\<close>): connections lease the snapshot of rules that is current
  when they are routed, an update prepares the next list of rules, reusing the objects of the unchanged ones, and
  publishes it; a retired rule is closed when the snapshot that retired it has no lease.

  Rule objects have an identity, as \<^verbatim>\<open>adapter.Rule\<close> values are compared by pointer; \<open>rt_closed\<close> is the log of the
  \<^verbatim>\<open>Close\<close> calls. Snapshots are addressed by their position in the order of publication.
\<close>

record rule_obj =
  ro_id :: nat
  ro_rule :: rule
  ro_action :: "rule_action option"

record rule_snapshot =
  sn_rules :: "rule_obj list"
  sn_leases :: int
  sn_retired :: "rule_obj list"

record rule_router =
  rt_rules :: "rule_obj list"
  rt_added :: "nat option"
  rt_snapshots :: "rule_snapshot list"
  rt_closed :: "nat list"
  rt_fresh :: nat

definition currentRules :: "rule_router \<Rightarrow> rule_obj list" where
  "currentRules r = (case rt_added r of Some i \<Rightarrow> sn_rules (rt_snapshots r ! i) | None \<Rightarrow> rt_rules r)"

text \<open>A prepared update: the next rules, the started ones among them and the rules it retires.\<close>

record prepared_rules =
  pr_next :: "rule_obj list"
  pr_added :: "nat list"
  pr_retired :: "rule_obj list"

text \<open>The loop of \<^verbatim>\<open>PrepareAddedRules\<close>. On an error it gives the rules to close; an index
  that is out of range closes nothing, as the panic leaves the function. A panic inside a rule constructor is not told apart from an error.\<close>

fun prepare_loop ::
  "(rule_options \<Rightarrow> go_error + rule \<times> rule_action option) \<Rightarrow> (rule \<Rightarrow> go_error + rule) \<Rightarrow> rule_obj list \<Rightarrow>
     rule_options list \<Rightarrow> int list \<Rightarrow> nat \<Rightarrow> nat list \<Rightarrow> rule_obj list \<Rightarrow>
     (go_error \<times> nat list \<times> nat) + (rule_obj list \<times> nat list \<times> nat)" where
  "prepare_loop build start previous [] idxs fresh added next = Inr (next, added, fresh)"
| "prepare_loop build start previous (opt # opts) [] fresh added next =
     Inl (EPanic ''index out of range'', [], fresh)"
| "prepare_loop build start previous (opt # opts) (idx # idxs) fresh added next =
     (if 0 \<le> idx then
        (if nat idx < length previous
         then prepare_loop build start previous opts idxs fresh added (next @ [previous ! nat idx])
         else Inl (EPanic ''index out of range'', [], fresh))
      else
        case build opt of
          Inl e \<Rightarrow> Inl (e, added, fresh)
        | Inr (q, action) \<Rightarrow>
            (case start q of
               Inl e \<Rightarrow> Inl (e, added @ [fresh], Suc fresh)
             | Inr q' \<Rightarrow> prepare_loop build start previous opts idxs (Suc fresh) (added @ [fresh])
                 (next @ [\<lparr>ro_id = fresh, ro_rule = q', ro_action = action\<rparr>])))"

definition PrepareAddedRules ::
  "libs \<Rightarrow> action_libs \<Rightarrow> services \<Rightarrow> (string \<Rightarrow> rule_set option) \<Rightarrow> rule_options list \<Rightarrow> int list \<Rightarrow> rule_router \<Rightarrow>
     (go_error + prepared_rules) \<times> rule_router" where
  "PrepareAddedRules L A S rule_sets options previousIndexes r =
     (let previous = currentRules r
      in case prepare_loop (NewRule L A False) (rule_start S rule_sets) previous options previousIndexes (rt_fresh r) [] [] of
           Inl (e, closes, fresh) \<Rightarrow> (Inl e, r\<lparr>rt_closed := rt_closed r @ closes, rt_fresh := fresh\<rparr>)
         | Inr (next, added, fresh) \<Rightarrow>
             (Inr \<lparr>pr_next = next, pr_added = added,
                   pr_retired = filter (\<lambda>q. ro_id q \<notin> ro_id ` set next) previous\<rparr>, r\<lparr>rt_fresh := fresh\<rparr>))"

definition abortRules :: "prepared_rules \<Rightarrow> rule_router \<Rightarrow> rule_router" where
  "abortRules p r = r\<lparr>rt_closed := rt_closed r @ pr_added p\<rparr>"

text \<open>The snapshot an operation works on; one is made from \<^verbatim>\<open>r.rules\<close> when there is none.\<close>

definition current_snapshot :: "rule_router \<Rightarrow> nat \<times> rule_snapshot list" where
  "current_snapshot r = (case rt_added r of
     Some i \<Rightarrow> (i, rt_snapshots r)
   | None \<Rightarrow> (length (rt_snapshots r), rt_snapshots r @ [\<lparr>sn_rules = rt_rules r, sn_leases = 0, sn_retired = []\<rparr>]))"

definition publishRules :: "prepared_rules \<Rightarrow> rule_router \<Rightarrow> rule_router" where
  "publishRules p r =
     (let (i, sns) = current_snapshot r;
          old = (sns ! i)\<lparr>sn_retired := pr_retired p\<rparr>;
          new = \<lparr>sn_rules = pr_next p, sn_leases = 0, sn_retired = []\<rparr>
      in if sn_leases old = 0
         then r\<lparr>rt_snapshots := sns[i := old\<lparr>sn_retired := []\<rparr>] @ [new], rt_added := Some (length sns),
                rt_closed := rt_closed r @ map ro_id (sn_retired old)\<rparr>
         else r\<lparr>rt_snapshots := sns[i := old] @ [new], rt_added := Some (length sns)\<rparr>)"

definition acquireRules :: "rule_router \<Rightarrow> nat \<times> rule_router" where
  "acquireRules r =
     (let (i, sns) = current_snapshot r
      in (i, r\<lparr>rt_snapshots := sns[i := (sns ! i)\<lparr>sn_leases := sn_leases (sns ! i) + 1\<rparr>], rt_added := Some i\<rparr>))"

definition releaseRules :: "nat \<Rightarrow> rule_router \<Rightarrow> rule_router" where
  "releaseRules i r =
     (let sn = (rt_snapshots r ! i)\<lparr>sn_leases := sn_leases (rt_snapshots r ! i) - 1\<rparr>
      in if sn_leases sn = 0
         then r\<lparr>rt_snapshots := (rt_snapshots r)[i := sn\<lparr>sn_retired := []\<rparr>], rt_closed := rt_closed r @ map ro_id (sn_retired sn)\<rparr>
         else r\<lparr>rt_snapshots := (rt_snapshots r)[i := sn]\<rparr>)"

section \<open>The concurrent system\<close>

text \<open>
  The mutex of the reload lets one update at a time be prepared and then published or aborted; connections acquire and
  release snapshots at any moment in between.
\<close>

record rule_conc =
  rc_router :: rule_router
  rc_pending :: "prepared_rules option"

inductive rule_step :: "libs \<Rightarrow> action_libs \<Rightarrow> services \<Rightarrow> (string \<Rightarrow> rule_set option) \<Rightarrow> rule_conc \<Rightarrow> rule_conc \<Rightarrow> bool"
  for L A S R where
  acquire: "rule_step L A S R c (c\<lparr>rc_router := snd (acquireRules (rc_router c))\<rparr>)"
| release: "i < length (rt_snapshots (rc_router c)) \<Longrightarrow> 0 < sn_leases (rt_snapshots (rc_router c) ! i) \<Longrightarrow>
    rule_step L A S R c (c\<lparr>rc_router := releaseRules i (rc_router c)\<rparr>)"
| prepare: "rc_pending c = None \<Longrightarrow> distinct (filter (\<lambda>i. 0 \<le> i) idxs) \<Longrightarrow>
    PrepareAddedRules L A S R opts idxs (rc_router c) = (Inr p, r) \<Longrightarrow>
    rule_step L A S R c (c\<lparr>rc_router := r, rc_pending := Some p\<rparr>)"
| prepare_error: "rc_pending c = None \<Longrightarrow> distinct (filter (\<lambda>i. 0 \<le> i) idxs) \<Longrightarrow>
    PrepareAddedRules L A S R opts idxs (rc_router c) = (Inl e, r) \<Longrightarrow>
    rule_step L A S R c (c\<lparr>rc_router := r\<rparr>)"
| publish: "rc_pending c = Some p \<Longrightarrow>
    rule_step L A S R c (c\<lparr>rc_router := publishRules p (rc_router c), rc_pending := None\<rparr>)"
| abort: "rc_pending c = Some p \<Longrightarrow>
    rule_step L A S R c (c\<lparr>rc_router := abortRules p (rc_router c), rc_pending := None\<rparr>)"

definition rule_initial :: "rule_conc \<Rightarrow> bool" where
  "rule_initial c \<longleftrightarrow> rc_pending c = None \<and> rt_added (rc_router c) = None \<and> rt_snapshots (rc_router c) = [] \<and>
     rt_closed (rc_router c) = [] \<and> distinct (map ro_id (rt_rules (rc_router c))) \<and>
     (\<forall>q \<in> set (rt_rules (rc_router c)). ro_id q < rt_fresh (rc_router c))"

section \<open>The invariant\<close>

text \<open>The snapshots published so far, the initial rules counting as the first one.\<close>

definition published :: "rule_router \<Rightarrow> rule_snapshot list" where
  "published r = snd (current_snapshot r)"

definition sn_ids :: "rule_snapshot \<Rightarrow> nat set" where
  "sn_ids sn = ro_id ` set (sn_rules sn)"

text \<open>Snapshot \<open>k\<close> has dropped the object \<open>x\<close>: the next publication does not have it.\<close>

definition dropped_at :: "rule_snapshot list \<Rightarrow> nat \<Rightarrow> nat \<Rightarrow> bool" where
  "dropped_at sns k x \<longleftrightarrow> Suc k < length sns \<and> x \<in> sn_ids (sns ! k) \<and> x \<notin> sn_ids (sns ! Suc k)"

text \<open>What a snapshot still has to close.\<close>

definition retired_ok :: "rule_snapshot list \<Rightarrow> nat \<Rightarrow> bool" where
  "retired_ok sns k \<longleftrightarrow> 0 \<le> sn_leases (sns ! k) \<and> distinct (map ro_id (sn_rules (sns ! k))) \<and>
     distinct (map ro_id (sn_retired (sns ! k))) \<and>
     ro_id ` set (sn_retired (sns ! k)) = {x. dropped_at sns k x \<and> 0 < sn_leases (sns ! k)}"

text \<open>An object that left the rules does not come back.\<close>

definition convex :: "rule_snapshot list \<Rightarrow> bool" where
  "convex sns \<longleftrightarrow> (\<forall>i j k. i < j \<and> j < k \<and> k < length sns \<longrightarrow> sn_ids (sns ! i) \<inter> sn_ids (sns ! k) \<subseteq> sn_ids (sns ! j))"

definition all_ids :: "rule_snapshot list \<Rightarrow> nat set" where
  "all_ids sns = (\<Union>sn \<in> set sns. sn_ids sn)"

definition closed_ok :: "rule_snapshot list \<Rightarrow> nat list \<Rightarrow> bool" where
  "closed_ok sns closed \<longleftrightarrow> distinct closed \<and>
     all_ids sns \<inter> set closed = {x. \<exists>k. dropped_at sns k x \<and> sn_leases (sns ! k) = 0}"

definition pending_ok :: "rule_router \<Rightarrow> prepared_rules \<Rightarrow> bool" where
  "pending_ok r p \<longleftrightarrow> distinct (map ro_id (pr_next p)) \<and> distinct (pr_added p) \<and>
     ro_id ` set (pr_next p) \<subseteq> sn_ids (last (published r)) \<union> set (pr_added p) \<and>
     set (pr_added p) \<inter> (all_ids (published r) \<union> set (rt_closed r)) = {} \<and> (\<forall>x \<in> set (pr_added p). x < rt_fresh r) \<and>
     pr_retired p = filter (\<lambda>q. ro_id q \<notin> ro_id ` set (pr_next p)) (sn_rules (last (published r)))"

definition snapshots_ok :: "rule_router \<Rightarrow> bool" where
  "snapshots_ok r \<longleftrightarrow> rt_added r = (if rt_snapshots r = [] then None else Some (length (rt_snapshots r) - 1)) \<and>
     convex (published r) \<and> (\<forall>k < length (published r). retired_ok (published r) k) \<and>
     closed_ok (published r) (rt_closed r) \<and> (\<forall>x \<in> all_ids (published r) \<union> set (rt_closed r). x < rt_fresh r)"

definition rule_inv :: "rule_conc \<Rightarrow> bool" where
  "rule_inv c \<longleftrightarrow> snapshots_ok (rc_router c) \<and>
     (case rc_pending c of None \<Rightarrow> True | Some p \<Rightarrow> pending_ok (rc_router c) p)"

subsection \<open>The current snapshot\<close>

lemma current_snapshot_last:
  "snapshots_ok r \<Longrightarrow> current_snapshot r = (length (published r) - 1, published r) \<and> published r \<noteq> []"
  by (auto simp: snapshots_ok_def published_def current_snapshot_def split: if_splits)

lemma published_nonempty: "snapshots_ok r \<Longrightarrow> published r \<noteq> []"
  using current_snapshot_last by blast

lemma currentRules_last: "snapshots_ok r \<Longrightarrow> currentRules r = sn_rules (last (published r))"
  by (auto simp: snapshots_ok_def currentRules_def published_def current_snapshot_def last_conv_nth split: if_splits)

lemma published_current: "rt_added r = Some i \<Longrightarrow> published r = rt_snapshots r"
  by (simp add: published_def current_snapshot_def)

subsection \<open>Dropped objects\<close>

lemma convexD:
  "convex sns \<Longrightarrow> i < j \<Longrightarrow> j < k \<Longrightarrow> k < length sns \<Longrightarrow> x \<in> sn_ids (sns ! i) \<Longrightarrow> x \<in> sn_ids (sns ! k) \<Longrightarrow>
     x \<in> sn_ids (sns ! j)"
  unfolding convex_def by blast

lemma dropped_unique:
  assumes "convex sns" "dropped_at sns j x" "dropped_at sns k x" shows "j = k"
proof -
  have False if "j < k" "dropped_at sns j x" "dropped_at sns k x" for j k
  proof (cases "Suc j = k")
    case False
    with that have "x \<in> sn_ids (sns ! Suc j)"
      by (intro convexD [OF assms(1), of j "Suc j" k]) (auto simp: dropped_at_def)
    then show ?thesis using that by (simp add: dropped_at_def)
  qed (use that in \<open>auto simp: dropped_at_def\<close>)
  then show ?thesis using assms by (metis nat_neq_iff)
qed

lemma last_not_dropped:
  assumes "convex sns" "sns \<noteq> []" "x \<in> sn_ids (last sns)" shows "\<not> dropped_at sns k x"
proof
  assume d: "dropped_at sns k x"
  have x: "x \<in> sn_ids (sns ! (length sns - 1))" using assms(2,3) by (simp add: last_conv_nth)
  show False
  proof (cases "Suc k = length sns - 1")
    case False
    with d x have "x \<in> sn_ids (sns ! Suc k)"
      by (intro convexD [OF assms(1), of k "Suc k" "length sns - 1"]) (auto simp: dropped_at_def)
    then show ?thesis using d by (simp add: dropped_at_def)
  qed (use d x in \<open>auto simp: dropped_at_def\<close>)
qed

lemma closed_iff:
  "closed_ok sns closed \<Longrightarrow> x \<in> all_ids sns \<Longrightarrow> x \<in> set closed \<longleftrightarrow> (\<exists>k. dropped_at sns k x \<and> sn_leases (sns ! k) = 0)"
  unfolding closed_ok_def by blast

lemma last_in_all: "sns \<noteq> [] \<Longrightarrow> x \<in> sn_ids (last sns) \<Longrightarrow> x \<in> all_ids sns"
  by (auto simp: all_ids_def)

lemma dropped_in_all: "dropped_at sns k x \<Longrightarrow> x \<in> all_ids sns"
  by (auto simp: all_ids_def dropped_at_def intro!: bexI [of _ "sns ! k"])

lemma last_open:
  assumes "snapshots_ok r" "x \<in> sn_ids (last (published r))" shows "x \<notin> set (rt_closed r)"
  using assms closed_iff [of "published r" "rt_closed r" x] last_not_dropped [of "published r" x]
    last_in_all [of "published r" x] published_nonempty [OF assms(1)]
  unfolding snapshots_ok_def by blast

text \<open>The operations change leases and what is retired, never the rules of a snapshot.\<close>

lemma sn_ids_simps [simp]: "sn_ids (sn\<lparr>sn_leases := l\<rparr>) = sn_ids sn" "sn_ids (sn\<lparr>sn_retired := q\<rparr>) = sn_ids sn"
  by (simp_all add: sn_ids_def)

lemma update_same_ids:
  assumes i: "i < length sns" and same: "sn_rules sn = sn_rules (sns ! i)"
  shows "sn_rules (sns[i := sn] ! k) = sn_rules (sns ! k)" "sn_ids (sns[i := sn] ! k) = sn_ids (sns ! k)"
    "dropped_at (sns[i := sn]) k x \<longleftrightarrow> dropped_at sns k x" "convex (sns[i := sn]) \<longleftrightarrow> convex sns" "all_ids (sns[i := sn]) = all_ids sns"
proof -
  show r: "sn_rules (sns[i := sn] ! k) = sn_rules (sns ! k)" for k
    using i same by (cases "k = i") auto
  then show ids: "sn_ids (sns[i := sn] ! k) = sn_ids (sns ! k)" for k by (simp add: sn_ids_def)
  show "dropped_at (sns[i := sn]) k x \<longleftrightarrow> dropped_at sns k x" by (simp add: dropped_at_def ids)
  show "convex (sns[i := sn]) \<longleftrightarrow> convex sns" by (simp add: convex_def ids)
  have "all_ids ss = (\<Union>k < length ss. sn_ids (ss ! k))" for ss by (auto simp: all_ids_def set_conv_nth)
  then show "all_ids (sns[i := sn]) = all_ids sns" by (simp add: ids)
qed

lemma retired_ok_update:
  assumes i: "i < length sns" and same: "sn_rules sn = sn_rules (sns ! i)"
  shows "retired_ok (sns[i := sn]) k \<longleftrightarrow>
    (if k = i then 0 \<le> sn_leases sn \<and> distinct (map ro_id (sn_rules sn)) \<and> distinct (map ro_id (sn_retired sn)) \<and>
       ro_id ` set (sn_retired sn) = {x. dropped_at sns i x \<and> 0 < sn_leases sn}
     else retired_ok sns k)"
  using i by (auto simp: retired_ok_def update_same_ids(3) [OF i same])

subsection \<open>Leases\<close>

lemma acquire_ok:
  assumes ok: "snapshots_ok r"
  shows "snapshots_ok (snd (acquireRules r))" "sn_rules (last (published (snd (acquireRules r)))) = sn_rules (last (published r))"
    "all_ids (published (snd (acquireRules r))) = all_ids (published r)" "rt_closed (snd (acquireRules r)) = rt_closed r"
    "rt_fresh (snd (acquireRules r)) = rt_fresh r"
proof -
  define sns where "sns = published r"
  define n where "n = length sns - 1"
  define sn where "sn = (sns ! n)\<lparr>sn_leases := sn_leases (sns ! n) + 1\<rparr>"
  have ne: "sns \<noteq> []" and cur: "current_snapshot r = (n, sns)"
    using current_snapshot_last [OF ok] by (simp_all add: sns_def n_def)
  then have n: "n < length sns" by (simp add: n_def)
  have r': "snd (acquireRules r) = r\<lparr>rt_snapshots := sns[n := sn], rt_added := Some n\<rparr>"
    by (simp add: acquireRules_def cur sn_def)
  have pub: "published (snd (acquireRules r)) = sns[n := sn]" by (simp add: r' published_def current_snapshot_def)
  have nd: "\<not> dropped_at sns n x" for x using ne by (auto simp: dropped_at_def n_def)
  have sr: "sn_rules sn = sn_rules (sns ! n)" by (simp add: sn_def)
  note same = update_same_ids [OF n sr]
  have leases: "k \<noteq> n \<Longrightarrow> sns[n := sn] ! k = sns ! k" for k by simp
  have okr: "retired_ok (sns[n := sn]) k" if "k < length sns" for k
    using ok that nd n unfolding snapshots_ok_def sns_def [symmetric] retired_ok_update [OF n sr]
    by (auto simp: retired_ok_def sn_def)
  have okc: "closed_ok (sns[n := sn]) (rt_closed r)"
  proof -
    have "dropped_at sns k x \<and> sn_leases (sns[n := sn] ! k) = 0 \<longleftrightarrow> dropped_at sns k x \<and> sn_leases (sns ! k) = 0" for k x
      using nd by (cases "k = n") auto
    then show ?thesis using ok unfolding snapshots_ok_def closed_ok_def same sns_def [symmetric] by simp
  qed
  show "snapshots_ok (snd (acquireRules r))"
    using ok okr okc ne unfolding snapshots_ok_def pub same sns_def [symmetric] by (simp add: r') (simp add: n_def)
  show "sn_rules (last (published (snd (acquireRules r)))) = sn_rules (last (published r))"
    using ne same(1) [of n] by (simp add: pub sns_def [symmetric] last_conv_nth n_def)
  show "all_ids (published (snd (acquireRules r))) = all_ids (published r)" by (simp add: pub same sns_def [symmetric])
  show "rt_closed (snd (acquireRules r)) = rt_closed r" "rt_fresh (snd (acquireRules r)) = rt_fresh r" by (simp_all add: r')
qed

lemma release_ok:
  assumes ok: "snapshots_ok r" and i: "i < length (rt_snapshots r)" and pos: "0 < sn_leases (rt_snapshots r ! i)"
  shows "snapshots_ok (releaseRules i r)" "sn_rules (last (published (releaseRules i r))) = sn_rules (last (published r))"
    "all_ids (published (releaseRules i r)) = all_ids (published r)" "rt_fresh (releaseRules i r) = rt_fresh r"
    "set (rt_closed (releaseRules i r)) \<subseteq> set (rt_closed r) \<union> all_ids (published r)"
proof -
  define sns where "sns = rt_snapshots r"
  have ne: "sns \<noteq> []" using i by (auto simp: sns_def)
  then have added: "rt_added r = Some (length sns - 1)" using ok by (simp add: snapshots_ok_def sns_def)
  then have p: "published r = sns" by (simp add: published_current sns_def)
  define z where "z \<longleftrightarrow> sn_leases (sns ! i) = 1"
  define sn where "sn = (sns ! i)\<lparr>sn_leases := sn_leases (sns ! i) - 1, sn_retired := (if z then [] else sn_retired (sns ! i))\<rparr>"
  define cl where "cl = (if z then map ro_id (sn_retired (sns ! i)) else [])"
  have i': "i < length sns" using i by (simp add: sns_def)
  have sr: "sn_rules sn = sn_rules (sns ! i)" by (simp add: sn_def)
  note same = update_same_ids [OF i' sr]
  have r': "releaseRules i r = r\<lparr>rt_snapshots := sns[i := sn], rt_closed := rt_closed r @ cl\<rparr>"
    by (simp add: releaseRules_def sn_def cl_def z_def sns_def [symmetric])
  have pub: "published (releaseRules i r) = sns[i := sn]"
    using added by (simp add: r' published_current)
  have rok: "retired_ok sns k" if "k < length sns" for k using ok that by (simp add: snapshots_ok_def p)
  have cvx: "convex sns" and cok: "closed_ok sns (rt_closed r)" using ok by (simp_all add: snapshots_ok_def p)
  have cl: "set cl = {x. z \<and> dropped_at sns i x}" "distinct cl"
    using rok [OF i'] pos unfolding retired_ok_def sns_def [symmetric] by (simp_all add: cl_def)
  have fresh: "set cl \<inter> set (rt_closed r) = {}"
  proof -
    have False if "x \<in> set cl" and x: "x \<in> set (rt_closed r)" for x
    proof -
      have d: "dropped_at sns i x" using that(1) cl(1) by simp
      obtain k where k: "dropped_at sns k x" "sn_leases (sns ! k) = 0"
        using x closed_iff [OF cok dropped_in_all [OF d]] by blast
      have "k = i" by (rule dropped_unique [OF cvx k(1) d])
      then show False using k(2) pos by (simp add: sns_def)
    qed
    then show ?thesis by blast
  qed
  have okr: "retired_ok (sns[i := sn]) k" if "k < length sns" for k
    using rok [OF that] pos unfolding retired_ok_update [OF i' sr]
    by (auto simp: retired_ok_def sn_def z_def sns_def [symmetric])
  have okc: "closed_ok (sns[i := sn]) (rt_closed r @ cl)"
  proof -
    have "(\<exists>k. dropped_at sns k x \<and> sn_leases (sns[i := sn] ! k) = 0) \<longleftrightarrow>
        (\<exists>k. dropped_at sns k x \<and> sn_leases (sns ! k) = 0) \<or> z \<and> dropped_at sns i x" (is "?l x \<longleftrightarrow> ?r x") for x
    proof -
      have "sn_leases (sns[i := sn] ! k) = 0 \<longleftrightarrow> (if k = i then z else sn_leases (sns ! k) = 0)" for k
        using i' by (simp add: sn_def z_def)
      moreover have "sn_leases (sns ! i) \<noteq> 0" using pos by (simp add: sns_def)
      ultimately show ?thesis by (metis (full_types))
    qed
    moreover have "all_ids sns \<inter> set cl = set cl" using cl(1) dropped_in_all by blast
    ultimately show ?thesis
      using cok cl fresh unfolding closed_ok_def same by (auto simp: Int_Un_distrib)
  qed
  show "set (rt_closed (releaseRules i r)) \<subseteq> set (rt_closed r) \<union> all_ids (published r)"
    using cl(1) dropped_in_all by (auto simp: r' p)
  show "all_ids (published (releaseRules i r)) = all_ids (published r)" by (simp add: pub same p)
  show "rt_fresh (releaseRules i r) = rt_fresh r" by (simp add: r')
  have "x < rt_fresh r" if "x \<in> all_ids sns \<union> set (rt_closed r @ cl)" for x
    using ok that cl(1) dropped_in_all unfolding snapshots_ok_def p by auto
  then show "snapshots_ok (releaseRules i r)"
    using okr okc cvx added ne unfolding snapshots_ok_def pub by (simp add: r' same)
  show "sn_rules (last (published (releaseRules i r))) = sn_rules (last (published r))"
    using ne same(1) [of "length sns - 1"] by (simp add: pub p last_conv_nth)
qed

subsection \<open>Publication\<close>

lemma dropped_at_append:
  "sns \<noteq> [] \<Longrightarrow> dropped_at (sns @ [new]) k x \<longleftrightarrow>
     dropped_at sns k x \<or> k = length sns - 1 \<and> x \<in> sn_ids (last sns) \<and> x \<notin> sn_ids new"
proof -
  assume ne: "sns \<noteq> []"
  consider "Suc k < length sns" | "Suc k = length sns" | "length sns < Suc k" by linarith
  then show ?thesis
  proof cases
    case 2
    then have "k = length sns - 1" by simp
    then show ?thesis using 2 ne by (auto simp: dropped_at_def nth_append last_conv_nth)
  qed (use ne in \<open>auto simp: dropped_at_def nth_append\<close>)
qed

lemma convex_append:
  assumes c: "convex sns" and new: "\<And>x. x \<in> sn_ids new \<Longrightarrow> x \<in> all_ids sns \<Longrightarrow> x \<in> sn_ids (last sns)"
  shows "convex (sns @ [new])"
  unfolding convex_def
proof (intro allI impI subsetI)
  fix i j k x assume ijk: "i < j \<and> j < k \<and> k < length (sns @ [new])"
    and x: "x \<in> sn_ids ((sns @ [new]) ! i) \<inter> sn_ids ((sns @ [new]) ! k)"
  have xi: "x \<in> sn_ids (sns ! i)" and il: "i < length sns" and jl: "j < length sns"
    using ijk x by (auto simp: nth_append)
  have "x \<in> sn_ids (sns ! j)"
  proof (cases "k < length sns")
    case True
    then show ?thesis using convexD [OF c _ _ True xi] ijk x by (auto simp: nth_append)
  next
    case False
    then have "x \<in> sn_ids new" using x ijk by (auto simp: nth_append)
    moreover have "x \<in> all_ids sns" using xi il by (auto simp: all_ids_def)
    ultimately have "x \<in> sn_ids (last sns)" by (rule new)
    moreover have "sns \<noteq> []" using il by auto
    ultimately have l: "x \<in> sn_ids (sns ! (length sns - 1))" by (simp add: last_conv_nth)
    show ?thesis
    proof (cases "j = length sns - 1")
      case False
      then have "j < length sns - 1" "length sns - 1 < length sns" "i < j" using jl ijk by auto
      then show ?thesis using convexD [OF c _ _ _ xi l, of j] by simp
    qed (use l in simp)
  qed
  then show "x \<in> sn_ids ((sns @ [new]) ! j)" using jl by (simp add: nth_append)
qed

lemma retired_ok_append:
  assumes ne: "sns \<noteq> []" and n: "n = length sns - 1"
    and old: "old = (last sns)\<lparr>sn_retired := (if sn_leases (last sns) = 0 then [] else ret)\<rparr>"
    and ret: "ro_id ` set ret = sn_ids (last sns) - sn_ids new" "distinct (map ro_id ret)"
    and new: "distinct (map ro_id (sn_rules new))" "sn_leases new = 0" "sn_retired new = []"
    and rok: "\<And>k. k < length sns \<Longrightarrow> retired_ok sns k" and k: "k < length (sns @ [new])"
  shows "retired_ok ((sns @ [new])[n := old]) k"
proof -
  have nl: "n < length sns" and n': "n < length (sns @ [new])" and nth_n: "sns ! n = last sns"
    using ne by (simp_all add: n last_conv_nth)
  have sr: "sn_rules old = sn_rules ((sns @ [new]) ! n)" using nl nth_n by (simp add: old nth_append)
  have nd: "\<not> dropped_at sns n x" for x using ne by (auto simp: dropped_at_def n)
  have drop: "dropped_at (sns @ [new]) k x \<longleftrightarrow> dropped_at sns k x \<or> k = n \<and> x \<in> sn_ids (last sns) - sn_ids new" for k x
    using dropped_at_append [OF ne] by (simp add: n)
  show ?thesis
  proof (cases "k = n")
    case True
    then show ?thesis
      using rok [OF nl] ret nd nth_n unfolding retired_ok_update [OF n' sr] by (auto simp: old drop retired_ok_def)
  next
    case False
    have "\<not> dropped_at (sns @ [new]) (length sns) x" for x by (simp add: dropped_at_def)
    then have "retired_ok (sns @ [new]) k"
      using rok [of k] k False new by (cases "k = length sns") (auto simp: retired_ok_def drop nth_append)
    then show ?thesis using False by (simp add: retired_ok_update [OF n' sr])
  qed
qed

lemma closed_ok_append:
  assumes ne: "sns \<noteq> []" and n: "n = length sns - 1" and sr: "sn_rules old = sn_rules (last sns)"
    and cok: "closed_ok sns closed" and op: "sn_ids new \<inter> set closed = {}" "sn_ids (last sns) \<inter> set closed = {}"
    and cl: "set cl = {x. sn_leases old = 0 \<and> x \<in> sn_ids (last sns) - sn_ids new}" "distinct cl"
  shows "closed_ok ((sns @ [new])[n := old]) (closed @ cl)"
proof -
  have nl: "n < length sns" and n': "n < length (sns @ [new])" and nth_n: "sns ! n = last sns"
    using ne by (simp_all add: n last_conv_nth)
  have "sn_rules old = sn_rules ((sns @ [new]) ! n)" using nl nth_n sr by (simp add: nth_append)
  note same = update_same_ids [OF n' this]
  have nd: "\<not> dropped_at sns n x" for x using ne by (auto simp: dropped_at_def n)
  have leases: "sn_leases ((sns @ [new])[n := old] ! k) = (if k = n then sn_leases old else sn_leases (sns ! k))" if "k < length sns" for k
    using that nl by (simp add: nth_append)
  have rhs: "(\<exists>k. dropped_at (sns @ [new]) k x \<and> sn_leases ((sns @ [new])[n := old] ! k) = 0) \<longleftrightarrow>
      (\<exists>k. dropped_at sns k x \<and> sn_leases (sns ! k) = 0) \<or> sn_leases old = 0 \<and> x \<in> sn_ids (last sns) - sn_ids new" for x
  proof -
    have "dropped_at sns k x \<Longrightarrow> k < length sns \<and> k \<noteq> n" for k using nd by (auto simp: dropped_at_def)
    moreover have "dropped_at (sns @ [new]) k x \<longleftrightarrow> dropped_at sns k x \<or> k = n \<and> x \<in> sn_ids (last sns) - sn_ids new" for k
      using dropped_at_append [OF ne] by (simp add: n)
    ultimately show ?thesis using leases nl by (metis (full_types))
  qed
  have "all_ids (sns @ [new]) = all_ids sns \<union> sn_ids new" by (auto simp: all_ids_def)
  then have "all_ids (sns @ [new]) \<inter> set (closed @ cl) = (all_ids sns \<inter> set closed) \<union> set cl"
    using op(1) cl(1) last_in_all [OF ne] by auto
  moreover have "set cl \<inter> set closed = {}" using cl(1) op(2) by blast
  ultimately show ?thesis using cok cl unfolding closed_ok_def same rhs by auto
qed

lemma publish_ok:
  assumes ok: "snapshots_ok r" and pend: "pending_ok r p"
  shows "snapshots_ok (publishRules p r)"
proof -
  define sns where "sns = published r"
  define n where "n = length sns - 1"
  define z where "z \<longleftrightarrow> sn_leases (last sns) = 0"
  define old where "old = (last sns)\<lparr>sn_retired := (if z then [] else pr_retired p)\<rparr>"
  define new :: rule_snapshot where "new = \<lparr>sn_rules = pr_next p, sn_leases = 0, sn_retired = []\<rparr>"
  define cl where "cl = (if z then map ro_id (pr_retired p) else [])"
  have ne: "sns \<noteq> []" and cur: "current_snapshot r = (n, sns)"
    using current_snapshot_last [OF ok] by (simp_all add: sns_def n_def)
  then have n: "n < length sns" and n': "n < length (sns @ [new])" and nth_n: "sns ! n = last sns" by (simp_all add: n_def last_conv_nth)
  have sr: "sn_rules old = sn_rules ((sns @ [new]) ! n)" using n nth_n by (simp add: old_def nth_append)
  note same = update_same_ids [OF n' sr]
  have upd: "sns[n := old] @ [new] = (sns @ [new])[n := old]" using n by (simp add: list_update_append1)
  have r': "publishRules p r = r\<lparr>rt_snapshots := (sns @ [new])[n := old], rt_added := Some (length sns), rt_closed := rt_closed r @ cl\<rparr>"
    by (simp add: publishRules_def cur upd [symmetric] nth_n) (simp add: old_def new_def cl_def z_def)
  have pub: "published (publishRules p r) = (sns @ [new])[n := old]" by (simp add: r' published_current)
  have rok: "retired_ok sns k" if "k < length sns" for k using ok that by (simp add: snapshots_ok_def sns_def)
  have added: "set (pr_added p) \<inter> (all_ids sns \<union> set (rt_closed r)) = {}" "sn_ids new \<subseteq> sn_ids (last sns) \<union> set (pr_added p)"
    "\<forall>x \<in> set (pr_added p). x < rt_fresh r"
    using pend by (simp_all add: pending_ok_def sns_def sn_ids_def new_def)
  have ret: "ro_id ` set (pr_retired p) = sn_ids (last sns) - sn_ids new" "distinct (map ro_id (pr_retired p))"
    using pend rok [OF n] unfolding pending_ok_def retired_ok_def sns_def [symmetric] nth_n
    by (auto simp: sn_ids_def new_def distinct_map inj_on_def)
  have last_open: "sn_ids (last sns) \<inter> set (rt_closed r) = {}" using last_open [OF ok] by (auto simp: sns_def)
  have "retired_ok ((sns @ [new])[n := old]) k" if "k < length (sns @ [new])" for k
    using pend by (intro retired_ok_append [OF ne n_def _ ret _ _ _ rok that]) (simp_all add: old_def z_def new_def pending_ok_def)
  moreover have "closed_ok ((sns @ [new])[n := old]) (rt_closed r @ cl)"
    using ok ret added last_open by (intro closed_ok_append [OF ne n_def])
      (auto simp: old_def z_def cl_def snapshots_ok_def sns_def [symmetric])
  moreover have "convex (sns @ [new])"
    using ok added by (intro convex_append) (auto simp: snapshots_ok_def sns_def [symmetric])
  moreover have "all_ids (sns @ [new]) = all_ids sns \<union> sn_ids new" by (auto simp: all_ids_def)
  then have "\<forall>x \<in> all_ids (sns @ [new]) \<union> set (rt_closed r @ cl). x < rt_fresh r"
    using ok ret last_in_all [OF ne] added unfolding snapshots_ok_def sns_def [symmetric] by (auto simp: cl_def)
  ultimately show ?thesis unfolding snapshots_ok_def pub same by (simp add: r')
qed

subsection \<open>Preparation\<close>

lemma upt_snoc_append: "Suc a \<le> b \<Longrightarrow> (xs @ [a]) @ [Suc a..<b] = xs @ [a..<b]"
  by (simp add: upt_conv_Cons)

lemma prepare_loop_error:
  "prepare_loop build start previous opts idxs fresh added next = Inl (e, closes, fresh') \<Longrightarrow>
     fresh \<le> fresh' \<and> (closes = [] \<or> closes = added @ [fresh..<fresh'])"
proof (induction build start previous opts idxs fresh added "next" rule: prepare_loop.induct)
  case (3 build start previous opt opts idx idxs fresh added "next")
  show ?case
  proof (cases "0 \<le> idx")
    case True
    then show ?thesis using "3.IH"(1) "3.prems" by (auto split: if_splits)
  next
    case idx: False
    show ?thesis
    proof (cases "build opt")
      case (Inr qa)
      obtain q action where qa: "qa = (q, action)" by (cases qa)
      show ?thesis
      proof (cases "start q")
        case (Inr q')
        have "Suc fresh \<le> fresh' \<and> (closes = [] \<or> closes = (added @ [fresh]) @ [Suc fresh..<fresh'])"
          using "3.IH"(2) [OF idx \<open>build opt = Inr qa\<close> qa [symmetric] Inr] "3.prems" idx Inr \<open>build opt = Inr qa\<close> qa by simp
        then show ?thesis using upt_snoc_append by auto
      qed (use "3.prems" idx Inr qa in auto)
    qed (use "3.prems" idx in auto)
  qed
qed auto

definition reused :: "rule_obj list \<Rightarrow> int list \<Rightarrow> nat set" where
  "reused previous idxs = {ro_id (previous ! nat i) | i. i \<in> set idxs \<and> 0 \<le> i \<and> nat i < length previous}"

lemma reused_Cons:
  "reused previous (i # idxs) = (if 0 \<le> i \<and> nat i < length previous then insert (ro_id (previous ! nat i)) (reused previous idxs)
     else reused previous idxs)"
  by (auto simp: reused_def)

lemma reused_subset: "reused previous idxs \<subseteq> ro_id ` set previous"
  by (auto simp: reused_def)

lemma reused_notin:
  assumes "distinct (map ro_id previous)" "0 \<le> i" "nat i < length previous" "i \<notin> set idxs"
  shows "ro_id (previous ! nat i) \<notin> reused previous idxs"
proof
  assume "ro_id (previous ! nat i) \<in> reused previous idxs"
  then obtain j where "ro_id (previous ! nat i) = ro_id (previous ! nat j)" "j \<in> set idxs" "0 \<le> j" "nat j < length previous"
    by (auto simp: reused_def)
  then have "nat i = nat j" using assms nth_eq_iff_index_eq [of "map ro_id previous" "nat i" "nat j"] by simp
  then have "i = j" using \<open>0 \<le> j\<close> assms(2) by (simp add: eq_nat_nat_iff)
  then show False using \<open>j \<in> set idxs\<close> assms(4) by simp
qed

lemma prepare_loop_ok:
  assumes "prepare_loop build start previous opts idxs fresh added next = Inr (next', added', fresh')"
    and "distinct (map ro_id previous)" "\<forall>x \<in> ro_id ` set previous. x < fresh" "distinct (filter (\<lambda>i. 0 \<le> i) idxs)"
  shows "fresh \<le> fresh' \<and> added' = added @ [fresh..<fresh'] \<and>
    (\<exists>N. next' = next @ N \<and> distinct (map ro_id N) \<and> ro_id ` set N \<subseteq> reused previous idxs \<union> {fresh..<fresh'})"
  using assms
proof (induction build start previous opts idxs fresh added "next" rule: prepare_loop.induct)
  case (3 build start previous opt opts idx idxs fresh added "next")
  have d: "distinct (filter (\<lambda>i. 0 \<le> i) idxs)" using "3.prems"(4) by (simp split: if_splits)
  show ?case
  proof (cases "0 \<le> idx")
    case True
    then have len: "nat idx < length previous" using "3.prems"(1) by (simp split: if_splits)
    have run: "prepare_loop build start previous opts idxs fresh added (next @ [previous ! nat idx]) = Inr (next', added', fresh')"
      using "3.prems"(1) True len by simp
    obtain N where N: "fresh \<le> fresh'" "added' = added @ [fresh..<fresh']" "next' = (next @ [previous ! nat idx]) @ N"
      "distinct (map ro_id N)" "ro_id ` set N \<subseteq> reused previous idxs \<union> {fresh..<fresh'}"
      using "3.IH"(1) [OF True len run "3.prems"(2,3) d] by blast
    have "ro_id (previous ! nat idx) \<notin> reused previous idxs"
      using reused_notin [OF "3.prems"(2) True len] "3.prems"(4) True by simp
    moreover have "ro_id (previous ! nat idx) < fresh" using "3.prems"(3) len by simp
    ultimately have "ro_id (previous ! nat idx) \<notin> ro_id ` set N" using N(5) by auto
    then show ?thesis using N True len by (intro conjI exI [of _ "previous ! nat idx # N"]) (auto simp: reused_Cons)
  next
    case False
    then obtain q action q' where b: "build opt = Inr (q, action)" and st: "start q = Inr q'"
      using "3.prems"(1) by (auto split: sum.splits)
    have lt: "\<forall>x \<in> ro_id ` set previous. x < Suc fresh" using "3.prems"(3) less_SucI by blast
    have run: "prepare_loop build start previous opts idxs (Suc fresh) (added @ [fresh])
        (next @ [\<lparr>ro_id = fresh, ro_rule = q', ro_action = action\<rparr>]) = Inr (next', added', fresh')"
      using "3.prems"(1) False b st by simp
    obtain N where N: "Suc fresh \<le> fresh'" "added' = (added @ [fresh]) @ [Suc fresh..<fresh']"
      "next' = (next @ [\<lparr>ro_id = fresh, ro_rule = q', ro_action = action\<rparr>]) @ N"
      "distinct (map ro_id N)" "ro_id ` set N \<subseteq> reused previous idxs \<union> {Suc fresh..<fresh'}"
      using "3.IH"(2) [OF False b refl st run "3.prems"(2) lt d] by blast
    have "fresh \<notin> ro_id ` set N" using N(5) "3.prems"(3) reused_subset [of previous idxs] by fastforce
    then show ?thesis
      using N False upt_snoc_append [OF N(1)]
      by (intro conjI exI [of _ "\<lparr>ro_id = fresh, ro_rule = q', ro_action = action\<rparr> # N"]) (auto simp: reused_Cons)
  qed
qed auto

text \<open>Closing objects that no snapshot has.\<close>

lemma close_unpublished_ok:
  assumes ok: "snapshots_ok r" and xs: "distinct xs" "set xs \<inter> (all_ids (published r) \<union> set (rt_closed r)) = {}"
    and fresh: "rt_fresh r \<le> fresh" "\<forall>x \<in> set xs. x < fresh"
  shows "snapshots_ok (r\<lparr>rt_closed := rt_closed r @ xs, rt_fresh := fresh\<rparr>)"
proof -
  have pub: "published (r\<lparr>rt_closed := rt_closed r @ xs, rt_fresh := fresh\<rparr>) = published r"
    by (simp add: published_def current_snapshot_def split: option.split)
  have "closed_ok (published r) (rt_closed r @ xs)"
    using ok xs unfolding snapshots_ok_def closed_ok_def by (auto simp: Int_Un_distrib)
  moreover have "x < fresh" if "x \<in> all_ids (published r) \<union> set (rt_closed r @ xs)" for x
    using ok fresh that unfolding snapshots_ok_def by (auto intro: less_le_trans)
  ultimately show ?thesis using ok unfolding snapshots_ok_def pub by simp
qed

lemma fresh_unpublished:
  "snapshots_ok r \<Longrightarrow> set [rt_fresh r..<n] \<inter> (all_ids (published r) \<union> set (rt_closed r)) = {}"
proof -
  assume "snapshots_ok r"
  then have "\<forall>x \<in> all_ids (published r) \<union> set (rt_closed r). x < rt_fresh r" by (simp add: snapshots_ok_def)
  then have "x \<notin> all_ids (published r) \<union> set (rt_closed r)" if "x \<in> set [rt_fresh r..<n]" for x
    using that by (metis atLeastLessThan_iff linorder_not_less set_upt)
  then show ?thesis by blast
qed

lemma prepare_error_ok:
  assumes ok: "snapshots_ok r" and e: "PrepareAddedRules L A S R opts idxs r = (Inl e, r')"
  shows "snapshots_ok r'"
proof -
  obtain closes fresh where l: "prepare_loop (NewRule L A False) (rule_start S R) (currentRules r) opts idxs (rt_fresh r) [] [] = Inl (e, closes, fresh)"
    and r': "r' = r\<lparr>rt_closed := rt_closed r @ closes, rt_fresh := fresh\<rparr>"
    using e by (auto simp: PrepareAddedRules_def Let_def split: sum.splits)
  have "rt_fresh r \<le> fresh" "closes = [] \<or> closes = [rt_fresh r..<fresh]" using prepare_loop_error [OF l] by auto
  then show ?thesis
    unfolding r' using fresh_unpublished [OF ok, of fresh] by (intro close_unpublished_ok [OF ok]) auto
qed

lemma prepare_ok:
  assumes ok: "snapshots_ok r" and d: "distinct (filter (\<lambda>i. 0 \<le> i) idxs)"
    and p: "PrepareAddedRules L A S R opts idxs r = (Inr p, r')"
  shows "snapshots_ok r' \<and> pending_ok r' p"
proof -
  obtain "next" added fresh where l: "prepare_loop (NewRule L A False) (rule_start S R) (currentRules r) opts idxs (rt_fresh r) [] [] = Inr (next, added, fresh)"
    and r': "r' = r\<lparr>rt_fresh := fresh\<rparr>"
    and pr: "p = \<lparr>pr_next = next, pr_added = added, pr_retired = filter (\<lambda>q. ro_id q \<notin> ro_id ` set next) (currentRules r)\<rparr>"
    using p by (auto simp: PrepareAddedRules_def Let_def split: sum.splits)
  note cur = currentRules_last [OF ok] and ne = published_nonempty [OF ok]
  have pub: "published r' = published r" by (simp add: r' published_def current_snapshot_def split: option.split)
  have "retired_ok (published r) (length (published r) - 1)" using ok ne by (simp add: snapshots_ok_def)
  then have dist: "distinct (map ro_id (currentRules r))" using ne by (simp add: retired_ok_def cur last_conv_nth)
  have lt: "\<forall>x \<in> ro_id ` set (currentRules r). x < rt_fresh r"
    using ok last_in_all [OF ne] unfolding snapshots_ok_def cur sn_ids_def [symmetric] by blast
  have N: "rt_fresh r \<le> fresh" "added = [rt_fresh r..<fresh]" "distinct (map ro_id next)"
    "ro_id ` set next \<subseteq> reused (currentRules r) idxs \<union> {rt_fresh r..<fresh}"
    using prepare_loop_ok [OF l dist lt d] by auto
  have "snapshots_ok r'"
    using close_unpublished_ok [OF ok, of "[]" fresh] N(1) by (simp add: r')
  moreover have "ro_id ` set next \<subseteq> sn_ids (last (published r)) \<union> set added"
    using N(2,4) reused_subset [of "currentRules r" idxs] by (fastforce simp: cur sn_ids_def)
  ultimately show ?thesis
    using N fresh_unpublished [OF ok, of fresh] cur unfolding pending_ok_def pub by (simp add: pr r')
qed

section \<open>The invariant holds\<close>

lemma pending_ok_same:
  assumes "pending_ok r p" "sn_rules (last (published r')) = sn_rules (last (published r))"
    "all_ids (published r') = all_ids (published r)" "rt_fresh r' = rt_fresh r" "set (rt_closed r') \<subseteq> set (rt_closed r) \<union> all_ids (published r)"
  shows "pending_ok r' p"
proof -
  have "sn_ids (last (published r')) = sn_ids (last (published r))" using assms(2) by (simp add: sn_ids_def)
  moreover have "set (pr_added p) \<inter> (all_ids (published r) \<union> set (rt_closed r')) = {}"
    using assms(1,5) unfolding pending_ok_def by blast
  ultimately show ?thesis using assms(1-4) unfolding pending_ok_def by simp
qed

lemma rule_inv_same:
  assumes "rule_inv c" "snapshots_ok r'" "sn_rules (last (published r')) = sn_rules (last (published (rc_router c)))"
    "all_ids (published r') = all_ids (published (rc_router c))" "rt_fresh r' = rt_fresh (rc_router c)"
    "set (rt_closed r') \<subseteq> set (rt_closed (rc_router c)) \<union> all_ids (published (rc_router c))"
  shows "rule_inv (c\<lparr>rc_router := r'\<rparr>)"
  using assms(1,2) pending_ok_same [OF _ assms(3-6)] by (simp add: rule_inv_def split: option.splits)

lemma rule_inv_initial: "rule_initial c \<Longrightarrow> rule_inv c"
  by (auto simp: rule_initial_def rule_inv_def snapshots_ok_def published_def current_snapshot_def convex_def
      retired_ok_def closed_ok_def dropped_at_def all_ids_def sn_ids_def)

lemma rule_inv_step: "rule_step L A S R c c' \<Longrightarrow> rule_inv c \<Longrightarrow> rule_inv c'"
proof (induction rule: rule_step.induct)
  case (acquire c)
  then have ok: "snapshots_ok (rc_router c)" by (simp add: rule_inv_def)
  note a = acquire_ok [OF ok]
  show ?case by (rule rule_inv_same [OF acquire a(1) a(2) a(3) a(5)]) (simp add: a(4))
next
  case (release i c)
  then have ok: "snapshots_ok (rc_router c)" by (simp add: rule_inv_def)
  show ?case by (rule rule_inv_same [OF release.prems release_ok [OF ok release.hyps]])
next
  case (prepare c idxs opts p r)
  then show ?case using prepare_ok [OF _ prepare.hyps(2,3)] by (simp add: rule_inv_def)
next
  case (prepare_error c idxs opts e r)
  then show ?case using prepare_error_ok [OF _ prepare_error.hyps(3)] by (simp add: rule_inv_def)
next
  case (publish c p)
  then show ?case using publish_ok by (simp add: rule_inv_def)
next
  case (abort c p)
  then have ok: "snapshots_ok (rc_router c)" and p: "pending_ok (rc_router c) p" by (simp_all add: rule_inv_def)
  then show ?case
    using close_unpublished_ok [OF ok, of "pr_added p" "rt_fresh (rc_router c)"]
    by (simp add: rule_inv_def abortRules_def pending_ok_def)
qed

interpretation rule_sys: invariant_system rule_initial "rule_step L A S R" rule_inv
  by unfold_locales (auto intro: rule_inv_initial rule_inv_step)

end
