(* ===== verification/Rule_Leases.thy ===== *)
theory Rule_Leases
  imports Rule_Snapshot Rule_Build_Props
begin

text \<open>
  What the router promises of its rules across updates: which rules an update takes over and which it starts, that
  the published rules are open, that each retired rule is closed once and when, and where the leases fail to protect
  a rule that a connection is still using.
\<close>

section \<open>Reuse\<close>

lemma prepare_loop_spec:
  assumes "prepare_loop build start previous opts idxs fresh added next = Inr (next', added', fresh')"
  shows "\<exists>N. next' = next @ N \<and> length N = length opts \<and> length opts \<le> length idxs \<and> (\<forall>i < length opts.
    if 0 \<le> idxs ! i then nat (idxs ! i) < length previous \<and> N ! i = previous ! nat (idxs ! i)
    else \<exists>q. build (opts ! i) = Inr (q, ro_action (N ! i)) \<and> start q = Inr (ro_rule (N ! i)))"
  using assms
proof (induction build start previous opts idxs fresh added "next" rule: prepare_loop.induct)
  case (3 build start previous opt opts idx idxs fresh added "next")
  have step: ?case if "next' = (next @ [q]) @ N" "length N = length opts" "length opts \<le> length idxs"
    "\<forall>i < length opts. if 0 \<le> idxs ! i then nat (idxs ! i) < length previous \<and> N ! i = previous ! nat (idxs ! i)
      else \<exists>q. build (opts ! i) = Inr (q, ro_action (N ! i)) \<and> start q = Inr (ro_rule (N ! i))"
    "if 0 \<le> idx then nat idx < length previous \<and> q = previous ! nat idx
      else \<exists>p. build opt = Inr (p, ro_action q) \<and> start p = Inr (ro_rule q)" for q N
    using that by (intro exI [of _ "q # N"]) (auto simp: less_Suc_eq_0_disj)
  show ?case
  proof (cases "0 \<le> idx")
    case True
    then have len: "nat idx < length previous"
      and run: "prepare_loop build start previous opts idxs fresh added (next @ [previous ! nat idx]) = Inr (next', added', fresh')"
      using "3.prems" by (simp_all split: if_splits)
    from "3.IH"(1) [OF True len run] show ?thesis using step [of "previous ! nat idx"] True len by auto
  next
    case False
    then obtain q action q' where b: "build opt = Inr (q, action)" and st: "start q = Inr q'"
      using "3.prems" by (auto split: sum.splits)
    let ?o = "\<lparr>ro_id = fresh, ro_rule = q', ro_action = action\<rparr>"
    have run: "prepare_loop build start previous opts idxs (Suc fresh) (added @ [fresh]) (next @ [?o]) = Inr (next', added', fresh')"
      using "3.prems" False b st by simp
    from "3.IH"(2) [OF False b refl st run] show ?thesis using step [of ?o] False b st by auto
  qed
qed auto

text \<open>Preparation of an update of the rules. An accepted preparation gives one rule per configured rule: the very object that
  was current where the plan names one, and otherwise a newly built and started rule with its action; it retires exactly
  the current rules that are not taken over, closes nothing and leaves the published rules alone.\<close>

theorem prepare_added_rules_spec:
  assumes "PrepareAddedRules L A S R opts idxs r = (Inr p, r')"
  shows "length (pr_next p) = length opts \<and> (\<forall>i < length opts.
      if 0 \<le> idxs ! i then nat (idxs ! i) < length (currentRules r) \<and> pr_next p ! i = currentRules r ! nat (idxs ! i)
      else \<exists>q. NewRule L A False (opts ! i) = Inr (q, ro_action (pr_next p ! i)) \<and> rule_start S R q = Inr (ro_rule (pr_next p ! i))) \<and>
    pr_retired p = filter (\<lambda>q. ro_id q \<notin> ro_id ` set (pr_next p)) (currentRules r) \<and>
    currentRules r' = currentRules r \<and> rt_closed r' = rt_closed r"
proof -
  obtain "next" added fresh where l: "prepare_loop (NewRule L A False) (rule_start S R) (currentRules r) opts idxs (rt_fresh r) [] [] = Inr (next, added, fresh)"
    and r': "r' = r\<lparr>rt_fresh := fresh\<rparr>"
    and pr: "p = \<lparr>pr_next = next, pr_added = added, pr_retired = filter (\<lambda>q. ro_id q \<notin> ro_id ` set next) (currentRules r)\<rparr>"
    using assms by (auto simp: PrepareAddedRules_def Let_def split: sum.splits)
  have "currentRules r' = currentRules r" by (simp add: r' currentRules_def split: option.split)
  with prepare_loop_spec [OF l] show ?thesis by (auto simp: pr r')
qed

definition demo_obj :: rule_obj where
  "demo_obj = \<lparr>ro_id = 0, ro_rule = DefaultRule demo_rule None False, ro_action = None\<rparr>"

definition demo_router :: rule_router where
  "demo_router = \<lparr>rt_rules = [demo_obj], rt_added = None, rt_snapshots = [], rt_closed = [], rt_fresh = 1\<rparr>"

lemma demo_prepared_rules:
  "\<exists>p. PrepareAddedRules demo_libs demo_action_libs demo_services (\<lambda>_. None) [demo_user_options] [-1] demo_router =
     (Inr p, demo_router\<lparr>rt_fresh := 2\<rparr>) \<and> pr_retired p = [demo_obj]"
proof -
  have st: "rule_start demo_services (\<lambda>_. None) (DefaultRule demo_user_items None False) = Inr (DefaultRule demo_user_items None False)"
    by (simp add: first_start_error_def items_started_def Let_def demo_user_items_def no_items_def NewAuthUserItem_def)
  obtain action where n: "NewRule demo_libs demo_action_libs False demo_user_options = Inr (DefaultRule demo_user_items None False, action)"
    using demo_user_rule [of False] by blast
  define p where "p = \<lparr>pr_next = [\<lparr>ro_id = 1, ro_rule = DefaultRule demo_user_items None False, ro_action = action\<rparr>],
    pr_added = [1], pr_retired = [demo_obj]\<rparr>"
  have "PrepareAddedRules demo_libs demo_action_libs demo_services (\<lambda>_. None) [demo_user_options] [-1] demo_router =
      (Inr p, demo_router\<lparr>rt_fresh := 2\<rparr>)"
    using n st by (simp add: PrepareAddedRules_def demo_router_def currentRules_def p_def demo_obj_def del: NewRule.simps rule_start.simps)
  then show ?thesis by (intro exI [of _ p]) (simp add: p_def)
qed

theorem prepare_added_rules_spec_witness:
  "\<exists>p. PrepareAddedRules demo_libs demo_action_libs demo_services (\<lambda>_. None) [demo_user_options] [-1] demo_router =
     (Inr p, demo_router\<lparr>rt_fresh := 2\<rparr>) \<and> pr_retired p = [demo_obj] \<and> length (pr_next p) = 1"
proof -
  obtain p where p: "PrepareAddedRules demo_libs demo_action_libs demo_services (\<lambda>_. None) [demo_user_options] [-1] demo_router =
     (Inr p, demo_router\<lparr>rt_fresh := 2\<rparr>)" "pr_retired p = [demo_obj]" using demo_prepared_rules by blast
  from prepare_added_rules_spec [OF p(1)] have "length (pr_next p) = 1" by simp
  with p show ?thesis by blast
qed

section \<open>Closing\<close>

lemma reachable_ok: "rule_initial c\<^sub>0 \<Longrightarrow> (rule_step L A S R)\<^sup>*\<^sup>* c\<^sub>0 c \<Longrightarrow> snapshots_ok (rc_router c)"
  using rule_sys.inv_reachable by (auto simp: rule_inv_def)

text \<open>C18: Rules in force are open. In every state that connections and updates can reach in any order, no rule of the current list
  has been closed, and no rule has been closed twice.\<close>

theorem current_rules_open:
  assumes "rule_initial c\<^sub>0" "(rule_step L A S R)\<^sup>*\<^sup>* c\<^sub>0 c"
  shows "distinct (rt_closed (rc_router c)) \<and> (ro_id ` set (currentRules (rc_router c))) \<inter> set (rt_closed (rc_router c)) = {}"
proof -
  note ok = reachable_ok [OF assms]
  have "distinct (rt_closed (rc_router c))" using ok by (simp add: snapshots_ok_def closed_ok_def)
  then show ?thesis using last_open [OF ok] by (auto simp: currentRules_last [OF ok] sn_ids_def)
qed




section \<open>A run of the system\<close>

text \<open>One connection leases the initial rules; an update keeps the rule, the next one drops it.\<close>

definition demo_conc :: rule_conc where
  "demo_conc = \<lparr>rc_router = demo_router, rc_pending = None\<rparr>"

definition demo_reused :: rule_router where
  "demo_reused = demo_router\<lparr>rt_added := Some 1, rt_snapshots := [\<lparr>sn_rules = [demo_obj], sn_leases = 1, sn_retired = []\<rparr>,
     \<lparr>sn_rules = [demo_obj], sn_leases = 0, sn_retired = []\<rparr>]\<rparr>"

definition demo_dropped :: rule_router where
  "demo_dropped = demo_router\<lparr>rt_added := Some 2, rt_snapshots := [\<lparr>sn_rules = [demo_obj], sn_leases = 1, sn_retired = []\<rparr>,
     \<lparr>sn_rules = [demo_obj], sn_leases = 0, sn_retired = []\<rparr>, \<lparr>sn_rules = [], sn_leases = 0, sn_retired = []\<rparr>],
     rt_closed := [0]\<rparr>"

lemma demo_initial: "rule_initial demo_conc"
  by (simp add: rule_initial_def demo_conc_def demo_router_def demo_obj_def)

lemma demo_run_reused: "(rule_step L A S R)\<^sup>*\<^sup>* demo_conc \<lparr>rc_router = demo_reused, rc_pending = None\<rparr>"
proof -
  let ?r1 = "snd (acquireRules demo_router)"
  let ?p = "\<lparr>pr_next = [demo_obj], pr_added = [], pr_retired = []\<rparr>"
  have 1: "rule_step L A S R demo_conc \<lparr>rc_router = ?r1, rc_pending = None\<rparr>"
    using rule_step.acquire [of L A S R demo_conc] by (simp add: demo_conc_def)
  have "PrepareAddedRules L A S R [demo_user_options] [0] ?r1 = (Inr ?p, ?r1)"
    by (simp add: PrepareAddedRules_def acquireRules_def current_snapshot_def currentRules_def demo_router_def Let_def)
  then have 2: "rule_step L A S R \<lparr>rc_router = ?r1, rc_pending = None\<rparr> \<lparr>rc_router = ?r1, rc_pending = Some ?p\<rparr>"
    using rule_step.prepare [of "\<lparr>rc_router = ?r1, rc_pending = None\<rparr>" "[0]" L A S R "[demo_user_options]"] by simp
  have "publishRules ?p ?r1 = demo_reused"
    by (simp add: publishRules_def acquireRules_def current_snapshot_def demo_router_def demo_reused_def Let_def)
  then have 3: "rule_step L A S R \<lparr>rc_router = ?r1, rc_pending = Some ?p\<rparr> \<lparr>rc_router = demo_reused, rc_pending = None\<rparr>"
    using rule_step.publish [of "\<lparr>rc_router = ?r1, rc_pending = Some ?p\<rparr>" ?p L A S R] by simp
  from 1 2 3 show ?thesis by (meson converse_rtranclp_into_rtranclp rtranclp.rtrancl_refl)
qed

lemma demo_run_dropped: "(rule_step L A S R)\<^sup>*\<^sup>* demo_conc \<lparr>rc_router = demo_dropped, rc_pending = None\<rparr>"
proof -
  let ?p = "\<lparr>pr_next = [], pr_added = [], pr_retired = [demo_obj]\<rparr>"
  have "PrepareAddedRules L A S R [] [] demo_reused = (Inr ?p, demo_reused)"
    by (simp add: PrepareAddedRules_def currentRules_def demo_router_def demo_reused_def Let_def)
  then have 1: "rule_step L A S R \<lparr>rc_router = demo_reused, rc_pending = None\<rparr> \<lparr>rc_router = demo_reused, rc_pending = Some ?p\<rparr>"
    using rule_step.prepare [of "\<lparr>rc_router = demo_reused, rc_pending = None\<rparr>" "[]" L A S R "[]"] by simp
  have "publishRules ?p demo_reused = demo_dropped"
    by (simp add: publishRules_def current_snapshot_def demo_router_def demo_reused_def demo_dropped_def demo_obj_def)
  then have 2: "rule_step L A S R \<lparr>rc_router = demo_reused, rc_pending = Some ?p\<rparr> \<lparr>rc_router = demo_dropped, rc_pending = None\<rparr>"
    using rule_step.publish [of "\<lparr>rc_router = demo_reused, rc_pending = Some ?p\<rparr>" ?p L A S R] by simp
  from demo_run_reused 1 2 show ?thesis by (meson rtranclp.rtrancl_into_rtrancl)
qed

theorem current_rules_open_witness:
  "currentRules demo_reused = [demo_obj] \<and> ro_id demo_obj \<notin> set (rt_closed demo_reused)"
  using current_rules_open [OF demo_initial demo_run_reused]
  by (simp add: currentRules_def demo_reused_def)


text \<open>A lease does not protect a rule from the second update. A connection leases the rules; one update keeps a rule, so that
  the leased snapshot has nothing to retire; the next update drops the rule, and as nobody leases the snapshot in
  between, the rule is closed at once, although the connection still holds it.\<close>

theorem leased_rule_closed:
  "\<exists>c. rule_initial demo_conc \<and> (rule_step L A S R)\<^sup>*\<^sup>* demo_conc c \<and> 0 < sn_leases (rt_snapshots (rc_router c) ! 0) \<and>
     demo_obj \<in> set (sn_rules (rt_snapshots (rc_router c) ! 0)) \<and> ro_id demo_obj \<in> set (rt_closed (rc_router c))"
  by (intro exI [of _ "\<lparr>rc_router = demo_dropped, rc_pending = None\<rparr>"] conjI demo_initial demo_run_dropped)
    (simp_all add: demo_dropped_def demo_obj_def)

end
