(* ===== verification/Tag_Manager.thy ===== *)
theory Tag_Manager
  imports Go_Strings
begin

text \<open>
  The life cycle of the components of an instance (\<^verbatim>\<open>adapter/lifecycle.go\<close>), the registries of constructors
  (\<^verbatim>\<open>adapter/*/registry.go\<close>) and the managers that keep components by tag: endpoints, inbounds and services
  (\<^verbatim>\<open>adapter/{endpoint,inbound,service}/manager.go\<close>). The outbound manager has its own theory.

  A component is an object with an identity; it keeps the type and tag it was constructed with. What its own
  \<^verbatim>\<open>Start\<close> and \<^verbatim>\<open>Close\<close> answer is a parameter, and every call is logged.
\<close>

section \<open>Stages\<close>

definition StartStateInitialize :: nat where "StartStateInitialize = 0"
definition StartStateStart :: nat where "StartStateStart = 1"
definition StartStatePostStart :: nat where "StartStatePostStart = 2"
definition StartStateStarted :: nat where "StartStateStarted = 3"

lemmas stage_defs = StartStateInitialize_def StartStateStart_def StartStatePostStart_def StartStateStarted_def

definition ListStartStages :: "nat list" where
  "ListStartStages = [StartStateInitialize, StartStateStart, StartStatePostStart, StartStateStarted]"

definition stage_string :: "nat \<Rightarrow> go_error + string" where
  "stage_string s =
     (if s = StartStateInitialize then Inr ''initialize''
      else if s = StartStateStart then Inr ''start''
      else if s = StartStatePostStart then Inr ''post-start''
      else if s = StartStateStarted then Inr ''finish-start''
      else Inl (EPanic ''unknown stage''))"

definition stage_name :: "nat \<Rightarrow> string" where
  "stage_name s = (case stage_string s of Inl _ \<Rightarrow> [] | Inr n \<Rightarrow> n)"

section \<open>Components\<close>

record component =
  cp_id :: nat
  cp_type :: string
  cp_tag :: string
  cp_deps :: "string list"

datatype life_event = EvStart nat nat | EvClose nat

record life =
  lf_start :: "component \<Rightarrow> nat \<Rightarrow> go_error option"
  lf_close :: "component \<Rightarrow> go_error option"

text \<open>The methods a component may have; the managers reach them through \<^verbatim>\<open>LegacyStart\<close>.\<close>

record methods =
  mt_lifecycle :: "(nat \<Rightarrow> go_error option) option"
  mt_pre_start :: "go_error option option"
  mt_start :: "go_error option option"
  mt_post_start :: "go_error option option"

definition call_method :: "go_error option option \<Rightarrow> go_error option" where
  "call_method f = (case f of None \<Rightarrow> None | Some r \<Rightarrow> r)"

definition LegacyStart :: "methods \<Rightarrow> nat \<Rightarrow> go_error option" where
  "LegacyStart x stage = (case mt_lifecycle x of
     Some start \<Rightarrow> start stage
   | None \<Rightarrow>
       if stage = StartStateInitialize then call_method (mt_pre_start x)
       else if stage = StartStateStart then call_method (mt_start x)
       else if stage = StartStateStarted then call_method (mt_post_start x)
       else None)"

definition component_name :: "string \<Rightarrow> component \<Rightarrow> string" where
  "component_name label c = label @ ''/'' @ cp_type c @ ''['' @ cp_tag c @ '']''"

text \<open>Starting a list for one stage stops at the first error.\<close>

fun start_all :: "life \<Rightarrow> string \<Rightarrow> nat \<Rightarrow> component list \<Rightarrow> go_error option \<times> life_event list" where
  "start_all lf label stage [] = (None, [])"
| "start_all lf label stage (c # cs) =
     (case lf_start lf c stage of
        Some e \<Rightarrow> (Some (ECause e (stage_name stage @ '' '' @ component_name label c)), [EvStart (cp_id c) stage])
      | None \<Rightarrow> (let (e, l) = start_all lf label stage cs in (e, EvStart (cp_id c) stage # l)))"

text \<open>Starting one component through a list of stages.\<close>

fun start_stages :: "life \<Rightarrow> string \<Rightarrow> component \<Rightarrow> nat list \<Rightarrow> go_error option \<times> life_event list" where
  "start_stages lf label c [] = (None, [])"
| "start_stages lf label c (s # ss) =
     (case lf_start lf c s of
        Some e \<Rightarrow> (Some (ECause e (stage_name s @ '' '' @ component_name label c)), [EvStart (cp_id c) s])
      | None \<Rightarrow> (let (e, l) = start_stages lf label c ss in (e, EvStart (cp_id c) s # l)))"

text \<open>\<^verbatim>\<open>common.Index\<close> by identity and the removal of that index.\<close>

fun remove_object :: "nat \<Rightarrow> component list \<Rightarrow> component list option" where
  "remove_object i [] = None"
| "remove_object i (c # cs) = (if cp_id c = i then Some cs else map_option ((#) c) (remove_object i cs))"

section \<open>Registries\<close>

type_synonym constructor = "string \<Rightarrow> string \<Rightarrow> go_error + string list"

record registry =
  rg_options :: "(string, string) gomap"
  rg_constructors :: "(string, constructor) gomap"

definition NewRegistry :: registry where
  "NewRegistry = \<lparr>rg_options = [], rg_constructors = []\<rparr>"

definition registry_register :: "string \<Rightarrow> string \<Rightarrow> constructor \<Rightarrow> registry \<Rightarrow> registry" where
  "registry_register type options f r =
     r\<lparr>rg_options := AList.update type options (rg_options r), rg_constructors := AList.update type f (rg_constructors r)\<rparr>"

definition CreateOptions :: "string \<Rightarrow> registry \<Rightarrow> string option" where
  "CreateOptions type r = map_of (rg_options r) type"

definition registry_create :: "registry \<Rightarrow> string \<Rightarrow> string \<Rightarrow> string \<Rightarrow> nat \<Rightarrow> go_error + component" where
  "registry_create r tag type options fresh =
     (case map_of (rg_constructors r) type of
        None \<Rightarrow> Inl (ENew (''outbound type not found: '' @ type))
      | Some f \<Rightarrow> rbind (f tag options) (\<lambda>deps. Inr \<lparr>cp_id = fresh, cp_type = type, cp_tag = tag, cp_deps = deps\<rparr>))"

section \<open>Managers\<close>

record tag_manager =
  tm_started :: bool
  tm_stage :: nat
  tm_items :: "component list"
  tm_by_tag :: "(string, component) gomap"
  tm_log :: "life_event list"
  tm_fresh :: nat

definition NewTagManager :: tag_manager where
  "NewTagManager = \<lparr>tm_started = False, tm_stage = 0, tm_items = [], tm_by_tag = [], tm_log = [], tm_fresh = 0\<rparr>"

definition ErrInvalid :: go_error where "ErrInvalid = ENew ''invalid argument''"

definition manager_Start :: "life \<Rightarrow> string \<Rightarrow> nat \<Rightarrow> tag_manager \<Rightarrow> go_error option \<times> tag_manager" where
  "manager_Start lf label stage m =
     (if tm_started m \<and> tm_stage m \<ge> stage then (Some (EPanic ''already started''), m)
      else let m' = m\<lparr>tm_started := True, tm_stage := stage\<rparr>;
               (e, l) = start_all lf label stage (tm_items m)
           in (e, m'\<lparr>tm_log := tm_log m @ l\<rparr>))"

definition manager_Close :: "tag_manager \<Rightarrow> tag_manager" where
  "manager_Close m =
     (if \<not> tm_started m then m
      else m\<lparr>tm_started := False, tm_items := [], tm_log := tm_log m @ map (\<lambda>c. EvClose (cp_id c)) (tm_items m)\<rparr>)"

definition manager_Get :: "string \<Rightarrow> tag_manager \<Rightarrow> component option" where
  "manager_Get tag m = map_of (tm_by_tag m) tag"

definition manager_Remove :: "life \<Rightarrow> string \<Rightarrow> string \<Rightarrow> tag_manager \<Rightarrow> go_error option \<times> tag_manager" where
  "manager_Remove lf label tag m =
     (case map_of (tm_by_tag m) tag of
        None \<Rightarrow> (Some ErrInvalid, m)
      | Some c \<Rightarrow>
          let m1 = m\<lparr>tm_by_tag := AList.delete tag (tm_by_tag m)\<rparr>
          in case remove_object (cp_id c) (tm_items m) of
               None \<Rightarrow> (Some (EPanic (''invalid '' @ label @ '' index'')), m1)
             | Some cs \<Rightarrow>
                 if tm_started m
                 then (lf_close lf c, m1\<lparr>tm_items := cs, tm_log := tm_log m @ [EvClose (cp_id c)]\<rparr>)
                 else (None, m1\<lparr>tm_items := cs\<rparr>))"

text \<open>The part of \<^verbatim>\<open>Create\<close> that replaces a component of the same tag.\<close>

definition manager_replace :: "life \<Rightarrow> string \<Rightarrow> string \<Rightarrow> component \<Rightarrow> tag_manager \<Rightarrow> go_error option \<times> tag_manager" where
  "manager_replace lf label tag c m =
     (case map_of (tm_by_tag m) tag of
        None \<Rightarrow> (None, m\<lparr>tm_items := tm_items m @ [c], tm_by_tag := AList.update tag c (tm_by_tag m)\<rparr>)
      | Some old \<Rightarrow>
          let m1 = (if tm_started m then m\<lparr>tm_log := tm_log m @ [EvClose (cp_id old)]\<rparr> else m)
          in case (if tm_started m then lf_close lf old else None) of
               Some e \<Rightarrow> (Some (ECause e (''close '' @ component_name label old)), m1)
             | None \<Rightarrow>
                 (case remove_object (cp_id old) (tm_items m) of
                    None \<Rightarrow> (Some (EPanic (''invalid '' @ label @ '' index'')), m1)
                  | Some cs \<Rightarrow> (None, m1\<lparr>tm_items := cs @ [c], tm_by_tag := AList.update tag c (tm_by_tag m)\<rparr>)))"

definition manager_Create ::
  "life \<Rightarrow> registry \<Rightarrow> string \<Rightarrow> string \<Rightarrow> string \<Rightarrow> string \<Rightarrow> tag_manager \<Rightarrow> go_error option \<times> tag_manager" where
  "manager_Create lf reg label tag type options m =
     (case registry_create reg tag type options (tm_fresh m) of
        Inl e \<Rightarrow> (Some e, m)
      | Inr c \<Rightarrow>
          let m0 = m\<lparr>tm_fresh := Suc (tm_fresh m)\<rparr>
          in if tm_started m then
               (case start_stages lf label c ListStartStages of
                  (Some e, l) \<Rightarrow> (Some e, m0\<lparr>tm_log := tm_log m @ l\<rparr>)
                | (None, l) \<Rightarrow> manager_replace lf label tag c (m0\<lparr>tm_log := tm_log m @ l\<rparr>))
             else manager_replace lf label tag c m0)"

text \<open>Endpoints are started by the outbound manager; inbounds are looked up among the endpoints as well.\<close>

definition endpoint_Start :: "life \<Rightarrow> nat \<Rightarrow> tag_manager \<Rightarrow> go_error option \<times> tag_manager" where
  "endpoint_Start lf stage m =
     (if tm_started m \<and> tm_stage m \<ge> stage then (Some (EPanic ''already started''), m)
      else let m' = m\<lparr>tm_started := True, tm_stage := stage\<rparr>
           in if stage = StartStateStart then (None, m')
              else let (e, l) = start_all lf ''endpoint'' stage (tm_items m) in (e, m'\<lparr>tm_log := tm_log m @ l\<rparr>))"

definition inbound_Start :: "life \<Rightarrow> nat \<Rightarrow> tag_manager \<Rightarrow> go_error option \<times> tag_manager" where
  "inbound_Start lf = manager_Start lf ''inbound''"

definition service_Start :: "life \<Rightarrow> nat \<Rightarrow> tag_manager \<Rightarrow> go_error option \<times> tag_manager" where
  "service_Start lf = manager_Start lf ''service''"

definition endpoint_Remove :: "life \<Rightarrow> string \<Rightarrow> tag_manager \<Rightarrow> go_error option \<times> tag_manager" where
  "endpoint_Remove lf = manager_Remove lf ''endpoint''"

definition inbound_Remove :: "life \<Rightarrow> string \<Rightarrow> tag_manager \<Rightarrow> go_error option \<times> tag_manager" where
  "inbound_Remove lf = manager_Remove lf ''inbound''"

definition service_Remove :: "life \<Rightarrow> string \<Rightarrow> tag_manager \<Rightarrow> go_error option \<times> tag_manager" where
  "service_Remove lf = manager_Remove lf ''service''"

definition endpoint_Create :: "life \<Rightarrow> registry \<Rightarrow> string \<Rightarrow> string \<Rightarrow> string \<Rightarrow> tag_manager \<Rightarrow> go_error option \<times> tag_manager" where
  "endpoint_Create lf reg = manager_Create lf reg ''endpoint''"

definition inbound_Create :: "life \<Rightarrow> registry \<Rightarrow> string \<Rightarrow> string \<Rightarrow> string \<Rightarrow> tag_manager \<Rightarrow> go_error option \<times> tag_manager" where
  "inbound_Create lf reg = manager_Create lf reg ''inbound''"

definition service_Create :: "life \<Rightarrow> registry \<Rightarrow> string \<Rightarrow> string \<Rightarrow> string \<Rightarrow> tag_manager \<Rightarrow> go_error option \<times> tag_manager" where
  "service_Create lf reg = manager_Create lf reg ''service''"

definition inbound_Get :: "tag_manager \<Rightarrow> string \<Rightarrow> tag_manager \<Rightarrow> component option" where
  "inbound_Get endpoints tag m = (case map_of (tm_by_tag m) tag of Some c \<Rightarrow> Some c | None \<Rightarrow> manager_Get tag endpoints)"

section \<open>Invariant\<close>

text \<open>The list and the index hold the same components, under their own tags.\<close>

definition tm_wf :: "tag_manager \<Rightarrow> bool" where
  "tm_wf m \<longleftrightarrow> distinct (map cp_id (tm_items m)) \<and> (\<forall>c \<in> set (tm_items m). cp_id c < tm_fresh m) \<and> gomap_wf (tm_by_tag m) \<and>
     (\<forall>t c. map_of (tm_by_tag m) t = Some c \<longleftrightarrow> c \<in> set (tm_items m) \<and> cp_tag c = t)"

lemma remove_object_Some:
  "c \<in> set cs \<Longrightarrow> distinct (map cp_id cs) \<Longrightarrow>
     \<exists>rest. remove_object (cp_id c) cs = Some rest \<and> set rest = set cs - {c} \<and> distinct (map cp_id rest)"
proof (induction cs)
  case (Cons a cs)
  show ?case
  proof (cases "cp_id a = cp_id c")
    case True
    then have "a = c" using Cons.prems by (auto simp: image_iff)
    then show ?thesis using Cons.prems by auto
  next
    case False
    then obtain rest where "remove_object (cp_id c) cs = Some rest" "set rest = set cs - {c}" "distinct (map cp_id rest)"
      using Cons by auto
    then show ?thesis using False Cons.prems by (auto simp: image_iff)
  qed
qed simp

lemma tm_wf_index:
  assumes "tm_wf m" "map_of (tm_by_tag m) t = Some c"
  shows "\<exists>rest. remove_object (cp_id c) (tm_items m) = Some rest \<and> set rest = set (tm_items m) - {c} \<and> distinct (map cp_id rest) \<and> cp_tag c = t"
  using assms remove_object_Some [of c "tm_items m"] by (auto simp: tm_wf_def)

lemma manager_Remove_spec:
  assumes wf: "tm_wf m" and r: "manager_Remove lf label tag m = (e, m')"
  shows "tm_wf m'" "map_of (tm_by_tag m') t = (if t = tag then None else map_of (tm_by_tag m) t)"
    "e = (case map_of (tm_by_tag m) tag of None \<Rightarrow> Some ErrInvalid | Some c \<Rightarrow> if tm_started m then lf_close lf c else None)"
proof -
  have "tm_wf m' \<and> map_of (tm_by_tag m') t = (if t = tag then None else map_of (tm_by_tag m) t) \<and>
      e = (case map_of (tm_by_tag m) tag of None \<Rightarrow> Some ErrInvalid | Some c \<Rightarrow> if tm_started m then lf_close lf c else None)"
  proof (cases "map_of (tm_by_tag m) tag")
    case None
    then show ?thesis using wf r by (simp add: manager_Remove_def)
  next
    case (Some c)
    obtain rest where rest: "remove_object (cp_id c) (tm_items m) = Some rest" "set rest = set (tm_items m) - {c}"
      "distinct (map cp_id rest)" "cp_tag c = tag" using tm_wf_index [OF wf Some] by blast
    have m': "tm_items m' = rest" "tm_by_tag m' = AList.delete tag (tm_by_tag m)" "tm_fresh m' = tm_fresh m"
      and e: "e = (if tm_started m then lf_close lf c else None)"
      using r Some rest(1) by (auto simp: manager_Remove_def Let_def split: if_splits)
    have uniq: "d \<in> set (tm_items m) \<Longrightarrow> cp_tag d = tag \<Longrightarrow> d = c" for d
      using wf Some unfolding tm_wf_def by (metis option.inject)
    have "map_of (tm_by_tag m') t' = Some d \<longleftrightarrow> d \<in> set (tm_items m') \<and> cp_tag d = t'" for t' d
      using wf rest uniq unfolding m' tm_wf_def by auto
    then have "tm_wf m'" using wf rest m' by (simp add: tm_wf_def)
    then show ?thesis by (simp add: m'(2) e Some)
  qed
  then show "tm_wf m'" "map_of (tm_by_tag m') t = (if t = tag then None else map_of (tm_by_tag m) t)"
    "e = (case map_of (tm_by_tag m) tag of None \<Rightarrow> Some ErrInvalid | Some c \<Rightarrow> if tm_started m then lf_close lf c else None)" by auto
qed

lemma manager_replace_spec:
  assumes wf: "tm_wf m" and c: "cp_id c = n" "n < tm_fresh m" "n \<notin> cp_id ` set (tm_items m)" "cp_tag c = tag"
    and r: "manager_replace lf label tag c m = (e, m')"
  shows "tm_wf m' \<and> (e = None \<longrightarrow> map_of (tm_by_tag m') tag = Some c) \<and> (e \<noteq> None \<longrightarrow> tm_by_tag m' = tm_by_tag m) \<and>
    (t \<noteq> tag \<longrightarrow> map_of (tm_by_tag m') t = map_of (tm_by_tag m) t)"
proof (cases "map_of (tm_by_tag m) tag")
  case None
  then have m': "m' = m\<lparr>tm_items := tm_items m @ [c], tm_by_tag := AList.update tag c (tm_by_tag m)\<rparr>" "e = None"
    using r by (simp_all add: manager_replace_def)
  have "cp_tag d \<noteq> tag" if "d \<in> set (tm_items m)" for d
    using wf None that unfolding tm_wf_def by (metis option.distinct(1))
  then have "tm_wf m'" using wf c unfolding tm_wf_def m' by auto
  then show ?thesis by (simp add: m')
next
  case (Some old)
  obtain rest where rest: "remove_object (cp_id old) (tm_items m) = Some rest" "set rest = set (tm_items m) - {old}"
    "distinct (map cp_id rest)" "cp_tag old = tag" using tm_wf_index [OF wf Some] by blast
  show ?thesis
  proof (cases "(if tm_started m then lf_close lf old else None)")
    case None
    then have m': "tm_items m' = rest @ [c]" "tm_by_tag m' = AList.update tag c (tm_by_tag m)" "tm_fresh m' = tm_fresh m" "e = None"
      using r Some rest(1) by (auto simp: manager_replace_def Let_def)
    have uniq: "d \<in> set (tm_items m) \<Longrightarrow> cp_tag d = tag \<Longrightarrow> d = old" for d
      using wf Some unfolding tm_wf_def by (metis option.inject)
    have "map_of (tm_by_tag m') t' = Some d \<longleftrightarrow> d \<in> set (tm_items m') \<and> cp_tag d = t'" for t' d
      using wf rest uniq c(4) unfolding m' tm_wf_def by auto
    then have "tm_wf m'" using wf rest c unfolding tm_wf_def m' by auto
    then show ?thesis using m' by simp
  next
    case (Some e')
    then have "e = Some (ECause e' (''close '' @ component_name label old))" "tm_items m' = tm_items m" "tm_by_tag m' = tm_by_tag m"
      "tm_fresh m' = tm_fresh m"
      using r \<open>map_of (tm_by_tag m) tag = Some old\<close> by (auto simp: manager_replace_def Let_def split: if_splits)
    then show ?thesis using wf by (simp add: tm_wf_def)
  qed
qed

lemma manager_Create_spec:
  assumes wf: "tm_wf m" and r: "manager_Create lf reg label tag type options m = (e, m')"
  shows "tm_wf m' \<and> (e = None \<longrightarrow> (\<exists>deps. map_of (tm_by_tag m') tag =
      Some \<lparr>cp_id = tm_fresh m, cp_type = type, cp_tag = tag, cp_deps = deps\<rparr>)) \<and> (e \<noteq> None \<longrightarrow> tm_by_tag m' = tm_by_tag m) \<and>
    (t \<noteq> tag \<longrightarrow> map_of (tm_by_tag m') t = map_of (tm_by_tag m) t)"
proof (cases "registry_create reg tag type options (tm_fresh m)")
  case (Inl e')
  then show ?thesis using wf r by (auto simp: manager_Create_def)
next
  case (Inr c)
  then obtain deps where c: "c = \<lparr>cp_id = tm_fresh m, cp_type = type, cp_tag = tag, cp_deps = deps\<rparr>"
    by (auto simp: registry_create_def rbind_eq_Inr_iff split: option.splits)
  have wf0: "tm_wf (m\<lparr>tm_fresh := Suc (tm_fresh m), tm_log := l\<rparr>)" for l using wf by (auto simp: tm_wf_def)
  have new: "cp_id c = tm_fresh m" "tm_fresh m < Suc (tm_fresh m)" "tm_fresh m \<notin> cp_id ` set (tm_items m)" "cp_tag c = tag"
    using wf by (auto simp: c tm_wf_def)
  have rep: ?thesis if "manager_replace lf label tag c (m\<lparr>tm_fresh := Suc (tm_fresh m), tm_log := l\<rparr>) = (e, m')" for l
    using manager_replace_spec [OF wf0 new(1) _ _ new(4) that, of t] new(3) by (auto simp: c)
  show ?thesis
  proof (cases "tm_started m")
    case True
    obtain e' l where st: "start_stages lf label c ListStartStages = (e', l)" by (cases "start_stages lf label c ListStartStages")
    show ?thesis
    proof (cases e')
      case None
      then show ?thesis using r Inr True st by (intro rep [of "tm_log m @ l"]) (simp add: manager_Create_def)
    next
      case (Some err)
      then have "m' = m\<lparr>tm_fresh := Suc (tm_fresh m), tm_log := tm_log m @ l\<rparr>" "e = Some err"
        using r Inr True st by (simp_all add: manager_Create_def)
      then show ?thesis using wf0 by simp
    qed
  next
    case False
    then have "manager_replace lf label tag c (m\<lparr>tm_fresh := Suc (tm_fresh m), tm_log := tm_log m\<rparr>) = (e, m')"
      using r Inr by (simp add: manager_Create_def)
    then show ?thesis by (rule rep)
  qed
qed

section \<open>The contract of a store of components\<close>

text \<open>What the users of a manager rely on.\<close>

locale component_store =
  fixes create :: "string \<Rightarrow> string \<Rightarrow> string \<Rightarrow> tag_manager \<Rightarrow> go_error option \<times> tag_manager"
    and remove :: "string \<Rightarrow> tag_manager \<Rightarrow> go_error option \<times> tag_manager"
    and get :: "string \<Rightarrow> tag_manager \<Rightarrow> component option"
    and wf :: "tag_manager \<Rightarrow> bool"
  assumes create_wf: "wf m \<Longrightarrow> create tag type options m = (r, m') \<Longrightarrow> wf m'"
    and create_get: "wf m \<Longrightarrow> create tag type options m = (None, m') \<Longrightarrow> \<exists>c. get tag m' = Some c \<and> cp_tag c = tag \<and> cp_type c = type"
    and create_error: "wf m \<Longrightarrow> create tag type options m = (Some e, m') \<Longrightarrow> get tag m' = get tag m"
    and create_other: "wf m \<Longrightarrow> create tag type options m = (r, m') \<Longrightarrow> t \<noteq> tag \<Longrightarrow> get t m' = get t m"
    and remove_wf: "wf m \<Longrightarrow> remove tag m = (r, m') \<Longrightarrow> wf m'"
    and remove_get: "wf m \<Longrightarrow> remove tag m = (r, m') \<Longrightarrow> get tag m' = None"
    and remove_other: "wf m \<Longrightarrow> remove tag m = (r, m') \<Longrightarrow> t \<noteq> tag \<Longrightarrow> get t m' = get t m"
begin

text \<open>A script of operations, as a reload or the control interface issues it.\<close>

fun run_script :: "(string \<times> (string \<times> string) option) list \<Rightarrow> tag_manager \<Rightarrow> tag_manager" where
  "run_script [] m = m"
| "run_script ((tag, None) # ops) m = run_script ops (snd (remove tag m))"
| "run_script ((tag, Some (type, options)) # ops) m = run_script ops (snd (create tag type options m))"

lemma script_wf: "wf m \<Longrightarrow> wf (run_script ops m)"
proof (induction ops m rule: run_script.induct)
  case (2 tag ops m)
  then show ?case using remove_wf [of m tag] by (cases "remove tag m") auto
next
  case (3 tag type options ops m)
  then show ?case using create_wf [of m tag type options] by (cases "create tag type options m") auto
qed simp

text \<open>A script does not touch the tags it does not name.\<close>

lemma script_frame: "wf m \<Longrightarrow> t \<notin> fst ` set ops \<Longrightarrow> get t (run_script ops m) = get t m"
proof (induction ops m rule: run_script.induct)
  case (2 tag ops m)
  then show ?case using remove_wf [of m tag] remove_other [of m tag] by (cases "remove tag m") auto
next
  case (3 tag type options ops m)
  then show ?case
    using create_wf [of m tag type options] create_other [of m tag type options] by (cases "create tag type options m") auto
qed simp

lemma removed_last: "wf m \<Longrightarrow> t \<notin> fst ` set ops \<Longrightarrow> get t (run_script ((t, None) # ops) m) = None"
  using script_frame [of "snd (remove t m)" t ops] remove_wf [of m t] remove_get [of m t] by (cases "remove t m") auto

end

lemma manager_store: "component_store (manager_Create lf reg label) (manager_Remove lf label) manager_Get tm_wf"
proof
  fix m :: tag_manager and tag type options e m' r t
  note C = manager_Create_spec [of m lf reg label tag type options]
  show "tm_wf m \<Longrightarrow> manager_Create lf reg label tag type options m = (r, m') \<Longrightarrow> tm_wf m'" using C by blast
  show "tm_wf m \<Longrightarrow> manager_Create lf reg label tag type options m = (None, m') \<Longrightarrow>
      \<exists>c. manager_Get tag m' = Some c \<and> cp_tag c = tag \<and> cp_type c = type" using C [of None m' tag] by (auto simp: manager_Get_def)
  show "tm_wf m \<Longrightarrow> manager_Create lf reg label tag type options m = (Some e, m') \<Longrightarrow> manager_Get tag m' = manager_Get tag m"
    using C [of "Some e" m'] by (simp add: manager_Get_def)
  show "tm_wf m \<Longrightarrow> manager_Create lf reg label tag type options m = (r, m') \<Longrightarrow> t \<noteq> tag \<Longrightarrow> manager_Get t m' = manager_Get t m"
    using C [of r m' t] by (simp add: manager_Get_def)
  show "tm_wf m \<Longrightarrow> manager_Remove lf label tag m = (r, m') \<Longrightarrow> tm_wf m'" by (rule manager_Remove_spec(1))
  show "tm_wf m \<Longrightarrow> manager_Remove lf label tag m = (r, m') \<Longrightarrow> manager_Get tag m' = None"
    by (simp add: manager_Get_def manager_Remove_spec(2))
  show "tm_wf m \<Longrightarrow> manager_Remove lf label tag m = (r, m') \<Longrightarrow> t \<noteq> tag \<Longrightarrow> manager_Get t m' = manager_Get t m"
    by (simp add: manager_Get_def manager_Remove_spec(2))
qed

interpretation endpoints: component_store "endpoint_Create lf reg" "endpoint_Remove lf" manager_Get tm_wf
  unfolding endpoint_Create_def endpoint_Remove_def by (rule manager_store)

interpretation inbounds: component_store "inbound_Create lf reg" "inbound_Remove lf" manager_Get tm_wf
  unfolding inbound_Create_def inbound_Remove_def by (rule manager_store)

interpretation services: component_store "service_Create lf reg" "service_Remove lf" manager_Get tm_wf
  unfolding service_Create_def service_Remove_def by (rule manager_store)

section \<open>Runs of a manager\<close>

text \<open>The operations of a manager until it is closed.\<close>

inductive manager_step :: "life \<Rightarrow> registry \<Rightarrow> string \<Rightarrow> tag_manager \<Rightarrow> tag_manager \<Rightarrow> bool" for lf reg label where
  start: "manager_step lf reg label m (snd (manager_Start lf label stage m))"
| create: "manager_step lf reg label m (snd (manager_Create lf reg label tag type options m))"
| remove: "manager_step lf reg label m (snd (manager_Remove lf label tag m))"

lemma manager_Start_wf: "tm_wf m \<Longrightarrow> tm_wf (snd (manager_Start lf label stage m))"
  by (auto simp: manager_Start_def tm_wf_def Let_def split: prod.split)

lemma manager_step_wf: "manager_step lf reg label m m' \<Longrightarrow> tm_wf m \<Longrightarrow> tm_wf m'"
proof (induction rule: manager_step.induct)
  case (create m tag type options)
  then show ?case using manager_Create_spec [of m lf reg label tag type options] by (cases "manager_Create lf reg label tag type options m") auto
next
  case (remove m tag)
  then show ?case using manager_Remove_spec(1) [of m lf label tag] by (cases "manager_Remove lf label tag m") auto
qed (simp add: manager_Start_wf)

lemma new_manager_wf: "tm_wf NewTagManager"
  by (simp add: NewTagManager_def tm_wf_def)

interpretation manager_sys: invariant_system "\<lambda>m. m = NewTagManager" "manager_step lf reg label" tm_wf
  using manager_step_wf by unfold_locales (simp_all add: new_manager_wf)

text \<open>Managers of components by tag. After any sequence of starts, creations and removals the list of components and the index by tag
  of an endpoint, inbound or service manager agree: the index holds exactly the listed components, under their own
  tags, no two components share a tag, and no removal meets the panic for a component missing from the list.\<close>

theorem manager_index_exact:
  assumes run: "(manager_step lf reg label)\<^sup>*\<^sup>* NewTagManager m"
  shows "(manager_Get tag m = Some c) = (c \<in> set (tm_items m) \<and> cp_tag c = tag) \<and> distinct (map cp_tag (tm_items m)) \<and>
    fst (manager_Remove lf label tag m) =
      (case manager_Get tag m of None \<Rightarrow> Some ErrInvalid | Some c \<Rightarrow> if tm_started m then lf_close lf c else None)"
proof -
  have wf: "tm_wf m" using manager_sys.inv_reachable [OF refl run] .
  then have ix: "\<And>t c. map_of (tm_by_tag m) t = Some c \<longleftrightarrow> c \<in> set (tm_items m) \<and> cp_tag c = t" by (simp add: tm_wf_def)
  have "inj_on cp_tag (set (tm_items m))" by (rule inj_onI) (metis ix option.inject)
  then have "distinct (map cp_tag (tm_items m))" using wf by (simp add: tm_wf_def distinct_map)
  moreover obtain e m' where "manager_Remove lf label tag m = (e, m')" by (cases "manager_Remove lf label tag m")
  ultimately show ?thesis using ix manager_Remove_spec(3) [OF wf] by (simp add: manager_Get_def)
qed

definition demo_registry :: registry where
  "demo_registry = registry_register ''direct'' ''{}'' (\<lambda>tag options. Inr []) NewRegistry"

definition demo_life :: life where
  "demo_life = \<lparr>lf_start = (\<lambda>_ _. None), lf_close = (\<lambda>_. None)\<rparr>"

definition demo_manager :: tag_manager where
  "demo_manager = snd (manager_Create demo_life demo_registry ''service'' ''a'' ''direct'' ''{}'' NewTagManager)"

theorem manager_index_exact_witness:
  "tm_items demo_manager \<noteq> [] \<and> distinct (map cp_tag (tm_items demo_manager))"
proof -
  have "manager_step demo_life demo_registry ''service'' NewTagManager demo_manager"
    unfolding demo_manager_def by (rule manager_step.create)
  then have "(manager_step demo_life demo_registry ''service'')\<^sup>*\<^sup>* NewTagManager demo_manager" by blast
  from manager_index_exact [OF this] show ?thesis
    by (simp add: demo_manager_def manager_Create_def registry_create_def demo_registry_def registry_register_def NewRegistry_def
        NewTagManager_def manager_replace_def)
qed

text \<open>After the manager is closed the index still answers for its components, and removing one of them panics instead of
  returning an error.\<close>

theorem remove_after_close_panics:
  assumes "tm_started m" and "manager_Get tag m = Some c"
  shows "manager_Get tag (manager_Close m) = Some c \<and>
    fst (manager_Remove lf label tag (manager_Close m)) = Some (EPanic (''invalid '' @ label @ '' index''))"
  using assms by (simp add: manager_Close_def manager_Get_def manager_Remove_def)

theorem remove_after_close_panics_witness:
  "fst (manager_Remove demo_life ''service'' ''a'' (manager_Close (demo_manager\<lparr>tm_started := True\<rparr>))) = Some (EPanic ''invalid service index'')"
proof -
  have "\<exists>c. manager_Get ''a'' (demo_manager\<lparr>tm_started := True\<rparr>) = Some c"
    by (simp add: demo_manager_def manager_Create_def registry_create_def demo_registry_def registry_register_def NewRegistry_def
        NewTagManager_def manager_replace_def manager_Get_def)
  then obtain c where "manager_Get ''a'' (demo_manager\<lparr>tm_started := True\<rparr>) = Some c" by blast
  from remove_after_close_panics [OF _ this, of demo_life "''service''"] show ?thesis by simp
qed

end
