(* ===== verification/Outbound_Manager.thy ===== *)
theory Outbound_Manager
  imports Tag_Manager
begin

text \<open>
  The outbound manager (\<^verbatim>\<open>adapter/outbound/manager.go\<close>) and its update of user outbounds
  (\<^verbatim>\<open>adapter/outbound/user_update.go\<close>). Beside the components by tag it keeps the default outbound and, for every
  tag, the outbounds that depend on it; outbounds and endpoints are started in the order of their dependencies.
\<close>

record outbound_manager =
  om_default_tag :: string
  om_started :: bool
  om_stage :: nat
  om_outbounds :: "component list"
  om_by_tag :: "(string, component) gomap"
  om_depend_by :: "(string, string list) gomap"
  om_default :: "component option"
  om_log :: "life_event list"
  om_fresh :: nat

definition NewOutboundManager :: "string \<Rightarrow> outbound_manager" where
  "NewOutboundManager defaultTag = \<lparr>om_default_tag = defaultTag, om_started = False, om_stage = 0, om_outbounds = [], om_by_tag = [],
     om_depend_by = [], om_default = None, om_log = [], om_fresh = 0\<rparr>"

section \<open>Starting in dependency order\<close>

text \<open>One pass over the outbounds: those whose dependencies have started are started.\<close>

fun start_pass :: "life \<Rightarrow> component list \<Rightarrow> string list \<Rightarrow> bool \<Rightarrow> go_error option \<times> string list \<times> bool \<times> life_event list" where
  "start_pass lf [] started canContinue = (None, started, canContinue, [])"
| "start_pass lf (c # cs) started canContinue =
     (if cp_tag c \<in> set started then start_pass lf cs started canContinue
      else if \<not> list_all (\<lambda>d. d \<in> set started) (cp_deps c) then start_pass lf cs started canContinue
      else
        case lf_start lf c StartStateStart of
          Some e \<Rightarrow> (Some (ECause e (''start '' @ component_name ''outbound'' c)), cp_tag c # started, True, [EvStart (cp_id c) StartStateStart])
        | None \<Rightarrow>
            (let (e, st, can, l) = start_pass lf cs (cp_tag c # started) True
             in (e, st, can, EvStart (cp_id c) StartStateStart # l)))"

text \<open>The diagnosis when no outbound can be started: it follows the first unstarted dependency.\<close>

function lintOutbound :: "(string, component) gomap \<Rightarrow> string list \<Rightarrow> string list \<Rightarrow> component \<Rightarrow> go_error" where
  "lintOutbound by_tag started oTree oCurrent =
     (let problem = (case find (\<lambda>d. d \<notin> set started) (cp_deps oCurrent) of None \<Rightarrow> [] | Some d \<Rightarrow> d)
      in if problem \<in> set oTree
         then ENew (''circular outbound dependency: '' @ join '' -> '' oTree @ '' -> '' @ problem)
         else case map_of by_tag problem of
                None \<Rightarrow> ENew (''dependency['' @ problem @ ''] not found for outbound['' @ cp_tag oCurrent @ '']'')
              | Some c \<Rightarrow> lintOutbound by_tag started (oTree @ [problem]) c)"
  by pat_completeness auto
termination
proof (relation "measure (\<lambda>(by_tag, _, oTree, _). card (fst ` set by_tag - set oTree))", simp, clarsimp)
  fix by_tag :: "(string, component) gomap" and problem oTree c
  assume "problem \<notin> set oTree" "map_of by_tag problem = Some c"
  then have "problem \<in> fst ` set by_tag - set oTree" using map_of_SomeD by force
  then show "card (fst ` set by_tag - insert problem (set oTree)) < card (fst ` set by_tag - set oTree)"
    by (intro psubset_card_mono) auto
qed

lemma start_pass_started:
  "start_pass lf cs started can = (e, st, can', l) \<Longrightarrow>
     set started \<subseteq> set st \<and> set st \<subseteq> set started \<union> cp_tag ` set cs \<and> (can' = (can \<or> set st \<noteq> set started))"
proof (induction lf cs started can arbitrary: e st can' l rule: start_pass.induct)
  case (2 lf c cs started can)
  show ?case
  proof (cases "cp_tag c \<in> set started \<or> \<not> list_all (\<lambda>d. d \<in> set started) (cp_deps c)")
    case True
    then have run: "start_pass lf cs started can = (e, st, can', l)" using "2.prems" by (auto split: if_splits)
    have "set started \<subseteq> set st \<and> set st \<subseteq> set started \<union> cp_tag ` set cs \<and> (can' = (can \<or> set st \<noteq> set started))"
    proof (cases "cp_tag c \<in> set started")
      case True
      then show ?thesis using "2.IH"(1) [OF True run] by simp
    next
      case False
      then have "\<not> list_all (\<lambda>d. d \<in> set started) (cp_deps c)" using True by blast
      then show ?thesis using "2.IH"(2) [OF False _ run] by simp
    qed
    then show ?thesis by auto
  next
    case False
    show ?thesis
    proof (cases "lf_start lf c StartStateStart")
      case None
      then obtain l' where run: "start_pass lf cs (cp_tag c # started) True = (e, st, can', l')"
        using "2.prems" False by (auto split: prod.splits)
      have "set (cp_tag c # started) \<subseteq> set st \<and> set st \<subseteq> set (cp_tag c # started) \<union> cp_tag ` set cs \<and>
          (can' = (True \<or> set st \<noteq> set (cp_tag c # started)))"
        using "2.IH"(3) [OF _ _ None run] False by blast
      then show ?thesis using False by auto
    qed (use "2.prems" False in auto)
  qed
qed auto

lemma start_pass_progress:
  assumes "start_pass lf outbounds started False = (e, st, True, l)"
  shows "card (cp_tag ` set outbounds - set st) < card (cp_tag ` set outbounds - set started)"
proof -
  have "set started \<subset> set st" "set st \<subseteq> set started \<union> cp_tag ` set outbounds"
    using start_pass_started [OF assms] by (simp_all add: psubset_eq) auto
  then show ?thesis by (intro psubset_card_mono) auto
qed

text \<open>The loop of \<^verbatim>\<open>startOutbounds\<close>; a component that is not found after a pass without progress is a nil
  dereference in the source.\<close>

function startOutbounds ::
  "life \<Rightarrow> (string, component) gomap \<Rightarrow> component list \<Rightarrow> string list \<Rightarrow> go_error option \<times> life_event list" where
  "startOutbounds lf by_tag outbounds started =
     (case start_pass lf outbounds started False of
        (Some e, st, can, l) \<Rightarrow> (Some e, l)
      | (None, st, can, l) \<Rightarrow>
          if length st = length outbounds then (None, l)
          else if can then (let (e, l') = startOutbounds lf by_tag outbounds st in (e, l @ l'))
          else case find (\<lambda>c. cp_tag c \<notin> set st) outbounds of
                 None \<Rightarrow> (Some (EPanic ''nil pointer dereference''), l)
               | Some c \<Rightarrow> (Some (lintOutbound by_tag st [cp_tag c] c), l))"
  by pat_completeness auto
termination
  by (relation "measure (\<lambda>(_, _, outbounds, started). card (cp_tag ` set outbounds - set started))")
    (auto dest: start_pass_progress [OF sym] start_pass_progress)

declare startOutbounds.simps [simp del] lintOutbound.simps [simp del]

section \<open>Operations\<close>

definition outbound_Start ::
  "life \<Rightarrow> (nat \<Rightarrow> go_error + component) \<Rightarrow> tag_manager \<Rightarrow> nat \<Rightarrow> outbound_manager \<Rightarrow> go_error option \<times> outbound_manager" where
  "outbound_Start lf fallback endpoints stage m =
     (if om_started m \<and> om_stage m \<ge> stage then (Some (EPanic ''already started''), m)
      else
        let m1 = m\<lparr>om_started := True, om_stage := stage\<rparr>
        in if stage = StartStateStart then
             (case (if om_default_tag m \<noteq> [] \<and> om_default m = None
                    then (case manager_Get (om_default_tag m) endpoints of
                            None \<Rightarrow> Inl (ENew (''default outbound not found: '' @ om_default_tag m))
                          | Some c \<Rightarrow> Inr (m1\<lparr>om_default := Some c\<rparr>))
                    else Inr m1) of
                Inl e \<Rightarrow> (Some e, m1)
              | Inr m2 \<Rightarrow>
                  (case (if om_default m2 = None
                         then (case fallback (om_fresh m2) of
                                 Inl e \<Rightarrow> Inl (ECause e ''create direct outbound for fallback'')
                               | Inr c \<Rightarrow> Inr (m2\<lparr>om_outbounds := om_outbounds m2 @ [c], om_by_tag := AList.update (cp_tag c) c (om_by_tag m2),
                                               om_default := Some c, om_fresh := Suc (om_fresh m2)\<rparr>))
                         else Inr m2) of
                     Inl e \<Rightarrow> (Some e, m2)
                   | Inr m3 \<Rightarrow>
                       (let (e, l) = startOutbounds lf (om_by_tag m3) (om_outbounds m3 @ tm_items endpoints) []
                        in (e, m3\<lparr>om_log := om_log m3 @ l\<rparr>))))
           else
             (let (e, l) = start_all lf ''outbound'' stage (om_outbounds m1) in (e, m1\<lparr>om_log := om_log m1 @ l\<rparr>)))"

definition outbound_Close :: "outbound_manager \<Rightarrow> outbound_manager" where
  "outbound_Close m =
     (if \<not> om_started m then m
      else m\<lparr>om_started := False, om_outbounds := [], om_log := om_log m @ map (\<lambda>c. EvClose (cp_id c)) (om_outbounds m)\<rparr>)"

definition Outbound :: "tag_manager \<Rightarrow> string \<Rightarrow> outbound_manager \<Rightarrow> component option" where
  "Outbound endpoints tag m = (case map_of (om_by_tag m) tag of Some c \<Rightarrow> Some c | None \<Rightarrow> manager_Get tag endpoints)"

definition depend_by :: "outbound_manager \<Rightarrow> string \<Rightarrow> string list" where
  "depend_by m tag = (case map_of (om_depend_by m) tag of None \<Rightarrow> [] | Some ts \<Rightarrow> ts)"

definition forget_dependency :: "string \<Rightarrow> string \<Rightarrow> (string, string list) gomap \<Rightarrow> (string, string list) gomap" where
  "forget_dependency tag d deps =
     (let ts = (case map_of deps d of None \<Rightarrow> [] | Some ts \<Rightarrow> ts)
      in if length ts = 1 then AList.delete d deps else AList.update d (filter (\<lambda>t. t \<noteq> tag) ts) deps)"

definition outbound_Remove :: "life \<Rightarrow> string \<Rightarrow> outbound_manager \<Rightarrow> go_error option \<times> outbound_manager" where
  "outbound_Remove lf tag m =
     (case map_of (om_by_tag m) tag of
        None \<Rightarrow> (Some ErrInvalid, m)
      | Some c \<Rightarrow>
          let m1 = m\<lparr>om_by_tag := AList.delete tag (om_by_tag m)\<rparr>
          in case remove_object (cp_id c) (om_outbounds m) of
               None \<Rightarrow> (Some (EPanic ''invalid inbound index''), m1)
             | Some cs \<Rightarrow>
                 let m2 = m1\<lparr>om_outbounds := cs,
                             om_default := (if om_default m = Some c then (case cs of [] \<Rightarrow> None | d # _ \<Rightarrow> Some d) else om_default m)\<rparr>
                 in if depend_by m tag \<noteq> []
                    then (Some (ENew (''outbound['' @ tag @ ''] is depended by '' @ join '', '' (depend_by m tag))), m2)
                    else
                      let m3 = m2\<lparr>om_depend_by := fold (forget_dependency tag) (cp_deps c) (om_depend_by m)\<rparr>
                      in if om_started m then (lf_close lf c, m3\<lparr>om_log := om_log m @ [EvClose (cp_id c)]\<rparr>)
                         else (None, m3))"

definition add_dependency :: "string \<Rightarrow> string \<Rightarrow> (string, string list) gomap \<Rightarrow> (string, string list) gomap" where
  "add_dependency tag d deps = AList.update d ((case map_of deps d of None \<Rightarrow> [] | Some ts \<Rightarrow> ts) @ [tag]) deps"

text \<open>The part of \<^verbatim>\<open>Create\<close> under the lock.\<close>

definition outbound_install :: "string \<Rightarrow> component \<Rightarrow> component list \<Rightarrow> outbound_manager \<Rightarrow> outbound_manager" where
  "outbound_install tag c cs m =
     m\<lparr>om_outbounds := cs @ [c], om_by_tag := AList.update tag c (om_by_tag m),
       om_depend_by := fold (add_dependency tag) (cp_deps c) (om_depend_by m),
       om_default := (if tag = om_default_tag m \<or> om_default_tag m = [] \<and> om_default m = None then Some c else om_default m)\<rparr>"

definition outbound_replace :: "life \<Rightarrow> string \<Rightarrow> component \<Rightarrow> outbound_manager \<Rightarrow> go_error option \<times> outbound_manager" where
  "outbound_replace lf tag c m =
     (case map_of (om_by_tag m) tag of
        None \<Rightarrow> (None, outbound_install tag c (om_outbounds m) m)
      | Some old \<Rightarrow>
          let m1 = (if om_started m then m\<lparr>om_log := om_log m @ [EvClose (cp_id old)]\<rparr> else m)
          in case (if om_started m then lf_close lf old else None) of
               Some e \<Rightarrow> (Some (ECause e (''close '' @ component_name ''outbound'' old)), m1)
             | None \<Rightarrow>
                 (case remove_object (cp_id old) (om_outbounds m) of
                    None \<Rightarrow> (Some (EPanic ''invalid inbound index''), m1)
                  | Some cs \<Rightarrow> (None, outbound_install tag c cs m1)))"

definition outbound_Create ::
  "life \<Rightarrow> registry \<Rightarrow> string \<Rightarrow> string \<Rightarrow> string \<Rightarrow> outbound_manager \<Rightarrow> go_error option \<times> outbound_manager" where
  "outbound_Create lf reg tag type options m =
     (if tag = [] then (Some ErrInvalid, m)
      else
        case registry_create reg tag type options (om_fresh m) of
          Inl e \<Rightarrow> (Some e, m)
        | Inr c \<Rightarrow>
            let m0 = m\<lparr>om_fresh := Suc (om_fresh m)\<rparr>
            in if om_started m then
                 (case start_stages lf ''outbound'' c ListStartStages of
                    (Some e, l) \<Rightarrow> (Some e, m0\<lparr>om_log := om_log m @ l\<rparr>)
                  | (None, l) \<Rightarrow> outbound_replace lf tag c (m0\<lparr>om_log := om_log m @ l\<rparr>))
               else outbound_replace lf tag c m0)"

section \<open>Updates of user outbounds\<close>

record outbound_options =
  oo_type :: string
  oo_tag :: string
  oo_options :: string

definition removable :: "outbound_manager \<Rightarrow> string \<Rightarrow> bool" where
  "removable m tag = (case map_of (om_by_tag m) tag of
     None \<Rightarrow> False
   | Some old \<Rightarrow> om_default m \<noteq> Some old \<and> depend_by m tag = [] \<and> cp_deps old = [])"

fun start_until :: "life \<Rightarrow> component \<Rightarrow> nat list \<Rightarrow> go_error option \<times> life_event list" where
  "start_until lf c [] = (None, [])"
| "start_until lf c (s # ss) =
     (case lf_start lf c s of
        Some e \<Rightarrow> (Some e, [EvStart (cp_id c) s])
      | None \<Rightarrow> (let (e, l) = start_until lf c ss in (e, EvStart (cp_id c) s # l)))"

text \<open>The loop that builds the replacements. It gives the replacements built so far, the log and the next identity.\<close>

fun prepare_outbounds ::
  "life \<Rightarrow> registry \<Rightarrow> tag_manager \<Rightarrow> nat list \<Rightarrow> outbound_options list \<Rightarrow> component list \<Rightarrow> life_event list \<Rightarrow> nat \<Rightarrow>
     go_error option \<times> component list \<times> life_event list \<times> nat" where
  "prepare_outbounds lf reg endpoints stages [] prepared l fresh = (None, prepared, l, fresh)"
| "prepare_outbounds lf reg endpoints stages (o1 # os) prepared l fresh =
     (if oo_type o1 \<noteq> ''direct'' \<and> oo_type o1 \<noteq> ''socks'' then (Some (ENew ''unsupported user outbound type''), prepared, l, fresh)
      else if manager_Get (oo_tag o1) endpoints \<noteq> None then (Some (ENew ''outbound tag overlaps an endpoint''), prepared, l, fresh)
      else
        case registry_create reg (oo_tag o1) (oo_type o1) (oo_options o1) fresh of
          Inl e \<Rightarrow> (Some e, prepared, l, fresh)
        | Inr c \<Rightarrow>
            if cp_deps c \<noteq> [] then (Some (ENew ''dynamic user outbounds cannot have dependencies''), prepared @ [c], l, Suc fresh)
            else
              case start_until lf c stages of
                (Some e, l') \<Rightarrow> (Some e, prepared @ [c], l @ l', Suc fresh)
              | (None, l') \<Rightarrow> prepare_outbounds lf reg endpoints stages os (prepared @ [c]) (l @ l') (Suc fresh))"

definition outbound_PrepareUserUpdate ::
  "life \<Rightarrow> registry \<Rightarrow> tag_manager \<Rightarrow> outbound_options list \<Rightarrow> string list \<Rightarrow> outbound_manager \<Rightarrow>
     (go_error + component list) \<times> outbound_manager" where
  "outbound_PrepareUserUpdate lf reg endpoints options remove m =
     (if \<not> list_all (removable m) remove
      then (Inl (ENew ''outbound is shared, default, dependent, or unavailable''), m)
      else
        let stages = (if om_started m then takeWhile (\<lambda>s. s \<le> om_stage m) ListStartStages else [])
        in case prepare_outbounds lf reg endpoints stages options [] [] (om_fresh m) of
             (Some e, prepared, l, fresh) \<Rightarrow>
               (Inl e, m\<lparr>om_log := om_log m @ l @ map (\<lambda>c. EvClose (cp_id c)) prepared, om_fresh := fresh\<rparr>)
           | (None, prepared, l, fresh) \<Rightarrow> (Inr prepared, m\<lparr>om_log := om_log m @ l, om_fresh := fresh\<rparr>))"

definition outbound_abort :: "component list \<Rightarrow> outbound_manager \<Rightarrow> outbound_manager" where
  "outbound_abort prepared m = m\<lparr>om_log := om_log m @ map (\<lambda>c. EvClose (cp_id c)) prepared\<rparr>"

text \<open>The publication; it also gives the retired outbounds, which are closed by the cleanup.\<close>

text \<open>The first loop of the publication: collect and forget the outbounds of the tags to remove. A tag that is listed
  again yields a nil outbound, which the cleanup skips.\<close>

fun retire_outbounds :: "string list \<Rightarrow> (string, component) gomap \<Rightarrow> component list \<times> (string, component) gomap" where
  "retire_outbounds [] by_tag = ([], by_tag)"
| "retire_outbounds (tag # remove) by_tag =
     (let (retired, rest) = retire_outbounds remove (AList.delete tag by_tag)
      in (case map_of by_tag tag of Some c \<Rightarrow> c # retired | None \<Rightarrow> retired, rest))"

definition outbound_publish :: "component list \<Rightarrow> string list \<Rightarrow> outbound_manager \<Rightarrow> component list \<times> outbound_manager" where
  "outbound_publish prepared remove m =
     (let (retired, by_tag) = retire_outbounds remove (om_by_tag m)
      in (retired, m\<lparr>om_outbounds := filter (\<lambda>c. cp_tag c \<notin> set remove) (om_outbounds m) @ prepared,
            om_by_tag := fold (\<lambda>c. AList.update (cp_tag c) c) prepared by_tag\<rparr>))"

definition outbound_cleanup :: "life \<Rightarrow> component list \<Rightarrow> outbound_manager \<Rightarrow> go_error option \<times> outbound_manager" where
  "outbound_cleanup lf retired m =
     ((case find (\<lambda>c. lf_close lf c \<noteq> None) retired of None \<Rightarrow> None | Some c \<Rightarrow> lf_close lf c),
      m\<lparr>om_log := om_log m @ map (\<lambda>c. EvClose (cp_id c)) retired\<rparr>)"

end
