(* ===== verification/Outbound_Start.thy ===== *)
theory Outbound_Start
  imports Outbound_Manager
begin

text \<open>
  The start of outbounds and endpoints: it succeeds exactly when the dependencies are acyclic and present, and then
  every component is started once and after its dependencies.
\<close>

section \<open>Dependency orders\<close>

text \<open>A list of components in which each is new and depends on what came before.\<close>

fun ordered :: "string set \<Rightarrow> component list \<Rightarrow> bool" where
  "ordered S [] = True"
| "ordered S (c # cs) \<longleftrightarrow> cp_tag c \<notin> S \<and> set (cp_deps c) \<subseteq> S \<and> ordered (insert (cp_tag c) S) cs"

lemma ordered_append: "ordered S (xs @ ys) \<longleftrightarrow> ordered S xs \<and> ordered (S \<union> cp_tag ` set xs) ys"
  by (induction xs arbitrary: S) auto

lemma ordered_distinct: "ordered S cs \<Longrightarrow> distinct (map cp_tag cs) \<and> cp_tag ` set cs \<inter> S = {}"
  by (induction cs arbitrary: S) fastforce+

abbreviation start_event :: "component \<Rightarrow> life_event" where
  "start_event c \<equiv> EvStart (cp_id c) StartStateStart"

lemma start_pass_order:
  "start_pass lf cs started can = (None, st, can', l) \<Longrightarrow>
     \<exists>ord. l = map start_event ord \<and> set ord \<subseteq> set cs \<and> ordered (set started) ord \<and>
       set st = set started \<union> cp_tag ` set ord \<and> length st = length started + length ord"
proof (induction lf cs started can arbitrary: st can' l rule: start_pass.induct)
  case (2 lf c cs started can)
  consider (skip) "start_pass lf cs started can = (None, st, can', l)"
      "cp_tag c \<in> set started \<or> \<not> list_all (\<lambda>d. d \<in> set started) (cp_deps c)"
    | (start) l' where "cp_tag c \<notin> set started" "list_all (\<lambda>d. d \<in> set started) (cp_deps c)" "lf_start lf c StartStateStart = None"
        "start_pass lf cs (cp_tag c # started) True = (None, st, can', l')" "l = start_event c # l'"
    using "2.prems" by (auto split: if_splits option.splits prod.splits)
  then show ?case
  proof cases
    case skip
    then obtain ord where "l = map start_event ord" "set ord \<subseteq> set cs" "ordered (set started) ord"
      "set st = set started \<union> cp_tag ` set ord" "length st = length started + length ord"
      using "2.IH"(1) [OF _ skip(1)] "2.IH"(2) [OF _ _ skip(1)] by blast
    then show ?thesis by (intro exI [of _ ord]) auto
  next
    case start
    then obtain ord where "l' = map start_event ord" "set ord \<subseteq> set cs" "ordered (set (cp_tag c # started)) ord"
      "set st = set (cp_tag c # started) \<union> cp_tag ` set ord" "length st = length (cp_tag c # started) + length ord"
      using "2.IH"(3) [OF _ _ _ start(4)] by blast
    then show ?thesis
      using start by (intro exI [of _ "c # ord"]) (auto simp: list_all_iff)
  qed
qed auto

lemma start_pass_same:
  "start_pass lf cs started can = (None, st, can', l) \<Longrightarrow> set st = set started \<Longrightarrow> st = started"
proof (induction lf cs started can arbitrary: st can' l rule: start_pass.induct)
  case (2 lf c cs started can)
  consider (skip) "start_pass lf cs started can = (None, st, can', l)"
      "cp_tag c \<in> set started \<or> \<not> list_all (\<lambda>d. d \<in> set started) (cp_deps c)"
    | (start) l' where "cp_tag c \<notin> set started" "start_pass lf cs (cp_tag c # started) True = (None, st, can', l')"
    using "2.prems"(1) by (auto split: if_splits option.splits prod.splits)
  then show ?case
  proof cases
    case skip
    then show ?thesis using "2.IH"(1) [OF _ skip(1)] "2.IH"(2) [OF _ _ skip(1)] "2.prems"(2) by blast
  next
    case start
    then show ?thesis using start_pass_started [OF start(2)] "2.prems"(2) by auto
  qed
qed auto

text \<open>A pass without progress leaves only components with an unstarted dependency.\<close>

lemma start_pass_stuck:
  "start_pass lf cs started can = (None, started, can', l) \<Longrightarrow> c \<in> set cs \<Longrightarrow> cp_tag c \<notin> set started \<Longrightarrow>
     \<exists>d \<in> set (cp_deps c). d \<notin> set started"
proof (induction cs arbitrary: can l)
  case (Cons a cs)
  show ?case
  proof (cases "cp_tag a \<in> set started \<or> \<not> list_all (\<lambda>d. d \<in> set started) (cp_deps a)")
    case True
    then show ?thesis using Cons by (auto simp: list_all_iff split: if_splits)
  next
    case False
    then obtain l' where "start_pass lf cs (cp_tag a # started) True = (None, started, can', l')"
      using Cons.prems(1) by (auto split: option.splits prod.splits)
    then have "set (cp_tag a # started) \<subseteq> set started" using start_pass_started by blast
    then show ?thesis using False by simp
  qed
qed simp

lemma startOutbounds_order:
  "startOutbounds lf by_tag outbounds started = (None, l) \<Longrightarrow>
     \<exists>ord. l = map start_event ord \<and> set ord \<subseteq> set outbounds \<and> ordered (set started) ord \<and>
       length started + length ord = length outbounds"
proof (induction lf by_tag outbounds started arbitrary: l rule: startOutbounds.induct)
  case (1 lf by_tag outbounds started)
  obtain e st can l1 where pass: "start_pass lf outbounds started False = (e, st, can, l1)" by (cases "start_pass lf outbounds started False")
  have e: "e = None" using "1.prems" pass by (simp add: startOutbounds.simps split: option.splits)
  obtain ord where ord: "l1 = map start_event ord" "set ord \<subseteq> set outbounds" "ordered (set started) ord"
    "set st = set started \<union> cp_tag ` set ord" "length st = length started + length ord"
    using start_pass_order pass e by blast
  show ?case
  proof (cases "length st = length outbounds")
    case True
    then have "l = l1" using "1.prems" pass e by (simp add: startOutbounds.simps)
    then show ?thesis using ord True by auto
  next
    case False
    then have can: "can" using "1.prems" pass e by (auto simp: startOutbounds.simps split: if_splits option.splits)
    then obtain l2 where rest: "startOutbounds lf by_tag outbounds st = (None, l2)" "l = l1 @ l2"
      using "1.prems" pass e False by (auto simp: startOutbounds.simps [of lf by_tag outbounds started] split: prod.splits)
    obtain ord2 where "l2 = map start_event ord2" "set ord2 \<subseteq> set outbounds" "ordered (set st) ord2"
      "length st + length ord2 = length outbounds"
      using "1.IH" [OF pass [symmetric] e refl refl False can rest(1)] by blast
    then show ?thesis using ord rest(2) by (intro exI [of _ "ord @ ord2"]) (auto simp: ordered_append)
  qed
qed

section \<open>Acyclic dependencies\<close>

text \<open>Every dependency is the tag of a component of smaller rank.\<close>

definition ranked :: "(string \<Rightarrow> nat) \<Rightarrow> component list \<Rightarrow> bool" where
  "ranked rank cs \<longleftrightarrow> (\<forall>c \<in> set cs. \<forall>d \<in> set (cp_deps c). d \<in> cp_tag ` set cs \<and> rank d < rank (cp_tag c))"

lemma ranked_ready:
  assumes rk: "ranked rank cs" and c: "c \<in> set cs" "cp_tag c \<notin> S"
  shows "\<exists>c \<in> set cs. cp_tag c \<notin> S \<and> set (cp_deps c) \<subseteq> S"
proof -
  let ?Q = "\<lambda>a. a \<in> set cs \<and> cp_tag a \<notin> S"
  obtain a where a: "a \<in> set cs" "cp_tag a \<notin> S" and min: "\<And>b. ?Q b \<Longrightarrow> rank (cp_tag a) \<le> rank (cp_tag b)"
    using arg_min_nat_lemma [of ?Q c "\<lambda>a. rank (cp_tag a)"] c by blast
  have "d \<in> S" if "d \<in> set (cp_deps a)" for d
  proof (rule ccontr)
    assume "d \<notin> S"
    have "d \<in> cp_tag ` set cs" and lt: "rank d < rank (cp_tag a)" using rk a(1) that by (simp_all add: ranked_def)
    then obtain b where "b \<in> set cs" "cp_tag b = d" by auto
    then show False using min [of b] lt \<open>d \<notin> S\<close> by simp
  qed
  then show ?thesis using a by blast
qed

lemma start_pass_no_error: "(\<And>c s. lf_start lf c s = None) \<Longrightarrow> fst (start_pass lf cs started can) = None"
  by (induction lf cs started can rule: start_pass.induct) (auto split: prod.splits)

lemma startOutbounds_ranked:
  assumes ok: "\<And>c s. lf_start lf c s = None" and rk: "ranked rank outbounds" and d: "distinct (map cp_tag outbounds)"
  shows "distinct started \<Longrightarrow> set started \<subseteq> cp_tag ` set outbounds \<Longrightarrow> fst (startOutbounds lf by_tag outbounds started) = None"
proof (induction "card (cp_tag ` set outbounds - set started)" arbitrary: started rule: less_induct)
  case less
  obtain e st can l where pass: "start_pass lf outbounds started False = (e, st, can, l)" by (cases "start_pass lf outbounds started False")
  have e: "e = None" using start_pass_no_error [OF ok, of outbounds started False] by (simp add: pass)
  note pass = pass [unfolded e]
  obtain ord where ord: "ordered (set started) ord" "set st = set started \<union> cp_tag ` set ord" "length st = length started + length ord"
    "set ord \<subseteq> set outbounds" using start_pass_order [OF pass] by blast
  have "card (set st) = length st"
    using ord(2,3) ordered_distinct [OF ord(1)] less.prems(1) distinct_card [of "map cp_tag ord"] distinct_card [of started]
    by (simp add: card_Un_disjoint Int_commute)
  then have dst: "distinct st" by (rule card_distinct)
  have sub: "set st \<subseteq> cp_tag ` set outbounds" using ord(2,4) less.prems(2) by auto
  show ?case
  proof (cases "length st = length outbounds")
    case True
    then show ?thesis by (simp add: startOutbounds.simps [of lf by_tag outbounds started] pass)
  next
    case len: False
    have "card (cp_tag ` set outbounds) = length outbounds" using distinct_card [OF d] by simp
    then have "set st \<noteq> cp_tag ` set outbounds" using dst len distinct_card [OF dst] by auto
    then obtain c where c: "c \<in> set outbounds" "cp_tag c \<notin> set st" using sub by auto
    have "set st \<noteq> set started"
    proof
      assume eq: "set st = set started"
      then have "ord = []" using ord(1,2) ordered_distinct [OF ord(1)] by (cases ord) auto
      then have "length st = length started" using ord(3) by simp
      have "st = started" using start_pass_same [OF pass eq] .
      then show False using ranked_ready [OF rk c] start_pass_stuck [of lf outbounds started False can l] pass by (metis subsetD)
    qed
    then have can: "can = True" using start_pass_started [OF pass] by simp
    then show ?thesis
      using less.hyps [OF start_pass_progress [OF pass [unfolded can]] dst sub] len
      by (simp add: startOutbounds.simps [of lf by_tag outbounds started] pass split_beta)
  qed
qed

lemma ordered_ranked:
  assumes "ordered {} cs" shows "\<exists>rank. ranked rank cs"
proof -
  have "\<exists>rank. (\<forall>c \<in> set cs. \<forall>d \<in> set (cp_deps c). d \<in> cp_tag ` set cs \<and> rank d < rank (cp_tag c)) \<and>
      (\<forall>c \<in> set cs. rank (cp_tag c) < length cs)" using assms
  proof (induction cs rule: rev_induct)
    case (snoc c cs)
    then obtain rank where r: "\<forall>c \<in> set cs. \<forall>d \<in> set (cp_deps c). d \<in> cp_tag ` set cs \<and> rank d < rank (cp_tag c)"
      "\<forall>c \<in> set cs. rank (cp_tag c) < length cs" by (auto simp: ordered_append)
    have new: "cp_tag c \<notin> cp_tag ` set cs" "set (cp_deps c) \<subseteq> cp_tag ` set cs" using snoc.prems by (auto simp: ordered_append)
    let ?r = "rank(cp_tag c := length cs)"
    have same: "d \<in> cp_tag ` set cs \<Longrightarrow> ?r d = rank d" for d using new(1) by (metis fun_upd_other)
    have "?r d < ?r (cp_tag a) \<and> d \<in> cp_tag ` set (cs @ [c])" if a: "a \<in> set (cs @ [c])" and d: "d \<in> set (cp_deps a)" for a d
    proof (cases "a = c")
      case True
      then have mem: "d \<in> cp_tag ` set cs" using new(2) d by blast
      then obtain b where "b \<in> set cs" "d = cp_tag b" by blast
      then have "rank d < length cs" using r(2) by blast
      then show ?thesis using True mem same [OF mem] by simp
    next
      case False
      then have ac: "a \<in> set cs" using a by simp
      then have mem: "d \<in> cp_tag ` set cs" and lt: "rank d < rank (cp_tag a)" using r(1) d by blast+
      show ?thesis using mem lt same [OF mem] same [of "cp_tag a"] ac by auto
    qed
    moreover have "?r (cp_tag a) < length (cs @ [c])" if "a \<in> set (cs @ [c])" for a
      using that r(2) by (auto simp: less_Suc_eq)
    ultimately show ?case by blast
  qed simp
  then show ?thesis unfolding ranked_def by blast
qed

lemma startOutbounds_complete_order:
  assumes d: "distinct (map cp_tag outbounds)" and r: "startOutbounds lf by_tag outbounds [] = (None, l)"
  shows "\<exists>ord. l = map start_event ord \<and> set ord = set outbounds \<and> ordered {} ord"
proof -
  obtain ord where ord: "l = map start_event ord" "set ord \<subseteq> set outbounds" "ordered {} ord" "length ord = length outbounds"
    using startOutbounds_order [OF r] by auto
  have "card (set ord) = card (set outbounds)"
    using ordered_distinct [OF ord(3)] d ord(4) by (simp add: distinct_map distinct_card)
  then have "set ord = set outbounds" using ord(2) by (simp add: card_subset_eq)
  then show ?thesis using ord by blast
qed

lemma ranked_perm: "set xs = set ys \<Longrightarrow> ranked rank xs = ranked rank ys"
  by (simp add: ranked_def)

text \<open>C36: The start of outbounds and endpoints. With distinct tags the start ends without an error exactly when the dependencies are
  acyclic and all present and no component fails to start, and then every component was started exactly once, after
  all components it depends on.\<close>

theorem start_outbounds_acyclic:
  assumes d: "distinct (map cp_tag outbounds)" and ok: "\<And>c s. lf_start lf c s = None"
  shows "(\<exists>rank. ranked rank outbounds) \<longleftrightarrow>
    (\<exists>ord. startOutbounds lf by_tag outbounds [] = (None, map start_event ord) \<and> set ord = set outbounds \<and> ordered {} ord)"
proof
  assume "\<exists>rank. ranked rank outbounds"
  then obtain rank where rk: "ranked rank outbounds" by blast
  obtain l where "startOutbounds lf by_tag outbounds [] = (None, l)"
    using startOutbounds_ranked [OF ok rk d, of "[]" by_tag] by (cases "startOutbounds lf by_tag outbounds []") auto
  then show "\<exists>ord. startOutbounds lf by_tag outbounds [] = (None, map start_event ord) \<and> set ord = set outbounds \<and> ordered {} ord"
    using startOutbounds_complete_order [OF d] by blast
next
  assume "\<exists>ord. startOutbounds lf by_tag outbounds [] = (None, map start_event ord) \<and> set ord = set outbounds \<and> ordered {} ord"
  then obtain ord where "set ord = set outbounds" "ordered {} ord" by blast
  then show "\<exists>rank. ranked rank outbounds" using ordered_ranked ranked_perm by blast
qed

definition demo_chain :: "component list" where
  "demo_chain = [\<lparr>cp_id = 0, cp_type = ''selector'', cp_tag = ''s'', cp_deps = [''d'']\<rparr>,
     \<lparr>cp_id = 1, cp_type = ''direct'', cp_tag = ''d'', cp_deps = []\<rparr>]"

theorem start_outbounds_acyclic_witness:
  "\<exists>ord. startOutbounds demo_life [] demo_chain [] = (None, map start_event ord) \<and> set ord = set demo_chain \<and> ordered {} ord"
proof -
  have "ranked (\<lambda>t. if t = ''d'' then 0 else 1) demo_chain" by (simp add: ranked_def demo_chain_def)
  moreover have "distinct (map cp_tag demo_chain)" by (simp add: demo_chain_def)
  ultimately show ?thesis
    using start_outbounds_acyclic [of demo_chain demo_life "[]"] by (auto simp: demo_life_def)
qed

end
