(* ===== verification/Outbound_Update.thy ===== *)
theory Outbound_Update
  imports Outbound_Manager
begin

text \<open>
  The index of the outbound manager and the update of user outbounds: creations, removals and publications keep the
  list and the index in step, a publication never touches the default outbound, and a failed preparation leaves
  nothing behind. Two theorems show where removals and replacements treat dependencies wrongly.
\<close>

section \<open>Invariant\<close>

definition om_wf :: "outbound_manager \<Rightarrow> bool" where
  "om_wf m \<longleftrightarrow> distinct (map cp_id (om_outbounds m)) \<and> (\<forall>c \<in> set (om_outbounds m). cp_id c < om_fresh m) \<and> gomap_wf (om_by_tag m) \<and>
     (\<forall>t c. map_of (om_by_tag m) t = Some c \<longleftrightarrow> c \<in> set (om_outbounds m) \<and> cp_tag c = t)"

lemma om_wf_tag_unique: "om_wf m \<Longrightarrow> c \<in> set (om_outbounds m) \<Longrightarrow> d \<in> set (om_outbounds m) \<Longrightarrow> cp_tag c = cp_tag d \<Longrightarrow> c = d"
  unfolding om_wf_def by (metis option.inject)

lemma om_wf_index:
  assumes "om_wf m" "map_of (om_by_tag m) t = Some c"
  shows "\<exists>rest. remove_object (cp_id c) (om_outbounds m) = Some rest \<and> set rest = set (om_outbounds m) - {c} \<and> distinct (map cp_id rest) \<and> cp_tag c = t"
  using assms remove_object_Some [of c "om_outbounds m"] by (auto simp: om_wf_def)

lemma NewOutboundManager_wf: "om_wf (NewOutboundManager t)"
  by (simp add: om_wf_def NewOutboundManager_def)

lemma om_wf_removed:
  assumes wf: "om_wf m" and c: "map_of (om_by_tag m) tag = Some c" "remove_object (cp_id c) (om_outbounds m) = Some rest"
    and m': "om_outbounds m' = rest" "om_by_tag m' = AList.delete tag (om_by_tag m)" "om_fresh m' = om_fresh m"
  shows "om_wf m'"
proof -
  have rest: "set rest = set (om_outbounds m) - {c}" "distinct (map cp_id rest)" "cp_tag c = tag" "c \<in> set (om_outbounds m)"
    using om_wf_index [OF wf c(1)] c wf by (auto simp: om_wf_def)
  have "map_of (om_by_tag m') t = Some d \<longleftrightarrow> d \<in> set (om_outbounds m') \<and> cp_tag d = t" for t d
    using wf rest om_wf_tag_unique [OF wf, of d c] unfolding m' om_wf_def by auto
  then show ?thesis using wf rest by (simp add: om_wf_def m')
qed

lemma om_wf_installed:
  assumes wf: "om_wf m" and cs: "set cs = {d \<in> set (om_outbounds m). cp_tag d \<noteq> tag}" "distinct (map cp_id cs)"
    and c: "cp_tag c = tag" "cp_id c < om_fresh m'" "cp_id c \<notin> cp_id ` set (om_outbounds m)" "om_fresh m \<le> om_fresh m'"
    and m': "om_outbounds m' = cs @ [c]" "om_by_tag m' = AList.update tag c (om_by_tag m)"
  shows "om_wf m'"
proof -
  have "map_of (om_by_tag m') t = Some d \<longleftrightarrow> d \<in> set (om_outbounds m') \<and> cp_tag d = t" for t d
    using wf cs(1) c(1) unfolding m' om_wf_def by auto
  moreover have "\<forall>d \<in> set cs. cp_id d < om_fresh m'" using wf cs(1) c(4) by (auto simp: om_wf_def intro: less_le_trans)
  moreover have "cp_id c \<notin> cp_id ` set cs" using c(3) cs(1) by auto
  ultimately show ?thesis using wf cs(2) c(2) by (simp add: om_wf_def m')
qed

lemma outbound_Remove_wf:
  assumes wf: "om_wf m" shows "om_wf (snd (outbound_Remove lf tag m))"
proof (cases "map_of (om_by_tag m) tag")
  case (Some c)
  then obtain rest where rest: "remove_object (cp_id c) (om_outbounds m) = Some rest" using om_wf_index [OF wf Some] by blast
  show ?thesis by (rule om_wf_removed [OF wf Some rest]) (simp_all add: outbound_Remove_def Some rest Let_def)
qed (use wf in \<open>simp add: outbound_Remove_def\<close>)

lemma outbound_replace_wf:
  assumes wf: "om_wf m" and c: "cp_tag c = tag" "cp_id c < om_fresh m" "cp_id c \<notin> cp_id ` set (om_outbounds m)"
  shows "om_wf (snd (outbound_replace lf tag c m))"
proof (cases "map_of (om_by_tag m) tag")
  case None
  then have "d \<in> set (om_outbounds m) \<Longrightarrow> cp_tag d \<noteq> tag" for d
    using wf unfolding om_wf_def by (metis option.distinct(1))
  then have "set (om_outbounds m) = {d \<in> set (om_outbounds m). cp_tag d \<noteq> tag}" by blast
  then show ?thesis
    using wf c None by (intro om_wf_installed [OF wf, of "om_outbounds m" tag c])
      (simp_all add: outbound_replace_def outbound_install_def om_wf_def)
next
  case (Some old)
  obtain rest where rest: "remove_object (cp_id old) (om_outbounds m) = Some rest" "set rest = set (om_outbounds m) - {old}"
    "distinct (map cp_id rest)" "cp_tag old = tag" using om_wf_index [OF wf Some] by blast
  have old: "old \<in> set (om_outbounds m)" using wf Some by (simp add: om_wf_def)
  have same: "om_wf (m\<lparr>om_log := l\<rparr>)" for l using wf by (simp add: om_wf_def)
  have cs: "set rest = {d \<in> set (om_outbounds m). cp_tag d \<noteq> tag}"
    using rest(2,4) om_wf_tag_unique [OF wf _ old] by auto
  show ?thesis
  proof (cases "(if om_started m then lf_close lf old else None)")
    case None
    then show ?thesis
      using c Some rest(1) by (intro om_wf_installed [OF wf cs rest(3) c(1)])
        (simp_all add: outbound_replace_def outbound_install_def Let_def)
  next
    case (Some e)
    then show ?thesis using same wf \<open>map_of (om_by_tag m) tag = Some old\<close> by (simp add: outbound_replace_def Let_def)
  qed
qed

lemma outbound_Create_wf:
  assumes wf: "om_wf m" shows "om_wf (snd (outbound_Create lf reg tag type options m))"
proof (cases "tag = [] \<or> (\<exists>e. registry_create reg tag type options (om_fresh m) = Inl e)")
  case True
  then show ?thesis using wf by (auto simp: outbound_Create_def)
next
  case False
  then obtain c where c: "registry_create reg tag type options (om_fresh m) = Inr c" and tag: "tag \<noteq> []"
    by (cases "registry_create reg tag type options (om_fresh m)") auto
  then have new: "cp_id c = om_fresh m" "cp_tag c = tag" by (auto simp: registry_create_def rbind_eq_Inr_iff split: option.splits)
  have wf0: "om_wf (m\<lparr>om_fresh := Suc (om_fresh m), om_log := l\<rparr>)" for l using wf by (auto simp: om_wf_def)
  have fresh: "om_fresh m \<notin> cp_id ` set (om_outbounds m)" using wf by (auto simp: om_wf_def)
  have rep: "om_wf (snd (outbound_replace lf tag c (m\<lparr>om_fresh := Suc (om_fresh m), om_log := l\<rparr>)))" for l
    by (rule outbound_replace_wf [OF wf0]) (simp_all add: new fresh)
  from rep [of "om_log m"] have rep0: "om_wf (snd (outbound_replace lf tag c (m\<lparr>om_fresh := Suc (om_fresh m)\<rparr>)))" by simp
  show ?thesis
    using tag c rep rep0 wf0 by (simp add: outbound_Create_def Let_def split: prod.split option.split)
qed

section \<open>Preparation\<close>

lemma prepare_outbounds_ok:
  "prepare_outbounds lf reg endpoints stages os prepared l fresh = (None, prepared', l', fresh') \<Longrightarrow>
     fresh \<le> fresh' \<and> (\<exists>N. prepared' = prepared @ N \<and> map cp_tag N = map oo_tag os \<and> map cp_type N = map oo_type os \<and>
       distinct (map cp_id N) \<and> (\<forall>c \<in> set N. fresh \<le> cp_id c \<and> cp_id c < fresh' \<and> cp_deps c = [] \<and> cp_type c \<in> {''direct'', ''socks''} \<and>
         manager_Get (cp_tag c) endpoints = None))"
proof (induction lf reg endpoints stages os prepared l fresh rule: prepare_outbounds.induct)
  case (2 lf reg endpoints stages o1 os prepared l fresh)
  obtain c where c: "registry_create reg (oo_tag o1) (oo_type o1) (oo_options o1) fresh = Inr c" and deps: "cp_deps c = []"
    and ty: "oo_type o1 \<in> {''direct'', ''socks''}" and ep: "manager_Get (oo_tag o1) endpoints = None"
    using "2.prems" by (auto split: if_splits sum.splits)
  obtain l1 where st: "start_until lf c stages = (None, l1)"
    using "2.prems" c deps ty ep by (auto split: prod.splits option.splits)
  have run: "prepare_outbounds lf reg endpoints stages os (prepared @ [c]) (l @ l1) (Suc fresh) = (None, prepared', l', fresh')"
    using "2.prems" c deps ty ep st by auto
  have c': "cp_id c = fresh" "cp_tag c = oo_tag o1" "cp_type c = oo_type o1"
    using c by (auto simp: registry_create_def rbind_eq_Inr_iff split: option.splits)
  have IH: "Suc fresh \<le> fresh' \<and> (\<exists>N. prepared' = (prepared @ [c]) @ N \<and> map cp_tag N = map oo_tag os \<and> map cp_type N = map oo_type os \<and>
       distinct (map cp_id N) \<and> (\<forall>c \<in> set N. Suc fresh \<le> cp_id c \<and> cp_id c < fresh' \<and> cp_deps c = [] \<and> cp_type c \<in> {''direct'', ''socks''} \<and>
         manager_Get (cp_tag c) endpoints = None))"
    using ty ep deps by (intro "2.IH" [OF _ _ c _ st [symmetric] refl run]) auto
  then obtain N where "prepared' = (prepared @ [c]) @ N" "map cp_tag N = map oo_tag os" "map cp_type N = map oo_type os"
    "distinct (map cp_id N)" "\<forall>c \<in> set N. Suc fresh \<le> cp_id c \<and> cp_id c < fresh' \<and> cp_deps c = [] \<and> cp_type c \<in> {''direct'', ''socks''} \<and>
         manager_Get (cp_tag c) endpoints = None" by blast
  moreover have "Suc fresh \<le> fresh'" using IH by blast
  ultimately show ?case using c' deps ty ep by (intro conjI exI [of _ "c # N"]) force+
qed auto

text \<open>A component that was started during a preparation is among the prepared ones.\<close>

lemma start_until_log: "start_until lf c stages = (e, l) \<Longrightarrow> set l \<subseteq> range (EvStart (cp_id c))"
  by (induction stages arbitrary: e l) (auto split: option.splits prod.splits)

lemma prepare_outbounds_log:
  assumes "prepare_outbounds lf reg endpoints stages os prepared l fresh = (e, prepared', l', fresh')"
    and "\<forall>i s. EvStart i s \<in> set l \<longrightarrow> i \<in> cp_id ` set prepared"
  shows "\<forall>i s. EvStart i s \<in> set l' \<longrightarrow> i \<in> cp_id ` set prepared'"
  using assms
proof (induction lf reg endpoints stages os prepared l fresh rule: prepare_outbounds.induct)
  case (2 lf reg endpoints stages o1 os prepared l fresh)
  show ?case
  proof (cases "oo_type o1 \<noteq> ''direct'' \<and> oo_type o1 \<noteq> ''socks'' \<or> manager_Get (oo_tag o1) endpoints \<noteq> None \<or>
      (\<exists>e. registry_create reg (oo_tag o1) (oo_type o1) (oo_options o1) fresh = Inl e)")
    case True
    then have "l' = l \<and> prepared' = prepared" using "2.prems"(1) by (auto split: if_splits)
    then show ?thesis using "2.prems"(2) by simp
  next
    case False
    then obtain c where c: "registry_create reg (oo_tag o1) (oo_type o1) (oo_options o1) fresh = Inr c"
      by (cases "registry_create reg (oo_tag o1) (oo_type o1) (oo_options o1) fresh") auto
    obtain r l1 where st: "start_until lf c stages = (r, l1)" by (cases "start_until lf c stages")
    have log: "\<forall>i s. EvStart i s \<in> set (l @ l1) \<longrightarrow> i \<in> cp_id ` set (prepared @ [c])"
      using "2.prems"(2) start_until_log [OF st] by auto
    show ?thesis
    proof (cases "cp_deps c = [] \<and> r = None")
      case True
      then have run: "prepare_outbounds lf reg endpoints stages os (prepared @ [c]) (l @ l1) (Suc fresh) = (e, prepared', l', fresh')"
        using "2.prems"(1) False c st by auto
      show ?thesis using False True by (intro "2.IH" [OF _ _ c _ st [symmetric] _ run log]) auto
    next
      case stop: False
      then have p: "prepared' = prepared @ [c]" and "l' = l \<or> l' = l @ l1"
        using "2.prems"(1) False c st by (auto split: if_splits)
      then have "set l' \<subseteq> set (l @ l1)" by auto
      then show ?thesis using log unfolding p by blast
    qed
  qed
qed auto

text \<open>A rejected update of user outbounds leaves nothing behind. When the preparation fails, the list, the index, the dependents and
  the default outbound are as before, and every component that was started for the update has been closed.\<close>

theorem outbound_update_failed:
  assumes "outbound_PrepareUserUpdate lf reg endpoints options remove m = (Inl e, m')"
  shows "om_outbounds m' = om_outbounds m \<and> om_by_tag m' = om_by_tag m \<and> om_depend_by m' = om_depend_by m \<and> om_default m' = om_default m \<and>
    (\<exists>l. om_log m' = om_log m @ l \<and> (\<forall>i s. EvStart i s \<in> set l \<longrightarrow> EvClose i \<in> set l))"
proof (cases "list_all (removable m) remove")
  case False
  then show ?thesis using assms by (auto simp: outbound_PrepareUserUpdate_def)
next
  case True
  define stages where "stages = (if om_started m then takeWhile (\<lambda>s. s \<le> om_stage m) ListStartStages else [])"
  obtain prepared l fresh where p: "prepare_outbounds lf reg endpoints stages options [] [] (om_fresh m) = (Some e, prepared, l, fresh)"
    and m': "m' = m\<lparr>om_log := om_log m @ l @ map (\<lambda>c. EvClose (cp_id c)) prepared, om_fresh := fresh\<rparr>"
    using assms True by (auto simp: outbound_PrepareUserUpdate_def Let_def stages_def [symmetric] split: prod.splits option.splits)
  have "\<forall>i s. EvStart i s \<in> set l \<longrightarrow> i \<in> cp_id ` set prepared" using prepare_outbounds_log [OF p] by simp
  then show ?thesis by (intro conjI exI [of _ "l @ map (\<lambda>c. EvClose (cp_id c)) prepared"]) (auto simp: m')
qed

theorem outbound_update_failed_witness:
  "om_outbounds (snd (outbound_PrepareUserUpdate demo_life demo_registry NewTagManager
      [\<lparr>oo_type = ''vmess'', oo_tag = ''u'', oo_options = ''{}''\<rparr>] [] (NewOutboundManager []))) = []"
proof -
  let ?m = "outbound_PrepareUserUpdate demo_life demo_registry NewTagManager [\<lparr>oo_type = ''vmess'', oo_tag = ''u'', oo_options = ''{}''\<rparr>] [] (NewOutboundManager [])"
  have "?m = (Inl (ENew ''unsupported user outbound type''), snd ?m)"
    by (simp add: outbound_PrepareUserUpdate_def Let_def)
  from outbound_update_failed [OF this] show ?thesis by (simp add: NewOutboundManager_def)
qed

section \<open>Publication\<close>

lemma map_of_fold_delete: "map_of (fold AList.delete ts m) t = (if t \<in> set ts then None else map_of m t)"
  by (induction ts arbitrary: m) auto

lemma gomap_wf_fold_delete: "gomap_wf m \<Longrightarrow> gomap_wf (fold AList.delete ts m)"
  by (induction ts arbitrary: m) auto

lemma gomap_wf_fold_update: "gomap_wf m \<Longrightarrow> gomap_wf (fold (\<lambda>c. AList.update (cp_tag c) c) cs m)"
  by (induction cs arbitrary: m) auto

lemma map_of_fold_update:
  "distinct (map cp_tag cs) \<Longrightarrow> map_of (fold (\<lambda>c. AList.update (cp_tag c) c) cs m) t =
     (case find (\<lambda>c. cp_tag c = t) cs of Some c \<Rightarrow> Some c | None \<Rightarrow> map_of m t)"
proof (induction cs arbitrary: m)
  case (Cons c cs)
  have "find (\<lambda>d. cp_tag d = cp_tag c) cs = None" using Cons.prems by (simp add: find_None_iff) (metis image_eqI)
  then show ?case using Cons by (auto split: option.split)
qed simp

lemma retire_outbounds_index: "snd (retire_outbounds remove by_tag) = fold AList.delete remove by_tag"
  by (induction remove arbitrary: by_tag) (simp_all add: split_beta)

lemma set_retire_outbounds:
  "set (fst (retire_outbounds remove by_tag)) = {c. \<exists>t \<in> set remove. map_of by_tag t = Some c}"
proof (induction remove arbitrary: by_tag)
  case (Cons t remove)
  have "set (fst (retire_outbounds (t # remove) by_tag)) =
      {c. map_of by_tag t = Some c} \<union> set (fst (retire_outbounds remove (AList.delete t by_tag)))"
    by (auto simp: split_beta split: option.splits)
  also have "\<dots> = {c. \<exists>u \<in> set (t # remove). map_of by_tag u = Some c}" unfolding Cons by (auto split: if_splits)
  finally show ?case .
qed simp

lemma find_tag_iff: "distinct (map cp_tag cs) \<Longrightarrow> find (\<lambda>c. cp_tag c = t) cs = Some c \<longleftrightarrow> c \<in> set cs \<and> cp_tag c = t"
  by (induction cs) (auto simp: image_iff)

lemma find_tag_None: "find (\<lambda>c. cp_tag c = t) cs = None \<longleftrightarrow> t \<notin> cp_tag ` set cs"
  by (auto simp: find_None_iff)

text \<open>The list and the index after a publication.\<close>

definition republished :: "component list \<Rightarrow> string list \<Rightarrow> outbound_manager \<Rightarrow> outbound_manager \<Rightarrow> bool" where
  "republished prepared remove m m2 \<longleftrightarrow>
     om_outbounds m2 = filter (\<lambda>c. cp_tag c \<notin> set remove) (om_outbounds m) @ prepared \<and>
     om_by_tag m2 = fold (\<lambda>c. AList.update (cp_tag c) c) prepared (fold AList.delete remove (om_by_tag m))"

lemma republished_lookup:
  assumes "republished prepared remove m m2" "distinct (map cp_tag prepared)"
  shows "map_of (om_by_tag m2) t = (if t \<in> cp_tag ` set prepared then find (\<lambda>c. cp_tag c = t) prepared
      else if t \<in> set remove then None else map_of (om_by_tag m) t)"
  using assms find_tag_None [of t prepared]
  by (auto simp: republished_def map_of_fold_update map_of_fold_delete split: option.split)

lemma republished_index:
  assumes pub: "republished prepared remove m m2" and dt: "distinct (map cp_tag prepared)" and wf: "om_wf m"
    and free: "\<And>d. d \<in> set (om_outbounds m) \<Longrightarrow> cp_tag d \<notin> set remove \<Longrightarrow> cp_tag d \<notin> cp_tag ` set prepared"
  shows "map_of (om_by_tag m2) t = Some d \<longleftrightarrow> d \<in> set (om_outbounds m2) \<and> cp_tag d = t"
proof -
  have obs: "set (om_outbounds m2) = {d \<in> set (om_outbounds m). cp_tag d \<notin> set remove} \<union> set prepared"
    using pub by (auto simp: republished_def)
  have ix: "map_of (om_by_tag m) t = Some d \<longleftrightarrow> d \<in> set (om_outbounds m) \<and> cp_tag d = t" using wf by (simp add: om_wf_def)
  show ?thesis
  proof (cases "t \<in> cp_tag ` set prepared")
    case True
    then have "map_of (om_by_tag m2) t = Some d \<longleftrightarrow> d \<in> set prepared \<and> cp_tag d = t"
      using find_tag_iff [OF dt, of t d] by (simp add: republished_lookup [OF pub dt])
    moreover have "d \<in> set (om_outbounds m) \<Longrightarrow> cp_tag d \<notin> set remove \<Longrightarrow> cp_tag d \<noteq> t" using free True by blast
    ultimately show ?thesis unfolding obs by blast
  next
    case False
    then show ?thesis using ix unfolding obs by (auto simp: republished_lookup [OF pub dt])
  qed
qed

lemma republished_wf:
  assumes pub: "republished prepared remove m m2" and dt: "distinct (map cp_tag prepared)" and wf: "om_wf m"
    and free: "\<And>d. d \<in> set (om_outbounds m) \<Longrightarrow> cp_tag d \<notin> set remove \<Longrightarrow> cp_tag d \<notin> cp_tag ` set prepared"
    and ids: "distinct (map cp_id prepared)" "\<forall>c \<in> set prepared. om_fresh m \<le> cp_id c \<and> cp_id c < om_fresh m2" "om_fresh m \<le> om_fresh m2"
  shows "om_wf m2"
proof -
  have obs: "om_outbounds m2 = filter (\<lambda>c. cp_tag c \<notin> set remove) (om_outbounds m) @ prepared" using pub by (simp add: republished_def)
  have old: "c \<in> set (om_outbounds m) \<Longrightarrow> cp_id c < om_fresh m" for c using wf by (simp add: om_wf_def)
  have "cp_id ` {c \<in> set (om_outbounds m). cp_tag c \<notin> set remove} \<inter> cp_id ` set prepared = {}"
    using old ids(2) by fastforce
  then have "distinct (map cp_id (om_outbounds m2))"
    using wf ids(1) by (simp add: obs om_wf_def distinct_map_filter)
  moreover have "\<forall>c \<in> set (om_outbounds m2). cp_id c < om_fresh m2"
    using old ids(2,3) by (auto simp: obs intro: less_le_trans)
  moreover have "gomap_wf (om_by_tag m2)"
    using wf pub by (auto simp: republished_def om_wf_def intro: gomap_wf_fold_update gomap_wf_fold_delete)
  ultimately show ?thesis using republished_index [OF pub dt wf free] by (simp add: om_wf_def)
qed

lemma prepare_accepted:
  assumes "outbound_PrepareUserUpdate lf reg endpoints options remove m = (Inr prepared, m1)"
  obtains l fresh where "m1 = m\<lparr>om_log := om_log m @ l, om_fresh := fresh\<rparr>" "om_fresh m \<le> fresh" "map cp_tag prepared = map oo_tag options"
    "distinct (map cp_id prepared)" "\<forall>c \<in> set prepared. om_fresh m \<le> cp_id c \<and> cp_id c < fresh" "list_all (removable m) remove"
proof -
  define stages where "stages = (if om_started m then takeWhile (\<lambda>s. s \<le> om_stage m) ListStartStages else [])"
  have rem: "list_all (removable m) remove"
    using assms by (auto simp: outbound_PrepareUserUpdate_def split: if_splits)
  obtain l fresh where p: "prepare_outbounds lf reg endpoints stages options [] [] (om_fresh m) = (None, prepared, l, fresh)"
    and m1: "m1 = m\<lparr>om_log := om_log m @ l, om_fresh := fresh\<rparr>"
    using assms rem by (auto simp: outbound_PrepareUserUpdate_def Let_def stages_def [symmetric] split: prod.splits option.splits)
  show ?thesis using prepare_outbounds_ok [OF p] by (intro that [OF m1 _ _ _ _ rem]) auto
qed

lemma update_republished:
  assumes wf: "om_wf m" and prep: "outbound_PrepareUserUpdate lf reg endpoints options remove m = (Inr prepared, m1)"
    and tags: "distinct (map oo_tag options)" "\<forall>x \<in> set options. oo_tag x \<in> set remove \<or> map_of (om_by_tag m) (oo_tag x) = None"
    and pub: "outbound_publish prepared remove m1 = (retired, m2)"
  shows "republished prepared remove m m2" "om_wf m2" "distinct (map cp_tag prepared)" "cp_tag ` set prepared = oo_tag ` set options"
    "om_default m2 = om_default m" "retired = fst (retire_outbounds remove (om_by_tag m))"
proof -
  obtain l fresh where m1: "m1 = m\<lparr>om_log := om_log m @ l, om_fresh := fresh\<rparr>" and new: "om_fresh m \<le> fresh"
    "map cp_tag prepared = map oo_tag options" "distinct (map cp_id prepared)" "\<forall>c \<in> set prepared. om_fresh m \<le> cp_id c \<and> cp_id c < fresh"
    using prep by (rule prepare_accepted)
  show dt: "distinct (map cp_tag prepared)" using tags(1) new(2) by simp
  show tagset: "cp_tag ` set prepared = oo_tag ` set options" using new(2) by (metis list.set_map)
  show p: "republished prepared remove m m2" and "retired = fst (retire_outbounds remove (om_by_tag m))" and "om_default m2 = om_default m"
    using pub by (auto simp: outbound_publish_def m1 republished_def split_beta retire_outbounds_index)
  have fresh: "om_fresh m2 = fresh" using pub by (auto simp: outbound_publish_def m1 split_beta)
  have ix: "map_of (om_by_tag m) t = Some c \<longleftrightarrow> c \<in> set (om_outbounds m) \<and> cp_tag c = t" for t c using wf by (simp add: om_wf_def)
  have free: "d \<in> set (om_outbounds m) \<Longrightarrow> cp_tag d \<notin> set remove \<Longrightarrow> cp_tag d \<notin> cp_tag ` set prepared" for d
    using tags(2) ix [of "cp_tag d" d] unfolding tagset by auto
  show "om_wf m2" using new fresh by (intro republished_wf [OF p dt wf free]) auto
qed

text \<open>C19: Publication of user outbounds. When a preparation was accepted and every new outbound has a tag of its own that is free or being
  replaced, the publication keeps list and index in step; each configured tag now means its new outbound, each
  removed one none, and every other tag, with the default outbound, what it meant before; exactly the outbounds
  that were replaced or removed are handed to the cleanup, and none of them is reachable any more.\<close>

theorem outbound_update_published:
  assumes wf: "om_wf m" and prep: "outbound_PrepareUserUpdate lf reg endpoints options remove m = (Inr prepared, m1)"
    and tags: "distinct (map oo_tag options)" "\<forall>x \<in> set options. oo_tag x \<in> set remove \<or> map_of (om_by_tag m) (oo_tag x) = None"
    and pub: "outbound_publish prepared remove m1 = (retired, m2)"
  shows "om_wf m2 \<and> map cp_tag prepared = map oo_tag options \<and>
    map_of (om_by_tag m2) t = (if t \<in> oo_tag ` set options then find (\<lambda>c. cp_tag c = t) prepared
      else if t \<in> set remove then None else map_of (om_by_tag m) t) \<and>
    om_default m2 = om_default m \<and> (om_default m = Some c \<longrightarrow> c \<in> set (om_outbounds m) \<longrightarrow> c \<in> set (om_outbounds m2)) \<and>
    set retired = {c \<in> set (om_outbounds m). cp_tag c \<in> set remove} \<and> set retired \<inter> set (om_outbounds m2) = {}"
proof -
  have new: "map cp_tag prepared = map oo_tag options" "\<forall>c \<in> set prepared. om_fresh m \<le> cp_id c" and rem: "list_all (removable m) remove"
    using prep by (rule prepare_accepted, auto)+
  note up = update_republished [OF assms]
  have ix: "map_of (om_by_tag m) t = Some c \<longleftrightarrow> c \<in> set (om_outbounds m) \<and> cp_tag c = t" for t c using wf by (simp add: om_wf_def)
  have obs: "set (om_outbounds m2) = {c \<in> set (om_outbounds m). cp_tag c \<notin> set remove} \<union> set prepared"
    using up(1) by (auto simp: republished_def)
  have "c \<in> set (om_outbounds m2)" if "om_default m = Some c" "c \<in> set (om_outbounds m)"
    using rem that ix [of "cp_tag c" c] by (auto simp: obs list_all_iff removable_def split: option.splits)
  moreover have retset: "set retired = {c \<in> set (om_outbounds m). cp_tag c \<in> set remove}"
    unfolding up(6) set_retire_outbounds by (auto simp: ix)
  moreover have "c \<in> set (om_outbounds m) \<Longrightarrow> cp_id c < om_fresh m" for c using wf by (simp add: om_wf_def)
  then have "set retired \<inter> set (om_outbounds m2) = {}"
    using new(2) unfolding retset obs by fastforce
  ultimately show ?thesis using new(1) up(2,5) republished_lookup [OF up(1,3), of t] unfolding up(4) by blast
qed

definition demo_outbounds :: outbound_manager where
  "demo_outbounds = snd (outbound_Create demo_life demo_registry ''u'' ''direct'' ''old''
     (snd (outbound_Create demo_life demo_registry ''d'' ''direct'' ''{}'' (NewOutboundManager ''d''))))"

definition demo_direct :: "nat \<Rightarrow> string \<Rightarrow> component" where
  "demo_direct i tag = \<lparr>cp_id = i, cp_type = ''direct'', cp_tag = tag, cp_deps = []\<rparr>"

lemma demo_registry_direct: "registry_create demo_registry tag ''direct'' options i = Inr (demo_direct i tag)"
  by (simp add: registry_create_def demo_registry_def registry_register_def NewRegistry_def demo_direct_def)

lemma demo_outbounds_eq: "demo_outbounds = (NewOutboundManager ''d'')\<lparr>om_outbounds := [demo_direct 0 ''d'', demo_direct 1 ''u''],
    om_by_tag := [(''d'', demo_direct 0 ''d''), (''u'', demo_direct 1 ''u'')], om_default := Some (demo_direct 0 ''d''), om_fresh := 2\<rparr>"
  by (simp add: demo_outbounds_def outbound_Create_def demo_registry_direct NewOutboundManager_def outbound_replace_def outbound_install_def)
    (simp add: demo_direct_def)

theorem outbound_update_published_witness:
  "\<exists>retired m2. outbound_publish [demo_direct 2 ''u''] [''u''] (demo_outbounds\<lparr>om_fresh := 3\<rparr>) = (retired, m2) \<and>
     map_of (om_by_tag m2) ''u'' = Some (demo_direct 2 ''u'') \<and> map_of (om_by_tag m2) ''d'' = Some (demo_direct 0 ''d'') \<and>
     set retired = {demo_direct 1 ''u''}"
proof -
  let ?o = "\<lparr>oo_type = ''direct'', oo_tag = ''u'', oo_options = ''new''\<rparr>"
  obtain retired m2 where pub: "outbound_publish [demo_direct 2 ''u''] [''u''] (demo_outbounds\<lparr>om_fresh := 3\<rparr>) = (retired, m2)"
    by (cases "outbound_publish [demo_direct 2 ''u''] [''u''] (demo_outbounds\<lparr>om_fresh := 3\<rparr>)")
  have wf: "om_wf demo_outbounds"
    unfolding demo_outbounds_def by (intro outbound_Create_wf NewOutboundManager_wf)
  have prep: "outbound_PrepareUserUpdate demo_life demo_registry NewTagManager [?o] [''u''] demo_outbounds =
      (Inr [demo_direct 2 ''u''], demo_outbounds\<lparr>om_fresh := 3\<rparr>)"
    by (simp add: outbound_PrepareUserUpdate_def demo_outbounds_eq removable_def depend_by_def NewOutboundManager_def
        NewTagManager_def manager_Get_def demo_registry_direct)
      (simp add: demo_direct_def)
  have tags: "distinct (map oo_tag [?o])" "\<forall>x \<in> set [?o]. oo_tag x \<in> set [''u''] \<or> map_of (om_by_tag demo_outbounds) (oo_tag x) = None"
    by simp_all
  note pubd = outbound_update_published [OF wf prep tags pub, THEN conjunct2, THEN conjunct2]
  have "map_of (om_by_tag m2) ''u'' = Some (demo_direct 2 ''u'')"
    using pubd [of "''u''", THEN conjunct1] by (simp add: demo_direct_def)
  moreover have "map_of (om_by_tag m2) ''d'' = Some (demo_direct 0 ''d'')"
    using pubd [of "''d''", THEN conjunct1] by (simp add: demo_outbounds_eq)
  moreover have "set retired = {c \<in> set (om_outbounds demo_outbounds). cp_tag c \<in> set [''u'']}"
    by (rule pubd [THEN conjunct2, THEN conjunct2, THEN conjunct2, THEN conjunct1])
  moreover have "{c \<in> set (om_outbounds demo_outbounds). cp_tag c \<in> set [''u'']} = {demo_direct 1 ''u''}"
    by (auto simp: demo_outbounds_eq demo_direct_def)
  ultimately show ?thesis using pub by simp
qed

section \<open>Dependencies\<close>

text \<open>A refused removal removes. When other outbounds depend on an outbound, \<^verbatim>\<open>Remove\<close> answers with an error, but by then
  the outbound is gone from the list and from the index and, had it been the default, the default has moved on; it is
  not closed.\<close>

theorem refused_removal_removes:
  assumes wf: "om_wf m" and c: "map_of (om_by_tag m) tag = Some c" and dep: "depend_by m tag \<noteq> []"
  shows "\<exists>msg. outbound_Remove lf tag m = (Some (ENew msg), snd (outbound_Remove lf tag m)) \<and>
    map_of (om_by_tag (snd (outbound_Remove lf tag m))) tag = None \<and> c \<notin> set (om_outbounds (snd (outbound_Remove lf tag m))) \<and>
    om_log (snd (outbound_Remove lf tag m)) = om_log m"
proof -
  obtain rest where "remove_object (cp_id c) (om_outbounds m) = Some rest" "set rest = set (om_outbounds m) - {c}"
    using om_wf_index [OF wf c] by blast
  then show ?thesis using c dep by (simp add: outbound_Remove_def Let_def)
qed

definition demo_dependent :: outbound_manager where
  "demo_dependent = demo_outbounds\<lparr>om_depend_by := [(''u'', [''group''])]\<rparr>"

theorem refused_removal_removes_witness:
  "map_of (om_by_tag demo_dependent) ''u'' = Some (demo_direct 1 ''u'') \<and>
   map_of (om_by_tag (snd (outbound_Remove demo_life ''u'' demo_dependent))) ''u'' = None"
proof -
  have wf: "om_wf demo_dependent" using outbound_Create_wf [OF outbound_Create_wf [OF NewOutboundManager_wf]]
    by (simp add: demo_dependent_def demo_outbounds_def om_wf_def)
  have c: "map_of (om_by_tag demo_dependent) ''u'' = Some (demo_direct 1 ''u'')" by (simp add: demo_dependent_def demo_outbounds_eq)
  have "depend_by demo_dependent ''u'' \<noteq> []" by (simp add: demo_dependent_def depend_by_def)
  from refused_removal_removes [OF wf c this, of demo_life] c show ?thesis by auto
qed

lemma fold_add_dependency:
  "map_of (fold (add_dependency tag) ds deps) d =
     (if d \<in> set ds then Some ((case map_of deps d of None \<Rightarrow> [] | Some ts \<Rightarrow> ts) @ replicate (count_list ds d) tag) else map_of deps d)"
proof (induction ds arbitrary: deps)
  case (Cons a ds)
  show ?case
    unfolding fold_simps Cons
    by (auto simp: add_dependency_def replicate_append_same [symmetric] split: option.split)
qed simp

text \<open>Replacing an outbound does not forget its dependencies. When an outbound is created again under its tag, everything recorded
  for its predecessor stays recorded, also where the new one does not depend on it any more; such a dependency can
  then not be removed.\<close>

theorem replaced_dependencies_stay:
  assumes "outbound_Create lf reg tag type options m = (None, m')" and "t \<in> set (depend_by m d)"
  shows "t \<in> set (depend_by m' d)"
proof -
  obtain c cs m0 where "m' = outbound_install tag c cs m0" "om_depend_by m0 = om_depend_by m"
    using assms(1) unfolding outbound_Create_def outbound_replace_def
    by (auto simp: Let_def split: if_splits sum.splits prod.splits option.splits)
  then show ?thesis using assms(2) by (auto simp: depend_by_def outbound_install_def fold_add_dependency split: option.splits)
qed

theorem replaced_dependencies_stay_witness:
  "cp_deps (demo_direct 2 ''group'') = [] \<and>
   ''group'' \<in> set (depend_by (snd (outbound_Create demo_life demo_registry ''group'' ''direct'' ''{}'' demo_dependent)) ''u'')"
proof -
  let ?c = "outbound_Create demo_life demo_registry ''group'' ''direct'' ''{}'' demo_dependent"
  have "?c = (None, snd ?c)"
    by (simp add: demo_dependent_def demo_outbounds_eq outbound_Create_def demo_registry_direct NewOutboundManager_def outbound_replace_def)
  from replaced_dependencies_stay [OF this, of "''group''" "''u''"] show ?thesis
    by (simp add: demo_dependent_def depend_by_def demo_direct_def)
qed

end
