(* ===== verification/Json_Value.thy ===== *)
theory Json_Value
  imports Complex_Main Go_Strings "HOL-Library.Finite_Map"
begin

text \<open>
  Decoded JSON as the reload works on it (\<^verbatim>\<open>hot_add.go\<close>, \<^verbatim>\<open>user_reload.go\<close>): a value of type \<^verbatim>\<open>any\<close> is nil, a Boolean,
  a number, a string, an array or an object. An object is a finite map, so equality of values is
  \<^verbatim>\<open>reflect.DeepEqual\<close>; a missing key and a JSON null both read as nil.
\<close>

datatype json = JNull | JBool bool | JNum rat | JStr string | JArr "json list" | JObj "(string, json) fmap"

type_synonym row = "(string, json) fmap"

definition field :: "row \<Rightarrow> string \<Rightarrow> json" where
  "field row key = (case fmlookup row key of Some v \<Rightarrow> v | None \<Rightarrow> JNull)"

text \<open>The type assertions \<^verbatim>\<open>v.(string)\<close> and \<^verbatim>\<open>v.([]any)\<close> whose second result is dropped or tested.\<close>

fun as_string :: "json \<Rightarrow> string" where
  "as_string (JStr s) = s"
| "as_string _ = []"

fun as_array :: "json \<Rightarrow> json list option" where
  "as_array (JArr vs) = Some vs"
| "as_array _ = None"

fun as_object :: "json \<Rightarrow> row option" where
  "as_object (JObj row) = Some row"
| "as_object _ = None"

text \<open>A type assertion with one result panics.\<close>

definition must_object :: "json \<Rightarrow> go_error + row" where
  "must_object v = (case as_object v of Some row \<Rightarrow> Inr row | None \<Rightarrow> Inl (EPanic ''interface conversion''))"

text \<open>Comparison of two values of type \<^verbatim>\<open>any\<close> with \<^verbatim>\<open>==\<close>: two arrays or two objects are not comparable.\<close>

definition interface_equal :: "json \<Rightarrow> json \<Rightarrow> go_error + bool" where
  "interface_equal a b =
     (if as_object a \<noteq> None \<and> as_object b \<noteq> None \<or> as_array a \<noteq> None \<and> as_array b \<noteq> None
      then Inl (EPanic ''comparing uncomparable type'') else Inr (a = b))"

definition rows :: "row \<Rightarrow> string \<Rightarrow> json list" where
  "rows object key = (case as_array (field object key) of Some vs \<Rightarrow> vs | None \<Rightarrow> [])"

definition nested :: "row \<Rightarrow> string \<Rightarrow> row" where
  "nested object key = (case as_object (field object key) of Some row \<Rightarrow> row | None \<Rightarrow> fmempty)"

definition without :: "row \<Rightarrow> string list \<Rightarrow> row" where
  "without row keys = fold fmdrop keys row"

text \<open>\<^verbatim>\<open>namedRows\<close>: the rows of an array by their tags.\<close>

fun collect_rows :: "json list \<Rightarrow> (string, row) gomap \<Rightarrow> go_error + (string, row) gomap" where
  "collect_rows [] result = Inr result"
| "collect_rows (v # vs) result =
     (case as_object v of
        None \<Rightarrow> Inl (ENew ''expected an object'')
      | Some row \<Rightarrow>
          let tag = as_string (field row ''tag'')
          in if tag = [] \<or> map_of result tag \<noteq> None then Inl (ENew ''missing or duplicate tag'')
             else collect_rows vs (result @ [(tag, row)]))"

definition namedRows :: "json \<Rightarrow> go_error + (string, row) gomap" where
  "namedRows v =
     (if v = JNull then Inr []
      else case as_array v of None \<Rightarrow> Inl (ENew ''expected an array'') | Some vs \<Rightarrow> collect_rows vs [])"

text \<open>\<^verbatim>\<open>configObject\<close> renames the exported field names of SOCKS users to the keys of the configuration.\<close>

definition rename_key :: "string \<Rightarrow> string \<Rightarrow> row \<Rightarrow> row" where
  "rename_key upper lower user =
     (case fmlookup user upper of Some v \<Rightarrow> fmdrop upper (fmupd lower v user) | None \<Rightarrow> user)"

definition normalize_user :: "json \<Rightarrow> json" where
  "normalize_user v =
     (case as_object v of
        Some user \<Rightarrow> JObj (rename_key ''Password'' ''password'' (rename_key ''Username'' ''username'' user))
      | None \<Rightarrow> v)"

definition update_rows :: "string \<Rightarrow> (json \<Rightarrow> json) \<Rightarrow> row \<Rightarrow> row" where
  "update_rows key f object =
     (case as_array (field object key) of Some vs \<Rightarrow> fmupd key (JArr (map f vs)) object | None \<Rightarrow> object)"

definition normalize_inbound :: "json \<Rightarrow> json" where
  "normalize_inbound v =
     (case as_object v of
        Some inbound \<Rightarrow> if field inbound ''type'' = JStr ''socks'' then JObj (update_rows ''users'' normalize_user inbound) else v
      | None \<Rightarrow> v)"

text \<open>\<open>marshal\<close> stands for encoding the options and decoding the text again.\<close>

definition configObject :: "('o \<Rightarrow> go_error + row) \<Rightarrow> 'o \<Rightarrow> go_error + row" where
  "configObject marshal v = rbind (marshal v) (\<lambda>object. Inr (update_rows ''inbounds'' normalize_inbound object))"

section \<open>Rows by tag\<close>

lemma collect_rows_Inr:
  "collect_rows vs result = Inr r \<Longrightarrow> gomap_wf result \<Longrightarrow>
     gomap_wf r \<and> (\<exists>new. r = result @ new \<and> vs = map (JObj \<circ> snd) new \<and>
       (\<forall>(t, row) \<in> set new. t \<noteq> [] \<and> field row ''tag'' = JStr t))"
proof (induction vs arbitrary: result)
  case (Cons v vs)
  obtain row where v: "v = JObj row" using Cons.prems(1) by (cases v) auto
  define tag where "tag = as_string (field row ''tag'')"
  have tag: "tag \<noteq> []" "map_of result tag = None" "collect_rows vs (result @ [(tag, row)]) = Inr r"
    using Cons.prems(1) by (auto simp: v tag_def Let_def split: if_splits)
  have str: "field row ''tag'' = JStr tag" using tag(1) by (cases "field row ''tag''") (auto simp: tag_def)
  have "gomap_wf (result @ [(tag, row)])" using Cons.prems(2) tag(2) by (auto simp: map_of_eq_None_iff)
  from Cons.IH [OF tag(3) this] obtain new where "gomap_wf r" "r = (result @ [(tag, row)]) @ new" "vs = map (JObj \<circ> snd) new"
    "\<forall>(t, row) \<in> set new. t \<noteq> [] \<and> field row ''tag'' = JStr t" by blast
  then show ?case using v tag(1) str by (intro conjI exI [of _ "(tag, row) # new"]) auto
qed auto

lemma namedRows_Inr:
  assumes "namedRows (field object key) = Inr r"
  shows "gomap_wf r" "rows object key = map (JObj \<circ> snd) r" "\<And>t row. map_of r t = Some row \<Longrightarrow> t \<noteq> [] \<and> field row ''tag'' = JStr t"
proof -
  have "gomap_wf r \<and> rows object key = map (JObj \<circ> snd) r \<and> (\<forall>(t, row) \<in> set r. t \<noteq> [] \<and> field row ''tag'' = JStr t)"
    using assms collect_rows_Inr [of "rows object key" "[]" r]
    by (auto simp: namedRows_def rows_def split: if_splits option.splits)
  then show "gomap_wf r" "rows object key = map (JObj \<circ> snd) r" "\<And>t row. map_of r t = Some row \<Longrightarrow> t \<noteq> [] \<and> field row ''tag'' = JStr t"
    by (auto dest!: map_of_SomeD)
qed

lemma field_without: "field (without row keys) k = (if k \<in> set keys then JNull else field row k)"
  unfolding without_def by (induction keys arbitrary: row) (auto simp: field_def)

lemma without_eqD: "without a keys = without b keys \<Longrightarrow> k \<notin> set keys \<Longrightarrow> field a k = field b k"
  using field_without [of a keys k] field_without [of b keys k] by simp

end
