(* ===== verification/Reload_Plan.thy ===== *)
theory Reload_Plan
  imports Json_Value
begin

text \<open>
  Planning an update of users (\<^verbatim>\<open>user_reload.go\<close>): \<open>planUserUpdate\<close> compares the running configuration with the wanted
  one and accepts the difference only when it concerns users of VLESS, VMess and SOCKS inbounds, rules that name
  such users, and independent direct and SOCKS outbounds.

  Sets of names are Go maps to Booleans. The loops over maps visit the rows in the order of the configuration; another
  order can change which of several errors is reported and the order of the removed outbounds, nothing else. The
  functions of the UUID library and the fingerprint of a value are parameters.
\<close>

definition ErrRuntimeConflict :: go_error where
  "ErrRuntimeConflict = ENew ''running instance or revision changed''"

definition ErrUnsupportedUserUpdate :: go_error where
  "ErrUnsupportedUserUpdate = ENew ''change requires a separate topology publication''"

record plan_libs =
  uuid_from :: "string \<Rightarrow> string option"
  uuid_v5 :: "string \<Rightarrow> string"
  fingerprint_json :: "json \<Rightarrow> string"

record user_update_plan =
  inboundIndexes :: "nat list"
  outboundIndexes :: "nat list"
  removedOutbounds :: "string list"
  ruleIndexes :: "int list"
  changedNames :: "string set"

section \<open>User rules\<close>

fun strings_of :: "json list \<Rightarrow> string list option" where
  "strings_of [] = Some []"
| "strings_of (JStr s # vs) = map_option (Cons s) (strings_of vs)"
| "strings_of (_ # vs) = None"

text \<open>\<open>None\<close> is the answer false.\<close>

definition userNames :: "row \<Rightarrow> string list option" where
  "userNames row =
     (case field row ''auth_user'' of
        JStr s \<Rightarrow> Some [s]
      | JArr vs \<Rightarrow> (case strings_of vs of Some (n # ns) \<Rightarrow> Some (n # ns) | _ \<Rightarrow> None)
      | _ \<Rightarrow> None)"

definition dynamic_fields :: "string list" where
  "dynamic_fields = [''type'', ''auth_user'', ''action'', ''outbound'', ''inbound'', ''network'', ''source_ip_cidr'', ''ip_cidr'',
     ''source_port'', ''source_port_range'', ''port'', ''port_range'', ''domain'', ''domain_suffix'', ''domain_keyword'',
     ''domain_regex'', ''method'', ''no_drop'']"

definition dynamicRule :: "row \<Rightarrow> string set \<Rightarrow> string set \<Rightarrow> bool" where
  "dynamicRule row known blocked =
     (case userNames row of
        None \<Rightarrow> False
      | Some names \<Rightarrow>
          list_all (\<lambda>name. name \<noteq> [] \<and> name \<notin> blocked) names \<and> list_ex (\<lambda>name. name \<in> known) names \<and>
          fmpred (\<lambda>key _. key \<in> set dynamic_fields) row \<and>
          (case fmlookup row ''type'' of None \<Rightarrow> True | Some kind \<Rightarrow> kind = JStr ''default'' \<or> kind = JStr []) \<and>
          (case fmlookup row ''action'' of None \<Rightarrow> True
           | Some action \<Rightarrow> action = JStr ''route'' \<or> action = JStr ''reject'' \<or> action = JStr []))"

section \<open>Users of an inbound\<close>

definition user_name :: "row \<Rightarrow> row \<Rightarrow> string" where
  "user_name row user = as_string (field user (if field row ''type'' = JStr ''socks'' then ''username'' else ''name''))"

definition canonical_uuid :: "plan_libs \<Rightarrow> string \<Rightarrow> string" where
  "canonical_uuid U raw = (case uuid_from U raw of Some u \<Rightarrow> u | None \<Rightarrow> uuid_v5 U raw)"

text \<open>One user: the names and identifiers so far, extended.\<close>

definition validate_user :: "plan_libs \<Rightarrow> row \<Rightarrow> json \<Rightarrow> string set \<times> string set \<Rightarrow> go_error + string set \<times> string set" where
  "validate_user U row v st =
     (case as_object v of
        None \<Rightarrow> Inl (ENew ''invalid user'')
      | Some user \<Rightarrow>
          let (names, ids) = st;
              socks = (field row ''type'' = JStr ''socks'');
              name = user_name row user;
              password = as_string (field user ''password'');
              raw = as_string (field user ''uuid'');
              uid = canonical_uuid U raw
          in if socks \<and> (password = [] \<or> length name > 255 \<or> length password > 255) then Inl (ENew ''invalid SOCKS credential length'')
             else if name = [] \<or> name \<in> names then Inl (ENew ''missing or duplicate authentication name'')
             else if \<not> socks \<and> raw = [] then Inl (ENew ''missing UUID'')
             else if \<not> socks \<and> uid \<in> ids then Inl (ENew ''duplicate canonical UUID'')
             else if field row ''type'' = JStr ''vmess'' \<and> (case fmlookup user ''alterId'' of None \<Rightarrow> False | Some alter \<Rightarrow> alter \<noteq> JNum 0)
             then Inl (ENew ''dynamic VMess requires AEAD users'')
             else Inr (insert name names, if socks then ids else insert uid ids))"

fun validate_all :: "plan_libs \<Rightarrow> row \<Rightarrow> json list \<Rightarrow> string set \<times> string set \<Rightarrow> go_error + string set \<times> string set" where
  "validate_all U row [] st = Inr st"
| "validate_all U row (v # vs) st = rbind (validate_user U row v st) (validate_all U row vs)"

definition validateUsers :: "plan_libs \<Rightarrow> row \<Rightarrow> go_error + string set" where
  "validateUsers U row =
     (if field row ''users'' \<noteq> JNull \<and> as_array (field row ''users'') = None then Inl (ENew ''invalid users array'')
      else rbind (validate_all U row (rows row ''users'') ({}, {})) (\<lambda>st. Inr (fst st)))"

text \<open>The names of the users of an inbound that is not to be touched.\<close>

definition string_field :: "row \<Rightarrow> string \<Rightarrow> string list" where
  "string_field row key = (case field row key of JStr s \<Rightarrow> [s] | _ \<Rightarrow> [])"

definition blocked_names :: "row \<Rightarrow> string set" where
  "blocked_names inbound =
     set (concat (map (\<lambda>v. case as_object v of Some row \<Rightarrow> string_field row ''name'' @ string_field row ''username'' | None \<Rightarrow> [])
       (rows inbound ''users'')))"

section \<open>References to outbounds\<close>

primrec references :: "string set \<Rightarrow> json \<Rightarrow> bool" where
  "references tags JNull = False"
| "references tags (JBool b) = False"
| "references tags (JNum n) = False"
| "references tags (JStr s) = False"
| "references tags (JArr vs) = list_ex id (map (references tags) vs)"
| "references tags (JObj row) =
     (list_ex (\<lambda>key. list_ex (\<lambda>tag. tag \<in> tags) (string_field row key)) [''outbound'', ''detour'', ''download_detour''] \<or>
      \<not> fmpred (\<lambda>_ b. \<not> b) (fmmap (references tags) row))"

section \<open>The plan\<close>

text \<open>One inbound: the known and the blocked names so far, extended.\<close>

definition supported_kind :: "row \<Rightarrow> bool" where
  "supported_kind old \<longleftrightarrow> field old ''type'' \<in> {JStr ''vless'', JStr ''vmess'', JStr ''socks''}"

definition plan_inbound :: "plan_libs \<Rightarrow> row \<Rightarrow> row option \<Rightarrow> string set \<times> string set \<Rightarrow> go_error + string set \<times> string set" where
  "plan_inbound U old next st =
     (case next of
        None \<Rightarrow> Inl ErrUnsupportedUserUpdate
      | Some next \<Rightarrow>
          let (known, blocked) = st; socks = (field old ''type'' = JStr ''socks'');
              base = (if socks then [''users'', ''require_auth''] else [''users''])
          in if \<not> supported_kind old then
               (if old \<noteq> next then Inl ErrUnsupportedUserUpdate else Inr (known, blocked \<union> blocked_names old))
             else if socks \<and> field old ''require_auth'' = JBool True \<and> field next ''require_auth'' \<noteq> JBool True
             then Inl (ENew ''cannot disable required SOCKS authentication'')
             else if without old base \<noteq> without next base then Inl ErrUnsupportedUserUpdate
             else
               case (validateUsers U old, validateUsers U next) of
                 (Inr oldNames, Inr newNames) \<Rightarrow> Inr (known \<union> oldNames \<union> newNames, blocked)
               | _ \<Rightarrow> if old \<noteq> next then Inl (ENew ''dynamic inbound requires valid named users'')
                      else Inr (known, blocked \<union> blocked_names old))"

fun plan_inbounds :: "plan_libs \<Rightarrow> (string, row) gomap \<Rightarrow> (string, row) gomap \<Rightarrow> string set \<times> string set \<Rightarrow> go_error + string set \<times> string set" where
  "plan_inbounds U [] newIn st = Inr st"
| "plan_inbounds U ((tag, old) # oldIn) newIn st = rbind (plan_inbound U old (map_of newIn tag) st) (plan_inbounds U oldIn newIn)"

text \<open>Without an explicit final outbound the first one is the default and has to stay.\<close>

definition default_kept :: "row \<Rightarrow> row \<Rightarrow> row \<Rightarrow> go_error + unit" where
  "default_kept before after oldRoute =
     (if fmlookup oldRoute ''final'' \<noteq> None \<or> rows before ''outbounds'' = [] then Inr ()
      else if rows after ''outbounds'' = [] then Inl ErrUnsupportedUserUpdate
      else rbind (must_object (hd (rows before ''outbounds''))) (\<lambda>a.
           rbind (must_object (hd (rows after ''outbounds''))) (\<lambda>b.
           rbind (interface_equal (field a ''tag'') (field b ''tag'')) (\<lambda>same.
           if same then Inr () else Inl ErrUnsupportedUserUpdate))))"

definition removed_outbounds :: "(string, row) gomap \<Rightarrow> (string, row) gomap \<Rightarrow> string list" where
  "removed_outbounds oldOut newOut = map fst (filter (\<lambda>(tag, old). map_of newOut tag \<noteq> Some old) oldOut)"

definition outbound_indexes :: "(string, row) gomap \<Rightarrow> (string, row) gomap \<Rightarrow> nat list" where
  "outbound_indexes oldOut newOut =
     filter (\<lambda>i. case newOut ! i of (tag, next) \<Rightarrow> map_of oldOut tag \<noteq> Some next) [0..<length newOut]"

definition changed_outbounds :: "(string, row) gomap \<Rightarrow> (string, row) gomap \<Rightarrow> string set" where
  "changed_outbounds oldOut newOut =
     set (removed_outbounds oldOut newOut) \<union> set (map (\<lambda>i. fst (newOut ! i)) (outbound_indexes oldOut newOut))"

definition independent :: "row option \<Rightarrow> bool" where
  "independent row = (case row of None \<Rightarrow> True
     | Some row \<Rightarrow> field row ''type'' \<in> {JStr ''direct'', JStr ''socks''} \<and> field row ''detour'' = JNull)"

definition check_outbounds :: "row \<Rightarrow> row \<Rightarrow> (string, row) gomap \<Rightarrow> (string, row) gomap \<Rightarrow> string set \<Rightarrow> go_error + unit" where
  "check_outbounds before oldRoute oldOut newOut changedOut =
     (if \<not> (\<forall>tag \<in> changedOut. independent (map_of oldOut tag) \<and> independent (map_of newOut tag))
      then Inl (ENew ''only independent direct/SOCKS user outbounds can change'')
      else if references changedOut (JObj (without before [''outbounds'', ''route''])) \<or>
              references changedOut (JObj (without oldRoute [''rules'']))
      then Inl (ENew ''outbound is referenced by global configuration'')
      else if list_ex (\<lambda>(tag, row). tag \<notin> changedOut \<and> references changedOut (JObj row)) oldOut
      then Inl (ENew ''outbound is referenced by another outbound'')
      else Inr ())"

text \<open>The ordered policy of every user, with the number of static rules before each of its rules, and the static rules.\<close>

record policy_state =
  ps_users :: "(string, json list) gomap"
  ps_fixed :: "row list"
  ps_section :: nat

definition add_policy :: "json \<Rightarrow> string \<Rightarrow> (string, json list) gomap \<Rightarrow> (string, json list) gomap" where
  "add_policy item name byUser =
     AList.update name ((case map_of byUser name of None \<Rightarrow> [] | Some items \<Rightarrow> items) @ [item]) byUser"

definition policy_item :: "nat \<Rightarrow> row \<Rightarrow> json" where
  "policy_item section row = JArr [JNum (of_nat section), JObj (without row [''auth_user''])]"

fun policies :: "string set \<Rightarrow> string set \<Rightarrow> string set \<Rightarrow> (string \<Rightarrow> bool) \<Rightarrow> json list \<Rightarrow> policy_state \<Rightarrow> go_error + policy_state" where
  "policies known blocked changedOut exists [] st = Inr st"
| "policies known blocked changedOut exists (v # vs) st =
     (case as_object v of
        None \<Rightarrow> Inl (ENew ''invalid rule'')
      | Some row \<Rightarrow>
          if \<not> dynamicRule row known blocked then
            (if references changedOut v then Inl (ENew ''outbound is referenced by an unmanaged rule'')
             else policies known blocked changedOut exists vs
                    (st\<lparr>ps_fixed := ps_fixed st @ [row], ps_section := Suc (ps_section st)\<rparr>))
          else if list_ex (\<lambda>tag. \<not> exists tag) (string_field row ''outbound'') then Inl (ENew ''unknown user outbound'')
          else policies known blocked changedOut exists vs
                 (st\<lparr>ps_users := fold (add_policy (policy_item (ps_section st) row)) (the (userNames row)) (ps_users st)\<rparr>))"

definition no_policies :: policy_state where
  "no_policies = \<lparr>ps_users = [], ps_fixed = [], ps_section = 0\<rparr>"

definition policy_of :: "policy_state \<Rightarrow> string \<Rightarrow> json list" where
  "policy_of st name = (case map_of (ps_users st) name of None \<Rightarrow> [] | Some items \<Rightarrow> items)"

definition changed_names :: "string set \<Rightarrow> string set \<Rightarrow> policy_state \<Rightarrow> policy_state \<Rightarrow> string set" where
  "changed_names known changedOut oldPolicies newPolicies =
     Set.filter (\<lambda>name. policy_of oldPolicies name \<noteq> policy_of newPolicies name \<or>
       list_ex (references changedOut) (policy_of oldPolicies name @ policy_of newPolicies name)) known"

text \<open>Every new rule takes over the first unused old rule with its hash, when the two are equal.\<close>

definition previous_by_hash :: "plan_libs \<Rightarrow> json list \<Rightarrow> (string, nat list) gomap" where
  "previous_by_hash U oldRules =
     fold (\<lambda>i m. let hash = fingerprint_json U (oldRules ! i)
       in AList.update hash ((case map_of m hash of None \<Rightarrow> [] | Some is \<Rightarrow> is) @ [i]) m) [0..<length oldRules] []"

definition take_previous :: "plan_libs \<Rightarrow> json list \<Rightarrow> json \<Rightarrow> (string, nat list) gomap \<Rightarrow> int \<times> (string, nat list) gomap" where
  "take_previous U oldRules next m =
     (case map_of m (fingerprint_json U next) of
        Some (candidate # rest) \<Rightarrow>
          if oldRules ! candidate = next then (int candidate, AList.update (fingerprint_json U next) rest m) else (-1, m)
      | _ \<Rightarrow> (-1, m))"

fun rule_indexes :: "plan_libs \<Rightarrow> string set \<Rightarrow> string set \<Rightarrow> (string, row) gomap \<Rightarrow> json list \<Rightarrow> json list \<Rightarrow> (string, nat list) gomap \<Rightarrow> go_error + int list" where
  "rule_indexes U known blocked newOut oldRules [] m = Inr []"
| "rule_indexes U known blocked newOut oldRules (next # newRules) m =
     (let (previous, m') = take_previous U oldRules next m
      in rbind (if previous < 0 then
                  rbind (must_object next) (\<lambda>row.
                    if \<not> dynamicRule row known blocked then Inl ErrUnsupportedUserUpdate
                    else if list_ex (\<lambda>tag. map_of newOut tag = None) (string_field row ''outbound'')
                    then Inl (ENew ''user rule targets a missing outbound'') else Inr ())
                else Inr ()) (\<lambda>_.
         rbind (rule_indexes U known blocked newOut oldRules newRules m') (\<lambda>is. Inr (previous # is))))"

fun no_dangling :: "string set \<Rightarrow> (string, row) gomap \<Rightarrow> json list \<Rightarrow> go_error + unit" where
  "no_dangling changedOut newOut [] = Inr ()"
| "no_dangling changedOut newOut (v # vs) =
     rbind (must_object v) (\<lambda>row.
       if list_ex (\<lambda>tag. tag \<in> changedOut \<and> map_of newOut tag = None) (string_field row ''outbound'')
       then Inl (ENew ''removed outbound is still referenced'') else no_dangling changedOut newOut vs)"

text \<open>Is a user of the inbound affected? A user that is not an object stops the program.\<close>

fun affected_users :: "row \<Rightarrow> string set \<Rightarrow> json list \<Rightarrow> go_error + bool" where
  "affected_users next changed [] = Inr False"
| "affected_users next changed (v # vs) =
     rbind (must_object v) (\<lambda>user. rbind (affected_users next changed vs) (\<lambda>b. Inr (user_name next user \<in> changed \<or> b)))"

fun inbound_indexes :: "plan_libs \<Rightarrow> (string, row) gomap \<Rightarrow> string set \<Rightarrow> nat \<Rightarrow> (string, row) gomap \<Rightarrow> go_error + nat list" where
  "inbound_indexes U oldIn changed index [] = Inr []"
| "inbound_indexes U oldIn changed index ((tag, next) # newIn) =
     rbind (affected_users next changed (rows next ''users'')) (\<lambda>affected.
     rbind (if map_of oldIn tag \<noteq> Some next \<or> affected then rbind (validateUsers U next) (\<lambda>_. Inr [index]) else Inr []) (\<lambda>is.
     rbind (inbound_indexes U oldIn changed (Suc index) newIn) (\<lambda>rest. Inr (is @ rest))))"

definition topology_kept :: "row \<Rightarrow> row \<Rightarrow> (string, row) gomap \<Rightarrow> (string, row) gomap \<Rightarrow> bool" where
  "topology_kept before after oldIn newIn \<longleftrightarrow> length oldIn = length newIn \<and>
     without before [''inbounds'', ''outbounds'', ''route''] = without after [''inbounds'', ''outbounds'', ''route''] \<and>
     without (nested before ''route'') [''rules''] = without (nested after ''route'') [''rules'']"

text \<open>The last part of the plan: the rules and the inbounds.\<close>

definition plan_rules ::
  "plan_libs \<Rightarrow> string set \<Rightarrow> string set \<Rightarrow> (string, row) gomap \<Rightarrow> (string, row) gomap \<Rightarrow> json list \<Rightarrow> json list \<Rightarrow> go_error + string set \<times> int list" where
  "plan_rules U known blocked oldOut newOut oldRules newRules =
     (let changedOut = changed_outbounds oldOut newOut;
          exists = (\<lambda>tag. map_of newOut tag \<noteq> None \<or> map_of oldOut tag \<noteq> None)
      in rbind (policies known blocked changedOut exists oldRules no_policies) (\<lambda>oldPolicies.
         rbind (policies known blocked changedOut exists newRules no_policies) (\<lambda>newPolicies.
         if ps_fixed oldPolicies \<noteq> ps_fixed newPolicies then Inl ErrUnsupportedUserUpdate
         else rbind (rule_indexes U known blocked newOut oldRules newRules (previous_by_hash U oldRules)) (\<lambda>is.
              rbind (no_dangling changedOut newOut newRules) (\<lambda>_.
              Inr (changed_names known changedOut oldPolicies newPolicies, is))))))"

definition planUserUpdate :: "plan_libs \<Rightarrow> row \<Rightarrow> row \<Rightarrow> go_error + user_update_plan" where
  "planUserUpdate U before after =
     rbind (namedRows (field before ''inbounds'')) (\<lambda>oldIn.
     rbind (namedRows (field after ''inbounds'')) (\<lambda>newIn.
     if \<not> topology_kept before after oldIn newIn then Inl ErrUnsupportedUserUpdate
     else
       let oldRoute = nested before ''route''; newRoute = nested after ''route''
       in rbind (plan_inbounds U oldIn newIn ({}, {})) (\<lambda>st.
          let blocked = snd st; known = fst st - blocked
          in rbind (default_kept before after oldRoute) (\<lambda>_.
             rbind (namedRows (field before ''outbounds'')) (\<lambda>oldOut.
             rbind (namedRows (field after ''outbounds'')) (\<lambda>newOut.
             rbind (check_outbounds before oldRoute oldOut newOut (changed_outbounds oldOut newOut)) (\<lambda>_.
             rbind (plan_rules U known blocked oldOut newOut (rows oldRoute ''rules'') (rows newRoute ''rules'')) (\<lambda>ri.
             rbind (inbound_indexes U oldIn (fst ri) 0 newIn) (\<lambda>ins.
             Inr \<lparr>inboundIndexes = ins, outboundIndexes = outbound_indexes oldOut newOut,
                  removedOutbounds = removed_outbounds oldOut newOut, ruleIndexes = snd ri, changedNames = fst ri\<rparr>)))))))))"

end
