(* ===== verification/Go_Bytes.thy ===== *)
theory Go_Bytes
  imports Go_Strings
begin

text \<open>
  Bytes and readers: what the wire formats use of \<^verbatim>\<open>io\<close>, \<^verbatim>\<open>encoding/binary\<close> and \<^verbatim>\<open>hash/fnv\<close>. A reader is the list of the bytes it still has; a
  read gives the bytes and what is left. Numbers are big endian.
\<close>

unbundle bit_operations_syntax

type_synonym byte = "8 word"

definition io_EOF :: go_error where "io_EOF = EExternal ''EOF''"
definition io_ErrUnexpectedEOF :: go_error where "io_ErrUnexpectedEOF = EExternal ''unexpected EOF''"
definition io_ErrShortBuffer :: go_error where "io_ErrShortBuffer = EExternal ''short buffer''"

text \<open>\<^verbatim>\<open>io.ReadFull\<close>; \<^verbatim>\<open>binary.Read\<close> of a number uses it, and skipping drops the bytes.\<close>

definition read_full :: "nat \<Rightarrow> byte list \<Rightarrow> go_error + byte list \<times> byte list" where
  "read_full n bs =
     (if n \<le> length bs then Inr (take n bs, drop n bs) else Inl (if bs = [] then io_EOF else io_ErrUnexpectedEOF))"

lemma read_full_append [simp]: "length xs = n \<Longrightarrow> read_full n (xs @ rest) = Inr (xs, rest)"
  by (simp add: read_full_def)

lemma read_full_Inr: "read_full n bs = Inr (xs, rest) \<longleftrightarrow> bs = xs @ rest \<and> length xs = n"
  by (auto simp: read_full_def)

lemma read_full_0 [simp]: "read_full 0 bs = Inr ([], bs)"
  by (simp add: read_full_def)

definition read_byte :: "byte list \<Rightarrow> go_error + byte \<times> byte list" where
  "read_byte bs = (case bs of [] \<Rightarrow> Inl io_EOF | b # rest \<Rightarrow> Inr (b, rest))"

lemma read_byte_simps [simp]: "read_byte [] = Inl io_EOF" "read_byte (b # bs) = Inr (b, bs)"
  by (simp_all add: read_byte_def)

section \<open>Big-endian numbers\<close>

definition be16 :: "16 word \<Rightarrow> byte list" where
  "be16 w = [ucast (drop_bit 8 w), ucast w]"

definition of_be16 :: "byte list \<Rightarrow> 16 word" where
  "of_be16 bs = push_bit 8 (ucast (bs ! 0)) OR ucast (bs ! 1)"

definition be32 :: "32 word \<Rightarrow> byte list" where
  "be32 w = [ucast (drop_bit 24 w), ucast (drop_bit 16 w), ucast (drop_bit 8 w), ucast w]"

definition of_be32 :: "byte list \<Rightarrow> 32 word" where
  "of_be32 bs = push_bit 24 (ucast (bs ! 0)) OR push_bit 16 (ucast (bs ! 1)) OR push_bit 8 (ucast (bs ! 2)) OR ucast (bs ! 3)"

lemma length_be [simp]: "length (be16 w) = 2" "length (be32 v) = 4"
  by (simp_all add: be16_def be32_def)

lemma of_be16_be16 [simp]: "of_be16 (be16 w) = w" "of_be16 (be16 w @ rest) = w"
  by (simp_all add: of_be16_def be16_def) (rule bit_word_eqI, auto simp: bit_simps)+

lemma word32_bytes:
  "push_bit 24 (ucast (ucast (drop_bit 24 w) :: byte)) OR push_bit 16 (ucast (ucast (drop_bit 16 w) :: byte)) OR
     push_bit 8 (ucast (ucast (drop_bit 8 w) :: byte)) OR ucast (ucast w :: byte) = (w :: 32 word)"
proof (rule bit_word_eqI)
  fix n :: nat assume "n < LENGTH(32)"
  then consider "n < 8" | "8 \<le> n" "n < 16" | "16 \<le> n" "n < 24" | "24 \<le> n" "n < 32" by fastforce
  then show "bit (push_bit 24 (ucast (ucast (drop_bit 24 w) :: byte)) OR push_bit 16 (ucast (ucast (drop_bit 16 w) :: byte)) OR
     push_bit 8 (ucast (ucast (drop_bit 8 w) :: byte)) OR ucast (ucast w :: byte) :: 32 word) n = bit w n"
    by cases (auto simp: bit_simps)
qed

lemma of_be32_be32 [simp]: "of_be32 (be32 w) = w" "of_be32 (be32 w @ rest) = w"
  by (simp_all add: of_be32_def be32_def word32_bytes)

definition read_u16 :: "byte list \<Rightarrow> go_error + 16 word \<times> byte list" where
  "read_u16 bs = rbind (read_full 2 bs) (\<lambda>(xs, rest). Inr (of_be16 xs, rest))"

lemma read_u16_be16 [simp]: "read_u16 (be16 w @ rest) = Inr (w, rest)"
  by (simp add: read_u16_def)

lemma unat_u16: "n < 65536 \<Longrightarrow> unat (of_nat n :: 16 word) = n"
  by (simp add: unat_of_nat)

section \<open>Variable-length numbers\<close>

fun put_uvarint :: "nat \<Rightarrow> byte list" where
  "put_uvarint n = (if n < 128 then [of_nat n] else of_nat (128 + n mod 128) # put_uvarint (n div 128))"

declare put_uvarint.simps [simp del]

text \<open>\<^verbatim>\<open>binary.ReadUvarint\<close>: at most ten bytes, the tenth at most 1; \<open>i\<close> counts the bytes read.\<close>

definition errOverflow :: go_error where "errOverflow = EExternal ''binary: varint overflows a 64-bit integer''"

fun uvarint_loop :: "nat \<Rightarrow> nat \<Rightarrow> byte list \<Rightarrow> go_error + nat \<times> byte list" where
  "uvarint_loop i x [] = (if 10 \<le> i then Inl errOverflow else Inl (if i = 0 then io_EOF else io_ErrUnexpectedEOF))"
| "uvarint_loop i x (b # bs) =
     (if 10 \<le> i then Inl errOverflow
      else if unat b < 128 then
        (if i = 9 \<and> 1 < unat b then Inl errOverflow else Inr (x + unat b * 2 ^ (7 * i), bs))
      else uvarint_loop (Suc i) (x + (unat b mod 128) * 2 ^ (7 * i)) bs)"

definition read_uvarint :: "byte list \<Rightarrow> go_error + nat \<times> byte list" where
  "read_uvarint bs = uvarint_loop 0 0 bs"

lemma uvarint_loop_put:
  "n * 2 ^ (7 * i) < 2 ^ 64 \<Longrightarrow> i < 10 \<Longrightarrow> uvarint_loop i x (put_uvarint n @ rest) = Inr (x + n * 2 ^ (7 * i), rest)"
proof (induction n arbitrary: i x rule: put_uvarint.induct)
  case (1 n)
  show ?case
  proof (cases "n < 128")
    case True
    have "n \<le> 1" if "i = 9" using "1.prems"(1) that by simp
    then show ?thesis using True "1.prems" by (subst put_uvarint.simps) (auto simp: unat_of_nat)
  next
    case False
    have small: "unat (of_nat (128 + n mod 128) :: byte) = 128 + n mod 128" by (simp add: unat_of_nat del: of_nat_add)
    have lt: "i < 9"
    proof (rule ccontr)
      assume "\<not> i < 9"
      then have "i = 9" using "1.prems"(2) by simp
      then show False using "1.prems"(1) False by simp
    qed
    have split: "n * 2 ^ (7 * i) = (n mod 128) * 2 ^ (7 * i) + (n div 128) * 2 ^ (7 * Suc i)"
    proof -
      have p: "(2::nat) ^ (7 * Suc i) = 2 ^ (7 * i) * 128" by (simp add: power_add)
      have "(a + b * 128) * c = a * c + b * (c * 128)" for a b c :: nat by (simp add: algebra_simps)
      from this [of "n mod 128" "n div 128" "2 ^ (7 * i)"] show ?thesis unfolding p mod_div_mult_eq .
    qed
    have "uvarint_loop (Suc i) (x + (n mod 128) * 2 ^ (7 * i)) (put_uvarint (n div 128) @ rest) =
        Inr (x + (n mod 128) * 2 ^ (7 * i) + (n div 128) * 2 ^ (7 * Suc i), rest)"
      using "1.prems"(1) lt unfolding split by (intro "1.IH" [OF False]) simp_all
    then show ?thesis
      using False lt unfolding split by (subst put_uvarint.simps) (simp add: small add.assoc del: of_nat_add)
  qed
qed

lemma read_uvarint_put: "n < 2 ^ 64 \<Longrightarrow> read_uvarint (put_uvarint n @ rest) = Inr (n, rest)"
  using uvarint_loop_put [of n 0 0 rest] by (simp add: read_uvarint_def)

text \<open>The allocation of a slice. A length above \<open>2 ^ 48\<close> is beyond the address space and panics; exactly \<open>2 ^ 48\<close> bytes are the whole of it, which the runtime cannot get, so that it ends the program.\<close>

definition make_bytes :: "nat \<Rightarrow> go_error + unit" where
  "make_bytes n =
     (if 2 ^ 48 < n then Inl (EPanic ''makeslice: len out of range'') else if n = 2 ^ 48 then Inl (EPanic ''out of memory'') else Inr ())"

section \<open>Hashes\<close>

definition fnv32a :: "byte list \<Rightarrow> 32 word" where
  "fnv32a bs = foldl (\<lambda>h b. (h XOR ucast b) * 16777619) 2166136261 bs"

section \<open>Strings\<close>

definition string_bytes :: "string \<Rightarrow> byte list" where
  "string_bytes s = map (\<lambda>c. of_nat (of_char c)) s"

definition bytes_string :: "byte list \<Rightarrow> string" where
  "bytes_string bs = map (\<lambda>b. char_of (unat b)) bs"

lemma bytes_string_bytes [simp]: "bytes_string (string_bytes s) = s"
proof -
  have "char_of (unat (of_nat (of_char c) :: byte)) = c" for c :: char
  proof -
    have "(of_char c :: nat) < 256" by (rule nat_of_char_less_256)
    then show ?thesis by (simp add: unat_of_nat)
  qed
  then show ?thesis by (simp add: bytes_string_def string_bytes_def comp_def map_idI)
qed

lemma length_string_bytes [simp]: "length (string_bytes s) = length s"
  by (simp add: string_bytes_def)

end
