(* ===== verification/Inbound_Users.thy ===== *)
theory Inbound_Users
  imports User_Sessions Go_Bytes
begin

text \<open>
  The users of the VLESS, VMess and SOCKS inbounds (\<^verbatim>\<open>protocol/vless\<close>, \<^verbatim>\<open>protocol/vmess\<close>, \<^verbatim>\<open>protocol/socks\<close> and the services of
  \<^verbatim>\<open>local-modules/sing-vmess\<close>): preparing and publishing a list of users, and finding the identity of a connection.

  Users are published together with the table of \<^verbatim>\<open>userstate\<close>: the credentials that a connection presents lead to the token
  of the entry that the table holds for the user. UUIDs are the 16 bytes, as a string, that the UUID library makes of the configured text;
  fingerprints and the functions of the cryptographic libraries are parameters.
\<close>

record user_identity =
  ui_name :: string
  ui_index :: nat
  ui_token :: "nat option"

record vless_user =
  vl_name :: string
  vl_uuid :: string
  vl_flow :: string

record vmess_user =
  vm_name :: string
  vm_uuid :: string
  vm_alter_id :: int

record socks_user =
  so_username :: string
  so_password :: string

datatype inbound_options =
    VLESSOptions "vless_user list"
  | VMessOptions "vmess_user list"
  | SocksOptions "socks_user list" bool
  | OtherOptions

record user_libs =
  ul_uuid_from :: "string \<Rightarrow> string option"
  ul_uuid_v5 :: "string \<Rightarrow> string"
  ul_uuid_text :: "string \<Rightarrow> string"
  ul_vless_fingerprint :: "vless_user \<Rightarrow> string"
  ul_vmess_fingerprint :: "vmess_user \<Rightarrow> string"
  ul_socks_fingerprint :: "socks_user \<Rightarrow> string"
  ul_alter_id :: "string \<Rightarrow> string"
  ul_new_cipher :: "string \<Rightarrow> go_error option"

section \<open>Services\<close>

text \<open>The UUID of a user: the configured one, or one made from any other text.\<close>

definition service_uuid :: "user_libs \<Rightarrow> string \<Rightarrow> string" where
  "service_uuid L raw = (case ul_uuid_from L raw of Some u \<Rightarrow> u | None \<Rightarrow> ul_uuid_v5 L raw)"

record vless_service =
  vs_user_map :: "(string, user_identity) gomap"
  vs_user_flow :: "(user_identity, string) gomap"

fun vless_users :: "user_libs \<Rightarrow> user_identity list \<Rightarrow> string list \<Rightarrow> string list \<Rightarrow> vless_service \<Rightarrow> vless_service" where
  "vless_users L (u # us) (i # ids) (f # flows) s =
     vless_users L us ids flows (s\<lparr>vs_user_map := AList.update (service_uuid L i) u (vs_user_map s),
       vs_user_flow := AList.update u f (vs_user_flow s)\<rparr>)"
| "vless_users L _ _ _ s = s"

definition vless_UpdateUsers :: "user_libs \<Rightarrow> user_identity list \<Rightarrow> string list \<Rightarrow> string list \<Rightarrow> vless_service" where
  "vless_UpdateUsers L us ids flows = vless_users L us ids flows \<lparr>vs_user_map = [], vs_user_flow = []\<rparr>"

text \<open>The part of \<^verbatim>\<open>Service.NewConnection\<close> that authenticates a request.\<close>

definition FlowVision :: string where "FlowVision = ''xtls-rprx-vision''"
definition CommandUDP :: byte where "CommandUDP = 2"

definition flowName :: "string \<Rightarrow> string" where
  "flowName v = (if v = [] then ''none'' else v)"

definition vless_authenticate :: "user_libs \<Rightarrow> vless_service \<Rightarrow> string \<Rightarrow> string \<Rightarrow> byte \<Rightarrow> go_error + user_identity" where
  "vless_authenticate L s uid flow command =
     (case map_of (vs_user_map s) uid of
        None \<Rightarrow> Inl (ENew (''unknown UUID: '' @ ul_uuid_text L uid))
      | Some user \<Rightarrow>
          let userFlow = (case map_of (vs_user_flow s) user of Some f \<Rightarrow> f | None \<Rightarrow> [])
          in if flow = FlowVision \<and> command = CommandUDP then Inl (ENew (FlowVision @ '' flow does not support UDP''))
             else if flow \<noteq> userFlow then Inl (ENew (''flow mismatch: expected '' @ flowName userFlow @ '', but got '' @ flowName flow))
             else Inr user)"

text \<open>The VMess service keeps for each user the UUID its keys are derived from, and the alternative UUIDs of users of the
  legacy protocol.\<close>

record vmess_service =
  ms_user_key :: "(user_identity, string) gomap"
  ms_alter_ids :: "(user_identity, string list) gomap"

fun alter_ids :: "user_libs \<Rightarrow> nat \<Rightarrow> string \<Rightarrow> string list" where
  "alter_ids L 0 current = []"
| "alter_ids L (Suc n) current = (let next = ul_alter_id L current in next # alter_ids L n next)"

fun vmess_users :: "user_libs \<Rightarrow> user_identity list \<Rightarrow> string list \<Rightarrow> int list \<Rightarrow> vmess_service \<Rightarrow> go_error + vmess_service" where
  "vmess_users L (u # us) (i # ids) (a # alters) s =
     (let uid = service_uuid L i
      in case ul_new_cipher L uid of
           Some e \<Rightarrow> Inl e
         | None \<Rightarrow>
             vmess_users L us ids alters (s\<lparr>ms_user_key := AList.update u uid (ms_user_key s),
               ms_alter_ids := (if a > 0 then AList.update u (alter_ids L (nat a) uid) (ms_alter_ids s) else ms_alter_ids s)\<rparr>))"
| "vmess_users L _ _ _ s = Inr s"

definition vmess_PrepareUsers :: "user_libs \<Rightarrow> user_identity list \<Rightarrow> string list \<Rightarrow> int list \<Rightarrow> go_error + vmess_service" where
  "vmess_PrepareUsers L us ids alters = vmess_users L us ids alters \<lparr>ms_user_key = [], ms_alter_ids = []\<rparr>"

text \<open>The loop of \<^verbatim>\<open>Service.NewConnection\<close> over the users: \<open>decode\<close> decrypts the authentication block with the key of a user and
  gives its timestamp when the checksum is right; \<open>fresh\<close> is the answer of the replay filter.\<close>

definition ErrBadTimestamp :: go_error where "ErrBadTimestamp = ENew ''bad timestamp''"
definition ErrReplay :: go_error where "ErrReplay = ENew ''replayed request''"
definition ErrBadRequest :: go_error where "ErrBadRequest = ENew ''bad request''"

fun vmess_authenticate :: "(string \<Rightarrow> int option) \<Rightarrow> (string \<Rightarrow> bool) \<Rightarrow> int \<Rightarrow> (user_identity, string) gomap \<Rightarrow> go_error + user_identity" where
  "vmess_authenticate decode fresh now [] = Inl ErrBadRequest"
| "vmess_authenticate decode fresh now ((user, key) # users) =
     (case decode key of
        None \<Rightarrow> vmess_authenticate decode fresh now users
      | Some timestamp \<Rightarrow>
          if \<bar>\<bar>timestamp\<bar> - now\<bar> > 120 then Inl ErrBadTimestamp
          else if \<not> fresh key then Inl ErrReplay else Inr user)"

record user_snapshot =
  us_required :: bool
  us_authenticator :: "(string, string) gomap"
  us_identities :: "(string, nat) gomap"

datatype credentials = VLESSUsers vless_service | VMessUsers vmess_service | SocksUsers user_snapshot

record user_inbound =
  ib_type :: string
  ib_table :: nat
  ib_kernel_tls :: bool
  ib_credentials :: credentials

section \<open>Preparing users\<close>

text \<open>The fingerprints of the users by their keys; the loops of the three inbounds. \<open>changed\<close> is nil when an inbound is created.\<close>

fun vmess_fingerprints :: "user_libs \<Rightarrow> bool \<Rightarrow> nat \<Rightarrow> vmess_user list \<Rightarrow> (string, string) gomap \<Rightarrow> go_error + (string, string) gomap" where
  "vmess_fingerprints L update index [] fps = Inr fps"
| "vmess_fingerprints L update index (user # users) fps =
     (let key = user_key (vm_name user) index
      in if update \<and> vm_alter_id user \<noteq> 0 then Inl (ENew ''dynamic VMess requires AEAD users'')
         else if map_of fps key \<noteq> None then Inl (ENew ''duplicate VMess user'')
         else vmess_fingerprints L update (Suc index) users (AList.update key (ul_vmess_fingerprint L user) fps))"

fun vless_fingerprints :: "user_libs \<Rightarrow> bool \<Rightarrow> nat \<Rightarrow> vless_user list \<Rightarrow> (string, string) gomap \<Rightarrow> go_error + (string, string) gomap" where
  "vless_fingerprints L kernelTLS index [] fps = Inr fps"
| "vless_fingerprints L kernelTLS index (user # users) fps =
     (let key = user_key (vl_name user) index
      in if kernelTLS \<and> vl_flow user \<noteq> [] then Inl (ENew ''VLESS flow changes are incompatible with kernel TLS'')
         else if vl_flow user \<noteq> [] \<and> vl_flow user \<noteq> FlowVision then Inl (ENew ''invalid VLESS flow'')
         else if map_of fps key \<noteq> None then Inl (ENew ''duplicate VLESS user'')
         else vless_fingerprints L kernelTLS (Suc index) users (AList.update key (ul_vless_fingerprint L user) fps))"

fun socks_fingerprints :: "user_libs \<Rightarrow> socks_user list \<Rightarrow> (string, string) gomap \<Rightarrow> go_error + (string, string) gomap" where
  "socks_fingerprints L [] fps = Inr fps"
| "socks_fingerprints L (user # users) fps =
     (if so_username user = [] \<or> so_password user = [] \<or> length (so_username user) > 255 \<or> length (so_password user) > 255
      then Inl (ENew ''SOCKS credentials require 1 to 255 bytes'')
      else if map_of fps (so_username user) \<noteq> None then Inl (ENew ''duplicate SOCKS user'')
      else socks_fingerprints L users (AList.update (so_username user) (ul_socks_fingerprint L user) fps))"

definition identities :: "(string, nat) gomap \<Rightarrow> string list \<Rightarrow> user_identity list" where
  "identities tokens names =
     map (\<lambda>(index, name). \<lparr>ui_name = name, ui_index = index, ui_token = map_of tokens (user_key name index)\<rparr>) (enumerate 0 names)"

definition forced :: "string set option \<Rightarrow> string \<Rightarrow> bool" where
  "forced changed name = (case changed of None \<Rightarrow> False | Some names \<Rightarrow> name \<in> names)"

text \<open>The result is what the closure publishes: the table entries and the credentials.\<close>

definition vmess_prepareUsers ::
  "user_libs \<Rightarrow> user_inbound \<Rightarrow> vmess_user list \<Rightarrow> string set option \<Rightarrow> manager \<Rightarrow> (go_error + publication \<times> credentials) \<times> manager" where
  "vmess_prepareUsers L h users changed m =
     (case vmess_fingerprints L (changed \<noteq> None) 0 users [] of
        Inl e \<Rightarrow> (Inl e, m)
      | Inr fps \<Rightarrow>
          let (tokens, p, m1) = table_prepare (ib_table h) fps (forced changed) m
          in (rbind (vmess_PrepareUsers L (identities tokens (map vm_name users)) (map vm_uuid users) (map vm_alter_id users))
                (\<lambda>s. Inr (p, VMessUsers s)), m1))"

definition vless_prepareUsers ::
  "user_libs \<Rightarrow> user_inbound \<Rightarrow> vless_user list \<Rightarrow> string set option \<Rightarrow> manager \<Rightarrow> (go_error + publication \<times> credentials) \<times> manager" where
  "vless_prepareUsers L h users changed m =
     (case vless_fingerprints L (ib_kernel_tls h) 0 users [] of
        Inl e \<Rightarrow> (Inl e, m)
      | Inr fps \<Rightarrow>
          let (tokens, p, m1) = table_prepare (ib_table h) fps (forced changed) m
          in (Inr (p, VLESSUsers (vless_UpdateUsers L (identities tokens (map vl_name users)) (map vl_uuid users) (map vl_flow users))), m1))"

definition socks_prepareUsers ::
  "user_libs \<Rightarrow> user_inbound \<Rightarrow> socks_user list \<Rightarrow> bool \<Rightarrow> string set option \<Rightarrow> manager \<Rightarrow> (go_error + publication \<times> credentials) \<times> manager" where
  "socks_prepareUsers L h users requireAuth changed m =
     (case socks_fingerprints L users [] of
        Inl e \<Rightarrow> (Inl e, m)
      | Inr fps \<Rightarrow>
          let (tokens, p, m1) = table_prepare (ib_table h) fps (forced changed) m;
              required = (requireAuth \<or> users \<noteq> [] \<or> (case ib_credentials h of SocksUsers s \<Rightarrow> us_required s | _ \<Rightarrow> False))
          in if changed \<noteq> None \<and> required \<and> users = [] \<and> \<not> requireAuth
             then (Inl (ENew ''empty authenticated SOCKS requires require_auth:true for restart safety''), m1)
             else (Inr (p, SocksUsers \<lparr>us_required = required, us_authenticator = map (\<lambda>u. (so_username u, so_password u)) users,
                     us_identities = tokens\<rparr>), m1))"

definition PrepareUserUpdate ::
  "user_libs \<Rightarrow> user_inbound \<Rightarrow> inbound_options \<Rightarrow> string set \<Rightarrow> manager \<Rightarrow> (go_error + publication \<times> credentials) \<times> manager" where
  "PrepareUserUpdate L h raw changed m =
     (case (ib_credentials h, raw) of
        (VLESSUsers _, VLESSOptions users) \<Rightarrow> vless_prepareUsers L h users (Some changed) m
      | (VMessUsers _, VMessOptions users) \<Rightarrow> vmess_prepareUsers L h users (Some changed) m
      | (SocksUsers _, SocksOptions users requireAuth) \<Rightarrow> socks_prepareUsers L h users requireAuth (Some changed) m
      | (VLESSUsers _, _) \<Rightarrow> (Inl (ENew ''invalid VLESS user options''), m)
      | (VMessUsers _, _) \<Rightarrow> (Inl (ENew ''invalid VMess user options''), m)
      | (SocksUsers _, _) \<Rightarrow> (Inl (ENew ''invalid SOCKS user options''), m))"

section \<open>Connections\<close>

text \<open>SOCKS: what happens to a new connection, and the identity it is bound to after the handshake gave a user name.\<close>

datatype socks_admission = SocksRefused | SocksAnonymous | SocksAuthenticate

definition socks_admission :: "user_snapshot \<Rightarrow> socks_admission" where
  "socks_admission s =
     (if us_authenticator s = [] then (if us_required s then SocksRefused else SocksAnonymous) else SocksAuthenticate)"

definition bindUser :: "user_snapshot option \<Rightarrow> string option \<Rightarrow> sess_ctx \<Rightarrow> manager \<Rightarrow> user_error option \<times> manager" where
  "bindUser snapshot user ctx m =
     (case (snapshot, user) of
        (Some s, Some name) \<Rightarrow> bind_session ctx (map_of (us_identities s) name) m
      | _ \<Rightarrow> (Some ErrRevoked, m))"

text \<open>VLESS and VMess bind the token of the identity; the user of the connection is its name, and nothing for unnamed users.\<close>

definition bind_identity :: "user_identity \<Rightarrow> sess_ctx \<Rightarrow> manager \<Rightarrow> (user_error + string) \<times> manager" where
  "bind_identity u ctx m =
     (case bind_session ctx (ui_token u) m of
        (Some e, m') \<Rightarrow> (Inl e, m')
      | (None, m') \<Rightarrow> (Inr (ui_name u), m'))"

section \<open>Logins\<close>

lemma option_case_id: "(case x of None \<Rightarrow> None | Some u \<Rightarrow> Some u) = x"
  by (cases x) auto

text \<open>A later user overrides an earlier one with the same id.\<close>

lemma vless_users_map:
  "length us = length ids \<Longrightarrow> length us = length flows \<Longrightarrow>
     map_of (vs_user_map (vless_users L us ids flows s)) uid =
       (case map_of (rev (zip (map (service_uuid L) ids) us)) uid of Some u \<Rightarrow> Some u | None \<Rightarrow> map_of (vs_user_map s) uid)"
proof (induction L us ids flows s rule: vless_users.induct)
  case (1 L v us i ids f flows s)
  have "length us = length ids" "length us = length flows" using "1.prems" by simp_all
  note IH = "1.IH" [OF this]
  show ?case unfolding vless_users.simps IH by (auto simp: map_add_def split: option.split)
qed auto

lemma map_of_rev_zip:
  "length ks = length vs \<Longrightarrow> map_of (rev (zip ks vs)) x = Some y \<longleftrightarrow>
     (\<exists>k < length ks. ks ! k = x \<and> vs ! k = y \<and> (\<forall>j. k < j \<and> j < length ks \<longrightarrow> ks ! j \<noteq> x))"
proof (induction ks arbitrary: vs rule: rev_induct)
  case (snoc k ks ws)
  then obtain vs v where ws: "ws = vs @ [v]" and len: "length ks = length vs" by (cases ws rule: rev_cases) auto
  note IH = snoc.IH [OF len]
  show ?case
  proof (cases "k = x")
    case True
    then show ?thesis using len unfolding ws by (auto simp: nth_append less_Suc_eq intro!: exI [of _ "length ks"])
  next
    case False
    then have "map_of (rev (zip (ks @ [k]) (vs @ [v]))) x = map_of (rev (zip ks vs)) x" using len by simp
    moreover have "(\<exists>i < length (ks @ [k]). (ks @ [k]) ! i = x \<and> (vs @ [v]) ! i = y \<and> (\<forall>j. i < j \<and> j < length (ks @ [k]) \<longrightarrow> (ks @ [k]) ! j \<noteq> x)) \<longleftrightarrow>
      (\<exists>i < length ks. ks ! i = x \<and> vs ! i = y \<and> (\<forall>j. i < j \<and> j < length ks \<longrightarrow> ks ! j \<noteq> x))"
      using False len by (auto simp: nth_append less_Suc_eq)
    ultimately show ?thesis unfolding ws using IH by simp
  qed
qed auto

lemma vless_users_flow:
  "length us = length ids \<Longrightarrow> length us = length flows \<Longrightarrow> distinct us \<Longrightarrow>
     map_of (vs_user_flow (vless_users L us ids flows s)) u =
       (case map_of (zip us flows) u of Some f \<Rightarrow> Some f | None \<Rightarrow> map_of (vs_user_flow s) u)"
proof (induction L us ids flows s rule: vless_users.induct)
  case (1 L v us i ids f flows s)
  have new: "map_of (zip us flows) v = None" using "1.prems" by (auto simp: map_of_eq_None_iff dest: set_zip_leftD)
  have "length us = length ids" "length us = length flows" "distinct us" using "1.prems" by simp_all
  note IH = "1.IH" [OF this]
  show ?case unfolding vless_users.simps IH using new by (auto split: option.split)
qed auto

lemma map_of_zip_nth_iff:
  "length ks = length vs \<Longrightarrow> distinct ks \<Longrightarrow> map_of (zip ks vs) x = Some y \<longleftrightarrow> (\<exists>k < length ks. ks ! k = x \<and> vs ! k = y)"
  by (auto simp: map_of_eq_Some_iff set_zip)

lemma vless_fingerprints_Inr:
  "vless_fingerprints L ktls index users fps = Inr fps' \<Longrightarrow> gomap_wf fps \<Longrightarrow>
     gomap_wf fps' \<and> (\<forall>k < length users. map_of fps' (user_key (vl_name (users ! k)) (index + k)) = Some (ul_vless_fingerprint L (users ! k))) \<and>
     (\<forall>key v. map_of fps key = Some v \<longrightarrow> map_of fps' key = Some v)"
proof (induction users arbitrary: index fps)
  case (Cons u users)
  let ?key = "user_key (vl_name u) index" and ?fps = "AList.update (user_key (vl_name u) index) (ul_vless_fingerprint L u) fps"
  have rest: "vless_fingerprints L ktls (Suc index) users ?fps = Inr fps'" and new: "map_of fps ?key = None"
    using Cons.prems(1) by (auto simp: Let_def split: if_splits)
  have IH: "gomap_wf fps'" "\<forall>k < length users. map_of fps' (user_key (vl_name (users ! k)) (Suc index + k)) = Some (ul_vless_fingerprint L (users ! k))"
    "\<forall>key v. map_of ?fps key = Some v \<longrightarrow> map_of fps' key = Some v"
    using Cons.IH [OF rest] Cons.prems(2) by auto
  then have "map_of fps' ?key = Some (ul_vless_fingerprint L u)" by simp
  moreover have "map_of fps key = Some v \<Longrightarrow> map_of fps' key = Some v" for key v using IH(3) new by (cases "key = ?key") auto
  ultimately show ?case using IH(1,2) by (auto simp: less_Suc_eq_0_disj)
qed simp

lemma identities_nth:
  "k < length names \<Longrightarrow> identities tokens names ! k = \<lparr>ui_name = names ! k, ui_index = k, ui_token = map_of tokens (user_key (names ! k) k)\<rparr>"
  by (simp add: identities_def nth_enumerate_eq)

lemma identities_distinct: "length (identities tokens names) = length names" "distinct (identities tokens names)"
proof -
  show len: "length (identities tokens names) = length names" by (simp add: identities_def)
  show "distinct (identities tokens names)"
    unfolding distinct_conv_nth len by (auto simp: identities_nth)
qed

lemma table_prepare_tokens:
  assumes "table_prepare t fps force m = (tokens, p, m1)"
  shows "map_of tokens key = map_option e_identity (map_of (p_next p) key)"
  using assms by (auto simp: table_prepare_def Let_def map_of_map split: prod.splits)

text \<open>C13: VLESS logins after an update. Once a prepared list of users is published, a request is authenticated exactly when its UUID and
  its flow are those of a user that no later user with the same UUID overrides (and it is not a UDP request with the vision flow); it
  gets the identity that the table of the inbound holds for this user, and this identity is valid.\<close>

theorem vless_logins:
  assumes ok: "tables_ok m" and prep: "vless_prepareUsers L h users changed m = (Inr (p, VLESSUsers s), m1)"
    and pub: "publish p m1 = (r, m2)"
  shows "vless_authenticate L s uid flow command = Inr u \<longleftrightarrow>
    (\<exists>k < length users. \<exists>e. uid = service_uuid L (vl_uuid (users ! k)) \<and> (\<forall>j. k < j \<and> j < length users \<longrightarrow> uid \<noteq> service_uuid L (vl_uuid (users ! j))) \<and>
      flow = vl_flow (users ! k) \<and> \<not> (flow = FlowVision \<and> command = CommandUDP) \<and>
      map_of (m_tables m2 (ib_table h)) (user_key (vl_name (users ! k)) k) = Some e \<and> id_valid (m_idents m2 (e_identity e)) \<and>
      u = \<lparr>ui_name = vl_name (users ! k), ui_index = k, ui_token = Some (e_identity e)\<rparr>)"
proof -
  obtain fps where fps: "vless_fingerprints L (ib_kernel_tls h) 0 users [] = Inr fps"
    using prep by (auto simp: vless_prepareUsers_def split: sum.splits)
  obtain tokens p' m1' where tp: "table_prepare (ib_table h) fps (forced changed) m = (tokens, p', m1')" by (metis prod_cases3)
  have p': "p' = p" "m1' = m1" and s: "s = vless_UpdateUsers L (identities tokens (map vl_name users)) (map vl_uuid users) (map vl_flow users)"
    using prep fps tp by (auto simp: vless_prepareUsers_def)
  note tp = tp [unfolded p'] and pp = prepare_publish [OF tp [unfolded p'] pub]
  define us where "us = identities tokens (map vl_name users)"
  have us: "length us = length users" "distinct us" by (simp_all add: us_def identities_distinct)
  have entry: "\<exists>e. map_of (m_tables m2 (ib_table h)) (user_key (vl_name (users ! k)) k) = Some e \<and> id_valid (m_idents m2 (e_identity e)) \<and>
      us ! k = \<lparr>ui_name = vl_name (users ! k), ui_index = k, ui_token = Some (e_identity e)\<rparr>" if k: "k < length users" for k
  proof -
    have "map_of fps (user_key (vl_name (users ! k)) k) = Some (ul_vless_fingerprint L (users ! k))"
      using vless_fingerprints_Inr [OF fps] k by simp
    then obtain e where e: "map_of (p_next p) (user_key (vl_name (users ! k)) k) = Some e"
      using prepare_entries_lookup [OF pp(1), of "user_key (vl_name (users ! k)) k"] by auto
    then show ?thesis
      using update_valid [OF ok tp pub e] pp(3) k table_prepare_tokens [OF tp] by (simp add: us_def identities_nth)
  qed
  have look: "map_of (vs_user_map s) uid = map_of (rev (zip (map (service_uuid L \<circ> vl_uuid) users) us)) uid"
    "map_of (vs_user_flow s) v = map_of (zip us (map vl_flow users)) v" for uid v
    using vless_users_map [of us "map vl_uuid users" "map vl_flow users" L "\<lparr>vs_user_map = [], vs_user_flow = []\<rparr>" uid]
      vless_users_flow [of us "map vl_uuid users" "map vl_flow users" L "\<lparr>vs_user_map = [], vs_user_flow = []\<rparr>" v] us
    by (simp_all add: s vless_UpdateUsers_def us_def [symmetric] option_case_id cong: option.case_cong)
  define own where "own k \<longleftrightarrow> uid = service_uuid L (vl_uuid (users ! k)) \<and> (\<forall>j. k < j \<and> j < length users \<longrightarrow> uid \<noteq> service_uuid L (vl_uuid (users ! j)))" for k
  have own_unique: "j = k" if "own j" "own k" "j < length users" "k < length users" for j k
    using that unfolding own_def by (cases j k rule: linorder_cases) blast+
  have flow_of: "map_of (vs_user_flow s) (us ! k) = Some (vl_flow (users ! k))" if "k < length users" for k
    unfolding look using us that by (subst map_of_zip_nth_iff) auto
  have user_of: "map_of (vs_user_map s) uid = Some v \<longleftrightarrow> (\<exists>k < length users. own k \<and> v = us ! k)" for v
  proof -
    have "length (map (service_uuid L \<circ> vl_uuid) users) = length us" using us by simp
    moreover have "map (service_uuid L \<circ> vl_uuid) users ! k = uid \<and> us ! k = v \<and> (\<forall>j. k < j \<and> j < length users \<longrightarrow> map (service_uuid L \<circ> vl_uuid) users ! j \<noteq> uid) \<longleftrightarrow>
        own k \<and> v = us ! k" if "k < length users" for k
      using that by (auto simp: own_def eq_commute)
    ultimately show ?thesis unfolding look map_of_rev_zip [OF \<open>length _ = length us\<close>] length_map by blast
  qed
  have found: "vless_authenticate L s uid flow command = Inr u \<longleftrightarrow> (\<exists>k < length users. own k \<and>
      flow = vl_flow (users ! k) \<and> \<not> (flow = FlowVision \<and> command = CommandUDP) \<and> u = us ! k)"
  proof (cases "map_of (vs_user_map s) uid")
    case None
    then have "\<not> (\<exists>k < length users. own k)" using user_of by auto
    then show ?thesis using None by (auto simp: vless_authenticate_def)
  next
    case (Some v)
    then obtain k where k: "k < length users" "own k" "v = us ! k" using user_of by blast
    then have "(\<exists>j < length users. own j \<and> P j) \<longleftrightarrow> P k" for P using own_unique by blast
    then show ?thesis using Some k(3) flow_of [OF k(1)] by (auto simp: vless_authenticate_def Let_def)
  qed
  have "(\<exists>e. map_of (m_tables m2 (ib_table h)) (user_key (vl_name (users ! k)) k) = Some e \<and> id_valid (m_idents m2 (e_identity e)) \<and>
      u = \<lparr>ui_name = vl_name (users ! k), ui_index = k, ui_token = Some (e_identity e)\<rparr>) \<longleftrightarrow> u = us ! k" if "k < length users" for k
    using entry [OF that] by auto
  then show ?thesis unfolding found own_def by (intro ex_cong1) blast
qed

definition demo_user_libs :: user_libs where
  "demo_user_libs = \<lparr>ul_uuid_from = Some, ul_uuid_v5 = (\<lambda>s. s), ul_uuid_text = (\<lambda>s. s), ul_vless_fingerprint = vl_uuid, ul_vmess_fingerprint = vm_uuid,
     ul_socks_fingerprint = so_password, ul_alter_id = (\<lambda>s. s), ul_new_cipher = (\<lambda>_. None)\<rparr>"

definition demo_vless :: user_inbound where
  "demo_vless = \<lparr>ib_type = ''vless'', ib_table = 0, ib_kernel_tls = False, ib_credentials = VLESSUsers \<lparr>vs_user_map = [], vs_user_flow = []\<rparr>\<rparr>"

text \<open>Two users with the same UUID; the second one overrides the first.\<close>

definition demo_vless_users :: "vless_user list" where
  "demo_vless_users = [\<lparr>vl_name = ''alice'', vl_uuid = ''a'', vl_flow = []\<rparr>, \<lparr>vl_name = ''bob'', vl_uuid = ''a'', vl_flow = []\<rparr>]"

theorem vless_logins_witness:
  "\<exists>p s m1. vless_prepareUsers demo_user_libs demo_vless demo_vless_users None (new_manager 7) = (Inr (p, VLESSUsers s), m1) \<and>
     vless_authenticate demo_user_libs s ''a'' [] 1 = Inr \<lparr>ui_name = ''bob'', ui_index = 1, ui_token = Some 1\<rparr> \<and>
     id_valid (m_idents (snd (publish p m1)) 1)"
proof -
  obtain p s m1 where prep: "vless_prepareUsers demo_user_libs demo_vless demo_vless_users None (new_manager 7) = (Inr (p, VLESSUsers s), m1)"
    and auth: "vless_authenticate demo_user_libs s ''a'' [] 1 = Inr \<lparr>ui_name = ''bob'', ui_index = 1, ui_token = Some 1\<rparr>"
    by (auto simp: vless_prepareUsers_def demo_vless_users_def demo_user_libs_def demo_vless_def user_key_def table_prepare_def
        prepare_entry_def new_identity_def new_manager_def vless_UpdateUsers_def identities_def service_uuid_def
        vless_authenticate_def FlowVision_def forced_def)
  obtain r m2 where pub: "publish p m1 = (r, m2)" by (cases "publish p m1")
  from iffD1 [OF vless_logins [OF tables_ok_new_manager prep pub] auth] have "id_valid (m_idents (snd (publish p m1)) 1)"
    by (auto simp: pub)
  then show ?thesis by (intro exI [of _ p] exI [of _ s] exI [of _ m1] conjI prep auth)
qed

text \<open>SOCKS stays authenticated. Once a SOCKS inbound requires authentication it does so after every update, so no connection is
  admitted anonymously; an update that leaves no user is accepted only when authentication is required explicitly,
  and then every connection is refused.\<close>

theorem socks_stays_authenticated:
  assumes old: "ib_credentials h = SocksUsers s0" "us_required s0 \<or> users \<noteq> []"
    and upd: "PrepareUserUpdate L h (SocksOptions users requireAuth) changed m = (Inr (p, c), m1)"
  shows "\<exists>s. c = SocksUsers s \<and> us_required s \<and> socks_admission s = (if users = [] then SocksRefused else SocksAuthenticate) \<and>
    (users = [] \<longrightarrow> requireAuth)"
proof -
  have upd': "socks_prepareUsers L h users requireAuth (Some changed) m = (Inr (p, c), m1)"
    using upd old(1) by (simp add: PrepareUserUpdate_def)
  obtain fps where fps: "socks_fingerprints L users [] = Inr fps"
    using upd' by (cases "socks_fingerprints L users []") (simp_all add: socks_prepareUsers_def)
  obtain tokens p' m' where tp: "table_prepare (ib_table h) fps (forced (Some changed)) m = (tokens, p', m')" by (metis prod_cases3)
  have "\<not> (users = [] \<and> \<not> requireAuth)" and c: "c = SocksUsers \<lparr>us_required = True, us_authenticator = map (\<lambda>u. (so_username u, so_password u)) users,
      us_identities = tokens\<rparr>"
    using upd' old by (auto simp: socks_prepareUsers_def fps tp split: if_splits)
  then show ?thesis by (auto simp: c socks_admission_def)
qed

theorem socks_stays_authenticated_witness:
  "\<exists>p s m1. PrepareUserUpdate demo_user_libs (demo_vless\<lparr>ib_credentials := SocksUsers \<lparr>us_required = True, us_authenticator = [(''a'', ''b'')], us_identities = []\<rparr>\<rparr>)
       (SocksOptions [] True) {} (new_manager 7) = (Inr (p, SocksUsers s), m1) \<and> socks_admission s = SocksRefused"
proof -
  let ?h = "demo_vless\<lparr>ib_credentials := SocksUsers \<lparr>us_required = True, us_authenticator = [(''a'', ''b'')], us_identities = []\<rparr>\<rparr>"
  obtain p c m1 where "PrepareUserUpdate demo_user_libs ?h (SocksOptions [] True) {} (new_manager 7) = (Inr (p, c), m1)"
    by (auto simp: PrepareUserUpdate_def socks_prepareUsers_def table_prepare_def)
  moreover from socks_stays_authenticated [OF _ _ this] obtain s where "c = SocksUsers s" "socks_admission s = SocksRefused" by auto
  ultimately show ?thesis by blast
qed

end
