(* ===== verification/User_Reload.thy ===== *)
theory User_Reload
  imports Reload_Plan Inbound_Users Rule_Snapshot Outbound_Manager
begin

text \<open>
  The reload of users in the running program (\<^verbatim>\<open>user_reload.go\<close>, \<^verbatim>\<open>hot_add.go\<close>): an update is planned, prepared in the inbounds, the
  router and the outbound manager, and then published in all of them under the gate of the user state. Every function
  runs under \<^verbatim>\<open>reloadMu\<close>, so the operations are sequential.

  Encoding options to JSON and decoding them, which the JSON library does by reflection over the option types, are parameters; so
  are the constructors of outbounds and everything the components take as parameters themselves.
\<close>

text \<open>The options; \<open>op_route\<close> holds the rules of \<^verbatim>\<open>Route\<close>, which may be nil.\<close>

record options =
  op_inbounds :: "(string \<times> inbound_options) list"
  op_outbounds :: "outbound_options list"
  op_route :: "rule_options list option"
  op_other :: json

definition op_rules :: "options \<Rightarrow> rule_options list" where
  "op_rules updated = (case op_route updated of None \<Rightarrow> [] | Some rules \<Rightarrow> rules)"

lemma op_rules_Some [simp]: "op_route updated = Some rules \<Longrightarrow> op_rules updated = rules"
  by (simp add: op_rules_def)

record runtime_status =
  rs_active_sessions :: nat
  rs_instance_id :: string
  rs_revision :: "64 word"
  rs_content_hash :: string
  rs_closed_sessions :: nat
  rs_cleanup_pending :: bool

text \<open>An inbound that has no method \<^verbatim>\<open>PrepareUserUpdate\<close> is \<open>None\<close> in the map of inbounds.\<close>

record box =
  bx_closed :: bool
  bx_view :: "runtime_status option"
  bx_instance :: string
  bx_revision :: "64 word"
  bx_options :: options
  bx_users :: manager
  bx_inbounds :: "(string, user_inbound option) gomap"
  bx_router :: rule_router
  bx_outbound :: outbound_manager

record reload_libs =
  rl_plan :: plan_libs
  rl_users :: user_libs
  rl_marshal :: "options \<Rightarrow> go_error + row"
  rl_unmarshal :: "row \<Rightarrow> go_error + options"
  rl_instance_id :: string
  rl_rule_libs :: libs
  rl_action_libs :: action_libs
  rl_services :: services
  rl_rule_sets :: "string \<Rightarrow> rule_set option"
  rl_life :: life
  rl_registry :: registry
  rl_endpoints :: tag_manager

abbreviation config :: "reload_libs \<Rightarrow> options \<Rightarrow> go_error + row" where
  "config L \<equiv> configObject (rl_marshal L)"

abbreviation hash_of :: "reload_libs \<Rightarrow> row \<Rightarrow> string" where
  "hash_of L object \<equiv> fingerprint_json (rl_plan L) (JObj object)"

section \<open>Status\<close>

definition publishRuntimeStatusLocked :: "string \<Rightarrow> box \<Rightarrow> runtime_status \<times> box" where
  "publishRuntimeStatusLocked hash b =
     (let status = \<lparr>rs_active_sessions = 0, rs_instance_id = bx_instance b, rs_revision = bx_revision b, rs_content_hash = hash,
                    rs_closed_sessions = 0, rs_cleanup_pending = False\<rparr>
      in (status\<lparr>rs_active_sessions := session_count (bx_users b)\<rparr>, b\<lparr>bx_view := Some status\<rparr>))"

definition statusLocked :: "reload_libs \<Rightarrow> box \<Rightarrow> runtime_status \<times> box" where
  "statusLocked L b =
     (case bx_view b of
        Some view \<Rightarrow> (view\<lparr>rs_active_sessions := session_count (bx_users b)\<rparr>, b)
      | None \<Rightarrow>
          publishRuntimeStatusLocked
            (fingerprint_json (rl_plan L) (case config L (bx_options b) of Inr object \<Rightarrow> JObj object | Inl _ \<Rightarrow> JNull))
            (if bx_instance b = [] then b\<lparr>bx_instance := rl_instance_id L\<rparr> else b))"

definition UserRuntimeStatus :: "reload_libs \<Rightarrow> box \<Rightarrow> runtime_status \<times> box" where
  "UserRuntimeStatus L b =
     (case bx_view b of
        Some view \<Rightarrow> (view\<lparr>rs_active_sessions := session_count (bx_users b)\<rparr>, b)
      | None \<Rightarrow> statusLocked L b)"

section \<open>Preparing the inbounds\<close>

text \<open>\<open>Inl\<close> carries the error; the manager changes also then, as fresh identities may have been made.\<close>

fun prepare_inbounds ::
  "reload_libs \<Rightarrow> (string, user_inbound option) gomap \<Rightarrow> (string \<times> inbound_options) list \<Rightarrow> string set \<Rightarrow> nat list \<Rightarrow> manager \<Rightarrow>
     (go_error + (string \<times> publication \<times> credentials) list) \<times> manager" where
  "prepare_inbounds L inbounds options changed [] m = (Inr [], m)"
| "prepare_inbounds L inbounds options changed (index # indexes) m =
     (if length options \<le> index then (Inl (EPanic ''index out of range''), m)
      else
        let (tag, raw) = options ! index
        in case map_of inbounds tag of
             None \<Rightarrow> (Inl (ENew ''dynamic inbound is unavailable''), m)
           | Some None \<Rightarrow> (Inl ErrUnsupportedUserUpdate, m)
           | Some (Some h) \<Rightarrow>
               (case PrepareUserUpdate (rl_users L) h raw changed m of
                  (Inl e, m1) \<Rightarrow> (Inl e, m1)
                | (Inr (p, c), m1) \<Rightarrow>
                    let (r, m2) = prepare_inbounds L inbounds options changed indexes m1
                    in (rbind r (\<lambda>ps. Inr ((tag, p, c) # ps)), m2)))"

definition store_credentials :: "string \<times> publication \<times> credentials \<Rightarrow> (string, user_inbound option) gomap \<Rightarrow> (string, user_inbound option) gomap" where
  "store_credentials = (\<lambda>(tag, p, c) inbounds.
     case map_of inbounds tag of
       Some (Some h) \<Rightarrow> AList.update tag (Some (h\<lparr>ib_credentials := c\<rparr>)) inbounds
     | _ \<Rightarrow> inbounds)"

section \<open>Reload\<close>

text \<open>The preparation of an accepted plan, in the order of the code; on an error what was prepared is given up.\<close>

record prepared_update =
  pu_users :: "(string \<times> publication \<times> credentials) list"
  pu_rules :: prepared_rules
  pu_outbounds :: "component list"

definition prepare_update :: "reload_libs \<Rightarrow> user_update_plan \<Rightarrow> options \<Rightarrow> box \<Rightarrow> (go_error + prepared_update) \<times> box" where
  "prepare_update L plan updated b =
     (case prepare_inbounds L (bx_inbounds b) (op_inbounds updated) (changedNames plan) (inboundIndexes plan) (bx_users b) of
        (Inl e, m) \<Rightarrow> (Inl e, b\<lparr>bx_users := m\<rparr>)
      | (Inr users, m) \<Rightarrow>
          (case PrepareAddedRules (rl_rule_libs L) (rl_action_libs L) (rl_services L) (rl_rule_sets L) (op_rules updated) (ruleIndexes plan) (bx_router b) of
             (Inl e, r) \<Rightarrow> (Inl e, b\<lparr>bx_users := m, bx_router := r\<rparr>)
           | (Inr rules, r) \<Rightarrow>
               if \<not> list_all (\<lambda>i. i < length (op_outbounds updated)) (outboundIndexes plan)
               then (Inl (EPanic ''index out of range''), b\<lparr>bx_users := m, bx_router := r\<rparr>)
               else
                 (case outbound_PrepareUserUpdate (rl_life L) (rl_registry L) (rl_endpoints L) (map ((!) (op_outbounds updated)) (outboundIndexes plan))
                         (removedOutbounds plan) (bx_outbound b) of
                    (Inl e, om) \<Rightarrow> (Inl e, b\<lparr>bx_users := m, bx_router := abortRules rules r, bx_outbound := om\<rparr>)
                  | (Inr outs, om) \<Rightarrow>
                      (Inr \<lparr>pu_users = users, pu_rules = rules, pu_outbounds = outs\<rparr>, b\<lparr>bx_users := m, bx_router := r, bx_outbound := om\<rparr>))))"

text \<open>The publication under the gate, the new revision and the cleanup.\<close>

definition publish_update :: "reload_libs \<Rightarrow> user_update_plan \<Rightarrow> prepared_update \<Rightarrow> options \<Rightarrow> row \<Rightarrow> box \<Rightarrow> runtime_status \<times> box" where
  "publish_update L plan u updated after b =
     (let (retired, om) = outbound_publish (pu_outbounds u) (removedOutbounds plan) (bx_outbound b);
          (closed, m) = commit (publish_all (map (fst \<circ> snd) (pu_users u))) (bx_users b);
          b1 = b\<lparr>bx_outbound := om, bx_router := publishRules (pu_rules u) (bx_router b), bx_users := m,
                 bx_inbounds := fold store_credentials (pu_users u) (bx_inbounds b), bx_options := updated, bx_revision := bx_revision b + 1\<rparr>;
          (status, b2) = publishRuntimeStatusLocked (hash_of L after) b1;
          (err, om2) = outbound_cleanup (rl_life L) retired (bx_outbound b2)
      in (status\<lparr>rs_closed_sessions := closed, rs_cleanup_pending := (err \<noteq> None)\<rparr>, b2\<lparr>bx_outbound := om2\<rparr>))"

definition reloadUsersLocked ::
  "reload_libs \<Rightarrow> options \<Rightarrow> 64 word option \<Rightarrow> string \<Rightarrow> box \<Rightarrow> (runtime_status \<times> go_error option) \<times> box" where
  "reloadUsersLocked L updated expectedRevision expectedInstance b0 =
     (let (status, b) = statusLocked L b0
      in if bx_closed b then ((status, Some (ENew ''instance is closed'')), b)
         else if expectedInstance \<noteq> [] \<and> expectedInstance \<noteq> rs_instance_id status then ((status, Some ErrRuntimeConflict), b)
         else case config L updated of
           Inl e \<Rightarrow> ((status, Some e), b)
         | Inr after \<Rightarrow>
             if hash_of L after = rs_content_hash status then ((status, None), b)
             else if expectedRevision \<noteq> None \<and> expectedRevision \<noteq> Some (rs_revision status) then ((status, Some ErrRuntimeConflict), b)
             else case rbind (config L (bx_options b)) (\<lambda>before.
                       rbind (planUserUpdate (rl_plan L) before after) (\<lambda>plan. rbind (rl_unmarshal L after) (\<lambda>private. Inr (plan, private)))) of
               Inl e \<Rightarrow> ((status, Some e), b)
             | Inr (plan, private) \<Rightarrow>
                 (case prepare_update L plan private b of
                    (Inl e, b1) \<Rightarrow> ((status, Some e), b1)
                  | (Inr u, b1) \<Rightarrow> let (s, b2) = publish_update L plan u private after b1 in ((s, None), b2)))"

definition ReloadUsers ::
  "reload_libs \<Rightarrow> options \<Rightarrow> 64 word option \<Rightarrow> string \<Rightarrow> box \<Rightarrow> (runtime_status \<times> go_error option) \<times> box" where
  "ReloadUsers L updated expectedRevision expectedInstance b = reloadUsersLocked L updated expectedRevision expectedInstance b"

definition TryAdditiveReload :: "reload_libs \<Rightarrow> options \<Rightarrow> box \<Rightarrow> (bool \<times> go_error option) \<times> box" where
  "TryAdditiveReload L updated b = (let ((_, err), b') = ReloadUsers L updated None [] b in ((True, err), b'))"

definition ReloadUserRoutes ::
  "reload_libs \<Rightarrow> rule_options list \<Rightarrow> outbound_options list \<Rightarrow> 64 word option \<Rightarrow> string \<Rightarrow> box \<Rightarrow> (runtime_status \<times> go_error option) \<times> box" where
  "ReloadUserRoutes L rules outbounds expectedRevision expectedInstance b0 =
     (let (status, b) = statusLocked L b0
      in if expectedRevision = None \<or> expectedInstance \<noteq> rs_instance_id status \<or> expectedRevision \<noteq> Some (rs_revision status)
         then ((status, Some ErrRuntimeConflict), b)
         else case rbind (config L (bx_options b)) (rl_unmarshal L) of
           Inl e \<Rightarrow> ((status, Some e), b)
         | Inr updated \<Rightarrow>
             let updated1 = (if op_route updated = None then updated\<lparr>op_route := Some []\<rparr> else updated)
             in reloadUsersLocked L (updated1\<lparr>op_route := Some rules, op_outbounds := outbounds\<rparr>) expectedRevision expectedInstance b)"

text \<open>\<^verbatim>\<open>New\<close> keeps a private copy of the options it is given.\<close>

definition cloneRuntimeOptions :: "reload_libs \<Rightarrow> options \<Rightarrow> go_error + options" where
  "cloneRuntimeOptions L options = rbind (config L options) (rl_unmarshal L)"

definition PreviewUserUpdate :: "reload_libs \<Rightarrow> options \<Rightarrow> box \<Rightarrow> (runtime_status \<times> string \<times> bool \<times> go_error option) \<times> box" where
  "PreviewUserUpdate L updated b0 =
     (let (status, b) = statusLocked L b0
      in case config L updated of
           Inl e \<Rightarrow> ((status, [], False, Some e), b)
         | Inr after \<Rightarrow>
             if hash_of L after = rs_content_hash status then ((status, hash_of L after, True, None), b)
             else case config L (bx_options b) of
               Inl e \<Rightarrow> ((status, [], False, Some e), b)
             | Inr before \<Rightarrow> ((status, hash_of L after, \<not> isl (planUserUpdate (rl_plan L) before after), None), b))"

definition FenceUserRuntime :: "reload_libs \<Rightarrow> 64 word \<Rightarrow> string \<Rightarrow> box \<Rightarrow> (runtime_status \<times> go_error option) \<times> box" where
  "FenceUserRuntime L expectedRevision expectedInstance b0 =
     (let (status, b) = statusLocked L b0
      in if bx_closed b then ((status, Some (ENew ''instance is closed'')), b)
         else if expectedInstance \<noteq> rs_instance_id status \<or> expectedRevision \<noteq> rs_revision status
         then ((status, Some ErrRuntimeConflict), b)
         else let (s, b') = publishRuntimeStatusLocked (rs_content_hash status) (b\<lparr>bx_revision := bx_revision b + 1\<rparr>) in ((s, None), b'))"

end
