(* ===== verification/User_Publications.thy ===== *)
theory User_Publications
  imports User_Sessions
begin

text \<open>
  Several tables of users in one transaction: the publications of a reload are prepared one after the other and published
  together under the gate. The lemmas describe the outcome for every entry of every table.
\<close>

text \<open>What preparing leaves alone.\<close>

definition users_untouched :: "manager \<Rightarrow> manager \<Rightarrow> bool" where
  "users_untouched m m' \<longleftrightarrow> same_sessions m m' \<and> m_tables m' = m_tables m \<and> m_next_ident m \<le> m_next_ident m' \<and>
     (\<forall>j < m_next_ident m. m_idents m' j = m_idents m j)"

lemma users_untouched_refl [simp]: "users_untouched m m"
  by (simp add: users_untouched_def)

lemma users_untouched_trans: "users_untouched a b \<Longrightarrow> users_untouched b c \<Longrightarrow> users_untouched a c"
  unfolding users_untouched_def by (auto intro: same_sessions_trans)

lemma table_prepare_untouched: "table_prepare t fps force m = (ids, p, m') \<Longrightarrow> users_untouched m m'"
  using table_prepare_frame [of t fps force m] by (simp add: users_untouched_def)

lemma tables_ok_untouched: "tables_ok m \<Longrightarrow> users_untouched m m' \<Longrightarrow> tables_ok m'"
  unfolding tables_ok_def users_untouched_def same_sessions_def by (auto, (metis order_less_le_trans)+)

text \<open>What a publication was prepared for: the table, the fingerprints and the forced names, in the manager \<open>m\<close> as it was before the first
  of the preparations.\<close>

definition prepared_for :: "manager \<Rightarrow> (string \<Rightarrow> bool) \<Rightarrow> (string, string) gomap \<Rightarrow> publication \<Rightarrow> bool" where
  "prepared_for m force fps p \<longleftrightarrow> gomap_wf (p_next p) \<and> p_retired p = retired_identities (m_tables m (p_table p)) (p_next p) \<and>
     (\<forall>name. case map_of fps name of
        None \<Rightarrow> map_of (p_next p) name = None
      | Some fp \<Rightarrow> \<exists>e. map_of (p_next p) name = Some e \<and> e_fingerprint e = fp \<and>
          (if \<exists>old. map_of (m_tables m (p_table p)) name = Some old \<and> e_fingerprint old = fp \<and> \<not> force name
           then map_of (m_tables m (p_table p)) name = Some e else m_next_ident m \<le> e_identity e))"

lemma prepared_forI:
  assumes prep: "table_prepare t fps force m' = (ids, p, m'')" and wf: "gomap_wf fps"
    and m': "m_tables m' = m_tables m" "m_next_ident m \<le> m_next_ident m'"
  shows "prepared_for m force fps p" "p_table p = t"
proof -
  have n: "prepare_entries (m_tables m' t) force fps m' = (p_next p, m'')" and p: "p_table p = t" "p_retired p = retired_identities (m_tables m' t) (p_next p)"
    using prep by (auto simp: table_prepare_def Let_def split: prod.splits)
  have "gomap_wf (p_next p)" using prepare_entries_names [OF n] wf by simp
  moreover have "case map_of fps name of None \<Rightarrow> map_of (p_next p) name = None
      | Some fp \<Rightarrow> \<exists>e. map_of (p_next p) name = Some e \<and> e_fingerprint e = fp \<and>
          (if \<exists>old. map_of (m_tables m t) name = Some old \<and> e_fingerprint old = fp \<and> \<not> force name
           then map_of (m_tables m t) name = Some e else m_next_ident m \<le> e_identity e)" for name
    using prepare_entries_lookup [OF n, of name] m' by (auto simp: entry_for_def split: option.splits if_splits)
  ultimately show "prepared_for m force fps p" unfolding prepared_for_def p(1) using p(2) m'(1) by simp
  show "p_table p = t" by (rule p(1))
qed

section \<open>Identities of a publication\<close>

definition next_ids :: "publication \<Rightarrow> nat set" where
  "next_ids p = {e_identity e | name e. map_of (p_next p) name = Some e}"

lemma set_next_ids: "gomap_wf (p_next p) \<Longrightarrow> set (map (\<lambda>(_, e). e_identity e) (p_next p)) = next_ids p"
  by (auto simp: next_ids_def map_of_eq_Some_iff image_iff)

lemma next_ids_prepared:
  assumes "prepared_for m force fps p" "i \<in> next_ids p"
  shows "(\<exists>name e. map_of (m_tables m (p_table p)) name = Some e \<and> map_of (p_next p) name = Some e \<and> e_identity e = i) \<or> m_next_ident m \<le> i"
proof -
  obtain name e where e: "map_of (p_next p) name = Some e" "e_identity e = i" using assms(2) by (auto simp: next_ids_def)
  have "case map_of fps name of None \<Rightarrow> map_of (p_next p) name = None
      | Some fp \<Rightarrow> \<exists>e. map_of (p_next p) name = Some e \<and> e_fingerprint e = fp \<and>
          (if \<exists>old. map_of (m_tables m (p_table p)) name = Some old \<and> e_fingerprint old = fp \<and> \<not> force name
           then map_of (m_tables m (p_table p)) name = Some e else m_next_ident m \<le> e_identity e)"
    using assms(1) unfolding prepared_for_def by blast
  then show ?thesis using e by (auto split: option.splits if_splits)
qed

lemma retired_prepared:
  assumes ok: "tables_ok m" and p: "prepared_for m force fps p"
  shows "i \<in> set (p_retired p) \<longleftrightarrow>
    (\<exists>name e. map_of (m_tables m (p_table p)) name = Some e \<and> e_identity e = i \<and> map_option e_identity (map_of (p_next p) name) \<noteq> Some i)"
  using p tables_okD(1) [OF ok, of "p_table p"]
  by (auto simp: prepared_for_def retired_identities_def image_iff map_of_eq_Some_iff Bex_def)

lemma retired_next_disjoint:
  assumes ok: "tables_ok m" and p: "prepared_for m force fps p" and q: "prepared_for m force' fps' q"
    and same: "p_table p = p_table q \<Longrightarrow> p = q"
  shows "set (p_retired p) \<inter> next_ids q = {}"
proof (rule ccontr)
  assume "set (p_retired p) \<inter> next_ids q \<noteq> {}"
  then obtain i where i: "i \<in> set (p_retired p)" "i \<in> next_ids q" by blast
  obtain name e where e: "map_of (m_tables m (p_table p)) name = Some e" "e_identity e = i" "map_option e_identity (map_of (p_next p) name) \<noteq> Some i"
    using i(1) retired_prepared [OF ok p] by blast
  have "i < m_next_ident m" using tables_okD(2) [OF ok e(1)] e(2) by simp
  then obtain name' e' where e': "map_of (m_tables m (p_table q)) name' = Some e'" "map_of (p_next q) name' = Some e'" "e_identity e' = i"
    using next_ids_prepared [OF q i(2)] by auto
  have "p_table p = p_table q" "name = name'" using tables_okD(4) [OF ok e(1) e'(1)] e(2) e'(3) by simp_all
  then show False using same e' e(3) by simp
qed

section \<open>Publishing\<close>

lemma publish_all_result:
  assumes "publish_all ps m = (r, m')" "distinct (map p_table ps)"
    and "\<And>p. p \<in> set ps \<Longrightarrow> gomap_wf (p_next p)" "\<And>p q. p \<in> set ps \<Longrightarrow> q \<in> set ps \<Longrightarrow> set (p_retired p) \<inter> next_ids q = {}"
  shows "r = concat (map p_retired ps) \<and>
    (\<forall>t. m_tables m' t = (case find (\<lambda>p. p_table p = t) ps of Some p \<Rightarrow> p_next p | None \<Rightarrow> m_tables m t)) \<and>
    (\<forall>i. id_valid (m_idents m' i) \<longleftrightarrow> (\<exists>p \<in> set ps. i \<in> next_ids p) \<or> id_valid (m_idents m i) \<and> i \<notin> set r) \<and>
    (\<forall>i. id_manager (m_idents m' i) = id_manager (m_idents m i) \<and> id_name (m_idents m' i) = id_name (m_idents m i))"
  using assms
proof (induction ps arbitrary: m r)
  case (Cons p ps)
  obtain r1 m1 r2 where p: "publish p m = (r1, m1)" and ps: "publish_all ps m1 = (r2, m')" and r: "r = r1 @ r2"
    using Cons.prems(1) by (auto split: prod.splits)
  have m1: "r1 = p_retired p" "m_tables m1 = (m_tables m)(p_table p := p_next p)"
    "m_idents m1 = set_valid True (map (\<lambda>(_, e). e_identity e) (p_next p)) (set_valid False (p_retired p) (m_idents m))"
    using p by (auto simp: publish_def)
  have IH: "r2 = concat (map p_retired ps)"
    "\<forall>t. m_tables m' t = (case find (\<lambda>p. p_table p = t) ps of Some p \<Rightarrow> p_next p | None \<Rightarrow> m_tables m1 t)"
    "\<forall>i. id_valid (m_idents m' i) \<longleftrightarrow> (\<exists>p \<in> set ps. i \<in> next_ids p) \<or> id_valid (m_idents m1 i) \<and> i \<notin> set r2"
    "\<forall>i. id_manager (m_idents m' i) = id_manager (m_idents m1 i) \<and> id_name (m_idents m' i) = id_name (m_idents m1 i)"
    using Cons.IH [OF ps] Cons.prems(2-4) by auto
  have valid1: "id_valid (m_idents m1 i) \<longleftrightarrow> i \<in> next_ids p \<or> id_valid (m_idents m i) \<and> i \<notin> set r1" for i
    using set_next_ids [of p] Cons.prems(3) [of p] by (simp add: m1 set_valid_apply)
  have other: "id_manager (m_idents m1 i) = id_manager (m_idents m i) \<and> id_name (m_idents m1 i) = id_name (m_idents m i)" for i
    by (simp add: m1 set_valid_apply)
  have "i \<notin> set r2" if "i \<in> next_ids p" for i
    using Cons.prems(4) [of _ p] that unfolding IH(1) by fastforce
  then have "id_valid (m_idents m' i) \<longleftrightarrow> (\<exists>p \<in> set (p # ps). i \<in> next_ids p) \<or> id_valid (m_idents m i) \<and> i \<notin> set r" for i
    using IH(3) valid1 [of i] by (auto simp: r)
  moreover have "m_tables m' t = (case find (\<lambda>p. p_table p = t) (p # ps) of Some p \<Rightarrow> p_next p | None \<Rightarrow> m_tables m t)" for t
  proof (cases "p_table p = t")
    case True
    then have "find (\<lambda>p. p_table p = t) ps = None" using Cons.prems(2) by (auto simp: find_None_iff image_iff)
    then show ?thesis using IH(2) True by (simp add: m1)
  qed (use IH(2) in \<open>auto simp: m1 split: option.split\<close>)
  ultimately show ?case using IH(1,4) other m1(1) by (simp add: r)
qed simp

text \<open>The tables, the valid identities and the closed sessions after a commit of all publications.\<close>

definition prepared_all :: "manager \<Rightarrow> (string \<Rightarrow> bool) \<Rightarrow> publication list \<Rightarrow> bool" where
  "prepared_all m force ps \<longleftrightarrow> distinct (map p_table ps) \<and> (\<forall>p \<in> set ps. \<exists>fps. prepared_for m force fps p)"

lemma prepared_allD:
  assumes "prepared_all m force ps"
  shows "distinct (map p_table ps)" "p \<in> set ps \<Longrightarrow> \<exists>fps. prepared_for m force fps p" "p \<in> set ps \<Longrightarrow> gomap_wf (p_next p)"
    "p \<in> set ps \<Longrightarrow> q \<in> set ps \<Longrightarrow> p_table p = p_table q \<Longrightarrow> p = q"
  using assms by (auto simp: prepared_all_def prepared_for_def distinct_map inj_on_def)

lemma prepared_all_disjoint:
  assumes ok: "tables_ok m" and ps: "prepared_all m force ps" and pq: "p \<in> set ps" "q \<in> set ps"
  shows "set (p_retired p) \<inter> next_ids q = {}"
proof -
  obtain fps fps' where "prepared_for m force fps p" "prepared_for m force fps' q"
    using prepared_allD(2) [OF ps pq(1)] prepared_allD(2) [OF ps pq(2)] by blast
  then show ?thesis using prepared_allD(4) [OF ps pq] by (rule retired_next_disjoint [OF ok])
qed

lemma publications_effect:
  assumes reg: "registry_ok m" and ok: "tables_ok m" and m1: "users_untouched m m1" and ps: "prepared_all m force ps"
    and com: "commit (publish_all ps) m1 = (n, m2)"
  shows "p \<in> set ps \<Longrightarrow> m_tables m2 (p_table p) = p_next p" "t \<notin> p_table ` set ps \<Longrightarrow> m_tables m2 t = m_tables m t"
    "id_valid (m_idents m2 i) \<longleftrightarrow> (\<exists>p \<in> set ps. i \<in> next_ids p) \<or> id_valid (m_idents m1 i) \<and> (\<forall>p \<in> set ps. i \<notin> set (p_retired p))"
    "s < m_next_sess m \<Longrightarrow> s_closed (m_sess m2 s) \<longleftrightarrow>
       s_closed (m_sess m s) \<or> (\<exists>p \<in> set ps. \<exists>i \<in> set (p_retired p). s_identity (m_sess m s) = Some i)"
    "registry_ok m2" "m_next_ident m2 = m_next_ident m1" "m_self m2 = m_self m1"
    "id_manager (m_idents m2 i) = id_manager (m_idents m1 i)" "id_name (m_idents m2 i) = id_name (m_idents m1 i)"
proof -
  obtain r mp where pub: "publish_all ps m1 = (r, mp)" by fastforce
  note res = publish_all_result [OF pub prepared_allD(1,3) [OF ps] prepared_all_disjoint [OF ok ps]]
  have r: "set r = (\<Union>p \<in> set ps. set (p_retired p))" using res by simp
  have tab: "m_tables mp t = (case find (\<lambda>p. p_table p = t) ps of Some p \<Rightarrow> p_next p | None \<Rightarrow> m_tables m t)" for t
    using res m1 unfolding users_untouched_def by metis
  obtain ss where g: "commit_gate (publish_all ps) m1 = (ss, mp)" using pub by (simp add: commit_gate_def)
  have m2: "m2 = fold session_close ss mp" using com g by (auto simp: commit_def)
  have f2: "m_tables m2 = m_tables mp" "m_idents m2 = m_idents mp" "m_next_ident m2 = m_next_ident mp" "m_self m2 = m_self mp"
    by (simp_all add: m2 fold_session_close_fields)
  have fr: "same_sessions m1 mp" "m_next_ident mp = m_next_ident m1" using publish_all_frame [OF pub] by auto
  have m1s: "same_sessions m m1" using m1 by (simp add: users_untouched_def)
  have reg1: "registry_ok m1" using reg registry_ok_same_sessions [OF m1s] by simp
  have ss: "set ss = {s. s < m_next_sess m \<and> \<not> s_closed (m_sess m s) \<and> (\<exists>i \<in> set r. s_identity (m_sess m s) = Some i)}"
    using commit_gate_sessions(3) [OF reg1 pub fr(1) g] m1s by (simp add: same_sessions_def)
  show "m_tables m2 (p_table p) = p_next p" if in_ps: "p \<in> set ps"
  proof (cases "find (\<lambda>q. p_table q = p_table p) ps")
    case None
    then show ?thesis using in_ps by (auto simp: find_None_iff)
  next
    case (Some q)
    then have "q \<in> set ps" "p_table q = p_table p" by (auto simp: find_Some_iff)
    then have "q = p" using prepared_allD(4) [OF ps _ in_ps] by blast
    then show ?thesis using Some tab by (simp add: f2)
  qed
  show "m_tables m2 t = m_tables m t" if "t \<notin> p_table ` set ps"
    using that tab [of t] by (auto simp: f2 find_Some_iff split: option.splits)
  show "id_valid (m_idents m2 i) \<longleftrightarrow> (\<exists>p \<in> set ps. i \<in> next_ids p) \<or> id_valid (m_idents m1 i) \<and> (\<forall>p \<in> set ps. i \<notin> set (p_retired p))"
    using res r by (auto simp: f2)
  show "s_closed (m_sess m2 s) \<longleftrightarrow> s_closed (m_sess m s) \<or> (\<exists>p \<in> set ps. \<exists>i \<in> set (p_retired p). s_identity (m_sess m s) = Some i)" if "s < m_next_sess m"
    using that fr(1) m1s ss r by (auto simp: m2 fold_session_close_fields same_sessions_def)
  show "id_manager (m_idents m2 i) = id_manager (m_idents m1 i)" "id_name (m_idents m2 i) = id_name (m_idents m1 i)" using res by (auto simp: f2)
  show "m_next_ident m2 = m_next_ident m1" "m_self m2 = m_self m1" using fr by (simp_all add: f2 same_sessions_def)
  have "registry_ok mp" using reg1 registry_ok_same_sessions [OF fr(1)] by simp
  moreover have "\<forall>s \<in> set ss. s < m_next_sess mp" using fr(1) m1s by (auto simp: ss same_sessions_def)
  ultimately show "registry_ok m2" unfolding m2 by (rule registry_ok_fold_close)
qed

section \<open>The life of one entry\<close>

lemma entry_retired:
  assumes ok: "tables_ok m" and ps: "prepared_all m force ps" and old: "map_of (m_tables m t) name = Some e"
  shows "(\<exists>p \<in> set ps. e_identity e \<in> set (p_retired p)) \<longleftrightarrow> (\<exists>p \<in> set ps. p_table p = t \<and> map_of (p_next p) name \<noteq> Some e)"
proof -
  let ?i = "e_identity e"
  have lt: "?i < m_next_ident m" by (rule tables_okD(2) [OF ok old])
  have own: "p_table p = t" "name' = name" if "map_of (m_tables m (p_table p)) name' = Some e'" "e_identity e' = ?i" for p :: publication and name' e'
    using tables_okD(4) [OF ok that(1) old] that(2) by auto
  have "?i \<in> set (p_retired p) \<longleftrightarrow> p_table p = t \<and> map_of (p_next p) name \<noteq> Some e" if p: "p \<in> set ps" for p
  proof -
    obtain fps where fps: "prepared_for m force fps p" using prepared_allD(2) [OF ps p] by blast
    have "e' = e" if e': "map_of (p_next p) name = Some e'" "e_identity e' = ?i" and t: "p_table p = t" for e'
    proof -
      have "?i \<in> next_ids p" unfolding next_ids_def using e' by (intro CollectI exI [of _ name] exI [of _ e']) simp
      then obtain name' e'' where n: "map_of (m_tables m (p_table p)) name' = Some e''" "map_of (p_next p) name' = Some e''" "e_identity e'' = ?i"
        using next_ids_prepared [OF fps] lt by fastforce
      then have "name' = name" using own by blast
      then show ?thesis using n e' old t by simp
    qed
    then have "map_option e_identity (map_of (p_next p) name) = Some ?i \<longleftrightarrow> map_of (p_next p) name = Some e" if "p_table p = t"
      using that by auto
    with retired_prepared [OF ok fps, of ?i] show ?thesis using own old by metis
  qed
  then show ?thesis by blast
qed

lemma entry_kept:
  assumes fps: "prepared_for m force fps p" and old: "map_of (m_tables m (p_table p)) name = Some e" and ok: "tables_ok m"
  shows "map_of (p_next p) name = Some e \<longleftrightarrow> map_of fps name = Some (e_fingerprint e) \<and> \<not> force name"
proof -
  have "case map_of fps name of None \<Rightarrow> map_of (p_next p) name = None
      | Some fp \<Rightarrow> \<exists>e. map_of (p_next p) name = Some e \<and> e_fingerprint e = fp \<and>
          (if \<exists>old. map_of (m_tables m (p_table p)) name = Some old \<and> e_fingerprint old = fp \<and> \<not> force name
           then map_of (m_tables m (p_table p)) name = Some e else m_next_ident m \<le> e_identity e)"
    using fps unfolding prepared_for_def by blast
  then show ?thesis using old tables_okD(2) [OF ok old] by (auto split: option.splits if_splits)
qed

lemma publications_life:
  assumes reg: "registry_ok m" and ok: "tables_ok m" and m1: "users_untouched m m1" and ps: "prepared_all m force ps"
    and com: "commit (publish_all ps) m1 = (n, m2)" and old: "map_of (m_tables m t) name = Some e"
  shows "if \<forall>p \<in> set ps. p_table p = t \<longrightarrow> map_of (p_next p) name = Some e
     then map_of (m_tables m2 t) name = Some e \<and> id_valid (m_idents m2 (e_identity e)) \<and>
       (\<forall>s < m_next_sess m. s_identity (m_sess m s) = Some (e_identity e) \<longrightarrow> s_closed (m_sess m2 s) = s_closed (m_sess m s))
     else \<not> id_valid (m_idents m2 (e_identity e)) \<and> (\<forall>ctx. fst (bind_session ctx (Some (e_identity e)) m2) \<noteq> None) \<and>
       (\<forall>s < m_next_sess m. s_identity (m_sess m s) = Some (e_identity e) \<longrightarrow> s_closed (m_sess m2 s))"
proof -
  let ?i = "e_identity e"
  note eff = publications_effect [OF reg ok m1 ps com] and ret = entry_retired [OF ok ps old]
  have "?i < m_next_ident m" "id_valid (m_idents m ?i)" using tables_okD(2,3) [OF ok old] by simp_all
  then have v1: "id_valid (m_idents m1 ?i)" using m1 by (simp add: users_untouched_def)
  show ?thesis
  proof (cases "\<forall>p \<in> set ps. p_table p = t \<longrightarrow> map_of (p_next p) name = Some e")
    case True
    then have no: "\<forall>p \<in> set ps. ?i \<notin> set (p_retired p)" using ret by blast
    have "map_of (m_tables m2 t) name = Some e"
      using eff(1,2) True old by (cases "t \<in> p_table ` set ps") auto
    then show ?thesis unfolding if_P [OF True] using no v1 eff(3,4) by auto
  next
    case False
    then obtain p where p: "p \<in> set ps" "?i \<in> set (p_retired p)" using ret by blast
    have "\<forall>q \<in> set ps. ?i \<notin> next_ids q" using p prepared_all_disjoint [OF ok ps] by blast
    then have inv: "\<not> id_valid (m_idents m2 ?i)" using eff(3) p by blast
    show ?thesis unfolding if_not_P [OF False]
    proof (intro conjI allI impI)
      show "fst (bind_session ctx (Some ?i) m2) \<noteq> None" for ctx using inv by (auto simp: bind_session_def split: option.splits)
      show "s_closed (m_sess m2 s)" if "s < m_next_sess m" "s_identity (m_sess m s) = Some ?i" for s
        using that p eff(4) by blast
    qed (rule inv)
  qed
qed

section \<open>Tables stay well formed\<close>

text \<open>Publications that are prepared one after the other, each for its fingerprints.\<close>

inductive prepared_run :: "(string \<Rightarrow> bool) \<Rightarrow> manager \<Rightarrow> (string, string) gomap list \<Rightarrow> publication list \<Rightarrow> manager \<Rightarrow> bool" for force where
  run_none: "prepared_run force m [] [] m"
| run_prepare: "gomap_wf fps \<Longrightarrow> table_prepare t fps force m = (ids, p, m1) \<Longrightarrow> prepared_run force m1 fs ps m2 \<Longrightarrow>
    prepared_run force m (fps # fs) (p # ps) m2"

lemma prepared_run_untouched: "prepared_run force m fs ps m' \<Longrightarrow> users_untouched m m'"
  by (induction rule: prepared_run.induct) (auto dest: table_prepare_untouched intro: users_untouched_trans)

lemma prepared_run_for:
  "prepared_run force m fs ps m' \<Longrightarrow> users_untouched m0 m \<Longrightarrow> list_all2 (prepared_for m0 force) fs ps"
proof (induction rule: prepared_run.induct)
  case (run_prepare fps t m ids p m1 fs ps m2)
  have "prepared_for m0 force fps p"
    using run_prepare.prems by (intro prepared_forI [OF run_prepare.hyps(2,1)]) (auto simp: users_untouched_def)
  moreover have "users_untouched m0 m1"
    using run_prepare.prems table_prepare_untouched [OF run_prepare.hyps(2)] by (rule users_untouched_trans)
  ultimately show ?case using run_prepare.IH by simp
qed simp

text \<open>Every entry is an old one or has an identity of its own that was made for it.\<close>

definition owned_by :: "manager \<Rightarrow> manager \<Rightarrow> publication \<Rightarrow> bool" where
  "owned_by m m' p \<longleftrightarrow> (\<forall>name e. map_of (p_next p) name = Some e \<longrightarrow>
     map_of (m_tables m (p_table p)) name = Some e \<or>
     m_next_ident m \<le> e_identity e \<and> e_identity e < m_next_ident m' \<and>
     id_manager (m_idents m' (e_identity e)) = m_self m \<and> id_name (m_idents m' (e_identity e)) = name)"

definition single_owner :: "publication list \<Rightarrow> bool" where
  "single_owner ps \<longleftrightarrow> (\<forall>p \<in> set ps. \<forall>q \<in> set ps. \<forall>a b x y. map_of (p_next p) a = Some x \<longrightarrow> map_of (p_next q) b = Some y \<longrightarrow>
     e_identity x = e_identity y \<longrightarrow> p_table p = p_table q \<and> a = b)"

lemma owned_by_mono:
  assumes "owned_by m1 m2 p" "users_untouched m m1" "users_untouched m2 m3"
  shows "owned_by m m3 p"
  unfolding owned_by_def
proof (intro allI impI)
  fix name e assume "map_of (p_next p) name = Some e"
  then consider "map_of (m_tables m1 (p_table p)) name = Some e" | "m_next_ident m1 \<le> e_identity e" "e_identity e < m_next_ident m2"
    "id_manager (m_idents m2 (e_identity e)) = m_self m1" "id_name (m_idents m2 (e_identity e)) = name"
    using assms(1) unfolding owned_by_def by blast
  then show "map_of (m_tables m (p_table p)) name = Some e \<or>
     m_next_ident m \<le> e_identity e \<and> e_identity e < m_next_ident m3 \<and>
     id_manager (m_idents m3 (e_identity e)) = m_self m \<and> id_name (m_idents m3 (e_identity e)) = name"
    using assms(2,3) by cases (simp_all add: users_untouched_def same_sessions_def)
qed

lemma table_prepare_owned:
  assumes ok: "tables_ok m" and prep: "table_prepare t fps force m = (ids, p, m1)" and wf: "gomap_wf fps"
  shows "owned_by m m1 p" "p_table p = t" "map_of (p_next p) a = Some x \<Longrightarrow> map_of (p_next p) b = Some y \<Longrightarrow> e_identity x = e_identity y \<Longrightarrow> a = b"
proof -
  have n: "prepare_entries (m_tables m t) force fps m = (p_next p, m1)" and t: "p_table p = t"
    using prep by (auto simp: table_prepare_def Let_def split: prod.splits)
  show "p_table p = t" by (rule t)
  show "owned_by m m1 p" unfolding owned_by_def t using update_kept [OF ok prep] by fastforce
  show "map_of (p_next p) a = Some x \<Longrightarrow> map_of (p_next p) b = Some y \<Longrightarrow> e_identity x = e_identity y \<Longrightarrow> a = b"
    by (rule prepare_entries_inj [OF n wf tables_okD(2) [OF ok]]) (use tables_okD(4) [OF ok] in blast)+
qed

lemma prepared_run_owned:
  "prepared_run force m fs ps m' \<Longrightarrow> tables_ok m \<Longrightarrow> (\<forall>p \<in> set ps. owned_by m m' p) \<and> single_owner ps"
proof (induction rule: prepared_run.induct)
  case (run_prepare fps t m ids p m1 fs ps m2)
  note u = table_prepare_untouched [OF run_prepare.hyps(2)] and u2 = prepared_run_untouched [OF run_prepare.hyps(3)]
  note ok1 = tables_ok_untouched [OF run_prepare.prems u]
  note IH = run_prepare.IH [OF ok1]
  note new = table_prepare_owned [OF run_prepare.prems run_prepare.hyps(2,1)]
  have p: "owned_by m m2 p" using new(1) users_untouched_refl u2 by (rule owned_by_mono)
  have rest: "owned_by m m2 q" if "q \<in> set ps" for q using IH that u users_untouched_refl by (blast intro: owned_by_mono)
  have cross: "p_table p = p_table q \<and> a = b"
    if q: "q \<in> set ps" and x: "map_of (p_next p) a = Some x" and y: "map_of (p_next q) b = Some y" and xy: "e_identity x = e_identity y" for q a b x y
  proof -
    have lt: "e_identity x < m_next_ident m1"
      using new(1) x tables_okD(2) [OF run_prepare.prems] u unfolding owned_by_def users_untouched_def by (meson order_less_le_trans)
    then have old: "map_of (m_tables m1 (p_table q)) b = Some y" using IH q y xy unfolding owned_by_def by (metis leD)
    then have "e_identity y < m_next_ident m" "m_tables m1 = m_tables m"
      using tables_okD(2) [OF run_prepare.prems] u by (auto simp: users_untouched_def)
    then have "map_of (m_tables m (p_table p)) a = Some x" "map_of (m_tables m (p_table q)) b = Some y"
      using new(1) x xy old unfolding owned_by_def by (metis leD)+
    then show ?thesis using tables_okD(4) [OF run_prepare.prems] xy by blast
  qed
  have "single_owner (p # ps)"
    unfolding single_owner_def
  proof (intro ballI allI impI)
    fix p' q' a b x y
    assume "p' \<in> set (p # ps)" "q' \<in> set (p # ps)" and e: "map_of (p_next p') a = Some x" "map_of (p_next q') b = Some y" "e_identity x = e_identity y"
    then consider "p' = p" "q' = p" | "p' = p" "q' \<in> set ps" | "p' \<in> set ps" "q' = p" | "p' \<in> set ps" "q' \<in> set ps" by auto
    then show "p_table p' = p_table q' \<and> a = b"
    proof cases
      case 1
      then show ?thesis using e new(3) by blast
    next
      case 2
      then show ?thesis using e cross by blast
    next
      case 3
      then show ?thesis using e cross [of p' b y a x] by auto
    next
      case 4
      then show ?thesis using e IH unfolding single_owner_def by blast
    qed
  qed
  then show ?case using p rest by simp
qed (simp add: single_owner_def)

lemma prepared_run_all:
  assumes "prepared_run force m fs ps m'" "distinct (map p_table ps)"
  shows "prepared_all m force ps"
  using prepared_run_for [OF assms(1) users_untouched_refl] assms(2)
  by (auto simp: prepared_all_def list_all2_conv_all_nth in_set_conv_nth) blast

lemma publications_tables_ok:
  assumes reg: "registry_ok m" and ok: "tables_ok m" and run: "prepared_run force m fs ps m1" and dist: "distinct (map p_table ps)"
    and com: "commit (publish_all ps) m1 = (n, m2)"
  shows "tables_ok m2"
proof -
  note all = prepared_run_all [OF run dist] and u = prepared_run_untouched [OF run]
  note eff = publications_effect [OF reg ok u all com] and own = prepared_run_owned [OF run ok]
  have self: "m_self m1 = m_self m" "m_tables m1 = m_tables m" using u by (simp_all add: users_untouched_def same_sessions_def)
  have src: "(\<exists>p \<in> set ps. p_table p = t \<and> map_of (p_next p) name = Some e) \<or> t \<notin> p_table ` set ps \<and> map_of (m_tables m t) name = Some e"
    if "map_of (m_tables m2 t) name = Some e" for t name e
    using that eff(1,2) by (cases "t \<in> p_table ` set ps") auto
  have entry: "e_identity e < m_next_ident m2 \<and> m_idents m2 (e_identity e) = \<lparr>id_manager = m_self m2, id_name = name, id_valid = True\<rparr>"
    if e: "map_of (m_tables m2 t) name = Some e" for t name e
  proof -
    have old: "e_identity e < m_next_ident m1 \<and> id_manager (m_idents m1 (e_identity e)) = m_self m \<and> id_name (m_idents m1 (e_identity e)) = name \<and> id_valid (m_idents m1 (e_identity e))"
      if "map_of (m_tables m t) name = Some e" for t
      using tables_okD(2,3) [OF ok that] u by (auto simp: users_untouched_def)
    have "e_identity e < m_next_ident m1 \<and> id_manager (m_idents m1 (e_identity e)) = m_self m \<and> id_name (m_idents m1 (e_identity e)) = name"
      using src [OF e] own old unfolding owned_by_def by metis
    moreover have "id_valid (m_idents m2 (e_identity e))"
    proof (cases "\<exists>p \<in> set ps. p_table p = t \<and> map_of (p_next p) name = Some e")
      case True
      then show ?thesis using eff(3) by (auto simp: next_ids_def)
    next
      case False
      then have "t \<notin> p_table ` set ps" "map_of (m_tables m t) name = Some e" using src [OF e] by auto
      then show ?thesis using eff(3) entry_retired [OF ok all] old by blast
    qed
    ultimately show ?thesis using eff(6,7) eff(8,9) [of "e_identity e"] self by (simp add: identity.equality)
  qed
  have uniq: "t = t' \<and> name = name'"
    if e: "map_of (m_tables m2 t) name = Some e" "map_of (m_tables m2 t') name' = Some e'" "e_identity e = e_identity e'" for t t' name name' e e'
  proof -
    have mixed: "t = t' \<and> a = b" if p: "p \<in> set ps" "p_table p = t" "map_of (p_next p) a = Some x" and o: "map_of (m_tables m t') b = Some y"
      and xy: "e_identity x = e_identity y" for p t t' a b x y
      using own p o xy tables_okD(2,4) [OF ok] unfolding owned_by_def by (metis leD)
    show ?thesis
      using src [OF e(1)] src [OF e(2)] own mixed e(3) tables_okD(4) [OF ok] unfolding single_owner_def by metis
  qed
  have "gomap_wf (m_tables m2 t)" for t
    using eff(1,2) prepared_allD(3) [OF all] tables_okD(1) [OF ok] by (cases "t \<in> p_table ` set ps") auto
  then show ?thesis unfolding tables_ok_def using entry uniq by blast
qed

end
