(* ===== verification/Reload_Plan_Props.thy ===== *)
theory Reload_Plan_Props
  imports Reload_Plan
begin

text \<open>
  What an accepted plan guarantees: which rules are taken over and which are new, which users are affected, which
  outbounds and inbounds change, and that everything else stays as it is.
\<close>

section \<open>The steps of an accepted plan\<close>

text \<open>The names of users that the plan manages and those it must not touch.\<close>

definition plan_names :: "plan_libs \<Rightarrow> row \<Rightarrow> row \<Rightarrow> string set \<times> string set" where
  "plan_names U before after =
     (case rbind (namedRows (field before ''inbounds'')) (\<lambda>oldIn. rbind (namedRows (field after ''inbounds'')) (\<lambda>newIn.
        plan_inbounds U oldIn newIn ({}, {}))) of
        Inr (known, blocked) \<Rightarrow> (known - blocked, blocked) | Inl _ \<Rightarrow> ({}, {}))"

abbreviation rules_of :: "row \<Rightarrow> json list" where
  "rules_of config \<equiv> rows (nested config ''route'') ''rules''"

lemma planUserUpdate_Inr:
  assumes "planUserUpdate U before after = Inr plan"
  obtains oldIn newIn known0 blocked known oldOut newOut where
    "namedRows (field before ''inbounds'') = Inr oldIn" "namedRows (field after ''inbounds'') = Inr newIn"
    "topology_kept before after oldIn newIn" "plan_inbounds U oldIn newIn ({}, {}) = Inr (known0, blocked)" "known = known0 - blocked"
    "plan_names U before after = (known, blocked)"
    "namedRows (field before ''outbounds'') = Inr oldOut" "namedRows (field after ''outbounds'') = Inr newOut"
    "check_outbounds before (nested before ''route'') oldOut newOut (changed_outbounds oldOut newOut) = Inr ()"
    "plan_rules U known blocked oldOut newOut (rules_of before) (rules_of after) = Inr (changedNames plan, ruleIndexes plan)"
    "inbound_indexes U oldIn (changedNames plan) 0 newIn = Inr (inboundIndexes plan)"
    "outboundIndexes plan = outbound_indexes oldOut newOut" "removedOutbounds plan = removed_outbounds oldOut newOut"
proof -
  obtain oldIn newIn st oldOut newOut ri ins where *:
    "namedRows (field before ''inbounds'') = Inr oldIn" "namedRows (field after ''inbounds'') = Inr newIn"
    "topology_kept before after oldIn newIn" "plan_inbounds U oldIn newIn ({}, {}) = Inr st"
    "namedRows (field before ''outbounds'') = Inr oldOut" "namedRows (field after ''outbounds'') = Inr newOut"
    "check_outbounds before (nested before ''route'') oldOut newOut (changed_outbounds oldOut newOut) = Inr ()"
    "plan_rules U (fst st - snd st) (snd st) oldOut newOut (rules_of before) (rules_of after) = Inr ri"
    "inbound_indexes U oldIn (fst ri) 0 newIn = Inr ins"
    "plan = \<lparr>inboundIndexes = ins, outboundIndexes = outbound_indexes oldOut newOut,
        removedOutbounds = removed_outbounds oldOut newOut, ruleIndexes = snd ri, changedNames = fst ri\<rparr>"
    using assms by (auto simp: planUserUpdate_def rbind_eq_Inr_iff Let_def split: if_splits)
  have "plan_names U before after = (fst st - snd st, snd st)"
    using * by (simp add: plan_names_def rbind_def split_beta)
  then show ?thesis using * by (intro that [of oldIn newIn "fst st" "snd st" "fst st - snd st" oldOut newOut]) simp_all
qed

section \<open>Rules taken over\<close>

text \<open>The unused old rules: every index is kept under the hash of its rule, once.\<close>

definition unused_ok :: "plan_libs \<Rightarrow> json list \<Rightarrow> nat \<Rightarrow> (string, nat list) gomap \<Rightarrow> bool" where
  "unused_ok U oldRules n m \<longleftrightarrow>
     (\<forall>h is. map_of m h = Some is \<longrightarrow> distinct is \<and> (\<forall>i \<in> set is. i < n \<and> fingerprint_json U (oldRules ! i) = h))"

definition unused :: "(string, nat list) gomap \<Rightarrow> nat set" where
  "unused m = {i. \<exists>h is. map_of m h = Some is \<and> i \<in> set is}"

lemma unused_iff:
  assumes "unused_ok U oldRules n m"
  shows "j \<in> unused m \<longleftrightarrow> (\<exists>is. map_of m (fingerprint_json U (oldRules ! j)) = Some is \<and> j \<in> set is)"
proof
  assume "j \<in> unused m"
  then obtain h "is" where h: "map_of m h = Some is" "j \<in> set is" by (auto simp: unused_def)
  then have "fingerprint_json U (oldRules ! j) = h" using assms by (simp add: unused_ok_def)
  then show "\<exists>is. map_of m (fingerprint_json U (oldRules ! j)) = Some is \<and> j \<in> set is" using h by simp
qed (auto simp: unused_def)

lemma unused_ok_add:
  assumes ok: "unused_ok U oldRules n m" and h: "h = fingerprint_json U (oldRules ! n)"
  shows "unused_ok U oldRules (Suc n) (AList.update h ((case map_of m h of None \<Rightarrow> [] | Some is \<Rightarrow> is) @ [n]) m)"
proof -
  have all: "distinct is \<and> (\<forall>i \<in> set is. i < n \<and> fingerprint_json U (oldRules ! i) = k)" if "map_of m k = Some is" for k "is"
    using ok that by (simp add: unused_ok_def)
  show ?thesis
    unfolding unused_ok_def
  proof (intro allI impI)
    fix k "is" assume "map_of (AList.update h ((case map_of m h of None \<Rightarrow> [] | Some is \<Rightarrow> is) @ [n]) m) k = Some is"
    then consider "k \<noteq> h" "map_of m k = Some is" | "k = h" "map_of m h = None" "is = [n]"
      | js where "k = h" "map_of m h = Some js" "is = js @ [n]" by (auto split: if_splits option.splits)
    then show "distinct is \<and> (\<forall>i \<in> set is. i < Suc n \<and> fingerprint_json U (oldRules ! i) = k)"
    proof cases
      case 1
      then show ?thesis using all [of k "is"] by auto
    next
      case 3
      then show ?thesis using all [of h js] h by auto
    qed (simp add: h)
  qed
qed

lemma previous_by_hash_ok: "unused_ok U oldRules (length oldRules) (previous_by_hash U oldRules)"
proof -
  have "unused_ok U oldRules n (fold (\<lambda>i m. let hash = fingerprint_json U (oldRules ! i)
       in AList.update hash ((case map_of m hash of None \<Rightarrow> [] | Some is \<Rightarrow> is) @ [i]) m) [0..<n] [])" for n
  proof (induction n)
    case (Suc n)
    then show ?case using unused_ok_add [OF Suc refl] by (simp add: Let_def)
  qed (simp add: unused_ok_def)
  then show ?thesis by (simp add: previous_by_hash_def)
qed

lemma take_previous_ok:
  assumes ok: "unused_ok U oldRules n m" and take: "take_previous U oldRules next m = (i, m')"
  shows "unused_ok U oldRules n m' \<and> (i = -1 \<and> unused m' = unused m \<or>
     0 \<le> i \<and> nat i < n \<and> oldRules ! nat i = next \<and> nat i \<in> unused m \<and> unused m' = unused m - {nat i})"
proof (cases "i = -1 \<and> m' = m")
  case False
  then obtain rest where i: "0 \<le> i" "map_of m (fingerprint_json U next) = Some (nat i # rest)" "oldRules ! nat i = next"
    and m': "m' = AList.update (fingerprint_json U next) rest m"
    using take by (auto simp: take_previous_def split: option.splits list.splits if_splits)
  have all: "distinct is \<and> (\<forall>j \<in> set is. j < n \<and> fingerprint_json U (oldRules ! j) = h)" if "map_of m h = Some is" for h "is"
    using ok that by (simp add: unused_ok_def)
  have hd: "distinct (nat i # rest)" "nat i < n" "\<forall>j \<in> set rest. j < n \<and> fingerprint_json U (oldRules ! j) = fingerprint_json U next"
    using all [OF i(2)] by auto
  then have ok': "unused_ok U oldRules n m'" using ok by (auto simp: unused_ok_def m')
  moreover have un: "nat i \<in> unused m" using i(2) list.set_intros(1) [of "nat i" rest] unfolding unused_def by blast
  moreover have "j \<in> unused m' \<longleftrightarrow> j \<in> unused m - {nat i}" for j
  proof (cases "fingerprint_json U (oldRules ! j) = fingerprint_json U next")
    case True
    then have "j \<in> unused m' \<longleftrightarrow> j \<in> set rest" "j \<in> unused m \<longleftrightarrow> j \<in> set (nat i # rest)"
      unfolding unused_iff [OF ok] unused_iff [OF ok'] True by (simp_all add: i(2) m')
    then show ?thesis using hd(1) by auto
  next
    case False
    then have "j \<noteq> nat i" using i(3) by auto
    moreover have "map_of m' (fingerprint_json U (oldRules ! j)) = map_of m (fingerprint_json U (oldRules ! j))"
      using False by (simp add: m')
    ultimately show ?thesis by (simp add: unused_iff [OF ok] unused_iff [OF ok'])
  qed
  then have "unused m' = unused m - {nat i}" by blast
  ultimately show ?thesis using i hd(2) ok' by blast
qed (use ok in simp)

definition user_rule_row :: "string set \<Rightarrow> string set \<Rightarrow> (string, row) gomap \<Rightarrow> json \<Rightarrow> bool" where
  "user_rule_row known blocked newOut v \<longleftrightarrow>
     (\<exists>row. v = JObj row \<and> dynamicRule row known blocked \<and> (\<forall>tag. field row ''outbound'' = JStr tag \<longrightarrow> map_of newOut tag \<noteq> None))"

lemma string_field_ex: "list_ex P (string_field row key) \<longleftrightarrow> (\<exists>s. field row key = JStr s \<and> P s)"
  by (auto simp: string_field_def split: json.splits)

lemma must_object_Inr: "must_object v = Inr row \<longleftrightarrow> v = JObj row"
  by (cases v) (auto simp: must_object_def)

lemma rule_indexes_ok:
  "rule_indexes U known blocked newOut oldRules newRules m = Inr is \<Longrightarrow> unused_ok U oldRules n m \<Longrightarrow>
     distinct (filter (\<lambda>i. 0 \<le> i) is) \<and> (\<forall>i \<in> set is. 0 \<le> i \<longrightarrow> nat i \<in> unused m) \<and>
     list_all2 (\<lambda>i next. if 0 \<le> i then nat i < n \<and> oldRules ! nat i = next else user_rule_row known blocked newOut next) is newRules"
proof (induction newRules arbitrary: m "is")
  case (Cons v newRules)
  obtain i m' where take: "take_previous U oldRules v m = (i, m')" by (cases "take_previous U oldRules v m")
  obtain is' where rest: "rule_indexes U known blocked newOut oldRules newRules m' = Inr is'" and eq: "is = i # is'"
    and new: "i < 0 \<Longrightarrow> user_rule_row known blocked newOut v"
    using Cons.prems(1) take
    by (auto simp: rbind_eq_Inr_iff must_object_Inr user_rule_row_def string_field_ex split: if_splits)
  note t = take_previous_ok [OF Cons.prems(2) take]
  note IH = Cons.IH [OF rest conjunct1 [OF t]]
  have sub: "unused m' \<subseteq> unused m" and used: "0 \<le> i \<Longrightarrow> nat i \<notin> unused m'" using t by auto
  have "i \<notin> set (filter (\<lambda>i. 0 \<le> i) is')" if "0 \<le> i" using used [OF that] IH by auto
  then have "distinct (filter (\<lambda>i. 0 \<le> i) is)" using IH by (simp add: eq)
  moreover have "\<forall>i \<in> set is. 0 \<le> i \<longrightarrow> nat i \<in> unused m" using IH sub t by (auto simp: eq)
  ultimately show ?case using IH t new by (auto simp: eq)
qed simp

section \<open>Policies of users\<close>

text \<open>What the rules mean for one user: the static rules, and in between the user rules that name it, without their
  users.\<close>

definition view_row :: "string set \<Rightarrow> string set \<Rightarrow> string \<Rightarrow> json \<Rightarrow> (row + row) list" where
  "view_row known blocked name v =
     (case as_object v of
        None \<Rightarrow> []
      | Some row \<Rightarrow>
          if dynamicRule row known blocked
          then replicate (count_list (the (userNames row)) name) (Inr (without row [''auth_user''])) else [Inl row])"

definition user_view :: "string set \<Rightarrow> string set \<Rightarrow> string \<Rightarrow> json list \<Rightarrow> (row + row) list" where
  "user_view known blocked name rules = concat (map (view_row known blocked name) rules)"

fun static_rules :: "('a + 'b) list \<Rightarrow> 'a list" where
  "static_rules [] = []"
| "static_rules (Inl f # v) = f # static_rules v"
| "static_rules (Inr n # v) = static_rules v"

fun sections :: "nat \<Rightarrow> ('a + 'b) list \<Rightarrow> (nat \<times> 'b) list" where
  "sections s [] = []"
| "sections s (Inl f # v) = sections (Suc s) v"
| "sections s (Inr n # v) = (s, n) # sections s v"

lemma static_rules_append [simp]: "static_rules (u @ v) = static_rules u @ static_rules v"
  by (induction u rule: static_rules.induct) auto

lemma sections_append [simp]: "sections s (u @ v) = sections s u @ sections (s + length (static_rules u)) v"
  by (induction s u rule: sections.induct) auto

lemma sections_replicate [simp]: "sections s (replicate n (Inr x)) = replicate n (s, x)" "static_rules (replicate n (Inr x)) = []"
  by (induction n) auto

lemma sections_ge: "(k, n) \<in> set (sections s v) \<Longrightarrow> s \<le> k"
  by (induction s v rule: sections.induct) auto

lemma sections_Suc: "sections (Suc s) v \<noteq> (s, n) # xs" "(s, n) # xs \<noteq> sections (Suc s) v"
  using sections_ge [of s n "Suc s" v] by (metis Suc_n_not_le_n list.set_intros(1))+

text \<open>Static rules and sections determine the view.\<close>

lemma view_determined:
  "static_rules u = static_rules v \<Longrightarrow> sections s u = sections s v \<Longrightarrow> u = v"
proof (induction s u arbitrary: v rule: sections.induct)
  case (1 s)
  then show ?case by (cases v rule: static_rules.cases) auto
next
  case (2 s f u)
  then show ?case by (cases v rule: static_rules.cases) (auto simp: sections_Suc)
next
  case (3 s n u)
  then show ?case by (cases v rule: static_rules.cases) (auto simp: sections_Suc)
qed

definition section_item :: "nat \<times> row \<Rightarrow> json" where
  "section_item = (\<lambda>(s, row). JArr [JNum (of_nat s), JObj row])"

lemma inj_section_item: "inj section_item"
  by (auto simp: inj_def section_item_def)

lemma policy_of_fold_add:
  "policy_of (st\<lparr>ps_users := fold (add_policy item) names (ps_users st)\<rparr>) name = policy_of st name @ replicate (count_list names name) item"
proof (induction names arbitrary: st)
  case (Cons a names)
  have "policy_of (st\<lparr>ps_users := add_policy item a (ps_users st)\<rparr>) name = policy_of st name @ (if a = name then [item] else [])"
    by (auto simp: policy_of_def add_policy_def split: option.split)
  then show ?case using Cons [of "st\<lparr>ps_users := add_policy item a (ps_users st)\<rparr>"] by simp
qed simp

lemma policies_view:
  "policies known blocked changedOut exists rules st = Inr st' \<Longrightarrow>
     ps_fixed st' = ps_fixed st @ static_rules (user_view known blocked name rules) \<and>
     policy_of st' name = policy_of st name @ map section_item (sections (ps_section st) (user_view known blocked name rules))"
proof (induction rules arbitrary: st)
  case (Cons v rules)
  obtain row where v: "v = JObj row" using Cons.prems by (cases v) auto
  show ?case
  proof (cases "dynamicRule row known blocked")
    case True
    let ?st = "st\<lparr>ps_users := fold (add_policy (policy_item (ps_section st) row)) (the (userNames row)) (ps_users st)\<rparr>"
    have "policies known blocked changedOut exists rules ?st = Inr st'" using Cons.prems True by (auto simp: v split: if_splits)
    from Cons.IH [OF this] show ?thesis
      using True policy_of_fold_add [of "policy_item (ps_section st) row" "the (userNames row)" st name]
      by (simp add: v user_view_def view_row_def section_item_def policy_item_def)
  next
    case False
    let ?st = "st\<lparr>ps_fixed := ps_fixed st @ [row], ps_section := Suc (ps_section st)\<rparr>"
    have "policies known blocked changedOut exists rules ?st = Inr st'" using Cons.prems False by (auto simp: v split: if_splits)
    moreover have "policy_of ?st name = policy_of st name" by (simp add: policy_of_def)
    ultimately show ?thesis using Cons.IH [of ?st] False by (simp add: v user_view_def view_row_def)
  qed
qed (simp add: user_view_def)

lemma policies_no_policies:
  assumes "policies known blocked changedOut exists rules no_policies = Inr st"
  shows "ps_fixed st = static_rules (user_view known blocked name rules)"
    "policy_of st name = map section_item (sections 0 (user_view known blocked name rules))"
  using policies_view [OF assms, of name] by (simp_all add: no_policies_def policy_of_def)

lemma sections_rules: "snd ` set (sections s v) = {n. Inr n \<in> set v}"
  by (induction s v rule: sections.induct) auto

lemma references_section: "references tags (section_item p) = references tags (JObj (snd p))"
  by (simp add: section_item_def split_beta)

lemma plan_rules_Inr:
  assumes "plan_rules U known blocked oldOut newOut oldRules newRules = Inr (changed, is)"
  obtains oldP newP where
    "policies known blocked (changed_outbounds oldOut newOut) (\<lambda>tag. map_of newOut tag \<noteq> None \<or> map_of oldOut tag \<noteq> None) oldRules no_policies = Inr oldP"
    "policies known blocked (changed_outbounds oldOut newOut) (\<lambda>tag. map_of newOut tag \<noteq> None \<or> map_of oldOut tag \<noteq> None) newRules no_policies = Inr newP"
    "ps_fixed oldP = ps_fixed newP" "rule_indexes U known blocked newOut oldRules newRules (previous_by_hash U oldRules) = Inr is"
    "no_dangling (changed_outbounds oldOut newOut) newOut newRules = Inr ()"
    "changed = changed_names known (changed_outbounds oldOut newOut) oldP newP"
  using assms by (auto simp: plan_rules_def rbind_eq_Inr_iff Let_def split: if_splits)

text \<open>C6: An accepted plan for the rules. There is one index for each wanted rule; an index that is not negative names an old rule
  equal to it, and no old rule is taken over twice; every other wanted rule is a user rule: it names at least one
  managed user and no blocked one, has none but the fields of user rules, so it is neither logical nor inverted and
  refers to no rule set, and its outbound, if it has one, is configured.\<close>

theorem plan_takes_over_rules:
  assumes "planUserUpdate U before after = Inr plan"
  shows "distinct (filter (\<lambda>i. 0 \<le> i) (ruleIndexes plan)) \<and>
    list_all2 (\<lambda>i v. if 0 \<le> i then nat i < length (rules_of before) \<and> rules_of before ! nat i = v
      else \<exists>row names. v = JObj row \<and> userNames row = Some names \<and> set names \<inter> fst (plan_names U before after) \<noteq> {} \<and>
        set names \<inter> snd (plan_names U before after) = {} \<and> fmdom' row \<subseteq> set dynamic_fields \<and>
        (\<forall>tag. field row ''outbound'' = JStr tag \<longrightarrow> tag \<in> (\<lambda>v. as_string (field (the (as_object v)) ''tag'')) ` set (rows after ''outbounds'')))
      (ruleIndexes plan) (rules_of after)"
proof -
  obtain known blocked oldOut newOut where n: "plan_names U before after = (known, blocked)"
    and out: "namedRows (field after ''outbounds'') = Inr newOut"
    and r: "plan_rules U known blocked oldOut newOut (rules_of before) (rules_of after) = Inr (changedNames plan, ruleIndexes plan)"
    using assms by (rule planUserUpdate_Inr) blast
  have "rule_indexes U known blocked newOut (rules_of before) (rules_of after) (previous_by_hash U (rules_of before)) = Inr (ruleIndexes plan)"
    using r by (rule plan_rules_Inr)
  note ri = rule_indexes_ok [OF this previous_by_hash_ok]
  have tags: "tag \<in> (\<lambda>v. as_string (field (the (as_object v)) ''tag'')) ` set (rows after ''outbounds'')" if found: "map_of newOut tag \<noteq> None" for tag
  proof -
    obtain row where row: "map_of newOut tag = Some row" using found by blast
    then have "JObj row \<in> set (rows after ''outbounds'')" using map_of_SomeD [OF row] namedRows_Inr(2) [OF out] by force
    then show ?thesis using namedRows_Inr(3) [OF out row] by force
  qed
  have user: "\<exists>row names. v = JObj row \<and> userNames row = Some names \<and> set names \<inter> known \<noteq> {} \<and> set names \<inter> blocked = {} \<and>
      fmdom' row \<subseteq> set dynamic_fields \<and> (\<forall>tag. field row ''outbound'' = JStr tag \<longrightarrow>
        tag \<in> (\<lambda>v. as_string (field (the (as_object v)) ''tag'')) ` set (rows after ''outbounds''))"
    if u: "user_rule_row known blocked newOut v" for v
  proof -
    obtain row where row: "v = JObj row" "dynamicRule row known blocked" "\<forall>tag. field row ''outbound'' = JStr tag \<longrightarrow> map_of newOut tag \<noteq> None"
      using u by (auto simp: user_rule_row_def)
    obtain names where names: "userNames row = Some names" "list_all (\<lambda>name. name \<noteq> [] \<and> name \<notin> blocked) names"
      "list_ex (\<lambda>name. name \<in> known) names" "fmpred (\<lambda>key _. key \<in> set dynamic_fields) row"
      using row(2) by (auto simp: dynamicRule_def split: option.splits)
    have "fmdom' row \<subseteq> set dynamic_fields" using names(4) by (auto simp: fmpred_iff fmlookup_dom'_iff)
    then show ?thesis using names row tags by (intro exI [of _ row] exI [of _ names]) (auto simp: list_all_iff list_ex_iff)
  qed
  show ?thesis
    unfolding n fst_conv snd_conv
    by (intro conjI conjunct1 [OF ri] list_all2_mono [OF conjunct2 [OF conjunct2 [OF ri]]]) (simp_all only: user simp_thms split: if_splits)
qed

text \<open>C7: Users are affected exactly when their routing changes. A managed user is among the changed names exactly when the rules mean
  something else for it, that is, the static rules with the user rules naming it in their order are not the same,
  or when one of its rules refers to an outbound that changes. In particular the removal of one user from a rule
  that it shares with others affects none of the others.\<close>

theorem plan_changed_names:
  assumes plan: "planUserUpdate U before after = Inr plan"
    and outs: "namedRows (field before ''outbounds'') = Inr oldOut" "namedRows (field after ''outbounds'') = Inr newOut"
  shows "name \<in> changedNames plan \<longleftrightarrow> name \<in> fst (plan_names U before after) \<and>
    (let view = (\<lambda>config. user_view (fst (plan_names U before after)) (snd (plan_names U before after)) name (rules_of config))
     in view before \<noteq> view after \<or>
        (\<exists>row. (Inr row \<in> set (view before) \<or> Inr row \<in> set (view after)) \<and> references (changed_outbounds oldOut newOut) (JObj row)))"
proof -
  obtain known blocked where n: "plan_names U before after = (known, blocked)"
    and r: "plan_rules U known blocked oldOut newOut (rules_of before) (rules_of after) = Inr (changedNames plan, ruleIndexes plan)"
    using plan by (rule planUserUpdate_Inr) (use outs in auto)
  define co where "co = changed_outbounds oldOut newOut"
  obtain oldP newP where p: "policies known blocked co (\<lambda>tag. map_of newOut tag \<noteq> None \<or> map_of oldOut tag \<noteq> None) (rules_of before) no_policies = Inr oldP"
    "policies known blocked co (\<lambda>tag. map_of newOut tag \<noteq> None \<or> map_of oldOut tag \<noteq> None) (rules_of after) no_policies = Inr newP"
    and same: "ps_fixed oldP = ps_fixed newP" and c: "changedNames plan = changed_names known co oldP newP"
    using r unfolding co_def by (rule plan_rules_Inr)
  define u v where "u = user_view known blocked name (rules_of before)" and "v = user_view known blocked name (rules_of after)"
  note P = policies_no_policies [OF p(1), of name, folded u_def] policies_no_policies [OF p(2), of name, folded v_def]
  have pol: "policy_of oldP name = policy_of newP name \<longleftrightarrow> u = v"
    using view_determined [of u v 0] same P inj_section_item by (auto simp: inj_map_eq_map)
  have refs: "list_ex (references co) (map section_item (sections 0 w)) \<longleftrightarrow> (\<exists>row. Inr row \<in> set w \<and> references co (JObj row))"
    for w :: "(row + row) list"
  proof -
    have "list_ex (references co) (map section_item (sections 0 w)) \<longleftrightarrow> (\<exists>row \<in> snd ` set (sections 0 w). references co (JObj row))"
      by (simp add: list_ex_iff references_section)
    then show ?thesis unfolding sections_rules by blast
  qed
  have "name \<in> changedNames plan \<longleftrightarrow> name \<in> known \<and> (policy_of oldP name \<noteq> policy_of newP name \<or>
      list_ex (references co) (policy_of oldP name) \<or> list_ex (references co) (policy_of newP name))"
    unfolding c changed_names_def by (auto simp del: references.simps)
  then show ?thesis
    unfolding n co_def [symmetric] fst_conv snd_conv Let_def u_def [symmetric] v_def [symmetric] P(2,4) pol [unfolded P(2,4)] refs by blast
qed

section \<open>Outbounds\<close>

lemma removed_outbounds_iff:
  "gomap_wf oldOut \<Longrightarrow> t \<in> set (removed_outbounds oldOut newOut) \<longleftrightarrow> (\<exists>old. map_of oldOut t = Some old \<and> map_of newOut t \<noteq> Some old)"
  by (auto simp: removed_outbounds_def map_of_eq_Some_iff image_iff)

lemma outbound_indexes_iff:
  "i \<in> set (outbound_indexes oldOut newOut) \<longleftrightarrow> i < length newOut \<and> map_of oldOut (fst (newOut ! i)) \<noteq> Some (snd (newOut ! i))"
  by (auto simp: outbound_indexes_def split_beta)

lemma map_of_nth: "gomap_wf m \<Longrightarrow> i < length m \<Longrightarrow> map_of m (fst (m ! i)) = Some (snd (m ! i))"
  by (simp add: map_of_eq_Some_iff)

lemma changed_outbounds_iff:
  assumes wf: "gomap_wf oldOut" "gomap_wf newOut"
  shows "t \<in> changed_outbounds oldOut newOut \<longleftrightarrow> map_of oldOut t \<noteq> map_of newOut t"
proof -
  have "(\<exists>i \<in> set (outbound_indexes oldOut newOut). fst (newOut ! i) = t) \<longleftrightarrow> (\<exists>next. map_of newOut t = Some next \<and> map_of oldOut t \<noteq> Some next)"
  proof
    assume "\<exists>i \<in> set (outbound_indexes oldOut newOut). fst (newOut ! i) = t"
    then obtain i where "i < length newOut" "map_of oldOut t \<noteq> Some (snd (newOut ! i))" "fst (newOut ! i) = t" by (auto simp: outbound_indexes_iff)
    then show "\<exists>next. map_of newOut t = Some next \<and> map_of oldOut t \<noteq> Some next" using map_of_nth [OF wf(2)] by blast
  next
    assume "\<exists>next. map_of newOut t = Some next \<and> map_of oldOut t \<noteq> Some next"
    then obtain "next" i where "i < length newOut" "newOut ! i = (t, next)" "map_of oldOut t \<noteq> Some next"
      by (metis in_set_conv_nth map_of_SomeD)
    then show "\<exists>i \<in> set (outbound_indexes oldOut newOut). fst (newOut ! i) = t"
      by (intro bexI [of _ i]) (auto simp: outbound_indexes_iff)
  qed
  then show ?thesis
    unfolding changed_outbounds_def using removed_outbounds_iff [OF wf(1), of t newOut]
    by (cases "map_of oldOut t"; cases "map_of newOut t") (auto simp: image_iff Bex_def)
qed

lemma no_dangling_Inr:
  "no_dangling changedOut newOut rules = Inr () \<Longrightarrow> JObj row \<in> set rules \<Longrightarrow> field row ''outbound'' = JStr t \<Longrightarrow>
     t \<in> changedOut \<Longrightarrow> map_of newOut t \<noteq> None"
  by (induction rules) (auto simp: rbind_eq_Inr_iff must_object_Inr string_field_ex split: if_splits)

text \<open>Leaving out more keys leaves fewer references.\<close>

lemma fmlookup_without: "fmlookup (without row keys) k = (if k \<in> set keys then None else fmlookup row k)"
  unfolding without_def by (induction keys arbitrary: row) auto

lemma references_object:
  "references tags (JObj row) \<longleftrightarrow>
     (\<exists>key \<in> {''outbound'', ''detour'', ''download_detour''}. \<exists>tag \<in> tags. fmlookup row key = Some (JStr tag)) \<or>
     (\<exists>k v. fmlookup row k = Some v \<and> references tags v)"
proof -
  have "list_ex (\<lambda>tag. tag \<in> tags) (string_field row key) \<longleftrightarrow> (\<exists>tag \<in> tags. fmlookup row key = Some (JStr tag))" for key
    by (auto simp: string_field_ex field_def split: option.splits)
  moreover have "\<not> fmpred (\<lambda>_ b. \<not> b) (fmmap (references tags) row) \<longleftrightarrow> (\<exists>k v. fmlookup row k = Some v \<and> references tags v)"
    by (auto simp: fmpred_iff)
  ultimately show ?thesis by simp
qed

lemma references_without:
  "references tags (JObj (without row (xs @ ys))) \<Longrightarrow> references tags (JObj (without row ys))"
  unfolding references_object fmlookup_without by (auto split: if_splits)

lemma policies_references:
  "policies known blocked changedOut exists rules st = Inr st' \<Longrightarrow> JObj rule \<in> set rules \<Longrightarrow>
     references changedOut (JObj rule) \<Longrightarrow> dynamicRule rule known blocked"
  by (induction rules arbitrary: st) (auto simp del: references.simps split: option.splits if_splits)

lemma plan_rule_references:
  assumes "plan_rules U known blocked oldOut newOut oldRules newRules = Inr (changed, is)"
    and "JObj rule \<in> set oldRules \<or> JObj rule \<in> set newRules" and "references (changed_outbounds oldOut newOut) (JObj rule)"
  shows "dynamicRule rule known blocked"
  using assms by (auto elim!: plan_rules_Inr dest: policies_references simp del: references.simps)

text \<open>C8: An accepted plan for the outbounds. The removed tags are the configured ones whose outbound is wanted differently or not at
  all, each once; the planned outbounds are those that are new or different, and each has a tag that is removed as
  well or was not configured. Whatever changes is a direct or SOCKS outbound without a detour, before and after. Nothing
  that stays refers to it under \<^verbatim>\<open>outbound\<close>, \<^verbatim>\<open>detour\<close> or \<^verbatim>\<open>download_detour\<close>: not the configuration outside outbounds and
  route, nor the route apart from its rules, nor an outbound that stays; and a rule of either configuration that refers
  to it is a user rule. Every rule that is wanted still finds its outbound when it changes.\<close>

theorem plan_outbounds:
  assumes plan: "planUserUpdate U before after = Inr plan"
    and outs: "namedRows (field before ''outbounds'') = Inr oldOut" "namedRows (field after ''outbounds'') = Inr newOut"
    and changed: "changed = {u. map_of oldOut u \<noteq> map_of newOut u}"
  shows "distinct (removedOutbounds plan) \<and> sorted_wrt (<) (outboundIndexes plan) \<and>
    (t \<in> set (removedOutbounds plan) \<longleftrightarrow> (\<exists>old. map_of oldOut t = Some old \<and> map_of newOut t \<noteq> Some old)) \<and>
    (i \<in> set (outboundIndexes plan) \<longleftrightarrow> i < length newOut \<and> map_of oldOut (fst (newOut ! i)) \<noteq> Some (snd (newOut ! i))) \<and>
    (i \<in> set (outboundIndexes plan) \<longrightarrow> fst (newOut ! i) \<in> set (removedOutbounds plan) \<or> map_of oldOut (fst (newOut ! i)) = None) \<and>
    (t \<in> changed \<longrightarrow> independent (map_of oldOut t) \<and> independent (map_of newOut t)) \<and>
    \<not> references changed (JObj (without before [''outbounds'', ''route''])) \<and>
    \<not> references changed (JObj (without after [''inbounds'', ''outbounds'', ''route''])) \<and>
    \<not> references changed (JObj (without (nested before ''route'') [''rules''])) \<and>
    \<not> references changed (JObj (without (nested after ''route'') [''rules''])) \<and>
    (map_of oldOut t = Some row \<longrightarrow> t \<notin> changed \<longrightarrow> \<not> references changed (JObj row)) \<and>
    (JObj rule \<in> set (rules_of before) \<union> set (rules_of after) \<longrightarrow> references changed (JObj rule) \<longrightarrow>
       dynamicRule rule (fst (plan_names U before after)) (snd (plan_names U before after))) \<and>
    (JObj rule \<in> set (rules_of after) \<longrightarrow> field rule ''outbound'' = JStr t \<longrightarrow> map_of oldOut t \<noteq> None \<longrightarrow> map_of newOut t \<noteq> None)"
proof -
  note wf = namedRows_Inr(1) [OF outs(1)] namedRows_Inr(1) [OF outs(2)]
  obtain known blocked oldIn newIn where p: "check_outbounds before (nested before ''route'') oldOut newOut (changed_outbounds oldOut newOut) = Inr ()"
    "plan_rules U known blocked oldOut newOut (rules_of before) (rules_of after) = Inr (changedNames plan, ruleIndexes plan)"
    "outboundIndexes plan = outbound_indexes oldOut newOut" "removedOutbounds plan = removed_outbounds oldOut newOut"
    "topology_kept before after oldIn newIn" "plan_names U before after = (known, blocked)"
    using plan by (rule planUserUpdate_Inr) (use outs in auto)
  have co: "changed_outbounds oldOut newOut = changed" using changed_outbounds_iff [OF wf] changed by blast
  have nd: "no_dangling changed newOut (rules_of after) = Inr ()"
    using p(2) unfolding co [symmetric] by (rule plan_rules_Inr)
  have dist: "distinct (removedOutbounds plan)" using wf(1) by (simp add: p(4) removed_outbounds_def distinct_map_filter)
  have srt: "sorted_wrt (<) (outboundIndexes plan)" by (simp add: p(3) outbound_indexes_def sorted_wrt_filter)
  have ind: "independent (map_of oldOut t) \<and> independent (map_of newOut t)" if "t \<in> changed"
    using p(1) that by (auto simp: check_outbounds_def co split: if_splits)
  have glob: "\<not> references changed (JObj (without before [''outbounds'', ''route'']))"
    "\<not> references changed (JObj (without (nested before ''route'') [''rules'']))"
    using p(1) by (auto simp: check_outbounds_def co simp del: references.simps split: if_splits)
  have glob': "\<not> references changed (JObj (without after [''inbounds'', ''outbounds'', ''route'']))"
    "\<not> references changed (JObj (without (nested after ''route'') [''rules'']))"
    using glob p(5) references_without [of changed before "[''inbounds'']" "[''outbounds'', ''route'']"]
    by (auto simp: topology_kept_def simp del: references.simps)
  have refs: "\<not> references changed (JObj row)" if "map_of oldOut t = Some row" "t \<notin> changed"
    using p(1) map_of_SomeD [OF that(1)] that(2) unfolding check_outbounds_def co
    by (auto simp: list_ex_iff simp del: references.simps split: if_splits)
  have rule: "dynamicRule rule known blocked" if "JObj rule \<in> set (rules_of before) \<union> set (rules_of after)" "references changed (JObj rule)"
    using plan_rule_references [OF p(2), of rule] that by (simp add: co del: references.simps)
  have dang: "map_of newOut t \<noteq> None" if "JObj rule \<in> set (rules_of after)" "field rule ''outbound'' = JStr t" "map_of oldOut t \<noteq> None"
    using no_dangling_Inr [OF nd that(1,2)] that(3) by (cases "map_of oldOut t = map_of newOut t") (auto simp: changed)
  have tag: "fst (newOut ! i) \<in> set (removedOutbounds plan) \<or> map_of oldOut (fst (newOut ! i)) = None" if "i \<in> set (outboundIndexes plan)"
    using that wf by (auto simp: p(3,4) outbound_indexes_iff removed_outbounds_iff map_of_nth)
  show ?thesis
    unfolding p(6) fst_conv snd_conv
    using dist srt ind glob glob' refs rule dang tag removed_outbounds_iff [OF wf(1), of t newOut] outbound_indexes_iff [of i oldOut newOut]
    unfolding p(3,4) by blast
qed

section \<open>Inbounds\<close>

lemma validate_all_nonempty: "validate_all U row vs st = Inr st' \<Longrightarrow> [] \<notin> fst st \<Longrightarrow> [] \<notin> fst st'"
proof (induction vs arbitrary: st)
  case (Cons v vs)
  then obtain st1 where st1: "validate_user U row v st = Inr st1" "validate_all U row vs st1 = Inr st'" by (auto simp: rbind_eq_Inr_iff)
  then have "[] \<notin> fst st1" using Cons.prems(2) by (auto simp: validate_user_def Let_def split: option.splits if_splits prod.splits)
  then show ?case using Cons.IH st1(2) by blast
qed simp

lemma validateUsers_nonempty: "validateUsers U row = Inr names \<Longrightarrow> [] \<notin> names"
  using validate_all_nonempty [of U row "rows row ''users''" "({}, {})"] by (auto simp: validateUsers_def rbind_eq_Inr_iff split: if_splits)

text \<open>What the loop over the inbounds has found out about one of them.\<close>

definition inbound_checked :: "plan_libs \<Rightarrow> string set \<Rightarrow> row \<Rightarrow> row \<Rightarrow> bool" where
  "inbound_checked U blocked old next \<longleftrightarrow> old = next \<and> blocked_names old \<subseteq> blocked \<or>
     supported_kind old \<and> without old [''users'', ''require_auth''] = without next [''users'', ''require_auth''] \<and>
     (field old ''require_auth'' = JBool True \<and> field old ''type'' = JStr ''socks'' \<longrightarrow> field next ''require_auth'' = JBool True) \<and>
     (\<exists>names. validateUsers U old = Inr names) \<and> (\<exists>names. validateUsers U next = Inr names)"

lemma without_append: "without (without row xs) ys = without row (xs @ ys)"
  by (simp add: without_def)

lemma plan_inbound_ok:
  assumes "plan_inbound U old next st = Inr st'" "[] \<notin> fst st"
  shows "[] \<notin> fst st' \<and> snd st \<subseteq> snd st' \<and> (\<exists>nx. next = Some nx \<and> inbound_checked U (snd st') old nx)"
proof -
  obtain nx where nx: "next = Some nx" using assms(1) by (auto simp: plan_inbound_def split: option.splits)
  define base where "base = (if field old ''type'' = JStr ''socks'' then [''users'', ''require_auth''] else [''users''])"
  consider "old = nx" "st' = (fst st, snd st \<union> blocked_names old)"
    | oldNames newNames where "supported_kind old" "without old base = without nx base"
      "\<not> (field old ''type'' = JStr ''socks'' \<and> field old ''require_auth'' = JBool True \<and> field nx ''require_auth'' \<noteq> JBool True)"
      "validateUsers U old = Inr oldNames" "validateUsers U nx = Inr newNames" "st' = (fst st \<union> oldNames \<union> newNames, snd st)"
    using assms(1) by (auto simp: plan_inbound_def nx Let_def base_def [symmetric] split_beta split: if_splits sum.splits)
  then show ?thesis
  proof cases
    case 1
    then show ?thesis using nx assms(2) by (auto simp: inbound_checked_def)
  next
    case 2
    have "without old [''users'', ''require_auth''] = without nx [''users'', ''require_auth'']"
      using arg_cong [OF 2(2), of "\<lambda>r. without r [''require_auth'']"] 2(2) by (auto simp: without_append base_def split: if_splits)
    then show ?thesis using 2 nx assms(2) validateUsers_nonempty [OF 2(4)] validateUsers_nonempty [OF 2(5)]
      by (auto simp: inbound_checked_def)
  qed
qed

lemma inbound_checked_mono: "inbound_checked U blocked old next \<Longrightarrow> blocked \<subseteq> blocked' \<Longrightarrow> inbound_checked U blocked' old next"
  by (auto simp: inbound_checked_def)

lemma plan_inbounds_ok:
  "plan_inbounds U oldIn newIn st = Inr st' \<Longrightarrow> [] \<notin> fst st \<Longrightarrow>
     [] \<notin> fst st' \<and> snd st \<subseteq> snd st' \<and> (\<forall>(tag, old) \<in> set oldIn. \<exists>nx. map_of newIn tag = Some nx \<and> inbound_checked U (snd st') old nx)"
proof (induction oldIn arbitrary: st)
  case (Cons p oldIn)
  obtain tag old where p: "p = (tag, old)" by (cases p)
  obtain st1 where st1: "plan_inbound U old (map_of newIn tag) st = Inr st1" "plan_inbounds U oldIn newIn st1 = Inr st'"
    using Cons.prems(1) by (auto simp: p rbind_eq_Inr_iff)
  note one = plan_inbound_ok [OF st1(1) Cons.prems(2)]
  note rest = Cons.IH [OF st1(2) conjunct1 [OF one]]
  then show ?case using one inbound_checked_mono unfolding p by fastforce
qed auto

lemma affected_users_Inr:
  "affected_users next changed vs = Inr b \<Longrightarrow>
     (\<forall>v \<in> set vs. as_object v \<noteq> None) \<and> (b \<longleftrightarrow> (\<exists>user. JObj user \<in> set vs \<and> user_name next user \<in> changed))"
  by (induction vs arbitrary: b) (auto simp: rbind_eq_Inr_iff must_object_Inr)

lemma inbound_indexes_Inr:
  "inbound_indexes U oldIn changed n newIn = Inr is \<Longrightarrow>
     sorted_wrt (<) is \<and> (\<forall>j \<in> set is. n \<le> j) \<and> (\<forall>i < length newIn.
       (n + i \<in> set is \<longleftrightarrow> map_of oldIn (fst (newIn ! i)) \<noteq> Some (snd (newIn ! i)) \<or>
         (\<exists>user. JObj user \<in> set (rows (snd (newIn ! i)) ''users'') \<and> user_name (snd (newIn ! i)) user \<in> changed)) \<and>
       (n + i \<in> set is \<longrightarrow> (\<exists>names. validateUsers U (snd (newIn ! i)) = Inr names)))"
proof (induction newIn arbitrary: n "is")
  case (Cons p newIn)
  obtain tag nx where p: "p = (tag, nx)" by (cases p)
  obtain b is1 rest where s: "affected_users nx changed (rows nx ''users'') = Inr b"
    "is1 = (if map_of oldIn tag \<noteq> Some nx \<or> b then [n] else [])" "map_of oldIn tag \<noteq> Some nx \<or> b \<Longrightarrow> \<exists>names. validateUsers U nx = Inr names"
    "inbound_indexes U oldIn changed (Suc n) newIn = Inr rest" "is = is1 @ rest"
    using Cons.prems by (auto simp: p rbind_eq_Inr_iff split: if_splits)
  note IH = Cons.IH [OF s(4)]
  have gt: "\<forall>j \<in> set rest. n < j" using IH by auto
  have "sorted_wrt (<) is \<and> (\<forall>j \<in> set is. n \<le> j)" using IH gt by (auto simp: s(2,5) intro: less_imp_le)
  moreover have "n + 0 \<in> set is \<longleftrightarrow> map_of oldIn tag \<noteq> Some nx \<or> b" using gt by (auto simp: s(2,5))
  moreover have "n + Suc i \<in> set is \<longleftrightarrow> Suc n + i \<in> set rest" for i by (auto simp: s(2,5))
  ultimately show ?case
    using IH s(3) affected_users_Inr [OF s(1)] unfolding p by (auto simp: less_Suc_eq_0_disj)
qed simp

lemma same_tags:
  assumes wf: "gomap_wf oldIn" "gomap_wf newIn" and len: "length oldIn = length newIn"
    and sub: "\<forall>(tag, old) \<in> set oldIn. map_of newIn tag \<noteq> None"
  shows "fst ` set oldIn = fst ` set newIn"
proof (rule card_subset_eq)
  show "fst ` set oldIn \<subseteq> fst ` set newIn" using sub by (fastforce simp: map_of_eq_None_iff)
  show "card (fst ` set oldIn) = card (fst ` set newIn)"
    using distinct_card [OF wf(1)] distinct_card [OF wf(2)] len by simp
qed simp

lemma blocked_user:
  assumes "JObj user \<in> set (rows inbound ''users'')" "user_name inbound user \<noteq> []"
  shows "user_name inbound user \<in> blocked_names inbound"
proof -
  define key where "key = (if field inbound ''type'' = JStr ''socks'' then ''username'' else ''name'')"
  have key: "key \<in> {''name'', ''username''}" and name: "user_name inbound user = as_string (field user key)"
    by (auto simp: key_def user_name_def)
  have "field user key = JStr (user_name inbound user)" using assms(2) name by (cases "field user key") auto
  then have "user_name inbound user \<in> set (string_field user ''name'' @ string_field user ''username'')"
    using key by (auto simp: string_field_def)
  then show ?thesis unfolding blocked_names_def using assms(1) by force
qed

text \<open>An accepted plan for the inbounds. Every wanted inbound exists; it is updated exactly when it is wanted differently or one of its
  users is affected. One that is updated is a VLESS, VMess or SOCKS inbound that differs only in its users and, for
  SOCKS, in requiring authentication, which an update never switches off; its users are valid before and after.
  The other inbounds, among them all of unsupported types and all with users that are not valid, are as before.\<close>

theorem plan_inbounds_exact:
  assumes plan: "planUserUpdate U before after = Inr plan"
    and ins: "namedRows (field before ''inbounds'') = Inr oldIn" "namedRows (field after ''inbounds'') = Inr newIn"
    and i: "i < length newIn" "newIn ! i = (tag, next)"
  shows "\<exists>old. map_of oldIn tag = Some old \<and>
    (i \<in> set (inboundIndexes plan) \<longleftrightarrow> old \<noteq> next \<or>
       (\<exists>user. JObj user \<in> set (rows next ''users'') \<and> user_name next user \<in> changedNames plan)) \<and>
    (i \<in> set (inboundIndexes plan) \<longrightarrow> supported_kind next \<and>
       without old [''users'', ''require_auth''] = without next [''users'', ''require_auth''] \<and>
       (field old ''require_auth'' = JBool True \<and> field old ''type'' = JStr ''socks'' \<longrightarrow> field next ''require_auth'' = JBool True) \<and>
       (\<exists>names. validateUsers U old = Inr names) \<and> (\<exists>names. validateUsers U next = Inr names))"
proof -
  obtain known0 blocked oldOut newOut where top: "topology_kept before after oldIn newIn"
    and pin: "plan_inbounds U oldIn newIn ({}, {}) = Inr (known0, blocked)"
    and pr: "plan_rules U (known0 - blocked) blocked oldOut newOut (rules_of before) (rules_of after) = Inr (changedNames plan, ruleIndexes plan)"
    and ii: "inbound_indexes U oldIn (changedNames plan) 0 newIn = Inr (inboundIndexes plan)"
    using plan by (rule planUserUpdate_Inr) (use ins in auto)
  note wf = namedRows_Inr(1) [OF ins(1)] namedRows_Inr(1) [OF ins(2)]
  have chk: "[] \<notin> known0" "\<forall>(tag, old) \<in> set oldIn. \<exists>nx. map_of newIn tag = Some nx \<and> inbound_checked U blocked old nx"
    using plan_inbounds_ok [OF pin] by auto
  have nx: "map_of newIn tag = Some next" using map_of_nth [OF wf(2) i(1)] i(2) by simp
  have "fst ` set oldIn = fst ` set newIn" using chk(2) top by (intro same_tags wf) (auto simp: topology_kept_def)
  moreover have "tag \<in> fst ` set newIn" using i by (force simp: in_set_conv_nth)
  ultimately obtain old where old: "map_of oldIn tag = Some old" by (metis map_of_eq_None_iff not_None_eq)
  have c: "inbound_checked U blocked old next" using chk(2) map_of_SomeD [OF old] nx by auto
  note one = inbound_indexes_Inr [OF ii, THEN conjunct2, THEN conjunct2, THEN spec, THEN mp, OF i(1), unfolded i(2) fst_conv snd_conv add_0]
  have iff: "i \<in> set (inboundIndexes plan) \<longleftrightarrow> old \<noteq> next \<or> (\<exists>user. JObj user \<in> set (rows next ''users'') \<and> user_name next user \<in> changedNames plan)"
    using one old by simp
  have changed: "changedNames plan \<subseteq> known0 - blocked"
    using pr by (rule plan_rules_Inr) (auto simp: changed_names_def simp del: references.simps)
  have sup: "supported_kind old \<and> without old [''users'', ''require_auth''] = without next [''users'', ''require_auth''] \<and>
     (field old ''require_auth'' = JBool True \<and> field old ''type'' = JStr ''socks'' \<longrightarrow> field next ''require_auth'' = JBool True) \<and>
     (\<exists>names. validateUsers U old = Inr names)" if "i \<in> set (inboundIndexes plan)"
  proof (cases "old = next \<and> blocked_names old \<subseteq> blocked")
    case True
    then have "user_name next user \<notin> changedNames plan" if u: "JObj user \<in> set (rows next ''users'')" for user
      using blocked_user [OF u] changed chk(1) by (cases "user_name next user = []") auto
    then show ?thesis using True iff that by blast
  qed (use c in \<open>auto simp: inbound_checked_def\<close>)
  have kind: "supported_kind next" if "supported_kind old" "without old [''users'', ''require_auth''] = without next [''users'', ''require_auth'']"
    using without_eqD [OF that(2), of "''type''"] that(1) by (simp add: supported_kind_def)
  have val: "i \<in> set (inboundIndexes plan) \<Longrightarrow> \<exists>names. validateUsers U next = Inr names"
    using one by blast
  show ?thesis
    using old iff sup kind val by (intro exI [of _ old]) simp
qed

section \<open>An update\<close>

text \<open>Two users of a SOCKS inbound share a rule; the update takes one of them out of it.\<close>

definition obj :: "(string \<times> json) list \<Rightarrow> json" where
  "obj kvs = JObj (fmap_of_list kvs)"

definition demo_users :: "json list" where
  "demo_users = [obj [(''username'', JStr ''alice''), (''password'', JStr ''a'')], obj [(''username'', JStr ''bob''), (''password'', JStr ''b'')]]"

definition demo_config :: "string list \<Rightarrow> row" where
  "demo_config users = fmap_of_list
     [(''inbounds'', JArr [obj [(''type'', JStr ''socks''), (''tag'', JStr ''in''), (''users'', JArr demo_users)]]),
      (''outbounds'', JArr [obj [(''type'', JStr ''direct''), (''tag'', JStr ''d'')]]),
      (''route'', obj [(''rules'', JArr [obj [(''auth_user'', JArr (map JStr users)), (''outbound'', JStr ''d'')]])])]"

definition demo_plan_libs :: plan_libs where
  "demo_plan_libs = \<lparr>uuid_from = (\<lambda>_. None), uuid_v5 = (\<lambda>s. s), fingerprint_json = (\<lambda>_. [])\<rparr>"

definition demo_plan :: user_update_plan where
  "demo_plan = \<lparr>inboundIndexes = [0], outboundIndexes = [], removedOutbounds = [], ruleIndexes = [-1], changedNames = {''bob''}\<rparr>"

abbreviation demo_before :: row where "demo_before \<equiv> demo_config [''alice'', ''bob'']"
abbreviation demo_after :: row where "demo_after \<equiv> demo_config [''alice'']"

lemma demo_plan_eq: "planUserUpdate demo_plan_libs demo_before demo_after = Inr demo_plan"
  by code_simp

lemma demo_inbounds_eq:
  "namedRows (field (demo_config us) ''inbounds'') =
     Inr [(''in'', fmap_of_list [(''type'', JStr ''socks''), (''tag'', JStr ''in''), (''users'', JArr demo_users)])]"
  by (simp add: demo_config_def field_def namedRows_def fmlookup_of_list obj_def Let_def)

lemma demo_outbounds_row_eq:
  "namedRows (field (demo_config us) ''outbounds'') = Inr [(''d'', fmap_of_list [(''type'', JStr ''direct''), (''tag'', JStr ''d'')])]"
  by (simp add: demo_config_def field_def namedRows_def fmlookup_of_list obj_def Let_def)

theorem plan_takes_over_rules_witness:
  "\<exists>row names. hd (rules_of demo_after) = JObj row \<and> userNames row = Some names \<and> set names \<inter> fst (plan_names demo_plan_libs demo_before demo_after) \<noteq> {}"
proof -
  have "rules_of demo_after = [obj [(''auth_user'', JArr [JStr ''alice'']), (''outbound'', JStr ''d'')]]" by code_simp
  then show ?thesis using plan_takes_over_rules [OF demo_plan_eq] by (auto simp: demo_plan_def)
qed

theorem plan_changed_names_witness:
  "''alice'' \<in> fst (plan_names demo_plan_libs demo_before demo_after) \<and>
   user_view (fst (plan_names demo_plan_libs demo_before demo_after)) (snd (plan_names demo_plan_libs demo_before demo_after)) ''alice'' (rules_of demo_before) =
   user_view (fst (plan_names demo_plan_libs demo_before demo_after)) (snd (plan_names demo_plan_libs demo_before demo_after)) ''alice'' (rules_of demo_after)"
proof -
  have n: "plan_names demo_plan_libs demo_before demo_after = ({''alice'', ''bob''}, {})" by code_simp
  show ?thesis
    using plan_changed_names [OF demo_plan_eq demo_outbounds_row_eq demo_outbounds_row_eq, of "''alice''"]
    unfolding n by (simp add: demo_plan_def Let_def)
qed

text \<open>The SOCKS outbound of a user moves to another server.\<close>

definition demo_socks_row :: "string \<Rightarrow> row" where
  "demo_socks_row server = fmap_of_list [(''type'', JStr ''socks''), (''tag'', JStr ''s''), (''server'', JStr server)]"

definition demo_out_config :: "string \<Rightarrow> row" where
  "demo_out_config server = fmap_of_list
     [(''inbounds'', JArr [obj [(''type'', JStr ''socks''), (''tag'', JStr ''in''), (''users'', JArr demo_users)]]),
      (''outbounds'', JArr [obj [(''type'', JStr ''direct''), (''tag'', JStr ''d'')], JObj (demo_socks_row server)]),
      (''route'', obj [(''rules'', JArr [obj [(''auth_user'', JArr [JStr ''alice'']), (''outbound'', JStr ''s'')]])])]"

definition demo_out_plan :: user_update_plan where
  "demo_out_plan = \<lparr>inboundIndexes = [0], outboundIndexes = [1], removedOutbounds = [''s''], ruleIndexes = [0], changedNames = {''alice''}\<rparr>"

lemma demo_out_plan_eq: "planUserUpdate demo_plan_libs (demo_out_config ''a'') (demo_out_config ''b'') = Inr demo_out_plan"
  by code_simp

lemma demo_out_rows_eq:
  "namedRows (field (demo_out_config server) ''outbounds'') =
     Inr [(''d'', fmap_of_list [(''type'', JStr ''direct''), (''tag'', JStr ''d'')]), (''s'', demo_socks_row server)]"
  by (simp add: demo_out_config_def demo_socks_row_def field_def namedRows_def fmlookup_of_list obj_def Let_def)

theorem plan_outbounds_witness:
  "''s'' \<in> set (removedOutbounds demo_out_plan) \<and> 1 \<in> set (outboundIndexes demo_out_plan) \<and>
   independent (Some (demo_socks_row ''a'')) \<and> independent (Some (demo_socks_row ''b'')) \<and>
   \<not> references {''s''} (JObj (fmap_of_list [(''type'', JStr ''direct''), (''tag'', JStr ''d'')])) \<and>
   references {''s''} (hd (rules_of (demo_out_config ''b''))) \<and>
   (\<exists>rule. hd (rules_of (demo_out_config ''b'')) = JObj rule \<and>
      dynamicRule rule (fst (plan_names demo_plan_libs (demo_out_config ''a'') (demo_out_config ''b'')))
        (snd (plan_names demo_plan_libs (demo_out_config ''a'') (demo_out_config ''b''))))"
proof -
  let ?d = "fmap_of_list [(''type'', JStr ''direct''), (''tag'', JStr ''d'')]"
  have ne: "demo_socks_row ''a'' \<noteq> demo_socks_row ''b''"
  proof
    assume "demo_socks_row ''a'' = demo_socks_row ''b''"
    then have "fmlookup (demo_socks_row ''a'') ''server'' = fmlookup (demo_socks_row ''b'') ''server''" by simp
    then show False by (simp add: demo_socks_row_def fmlookup_of_list)
  qed
  have ch: "{''s''} = {u. map_of [(''d'', ?d), (''s'', demo_socks_row ''a'')] u \<noteq> map_of [(''d'', ?d), (''s'', demo_socks_row ''b'')] u}"
    using ne by auto
  have rules: "rules_of (demo_out_config ''b'') = [obj [(''auth_user'', JArr [JStr ''alice'']), (''outbound'', JStr ''s'')]]" by code_simp
  have ref: "references {''s''} (obj [(''auth_user'', JArr [JStr ''alice'']), (''outbound'', JStr ''s'')])" by code_simp
  note t = plan_outbounds [OF demo_out_plan_eq demo_out_rows_eq demo_out_rows_eq ch]
  show ?thesis
    using t [of "''s''" 1 "demo_socks_row ''a''" "fmap_of_list [(''auth_user'', JArr [JStr ''alice'']), (''outbound'', JStr ''s'')]"]
      t [of "''d''" 1 ?d "fmap_of_list [(''auth_user'', JArr [JStr ''alice'']), (''outbound'', JStr ''s'')]"] ref
    unfolding rules by (simp add: demo_out_plan_def obj_def del: references.simps)
qed

theorem plan_inbounds_exact_witness:
  "0 \<in> set (inboundIndexes demo_plan) \<and> (\<exists>names. validateUsers demo_plan_libs
     (fmap_of_list [(''type'', JStr ''socks''), (''tag'', JStr ''in''), (''users'', JArr demo_users)]) = Inr names)"
  using plan_inbounds_exact [OF demo_plan_eq demo_inbounds_eq demo_inbounds_eq, of 0] by (auto simp: demo_plan_def)

end
