(* ===== verification/User_Reload_Props.thy ===== *)
theory User_Reload_Props
  imports User_Reload User_Publications Outbound_Update Reload_Plan_Props Rule_Leases
begin

text \<open>
  What the reload promises: a rejected update changes nothing that matters, a fenced request never takes effect, and an
  accepted update publishes its rules, outbounds and users together.
\<close>

section \<open>Frames\<close>

lemma vless_prepareUsers_untouched: "vless_prepareUsers L h users changed m = (r, m') \<Longrightarrow> users_untouched m m'"
  by (auto simp: vless_prepareUsers_def split: sum.splits prod.splits dest: table_prepare_untouched)

lemma vmess_prepareUsers_untouched: "vmess_prepareUsers L h users changed m = (r, m') \<Longrightarrow> users_untouched m m'"
  by (auto simp: vmess_prepareUsers_def split: sum.splits prod.splits dest: table_prepare_untouched)

lemma socks_prepareUsers_untouched: "socks_prepareUsers L h users req changed m = (r, m') \<Longrightarrow> users_untouched m m'"
  by (auto simp: socks_prepareUsers_def Let_def split: sum.splits prod.splits if_splits dest: table_prepare_untouched)

lemmas prepareUsers_untouched = vless_prepareUsers_untouched vmess_prepareUsers_untouched socks_prepareUsers_untouched

lemma PrepareUserUpdate_untouched: "PrepareUserUpdate L h raw changed m = (r, m') \<Longrightarrow> users_untouched m m'"
  by (auto simp: PrepareUserUpdate_def split: credentials.splits inbound_options.splits dest: prepareUsers_untouched)

lemma prepare_inbounds_untouched: "prepare_inbounds L inbounds options changed is m = (r, m') \<Longrightarrow> users_untouched m m'"
proof (induction "is" arbitrary: m r)
  case (Cons i "is")
  obtain tag raw where o: "options ! i = (tag, raw)" by (cases "options ! i")
  show ?case
  proof (cases "length options \<le> i \<or> map_of inbounds tag = None \<or> map_of inbounds tag = Some None")
    case True
    then show ?thesis using Cons.prems o by (auto simp: Let_def split: if_splits)
  next
    case False
    then obtain h where h: "map_of inbounds tag = Some (Some h)" by auto
    obtain r1 m1 where p: "PrepareUserUpdate (rl_users L) h raw changed m = (r1, m1)" by (cases "PrepareUserUpdate (rl_users L) h raw changed m")
    note u = PrepareUserUpdate_untouched [OF p]
    show ?thesis
    proof (cases r1)
      case (Inl e)
      then show ?thesis using Cons.prems False o h p u by simp
    next
      case (Inr pc)
      have "m' = snd (prepare_inbounds L inbounds options changed is m1)" using Cons.prems False o h p Inr by (auto simp: split_beta)
      then have "prepare_inbounds L inbounds options changed is m1 = (fst (prepare_inbounds L inbounds options changed is m1), m')" by simp
      from users_untouched_trans [OF u Cons.IH [OF this]] show ?thesis .
    qed
  qed
qed simp

lemma outbound_prepare_frame:
  assumes "outbound_PrepareUserUpdate lf reg endpoints options remove m = (r, m')"
  shows "om_outbounds m' = om_outbounds m \<and> om_by_tag m' = om_by_tag m \<and> om_default m' = om_default m \<and> om_depend_by m' = om_depend_by m"
  using assms by (auto simp: outbound_PrepareUserUpdate_def Let_def split: if_splits prod.splits option.splits)

text \<open>A router whose current rules are as before and in which only rules that were made since have been closed.\<close>

definition rules_untouched :: "rule_router \<Rightarrow> rule_router \<Rightarrow> bool" where
  "rules_untouched r r' \<longleftrightarrow> rt_rules r' = rt_rules r \<and> rt_added r' = rt_added r \<and> rt_snapshots r' = rt_snapshots r \<and>
     rt_fresh r \<le> rt_fresh r' \<and> (\<exists>l. rt_closed r' = rt_closed r @ l \<and> (\<forall>i \<in> set l. rt_fresh r \<le> i))"

lemma rules_untouched_current: "rules_untouched r r' \<Longrightarrow> currentRules r' = currentRules r"
  by (simp add: rules_untouched_def currentRules_def split: option.split)

lemma PrepareAddedRules_error:
  assumes "PrepareAddedRules L A S R opts idxs r = (Inl e, r')"
  shows "rules_untouched r r'"
proof -
  obtain closes fresh where p: "prepare_loop (NewRule L A False) (rule_start S R) (currentRules r) opts idxs (rt_fresh r) [] [] = Inl (e, closes, fresh)"
    and r': "r' = r\<lparr>rt_closed := rt_closed r @ closes, rt_fresh := fresh\<rparr>"
    using assms by (auto simp: PrepareAddedRules_def Let_def split: sum.splits)
  show ?thesis using prepare_loop_error [OF p] by (auto simp: rules_untouched_def r')
qed

lemma prepare_loop_added:
  "prepare_loop build start previous opts idxs fresh added next = Inr (next', added', fresh') \<Longrightarrow>
     fresh \<le> fresh' \<and> added' = added @ [fresh..<fresh']"
proof (induction build start previous opts idxs fresh added "next" rule: prepare_loop.induct)
  case (3 build start previous opt opts idx idxs fresh added "next")
  show ?case
  proof (cases "0 \<le> idx")
    case True
    then show ?thesis using "3.IH"(1) "3.prems" by (auto split: if_splits)
  next
    case False
    then obtain q action q' where b: "build opt = Inr (q, action)" and st: "start q = Inr q'"
      using "3.prems" by (auto split: sum.splits)
    then have run: "prepare_loop build start previous opts idxs (Suc fresh) (added @ [fresh])
        (next @ [\<lparr>ro_id = fresh, ro_rule = q', ro_action = action\<rparr>]) = Inr (next', added', fresh')"
      using "3.prems" False by simp
    from "3.IH"(2) [OF False b refl st run] show ?thesis by (auto simp: upt_conv_Cons)
  qed
qed auto

lemma PrepareAddedRules_Inr:
  assumes "PrepareAddedRules L A S R opts idxs r = (Inr p, r')"
  shows "rules_untouched r r'" "rules_untouched r (abortRules p r')"
    "length (pr_next p) = length opts" "i < length opts \<Longrightarrow>
      if 0 \<le> idxs ! i then nat (idxs ! i) < length (currentRules r) \<and> pr_next p ! i = currentRules r ! nat (idxs ! i)
      else \<exists>q. NewRule L A False (opts ! i) = Inr (q, ro_action (pr_next p ! i)) \<and> rule_start S R q = Inr (ro_rule (pr_next p ! i))"
proof -
  obtain "next" added fresh where l: "prepare_loop (NewRule L A False) (rule_start S R) (currentRules r) opts idxs (rt_fresh r) [] [] = Inr (next, added, fresh)"
    and r': "r' = r\<lparr>rt_fresh := fresh\<rparr>" and pr: "pr_next p = next" "pr_added p = added"
    using assms by (auto simp: PrepareAddedRules_def Let_def split: sum.splits)
  show "rules_untouched r r'" "rules_untouched r (abortRules p r')"
    using prepare_loop_added [OF l] by (auto simp: rules_untouched_def abortRules_def r' pr)
  show "length (pr_next p) = length opts" "i < length opts \<Longrightarrow>
      if 0 \<le> idxs ! i then nat (idxs ! i) < length (currentRules r) \<and> pr_next p ! i = currentRules r ! nat (idxs ! i)
      else \<exists>q. NewRule L A False (opts ! i) = Inr (q, ro_action (pr_next p ! i)) \<and> rule_start S R q = Inr (ro_rule (pr_next p ! i))"
    using prepare_loop_spec [OF l] by (auto simp: pr)
qed

section \<open>Rejected updates\<close>

text \<open>Two states of the program that agree in everything an update is about.\<close>

definition unchanged :: "box \<Rightarrow> box \<Rightarrow> bool" where
  "unchanged b b' \<longleftrightarrow> bx_closed b' = bx_closed b \<and> bx_options b' = bx_options b \<and> bx_revision b' = bx_revision b \<and> bx_inbounds b' = bx_inbounds b \<and>
     users_untouched (bx_users b) (bx_users b') \<and> rules_untouched (bx_router b) (bx_router b') \<and>
     om_outbounds (bx_outbound b') = om_outbounds (bx_outbound b) \<and> om_by_tag (bx_outbound b') = om_by_tag (bx_outbound b) \<and>
     om_default (bx_outbound b') = om_default (bx_outbound b)"

lemma rules_untouched_refl [simp]: "rules_untouched r r"
  by (simp add: rules_untouched_def)

lemma unchanged_refl [simp]: "unchanged b b"
  by (simp add: unchanged_def)

lemma statusLocked_frame:
  assumes "statusLocked L b = (s, b')"
  shows "unchanged b b'" "bx_view b' \<noteq> None" "rs_revision s = rs_revision (the (bx_view b'))" "rs_instance_id s = rs_instance_id (the (bx_view b'))"
    "rs_content_hash s = rs_content_hash (the (bx_view b'))"
  using assms by (auto simp: statusLocked_def publishRuntimeStatusLocked_def unchanged_def Let_def split: option.splits if_splits)

lemma rules_untouched_trans: "rules_untouched a b \<Longrightarrow> rules_untouched b c \<Longrightarrow> rules_untouched a c"
  unfolding rules_untouched_def by (auto, metis order_trans)

lemma unchanged_trans: "unchanged a b \<Longrightarrow> unchanged b c \<Longrightarrow> unchanged a c"
  unfolding unchanged_def by (auto intro: users_untouched_trans rules_untouched_trans)

lemma prepare_update_error:
  assumes "prepare_update L plan updated b = (Inl e, b')"
  shows "unchanged b b' \<and> bx_view b' = bx_view b \<and> bx_instance b' = bx_instance b"
proof -
  obtain r1 m where p1: "prepare_inbounds L (bx_inbounds b) (op_inbounds updated) (changedNames plan) (inboundIndexes plan) (bx_users b) = (r1, m)"
    by (cases "prepare_inbounds L (bx_inbounds b) (op_inbounds updated) (changedNames plan) (inboundIndexes plan) (bx_users b)")
  obtain r2 r where p2: "PrepareAddedRules (rl_rule_libs L) (rl_action_libs L) (rl_services L) (rl_rule_sets L) (op_rules updated) (ruleIndexes plan) (bx_router b) = (r2, r)"
    by (cases "PrepareAddedRules (rl_rule_libs L) (rl_action_libs L) (rl_services L) (rl_rule_sets L) (op_rules updated) (ruleIndexes plan) (bx_router b)")
  obtain r3 om where p3: "outbound_PrepareUserUpdate (rl_life L) (rl_registry L) (rl_endpoints L) (map ((!) (op_outbounds updated)) (outboundIndexes plan))
      (removedOutbounds plan) (bx_outbound b) = (r3, om)"
    by (cases "outbound_PrepareUserUpdate (rl_life L) (rl_registry L) (rl_endpoints L) (map ((!) (op_outbounds updated)) (outboundIndexes plan))
      (removedOutbounds plan) (bx_outbound b)")
  note u = prepare_inbounds_untouched [OF p1] and o = outbound_prepare_frame [OF p3]
  have r: "rules_untouched (bx_router b) r" using p2 PrepareAddedRules_error PrepareAddedRules_Inr(1) by (cases r2) blast+
  have a: "rules_untouched (bx_router b) (abortRules q r)" if "r2 = Inr q" for q using p2 PrepareAddedRules_Inr(2) that by blast
  show ?thesis
    using assms u o r a by (auto simp: prepare_update_def p1 p2 p3 unchanged_def split: sum.splits if_splits)
qed

text \<open>C5: A rejected update is harmless. When a reload of users answers with an error, the options, the revision, the inbounds with their
  credentials, the outbounds and the default outbound are as before; the current rules are the same objects and none
  of the rules that existed has been closed; no table, session or identity has changed.\<close>

theorem rejected_reload_harmless:
  assumes "ReloadUsers L updated expectedRevision expectedInstance b = ((status, Some e), b')"
  shows "bx_options b' = bx_options b \<and> bx_revision b' = bx_revision b \<and> bx_inbounds b' = bx_inbounds b \<and>
    om_outbounds (bx_outbound b') = om_outbounds (bx_outbound b) \<and> om_by_tag (bx_outbound b') = om_by_tag (bx_outbound b) \<and>
    om_default (bx_outbound b') = om_default (bx_outbound b) \<and>
    currentRules (bx_router b') = currentRules (bx_router b) \<and>
    (\<exists>l. rt_closed (bx_router b') = rt_closed (bx_router b) @ l \<and> (\<forall>i \<in> set l. rt_fresh (bx_router b) \<le> i)) \<and>
    m_tables (bx_users b') = m_tables (bx_users b) \<and> m_sess (bx_users b') = m_sess (bx_users b) \<and> m_sessions (bx_users b') = m_sessions (bx_users b) \<and>
    m_io (bx_users b') = m_io (bx_users b) \<and> (\<forall>j < m_next_ident (bx_users b). m_idents (bx_users b') j = m_idents (bx_users b) j)"
proof -
  obtain s b1 where s: "statusLocked L b = (s, b1)" by (cases "statusLocked L b")
  note u1 = statusLocked_frame(1) [OF s]
  have "unchanged b1 b'"
    using assms prepare_update_error unfolding ReloadUsers_def reloadUsersLocked_def s
    by (auto simp: Let_def split: if_splits sum.splits prod.splits)
  then have "unchanged b b'" by (rule unchanged_trans [OF u1])
  then show ?thesis
    using rules_untouched_current by (auto simp: unchanged_def users_untouched_def same_sessions_def rules_untouched_def)
qed

section \<open>Revisions\<close>

text \<open>The cached status is that of the current revision.\<close>

definition view_ok :: "box \<Rightarrow> bool" where
  "view_ok b \<longleftrightarrow> (case bx_view b of None \<Rightarrow> True | Some v \<Rightarrow> rs_instance_id v = bx_instance b \<and> rs_revision v = bx_revision b)"

text \<open>One operation of the program moves the revision on by at most one.\<close>

definition next_revision :: "box \<Rightarrow> box \<Rightarrow> bool" where
  "next_revision b b' \<longleftrightarrow> view_ok b' \<and> (bx_view b \<noteq> None \<longrightarrow> bx_view b' \<noteq> None) \<and> bx_revision b' \<in> {bx_revision b, bx_revision b + 1}"

lemma statusLocked_view:
  assumes "statusLocked L b = (s, b')" "view_ok b"
  shows "view_ok b'" "bx_view b' \<noteq> None" "bx_revision b' = bx_revision b" "rs_revision s = bx_revision b" "rs_instance_id s = bx_instance b'"
    "bx_view b \<noteq> None \<Longrightarrow> b' = b"
  using assms by (auto simp: statusLocked_def publishRuntimeStatusLocked_def view_ok_def Let_def split: option.splits if_splits)

lemma prepare_update_view:
  assumes "prepare_update L plan updated b = (r, b')"
  shows "bx_view b' = bx_view b \<and> bx_instance b' = bx_instance b \<and> bx_revision b' = bx_revision b"
  using assms by (auto simp: prepare_update_def split: prod.splits sum.splits if_splits)

lemma publish_update_view:
  assumes "publish_update L plan u updated after b = (s, b')"
  shows "view_ok b'" "bx_view b' \<noteq> None" "bx_revision b' = bx_revision b + 1" "bx_options b' = updated" "rs_content_hash s = hash_of L after"
    "rs_revision s = bx_revision b + 1" "bx_view b' = Some (s\<lparr>rs_active_sessions := 0, rs_closed_sessions := 0, rs_cleanup_pending := False\<rparr>)"
  using assms by (auto simp: publish_update_def publishRuntimeStatusLocked_def view_ok_def Let_def split: prod.splits)

lemma next_revision_status: "view_ok b \<Longrightarrow> statusLocked L b = (s, b') \<Longrightarrow> next_revision b b'"
  using statusLocked_view [of L b s b'] by (simp add: next_revision_def)

lemma next_revision_reload:
  assumes ok: "view_ok b" and r: "reloadUsersLocked L updated expectedRevision expectedInstance b = (a, b')"
  shows "next_revision b b'"
proof -
  obtain s b1 where s: "statusLocked L b = (s, b1)" by (cases "statusLocked L b")
  note st = statusLocked_view [OF s ok]
  have "b' = b1 \<or> (\<exists>plan priv r b2. prepare_update L plan priv b1 = (r, b2) \<and>
      (b' = b2 \<or> (\<exists>u after s'. publish_update L plan u priv after b2 = (s', b'))))"
    using r unfolding reloadUsersLocked_def s
    by (auto simp: Let_def split_beta split: if_splits sum.splits prod.splits) (metis prod.collapse)+
  then consider "b' = b1" | plan priv r where "prepare_update L plan priv b1 = (r, b')"
    | plan priv r b2 u after s' where "prepare_update L plan priv b1 = (r, b2)" "publish_update L plan u priv after b2 = (s', b')"
    by blast
  then show ?thesis
  proof cases
    case 1
    then show ?thesis using st by (simp add: next_revision_def)
  next
    case 2
    then show ?thesis using st prepare_update_view [OF 2] by (auto simp: next_revision_def view_ok_def)
  next
    case 3
    then show ?thesis using st(3) prepare_update_view [OF 3(1)] publish_update_view [OF 3(2)] by (simp add: next_revision_def)
  qed
qed

inductive box_step :: "reload_libs \<Rightarrow> box \<Rightarrow> box \<Rightarrow> bool" for L where
  reload: "box_step L b (snd (ReloadUsers L updated expectedRevision expectedInstance b))"
| routes: "box_step L b (snd (ReloadUserRoutes L rules outbounds expectedRevision expectedInstance b))"
| fence: "box_step L b (snd (FenceUserRuntime L revision instance b))"
| preview: "box_step L b (snd (PreviewUserUpdate L updated b))"
| status: "box_step L b (snd (statusLocked L b))"
| traffic: "box_step L b (b\<lparr>bx_users := m, bx_router := r\<rparr>)"
| close: "box_step L b (b\<lparr>bx_closed := True\<rparr>)"

lemma next_revision_step: "box_step L b b' \<Longrightarrow> view_ok b \<Longrightarrow> next_revision b b'"
proof (induction rule: box_step.induct)
  case (reload b updated er ei)
  then show ?case using next_revision_reload [of b L updated er ei] by (cases "reloadUsersLocked L updated er ei b") (simp add: ReloadUsers_def)
next
  case (routes b rules outs er ei)
  obtain s b1 where s: "statusLocked L b = (s, b1)" by (cases "statusLocked L b")
  note st = statusLocked_view [OF s routes]
  have "next_revision b1 (snd (reloadUsersLocked L o' er ei b1))" for o'
    using next_revision_reload [OF st(1), of L o' er ei] by (cases "reloadUsersLocked L o' er ei b1") simp
  then show ?case using st by (auto simp: ReloadUserRoutes_def s next_revision_def split: sum.splits)
next
  case (fence b revision inst)
  obtain s b1 where s: "statusLocked L b = (s, b1)" by (cases "statusLocked L b")
  note st = statusLocked_view [OF s fence]
  then show ?case
    by (auto simp: FenceUserRuntime_def s next_revision_def publishRuntimeStatusLocked_def view_ok_def Let_def)
next
  case (preview b updated)
  obtain s b1 where s: "statusLocked L b = (s, b1)" by (cases "statusLocked L b")
  have "snd (PreviewUserUpdate L updated b) = b1" by (simp add: PreviewUserUpdate_def s Let_def split: sum.split)
  then show ?case using next_revision_status [OF preview s] by simp
next
  case (status b)
  then show ?case using next_revision_status [OF status] by (cases "statusLocked L b") simp
qed (auto simp: next_revision_def view_ok_def split: option.splits)

lemma next_revision_run:
  "(box_step L ^^ n) b b' \<Longrightarrow> view_ok b \<Longrightarrow> bx_view b \<noteq> None \<Longrightarrow>
     view_ok b' \<and> bx_view b' \<noteq> None \<and> (\<exists>k \<le> n. bx_revision b' = bx_revision b + of_nat k)"
proof (induction n arbitrary: b')
  case (Suc n)
  then obtain b1 where b1: "(box_step L ^^ n) b b1" "box_step L b1 b'" by auto
  then obtain k where k: "view_ok b1" "bx_view b1 \<noteq> None" "k \<le> n" "bx_revision b1 = bx_revision b + of_nat k" using Suc by blast
  note nr = next_revision_step [OF b1(2) k(1)]
  then have "bx_revision b' = bx_revision b + of_nat k \<or> bx_revision b' = bx_revision b + of_nat (Suc k)"
    using k(4) by (auto simp: next_revision_def)
  moreover have "k \<le> Suc n" "Suc k \<le> Suc n" using k(3) by auto
  ultimately show ?case using nr k(2) unfolding next_revision_def by blast
qed auto

text \<open>C9: A fence stops late requests. After a successful fence for a revision, a request that still carries this revision changes
  nothing, whatever other operations come in between, as long as there are fewer of them than the 64-bit revision
  can count.\<close>

theorem fence_stops_late_requests:
  assumes ok: "view_ok b" and fence: "FenceUserRuntime L revision inst b = ((status, None), b1)"
    and run: "(box_step L ^^ n) b1 b2" and n: "n < 2 ^ 64 - 1"
    and late: "ReloadUsers L updated (Some revision) inst b2 = ((status', err), b3)"
  shows "b3 = b2 \<and> (err = None \<longrightarrow> (\<exists>after. config L updated = Inr after \<and> hash_of L after = rs_content_hash status'))"
proof -
  obtain s b0 where s: "statusLocked L b = (s, b0)" by (cases "statusLocked L b")
  note st = statusLocked_view [OF s ok]
  have b1: "bx_revision b1 = revision + 1" "view_ok b1" "bx_view b1 \<noteq> None"
    using fence st by (auto simp: FenceUserRuntime_def s publishRuntimeStatusLocked_def view_ok_def Let_def split: if_splits)
  obtain k where k: "view_ok b2" "bx_view b2 \<noteq> None" "k \<le> n" "bx_revision b2 = revision + 1 + of_nat k"
    using next_revision_run [OF run b1(2,3)] b1(1) by auto
  have "of_nat (Suc k) \<noteq> (0 :: 64 word)" unfolding word_of_nat_eq_0_iff using k(3) n by (auto dest: dvd_imp_le)
  then have "bx_revision b2 \<noteq> revision" using k(4) by (simp add: add.assoc)
  moreover obtain s2 where s2: "statusLocked L b2 = (s2, b2)" "rs_revision s2 = bx_revision b2"
    using statusLocked_view [OF _ k(1)] k(2) by (metis prod.exhaust)
  ultimately show ?thesis
    using late by (auto simp: ReloadUsers_def reloadUsersLocked_def s2 split: if_splits sum.splits)
qed

section \<open>A running program\<close>

text \<open>The configuration of the plan above, in a program that decodes it to the options of one SOCKS inbound and one rule.\<close>

definition demo_options :: "row \<Rightarrow> options" where
  "demo_options c = \<lparr>op_inbounds = [(''in'', SocksOptions [\<lparr>so_username = ''alice'', so_password = ''a''\<rparr>, \<lparr>so_username = ''bob'', so_password = ''b''\<rparr>] False)],
     op_outbounds = [\<lparr>oo_type = ''direct'', oo_tag = ''d'', oo_options = ''{}''\<rparr>], op_route = Some [demo_user_options], op_other = JObj c\<rparr>"

definition demo_reload_libs :: reload_libs where
  "demo_reload_libs = \<lparr>rl_plan = demo_plan_libs\<lparr>fingerprint_json := (\<lambda>v. if v = JObj demo_before then ''before'' else ''after'')\<rparr>,
     rl_users = demo_user_libs, rl_marshal = (\<lambda>x. must_object (op_other x)), rl_unmarshal = (\<lambda>c. Inr (demo_options c)), rl_instance_id = ''instance'',
     rl_rule_libs = demo_libs, rl_action_libs = demo_action_libs, rl_services = demo_services, rl_rule_sets = (\<lambda>_. None),
     rl_life = demo_life, rl_registry = demo_registry, rl_endpoints = NewTagManager\<rparr>"

definition demo_box :: box where
  "demo_box = \<lparr>bx_closed = False, bx_view = None, bx_instance = [], bx_revision = 0, bx_options = demo_options demo_before, bx_users = new_manager 7,
     bx_inbounds = [(''in'', Some \<lparr>ib_type = ''socks'', ib_table = 0, ib_kernel_tls = False,
        ib_credentials = SocksUsers \<lparr>us_required = True, us_authenticator = [], us_identities = []\<rparr>\<rparr>)],
     bx_router = demo_router, bx_outbound = demo_outbounds\<rparr>"

lemma demo_normal: "update_rows ''inbounds'' normalize_inbound demo_before = demo_before" "update_rows ''inbounds'' normalize_inbound demo_after = demo_after"
  by code_simp+

lemma demo_differ: "demo_after \<noteq> demo_before"
  by code_simp

lemma demo_config_of: "config demo_reload_libs (demo_options demo_before) = Inr demo_before" "config demo_reload_libs (demo_options demo_after) = Inr demo_after"
  by (simp_all add: configObject_def demo_reload_libs_def demo_options_def must_object_def demo_normal)

lemma demo_hash: "hash_of demo_reload_libs demo_before = ''before''" "hash_of demo_reload_libs demo_after = ''after''"
  using demo_differ by (simp_all add: demo_reload_libs_def)

definition demo_view :: "64 word \<Rightarrow> runtime_status" where
  "demo_view r = \<lparr>rs_active_sessions = 0, rs_instance_id = ''instance'', rs_revision = r, rs_content_hash = ''before'',
     rs_closed_sessions = 0, rs_cleanup_pending = False\<rparr>"

definition demo_known :: "64 word \<Rightarrow> box" where
  "demo_known r = demo_box\<lparr>bx_revision := r, bx_instance := ''instance'', bx_view := Some (demo_view r)\<rparr>"

lemma demo_status: "statusLocked demo_reload_libs demo_box = (demo_view 0, demo_known 0)"
  "statusLocked demo_reload_libs (demo_known r) = (demo_view r, demo_known r)"
proof -
  have box: "bx_view demo_box = None" "bx_instance demo_box = []" "bx_options demo_box = demo_options demo_before" "bx_revision demo_box = 0"
    "session_count (bx_users demo_box) = 0" by (simp_all add: demo_box_def session_count_def new_manager_def)
  have id: "rl_instance_id demo_reload_libs = ''instance''" by (simp add: demo_reload_libs_def)
  show "statusLocked demo_reload_libs demo_box = (demo_view 0, demo_known 0)"
    by (simp add: statusLocked_def publishRuntimeStatusLocked_def box id demo_config_of demo_hash demo_known_def demo_view_def Let_def)
  show "statusLocked demo_reload_libs (demo_known r) = (demo_view r, demo_known r)"
    using box(5) by (simp add: statusLocked_def demo_known_def demo_view_def)
qed

lemma demo_conflict:
  assumes "bx_revision b \<noteq> revision" "statusLocked demo_reload_libs b = (demo_view (bx_revision b), b')" "\<not> bx_closed b'" "inst = [] \<or> inst = ''instance''"
  shows "ReloadUsers demo_reload_libs (demo_options demo_after) (Some revision) inst b = ((demo_view (bx_revision b), Some ErrRuntimeConflict), b')"
proof -
  have v: "rs_instance_id (demo_view r) = ''instance''" "rs_content_hash (demo_view r) = ''before''" "rs_revision (demo_view r) = r" for r
    by (simp_all add: demo_view_def)
  show ?thesis
    unfolding ReloadUsers_def reloadUsersLocked_def assms(2) Let_def prod.case v demo_config_of sum.case demo_hash
    using assms(1,3,4) by auto
qed

theorem rejected_reload_harmless_witness:
  "\<exists>status b'. ReloadUsers demo_reload_libs (demo_options demo_after) (Some 5) [] demo_box = ((status, Some ErrRuntimeConflict), b') \<and>
     bx_options b' = demo_options demo_before"
proof -
  have "bx_revision demo_box = 0" "\<not> bx_closed (demo_known 0)" by (simp_all add: demo_box_def demo_known_def)
  then have r: "ReloadUsers demo_reload_libs (demo_options demo_after) (Some 5) [] demo_box = ((demo_view 0, Some ErrRuntimeConflict), demo_known 0)"
    using demo_conflict [of demo_box 5 "demo_known 0" "[]"] demo_status(1) by simp
  from rejected_reload_harmless [OF this] have "bx_options (demo_known 0) = demo_options demo_before" by (simp add: demo_box_def)
  with r show ?thesis by blast
qed

theorem fence_stops_late_requests_witness:
  "\<exists>status b1. FenceUserRuntime demo_reload_libs 0 ''instance'' demo_box = ((status, None), b1) \<and>
     snd (ReloadUsers demo_reload_libs (demo_options demo_after) (Some 0) ''instance'' b1) = b1"
proof -
  have ok: "view_ok demo_box" by (simp add: view_ok_def demo_box_def)
  obtain status b1 where f: "FenceUserRuntime demo_reload_libs 0 ''instance'' demo_box = ((status, None), b1)"
    unfolding FenceUserRuntime_def demo_status(1)
    by (simp add: publishRuntimeStatusLocked_def demo_known_def demo_view_def demo_box_def Let_def)
  have run: "(box_step demo_reload_libs ^^ 0) b1 b1" by simp
  obtain status' err b3 where late: "ReloadUsers demo_reload_libs (demo_options demo_after) (Some 0) ''instance'' b1 = ((status', err), b3)"
    by (metis prod.exhaust)
  from fence_stops_late_requests [OF ok f run _ late] have "b3 = b1" by simp
  with f late show ?thesis by auto
qed

end
