(* ===== verification/Reload_Accepted.thy ===== *)
theory Reload_Accepted
  imports User_Reload_Props
begin

text \<open>
  An accepted reload of users: what the rules, the outbounds, the users and their sessions are afterwards, and the
  invariant of the running program that makes the next reload behave in the same way.
\<close>

section \<open>Users of the inbounds\<close>

text \<open>The fingerprints of the users that options of an inbound configure, by the keys of the table.\<close>

definition user_fingerprints :: "user_libs \<Rightarrow> inbound_options \<Rightarrow> (string \<times> string) list" where
  "user_fingerprints L raw =
     (case raw of
        VLESSOptions us \<Rightarrow> map (\<lambda>(i, u). (user_key (vl_name u) i, ul_vless_fingerprint L u)) (enumerate 0 us)
      | VMessOptions us \<Rightarrow> map (\<lambda>(i, u). (user_key (vm_name u) i, ul_vmess_fingerprint L u)) (enumerate 0 us)
      | SocksOptions us _ \<Rightarrow> map (\<lambda>u. (so_username u, ul_socks_fingerprint L u)) us
      | OtherOptions \<Rightarrow> [])"

text \<open>The loops collect exactly these: every key is new when it is added.\<close>

definition collected :: "(string, string) gomap \<Rightarrow> (string \<times> string) list \<Rightarrow> (string, string) gomap \<Rightarrow> bool" where
  "collected fps new fps' \<longleftrightarrow> (gomap_wf fps \<longrightarrow> gomap_wf fps') \<and> fst ` set new \<inter> fst ` set fps = {} \<and> map_of fps' = map_of fps ++ map_of new"

lemma collected_Nil [simp]: "collected fps [] fps"
  by (simp add: collected_def)

lemma collected_Cons:
  assumes "map_of fps key = None" "collected (AList.update key f fps) new fps'"
  shows "collected fps ((key, f) # new) fps'"
proof -
  have "key \<notin> fst ` set fps" using assms(1) by (simp add: map_of_eq_None_iff)
  moreover have k: "key \<notin> fst ` set new" "fst ` set new \<inter> fst ` set fps = {}"
    using assms(2) by (auto simp: collected_def dom_update)
  moreover have "map_of fps' = map_of fps ++ map_of ((key, f) # new)"
  proof -
    have "map_of new key = None" using k(1) by (simp add: map_of_eq_None_iff)
    moreover have "map_of fps' = (map_of fps)(key \<mapsto> f) ++ map_of new" using assms(2) by (simp add: collected_def update_conv')
    ultimately show ?thesis by (auto simp: fun_eq_iff map_add_def split: option.split)
  qed
  ultimately show ?thesis using assms(2) by (auto simp: collected_def distinct_update)
qed

lemma vless_collected:
  "vless_fingerprints L k index users fps = Inr fps' \<Longrightarrow>
     collected fps (map (\<lambda>(i, u). (user_key (vl_name u) i, ul_vless_fingerprint L u)) (enumerate index users)) fps'"
  by (induction users arbitrary: index fps) (auto simp: Let_def split: if_splits intro: collected_Cons)

lemma vmess_collected:
  "vmess_fingerprints L k index users fps = Inr fps' \<Longrightarrow>
     collected fps (map (\<lambda>(i, u). (user_key (vm_name u) i, ul_vmess_fingerprint L u)) (enumerate index users)) fps'"
  by (induction users arbitrary: index fps) (auto simp: Let_def split: if_splits intro: collected_Cons)

lemma socks_collected:
  "socks_fingerprints L users fps = Inr fps' \<Longrightarrow> collected fps (map (\<lambda>u. (so_username u, ul_socks_fingerprint L u)) users) fps'"
  by (induction users arbitrary: fps) (auto split: if_splits intro: collected_Cons)

lemma forced_Some: "forced (Some changed) = (\<lambda>name. name \<in> changed)"
  by (simp add: forced_def fun_eq_iff)

lemma PrepareUserUpdate_Inr:
  assumes "PrepareUserUpdate L h raw changed m = (Inr (p, c), m1)"
  obtains fps ids where "gomap_wf fps" "map_of fps = map_of (user_fingerprints L raw)"
    "table_prepare (ib_table h) fps (\<lambda>name. name \<in> changed) m = (ids, p, m1)"
proof -
  have "\<exists>fps ids. collected [] (user_fingerprints L raw) fps \<and> table_prepare (ib_table h) fps (\<lambda>name. name \<in> changed) m = (ids, p, m1)"
  proof (cases raw)
    case (VLESSOptions us)
    then show ?thesis using assms
      by (auto simp: PrepareUserUpdate_def vless_prepareUsers_def user_fingerprints_def forced_Some
          split: credentials.splits sum.splits prod.splits dest: vless_collected)
  next
    case (VMessOptions us)
    then show ?thesis using assms
      by (auto simp: PrepareUserUpdate_def vmess_prepareUsers_def user_fingerprints_def forced_Some rbind_eq_Inr_iff
          split: credentials.splits sum.splits prod.splits dest: vmess_collected)
  next
    case (SocksOptions us req)
    then show ?thesis using assms
      by (auto simp: PrepareUserUpdate_def socks_prepareUsers_def user_fingerprints_def forced_Some Let_def
          split: credentials.splits sum.splits prod.splits if_splits dest: socks_collected)
  next
    case OtherOptions
    then show ?thesis using assms by (auto simp: PrepareUserUpdate_def split: credentials.splits)
  qed
  then show ?thesis using that by (auto simp: collected_def)
qed

text \<open>One prepared inbound: the options it was prepared for, the inbound and its table.\<close>

definition prepared_inbound ::
  "reload_libs \<Rightarrow> (string, user_inbound option) gomap \<Rightarrow> (string \<times> inbound_options) list \<Rightarrow> nat \<Rightarrow> (string, string) gomap \<Rightarrow>
     string \<times> publication \<times> credentials \<Rightarrow> bool" where
  "prepared_inbound L inbounds options i fps u \<longleftrightarrow> i < length options \<and> fst u = fst (options ! i) \<and>
     map_of fps = map_of (user_fingerprints (rl_users L) (snd (options ! i))) \<and>
     (\<exists>h. map_of inbounds (fst u) = Some (Some h) \<and> p_table (fst (snd u)) = ib_table h)"

lemma prepare_inbounds_Inr:
  "prepare_inbounds L inbounds options changed is m = (Inr us, m') \<Longrightarrow>
     \<exists>fs. prepared_run (\<lambda>name. name \<in> changed) m fs (map (fst \<circ> snd) us) m' \<and> length us = length is \<and> length fs = length is \<and>
       (\<forall>k < length is. prepared_inbound L inbounds options (is ! k) (fs ! k) (us ! k))"
proof (induction "is" arbitrary: m us)
  case Nil
  then show ?case by (auto intro: prepared_run.intros)
next
  case (Cons i "is")
  obtain tag raw where o: "options ! i = (tag, raw)" by (cases "options ! i")
  obtain h p c m1 where lt: "i < length options" and h: "map_of inbounds tag = Some (Some h)"
    and pu: "PrepareUserUpdate (rl_users L) h raw changed m = (Inr (p, c), m1)"
    using Cons.prems o by (auto simp: Let_def split: if_splits option.splits prod.splits sum.splits)
  obtain r m2 where rest: "prepare_inbounds L inbounds options changed is m1 = (r, m2)" by (cases "prepare_inbounds L inbounds options changed is m1")
  obtain us' where r: "r = Inr us'" "us = (tag, p, c) # us'" "m' = m2"
    using Cons.prems o lt h pu rest by (auto simp: rbind_eq_Inr_iff split: if_splits)
  obtain fs where fs: "prepared_run (\<lambda>name. name \<in> changed) m1 fs (map (fst \<circ> snd) us') m2" "length us' = length is" "length fs = length is"
    "\<forall>k < length is. prepared_inbound L inbounds options (is ! k) (fs ! k) (us' ! k)"
    using Cons.IH [OF rest [unfolded r(1) r(3) [symmetric]]] unfolding r(3) by blast
  obtain fps ids where fps: "gomap_wf fps" "map_of fps = map_of (user_fingerprints (rl_users L) raw)"
    "table_prepare (ib_table h) fps (\<lambda>name. name \<in> changed) m = (ids, p, m1)" by (rule PrepareUserUpdate_Inr [OF pu])
  have "p_table p = ib_table h" using fps(3) by (auto simp: table_prepare_def Let_def split: prod.splits)
  then have "prepared_inbound L inbounds options i fps (tag, p, c)" using lt o h fps(2) by (simp add: prepared_inbound_def)
  moreover have "prepared_run (\<lambda>name. name \<in> changed) m (fps # fs) (map (fst \<circ> snd) us) m'"
    using prepared_run.run_prepare [OF fps(1,3) fs(1)] by (simp add: r)
  ultimately show ?case using fs(2-4) by (intro exI [of _ "fps # fs"]) (auto simp: r(2) nth_Cons comp_def split: nat.split)
qed

lemma store_credentials_tables:
  "map_option (map_option ib_table) (map_of (fold store_credentials us inbounds) tag) = map_option (map_option ib_table) (map_of inbounds tag)"
proof (induction us arbitrary: inbounds)
  case (Cons u us)
  have "map_option (map_option ib_table) (map_of (store_credentials u inbounds) tag) = map_option (map_option ib_table) (map_of inbounds tag)"
    by (cases u) (auto simp: store_credentials_def split: option.split)
  then show ?case using Cons by simp
qed simp

section \<open>The running program\<close>

text \<open>The inbounds have tables of their own.\<close>

definition own_tables :: "(string, user_inbound option) gomap \<Rightarrow> bool" where
  "own_tables inbounds \<longleftrightarrow> (\<forall>tag tag' h h'. map_of inbounds tag = Some (Some h) \<longrightarrow> map_of inbounds tag' = Some (Some h') \<longrightarrow>
     ib_table h = ib_table h' \<longrightarrow> tag = tag')"

lemma own_tables_iff:
  "own_tables inbounds \<longleftrightarrow> (\<forall>tag tag' t. map_option (map_option ib_table) (map_of inbounds tag) = Some (Some t) \<longrightarrow>
     map_option (map_option ib_table) (map_of inbounds tag') = Some (Some t) \<longrightarrow> tag = tag')"
  unfolding own_tables_def by (auto simp: map_option_eq_Some)

lemma own_tables_store: "own_tables inbounds \<Longrightarrow> own_tables (fold store_credentials us inbounds)"
  unfolding own_tables_iff store_credentials_tables .

text \<open>The invariant of the program between two reloads: besides the invariants of the parts, every outbound that runs is configured.\<close>

definition box_ok :: "reload_libs \<Rightarrow> box \<Rightarrow> bool" where
  "box_ok L b \<longleftrightarrow> view_ok b \<and> registry_ok (bx_users b) \<and> tables_ok (bx_users b) \<and> own_tables (bx_inbounds b) \<and> om_wf (bx_outbound b) \<and>
     (\<forall>before outs t. config L (bx_options b) = Inr before \<longrightarrow> namedRows (field before ''outbounds'') = Inr outs \<longrightarrow>
        map_of (om_by_tag (bx_outbound b)) t \<noteq> None \<longrightarrow> map_of outs t \<noteq> None)"

text \<open>What the code relies on from the encoding of options: an object that encodes options is decoded to options with the tags of its
  rows, in their order, and as many rules, and these encode to the same object.\<close>

definition faithful_codec :: "reload_libs \<Rightarrow> bool" where
  "faithful_codec L \<longleftrightarrow> (\<forall>y c x ins outs. config L y = Inr c \<longrightarrow> rl_unmarshal L c = Inr x \<longrightarrow>
     namedRows (field c ''inbounds'') = Inr ins \<longrightarrow> namedRows (field c ''outbounds'') = Inr outs \<longrightarrow>
     map fst (op_inbounds x) = map fst ins \<and> map oo_tag (op_outbounds x) = map fst outs \<and> length (op_rules x) = length (rules_of c) \<and>
     config L x = Inr c)"

lemma box_ok_unchanged:
  assumes "box_ok L b" "statusLocked L b = (s, b1)"
  shows "box_ok L b1" "bx_inbounds b1 = bx_inbounds b" "bx_users b1 = bx_users b" "bx_outbound b1 = bx_outbound b" "bx_router b1 = bx_router b"
    "bx_options b1 = bx_options b" "bx_revision b1 = bx_revision b"
  using assms by (auto simp: statusLocked_def publishRuntimeStatusLocked_def box_ok_def view_ok_def Let_def split: option.splits if_splits)

text \<open>The steps of a reload that was accepted and had something to do.\<close>

lemma accepted_reload_steps:
  assumes ok: "box_ok L b" and acc: "ReloadUsers L updated expectedRevision expectedInstance b = ((status, None), b')"
    and new: "bx_revision b' \<noteq> bx_revision b"
  obtains s b1 before after plan priv u b2 where "statusLocked L b = (s, b1)" "config L (bx_options b) = Inr before" "config L updated = Inr after"
    "planUserUpdate (rl_plan L) before after = Inr plan" "rl_unmarshal L after = Inr priv"
    "prepare_update L plan priv b1 = (Inr u, b2)" "publish_update L plan u priv after b2 = (status, b')"
    "\<not> bx_closed b1" "expectedInstance = [] \<or> expectedInstance = rs_instance_id s"
proof -
  obtain s b1 where s: "statusLocked L b = (s, b1)" by (cases "statusLocked L b")
  note b1 = box_ok_unchanged [OF ok s]
  have ne: "b' \<noteq> b1" using new b1(7) by auto
  have "\<exists>before after plan priv u b2. config L (bx_options b) = Inr before \<and> config L updated = Inr after \<and>
    planUserUpdate (rl_plan L) before after = Inr plan \<and> rl_unmarshal L after = Inr priv \<and>
    prepare_update L plan priv b1 = (Inr u, b2) \<and> publish_update L plan u priv after b2 = (status, b')"
    "\<not> bx_closed b1" "expectedInstance = [] \<or> expectedInstance = rs_instance_id s"
    using acc ne unfolding ReloadUsers_def reloadUsersLocked_def s
    by (auto simp: Let_def b1 rbind_eq_Inr_iff split: if_splits sum.splits prod.splits)
  then show ?thesis using s that by blast
qed

lemma prepare_update_Inr:
  assumes "prepare_update L plan priv b = (Inr u, b2)"
  obtains m r om where
    "prepare_inbounds L (bx_inbounds b) (op_inbounds priv) (changedNames plan) (inboundIndexes plan) (bx_users b) = (Inr (pu_users u), m)"
    "PrepareAddedRules (rl_rule_libs L) (rl_action_libs L) (rl_services L) (rl_rule_sets L) (op_rules priv) (ruleIndexes plan) (bx_router b) = (Inr (pu_rules u), r)"
    "outbound_PrepareUserUpdate (rl_life L) (rl_registry L) (rl_endpoints L) (map ((!) (op_outbounds priv)) (outboundIndexes plan))
       (removedOutbounds plan) (bx_outbound b) = (Inr (pu_outbounds u), om)"
    "b2 = b\<lparr>bx_users := m, bx_router := r, bx_outbound := om\<rparr>"
  using assms by (auto simp: prepare_update_def split: prod.splits sum.splits if_splits)

lemma publish_update_parts:
  assumes "publish_update L plan u priv after b = (status, b')"
  obtains retired om closed where
    "outbound_publish (pu_outbounds u) (removedOutbounds plan) (bx_outbound b) = (retired, om)"
    "commit (publish_all (map (fst \<circ> snd) (pu_users u))) (bx_users b) = (closed, bx_users b')"
    "om_outbounds (bx_outbound b') = om_outbounds om" "om_by_tag (bx_outbound b') = om_by_tag om" "om_fresh (bx_outbound b') = om_fresh om"
    "om_default (bx_outbound b') = om_default om"
    "bx_router b' = publishRules (pu_rules u) (bx_router b)" "bx_inbounds b' = fold store_credentials (pu_users u) (bx_inbounds b)"
    "bx_options b' = priv" "rs_closed_sessions status = closed"
  using assms by (auto simp: publish_update_def publishRuntimeStatusLocked_def outbound_cleanup_def Let_def split: prod.splits)

section \<open>Rules\<close>

lemma currentRules_publish: "currentRules (publishRules p r) = pr_next p"
  by (auto simp: publishRules_def currentRules_def current_snapshot_def Let_def nth_append split: option.splits)

section \<open>Outbounds\<close>

text \<open>The tags of an accepted plan.\<close>

lemma plan_tags:
  assumes plan: "planUserUpdate U before after = Inr plan"
    and outs: "namedRows (field before ''outbounds'') = Inr oldOut" "namedRows (field after ''outbounds'') = Inr newOut"
    and tags: "map oo_tag os = map fst newOut"
  shows "distinct (map oo_tag (map ((!) os) (outboundIndexes plan)))"
    "oo_tag ` set (map ((!) os) (outboundIndexes plan)) = {t. \<exists>row. map_of newOut t = Some row \<and> map_of oldOut t \<noteq> Some row}"
    "set (removedOutbounds plan) = {t. \<exists>old. map_of oldOut t = Some old \<and> map_of newOut t \<noteq> Some old}"
proof -
  note wf = namedRows_Inr(1) [OF outs(1)] namedRows_Inr(1) [OF outs(2)]
  have p: "outboundIndexes plan = outbound_indexes oldOut newOut" "removedOutbounds plan = removed_outbounds oldOut newOut"
    using plan by (rule planUserUpdate_Inr, use outs in auto)+
  have len: "length os = length newOut" using tags by (metis length_map)
  have nth: "oo_tag (os ! i) = fst (newOut ! i)" if "i < length newOut" for i using tags that len by (metis nth_map)
  let ?is = "outbound_indexes oldOut newOut"
  have "is": "set ?is \<subseteq> {..<length newOut}" "distinct ?is" by (auto simp: outbound_indexes_def)
  have eq: "map oo_tag (map ((!) os) (outboundIndexes plan)) = map (\<lambda>i. fst (newOut ! i)) ?is"
    unfolding p using nth "is"(1) by auto
  have "inj_on (\<lambda>i. fst (newOut ! i)) {..<length newOut}" using wf(2) by (auto simp: inj_on_def distinct_conv_nth)
  then show "distinct (map oo_tag (map ((!) os) (outboundIndexes plan)))"
    unfolding eq using "is" by (simp add: distinct_map inj_on_subset)
  have "oo_tag ` set (map ((!) os) (outboundIndexes plan)) = set (map oo_tag (map ((!) os) (outboundIndexes plan)))" by (simp add: image_image)
  also have "\<dots> = {fst (newOut ! i) | i. i < length newOut \<and> map_of oldOut (fst (newOut ! i)) \<noteq> Some (snd (newOut ! i))}"
    unfolding eq by (auto simp: outbound_indexes_def split_beta)
  also have "\<dots> = {t. \<exists>row. map_of newOut t = Some row \<and> map_of oldOut t \<noteq> Some row}"
    by (auto simp: map_of_eq_Some_iff [OF wf(2)] in_set_conv_nth) (metis prod.collapse, metis fst_conv snd_conv)
  finally show "oo_tag ` set (map ((!) os) (outboundIndexes plan)) = {t. \<exists>row. map_of newOut t = Some row \<and> map_of oldOut t \<noteq> Some row}" .
  show "set (removedOutbounds plan) = {t. \<exists>old. map_of oldOut t = Some old \<and> map_of newOut t \<noteq> Some old}"
    using wf(1) by (force simp: p(2) removed_outbounds_def map_of_eq_Some_iff)
qed

text \<open>The outbounds after an accepted update.\<close>

lemma accepted_outbounds:
  assumes plan: "planUserUpdate U before after = Inr plan"
    and outs: "namedRows (field before ''outbounds'') = Inr oldOut" "namedRows (field after ''outbounds'') = Inr newOut"
    and tags: "map oo_tag os = map fst newOut" and wf: "om_wf m" and conf: "\<And>t. map_of (om_by_tag m) t \<noteq> None \<Longrightarrow> map_of oldOut t \<noteq> None"
    and prep: "outbound_PrepareUserUpdate lf reg endpoints (map ((!) os) (outboundIndexes plan)) (removedOutbounds plan) m = (Inr prepared, m1)"
    and pub: "outbound_publish prepared (removedOutbounds plan) m1 = (retired, m2)"
  shows "om_wf m2" "om_default m2 = om_default m"
    "map_of (om_by_tag m2) t = (if map_of newOut t = None then None else if map_of newOut t = map_of oldOut t then map_of (om_by_tag m) t
       else find (\<lambda>c. cp_tag c = t) prepared)"
    "map_of newOut t \<noteq> None \<Longrightarrow> map_of newOut t \<noteq> map_of oldOut t \<Longrightarrow> \<exists>c. map_of (om_by_tag m2) t = Some c \<and> c \<notin> set (om_outbounds m)"
proof -
  note pt = plan_tags [OF plan outs tags]
  let ?os = "map ((!) os) (outboundIndexes plan)"
  have free: "\<forall>x \<in> set ?os. oo_tag x \<in> set (removedOutbounds plan) \<or> map_of (om_by_tag m) (oo_tag x) = None"
  proof
    fix x assume "x \<in> set ?os"
    then have "oo_tag x \<in> oo_tag ` set ?os" by blast
    then obtain row where row: "map_of newOut (oo_tag x) = Some row" "map_of oldOut (oo_tag x) \<noteq> Some row" using pt(2) by auto
    show "oo_tag x \<in> set (removedOutbounds plan) \<or> map_of (om_by_tag m) (oo_tag x) = None"
      using row conf [of "oo_tag x"] unfolding pt(3) by auto
  qed
  note up = update_republished [OF wf prep pt(1) free pub]
  show "om_wf m2" "om_default m2 = om_default m" by (fact up)+
  show "map_of (om_by_tag m2) t = (if map_of newOut t = None then None else if map_of newOut t = map_of oldOut t then map_of (om_by_tag m) t
       else find (\<lambda>c. cp_tag c = t) prepared)"
    unfolding republished_lookup [OF up(1,3)] up(4) pt(2,3) using conf [of t]
    by (cases "map_of newOut t"; cases "map_of oldOut t"; cases "map_of (om_by_tag m) t") auto
  show "\<exists>c. map_of (om_by_tag m2) t = Some c \<and> c \<notin> set (om_outbounds m)" if "map_of newOut t \<noteq> None" "map_of newOut t \<noteq> map_of oldOut t"
  proof -
    have "t \<in> cp_tag ` set prepared" unfolding up(4) pt(2) using that by (cases "map_of newOut t") auto
    then obtain c where c: "c \<in> set prepared" "cp_tag c = t" by blast
    have "\<forall>c \<in> set prepared. om_fresh m \<le> cp_id c" using prep by (rule prepare_accepted) auto
    then have "om_fresh m \<le> cp_id c" using c(1) by blast
    then have "c \<notin> set (om_outbounds m)" using wf unfolding om_wf_def by (meson leD)
    moreover have "find (\<lambda>c. cp_tag c = t) prepared = Some c" using find_tag_iff [OF up(3)] c by simp
    ultimately show ?thesis using c unfolding republished_lookup [OF up(1,3)] by auto
  qed
qed

section \<open>Users\<close>

lemma inbound_indexes_bounds:
  "inbound_indexes U oldIn changed index newIn = Inr is \<Longrightarrow> distinct is \<and> set is \<subseteq> {index..<index + length newIn}"
proof (induction U oldIn changed index newIn arbitrary: "is" rule: inbound_indexes.induct)
  case (2 U oldIn changed index tag "next" newIn)
  obtain xs rest where r: "inbound_indexes U oldIn changed (Suc index) newIn = Inr rest" "is = xs @ rest" "xs = [] \<or> xs = [index]"
    using "2.prems" by (auto simp: rbind_eq_Inr_iff split: if_splits)
  have "distinct rest \<and> set rest \<subseteq> {Suc index..<Suc index + length newIn}" using "2.prems" "2.IH" r(1) by (auto simp: rbind_eq_Inr_iff)
  then show ?case using r(2,3) by auto
qed simp

text \<open>The publications of a reload are those of different tables.\<close>

lemma accepted_tables:
  assumes prep: "prepare_inbounds L inbounds options changed is m = (Inr us, m')" and own: "own_tables inbounds"
    and "is": "distinct is" "set is \<subseteq> {..<length options}" and tags: "distinct (map fst options)"
  shows "distinct (map p_table (map (fst \<circ> snd) us))"
proof -
  obtain fs where fs: "length us = length is" "\<forall>k < length is. prepared_inbound L inbounds options (is ! k) (fs ! k) (us ! k)"
    using prepare_inbounds_Inr [OF prep] by blast
  have "j = k" if "j < length us" "k < length us" "p_table (fst (snd (us ! j))) = p_table (fst (snd (us ! k)))" for j k
  proof -
    have jk: "j < length is" "k < length is" using that fs(1) by simp_all
    have "fst (us ! j) = fst (us ! k)"
      using fs(2) jk that(3) own unfolding prepared_inbound_def own_tables_def by metis
    then have "fst (options ! (is ! j)) = fst (options ! (is ! k))" using fs(2) jk unfolding prepared_inbound_def by metis
    moreover have "is ! j < length options" "is ! k < length options" using fs(2) jk unfolding prepared_inbound_def by blast+
    ultimately have "is ! j = is ! k" using nth_eq_iff_index_eq [OF tags, of "is ! j" "is ! k"] by simp
    then show ?thesis using nth_eq_iff_index_eq [OF "is"(1) jk] by simp
  qed
  then show ?thesis by (auto simp: distinct_conv_nth)
qed

text \<open>Does a user keep its identity? It does unless its inbound is updated and its credentials or its routing change.\<close>

definition kept_user :: "reload_libs \<Rightarrow> user_update_plan \<Rightarrow> options \<Rightarrow> string \<Rightarrow> string \<Rightarrow> string \<Rightarrow> bool" where
  "kept_user L plan priv tag name fp \<longleftrightarrow> (\<forall>i \<in> set (inboundIndexes plan). fst (op_inbounds priv ! i) = tag \<longrightarrow>
     map_of (user_fingerprints (rl_users L) (snd (op_inbounds priv ! i))) name = Some fp \<and> name \<notin> changedNames plan)"

lemma prepared_kept:
  assumes prep: "prepare_inbounds L inbounds (op_inbounds priv) (changedNames plan) (inboundIndexes plan) m = (Inr us, m')"
    and own: "own_tables inbounds" and ok: "tables_ok m"
    and h: "map_of inbounds tag = Some (Some h)" and e: "map_of (m_tables m (ib_table h)) name = Some e"
  shows "(\<forall>p \<in> set (map (fst \<circ> snd) us). p_table p = ib_table h \<longrightarrow> map_of (p_next p) name = Some e) \<longleftrightarrow> kept_user L plan priv tag name (e_fingerprint e)"
proof -
  let ?is = "inboundIndexes plan" and ?o = "op_inbounds priv"
  obtain fs where run: "prepared_run (\<lambda>name. name \<in> changedNames plan) m fs (map (fst \<circ> snd) us) m'" and len: "length us = length ?is" "length fs = length ?is"
    and pi: "\<forall>k < length ?is. prepared_inbound L inbounds ?o (?is ! k) (fs ! k) (us ! k)"
    using prepare_inbounds_Inr [OF prep] by blast
  have for': "prepared_for m (\<lambda>name. name \<in> changedNames plan) (fs ! k) (fst (snd (us ! k)))" if "k < length ?is" for k
    using prepared_run_for [OF run users_untouched_refl] that len by (auto simp: list_all2_conv_all_nth)
  have one: "(p_table (fst (snd (us ! k))) = ib_table h \<longrightarrow> map_of (p_next (fst (snd (us ! k)))) name = Some e) \<longleftrightarrow>
      (fst (?o ! (?is ! k)) = tag \<longrightarrow> map_of (user_fingerprints (rl_users L) (snd (?o ! (?is ! k)))) name = Some (e_fingerprint e) \<and> name \<notin> changedNames plan)"
    if k: "k < length ?is" for k
  proof -
    obtain h' where h': "map_of inbounds (fst (us ! k)) = Some (Some h')" "p_table (fst (snd (us ! k))) = ib_table h'" "fst (us ! k) = fst (?o ! (?is ! k))"
      "map_of (fs ! k) = map_of (user_fingerprints (rl_users L) (snd (?o ! (?is ! k))))" using pi k unfolding prepared_inbound_def by blast
    have same: "p_table (fst (snd (us ! k))) = ib_table h \<longleftrightarrow> fst (?o ! (?is ! k)) = tag"
      using h h' own unfolding own_tables_def by auto
    show ?thesis
    proof (cases "fst (?o ! (?is ! k)) = tag")
      case True
      then have t: "p_table (fst (snd (us ! k))) = ib_table h" using same by simp
      show ?thesis using entry_kept [OF for' [OF k] _ ok, of name e] e t True h'(4) by simp
    qed (use same in simp)
  qed
  have "(\<forall>p \<in> set (map (fst \<circ> snd) us). p_table p = ib_table h \<longrightarrow> map_of (p_next p) name = Some e) \<longleftrightarrow>
      (\<forall>k < length ?is. p_table (fst (snd (us ! k))) = ib_table h \<longrightarrow> map_of (p_next (fst (snd (us ! k)))) name = Some e)"
    using len(1) by (auto simp: all_set_conv_all_nth)
  also have "\<dots> \<longleftrightarrow> kept_user L plan priv tag name (e_fingerprint e)"
    unfolding kept_user_def all_set_conv_all_nth using one by blast
  finally show ?thesis .
qed

section \<open>Accepted updates\<close>

lemma box_okD:
  assumes "box_ok L b"
  shows "view_ok b" "registry_ok (bx_users b)" "tables_ok (bx_users b)" "own_tables (bx_inbounds b)" "om_wf (bx_outbound b)"
    "config L (bx_options b) = Inr before \<Longrightarrow> namedRows (field before ''outbounds'') = Inr outs \<Longrightarrow>
       map_of (om_by_tag (bx_outbound b)) t \<noteq> None \<Longrightarrow> map_of outs t \<noteq> None"
  using assms unfolding box_ok_def by blast+

text \<open>The decoded copy of a planned update.\<close>

lemma decoded_plan:
  assumes codec: "faithful_codec L" and c: "config L updated = Inr after" "rl_unmarshal L after = Inr priv"
    and plan: "planUserUpdate (rl_plan L) before after = Inr plan"
  obtains oldOut newOut where "namedRows (field before ''outbounds'') = Inr oldOut" "namedRows (field after ''outbounds'') = Inr newOut"
    "map oo_tag (op_outbounds priv) = map fst newOut" "length (op_rules priv) = length (rules_of after)" "config L priv = Inr after"
    "distinct (map fst (op_inbounds priv))" "distinct (inboundIndexes plan)" "set (inboundIndexes plan) \<subseteq> {..<length (op_inbounds priv)}"
proof -
  obtain newIn oldIn oldOut newOut where n: "namedRows (field after ''inbounds'') = Inr newIn" "namedRows (field before ''outbounds'') = Inr oldOut"
    "namedRows (field after ''outbounds'') = Inr newOut" "inbound_indexes (rl_plan L) oldIn (changedNames plan) 0 newIn = Inr (inboundIndexes plan)"
    using plan by (rule planUserUpdate_Inr)
  have d: "map fst (op_inbounds priv) = map fst newIn" "map oo_tag (op_outbounds priv) = map fst newOut"
    "length (op_rules priv) = length (rules_of after)" "config L priv = Inr after"
    using codec c n(1,3) unfolding faithful_codec_def by blast+
  have "distinct (map fst (op_inbounds priv))" "length (op_inbounds priv) = length newIn"
    using namedRows_Inr(1) [OF n(1)] d(1) by (simp, metis length_map)
  then show ?thesis using inbound_indexes_bounds [OF n(4)] by (intro that [OF n(2,3) d(2-4)]) (auto simp: atLeast0LessThan)
qed

lemma accepted_parts:
  assumes codec: "faithful_codec L" and ok: "box_ok L b"
    and acc: "ReloadUsers L updated expectedRevision expectedInstance b = ((status, None), b')" and new: "bx_revision b' \<noteq> bx_revision b"
  obtains before after plan priv oldOut newOut us rules outs m r om retired om2 n where
    "config L (bx_options b) = Inr before" "config L updated = Inr after" "planUserUpdate (rl_plan L) before after = Inr plan" "rl_unmarshal L after = Inr priv"
    "namedRows (field before ''outbounds'') = Inr oldOut" "namedRows (field after ''outbounds'') = Inr newOut"
    "map oo_tag (op_outbounds priv) = map fst newOut" "length (op_rules priv) = length (rules_of after)" "config L priv = Inr after"
    "prepare_inbounds L (bx_inbounds b) (op_inbounds priv) (changedNames plan) (inboundIndexes plan) (bx_users b) = (Inr us, m)"
    "distinct (map p_table (map (fst \<circ> snd) us))" "commit (publish_all (map (fst \<circ> snd) us)) m = (n, bx_users b')"
    "PrepareAddedRules (rl_rule_libs L) (rl_action_libs L) (rl_services L) (rl_rule_sets L) (op_rules priv) (ruleIndexes plan) (bx_router b) = (Inr rules, r)"
    "bx_router b' = publishRules rules r"
    "outbound_PrepareUserUpdate (rl_life L) (rl_registry L) (rl_endpoints L) (map ((!) (op_outbounds priv)) (outboundIndexes plan))
       (removedOutbounds plan) (bx_outbound b) = (Inr outs, om)" "outbound_publish outs (removedOutbounds plan) om = (retired, om2)"
    "om_outbounds (bx_outbound b') = om_outbounds om2" "om_by_tag (bx_outbound b') = om_by_tag om2" "om_fresh (bx_outbound b') = om_fresh om2"
    "om_default (bx_outbound b') = om_default om2"
    "bx_inbounds b' = fold store_credentials us (bx_inbounds b)" "bx_options b' = priv" "bx_revision b' = bx_revision b + 1" "rs_revision status = bx_revision b + 1"
    "view_ok b'" "\<And>revision. \<exists>s. ReloadUsers L updated revision expectedInstance b' = ((s, None), b')"
proof -
  obtain s b1 before after plan priv u b2 where st: "statusLocked L b = (s, b1)"
    and c: "config L (bx_options b) = Inr before" "config L updated = Inr after" "planUserUpdate (rl_plan L) before after = Inr plan"
      "rl_unmarshal L after = Inr priv"
    and pu: "prepare_update L plan priv b1 = (Inr u, b2)" "publish_update L plan u priv after b2 = (status, b')"
    and open': "\<not> bx_closed b1" "expectedInstance = [] \<or> expectedInstance = rs_instance_id s"
    by (rule accepted_reload_steps [OF ok acc new])
  note b1 = box_ok_unchanged [OF ok st] and v1 = statusLocked_view [OF st box_okD(1) [OF ok]]
  obtain oldOut newOut where d: "namedRows (field before ''outbounds'') = Inr oldOut" "namedRows (field after ''outbounds'') = Inr newOut"
    "map oo_tag (op_outbounds priv) = map fst newOut" "length (op_rules priv) = length (rules_of after)" "config L priv = Inr after"
    "distinct (map fst (op_inbounds priv))" "distinct (inboundIndexes plan)" "set (inboundIndexes plan) \<subseteq> {..<length (op_inbounds priv)}"
    using codec c(2,4,3) by (rule decoded_plan)
  obtain m r om where p: "prepare_inbounds L (bx_inbounds b) (op_inbounds priv) (changedNames plan) (inboundIndexes plan) (bx_users b) = (Inr (pu_users u), m)"
    "PrepareAddedRules (rl_rule_libs L) (rl_action_libs L) (rl_services L) (rl_rule_sets L) (op_rules priv) (ruleIndexes plan) (bx_router b) = (Inr (pu_rules u), r)"
    "outbound_PrepareUserUpdate (rl_life L) (rl_registry L) (rl_endpoints L) (map ((!) (op_outbounds priv)) (outboundIndexes plan))
       (removedOutbounds plan) (bx_outbound b) = (Inr (pu_outbounds u), om)"
    and b2: "b2 = b1\<lparr>bx_users := m, bx_router := r, bx_outbound := om\<rparr>" using pu(1) by (rule prepare_update_Inr) (auto simp: b1)
  obtain retired om2 n where q: "outbound_publish (pu_outbounds u) (removedOutbounds plan) om = (retired, om2)"
    "commit (publish_all (map (fst \<circ> snd) (pu_users u))) m = (n, bx_users b')"
    "om_outbounds (bx_outbound b') = om_outbounds om2" "om_by_tag (bx_outbound b') = om_by_tag om2" "om_fresh (bx_outbound b') = om_fresh om2"
    "om_default (bx_outbound b') = om_default om2"
    "bx_router b' = publishRules (pu_rules u) r" "bx_inbounds b' = fold store_credentials (pu_users u) (bx_inbounds b)"
    using pu(2) by (rule publish_update_parts) (auto simp: b2 b1)
  note view = publish_update_view [OF pu(2)]
  have rev: "bx_revision b2 = bx_revision b" by (simp add: b2 b1(7))
  have "bx_closed b' = bx_closed b1" "bx_instance b' = bx_instance b1"
    using pu(2) by (auto simp: publish_update_def publishRuntimeStatusLocked_def Let_def b2 split: prod.splits)
  then have "\<exists>s. ReloadUsers L updated revision expectedInstance b' = ((s, None), b')" for revision
    using view(1,2,5,7) open' v1(5) c(2)
    by (auto simp: ReloadUsers_def reloadUsersLocked_def statusLocked_def view_ok_def)
  then show ?thesis
    by (rule that [OF c d(1-5) p(1) accepted_tables [OF p(1) box_okD(4) [OF ok] d(7,8,6)] q(2) p(2) q(7) p(3) q(1,3-6,8) view(4)
          view(3) [unfolded rev] view(6) [unfolded rev] view(1)])
qed

text \<open>C1: The users of an accepted update. When a reload was accepted and changed the revision, a user keeps its entry, a valid identity
  and all its sessions exactly when its inbound is not updated or the update has the same credentials for it and
  does not change its routing; every other user loses its identity: all its sessions are closed and no connection can
  be bound to it any more.\<close>

theorem accepted_reload_users:
  assumes codec: "faithful_codec L" and ok: "box_ok L b"
    and acc: "ReloadUsers L updated expectedRevision expectedInstance b = ((status, None), b')" and new: "bx_revision b' \<noteq> bx_revision b"
    and h: "map_of (bx_inbounds b) tag = Some (Some h)" and e: "map_of (m_tables (bx_users b) (ib_table h)) name = Some e"
  shows "\<exists>before after plan priv. config L (bx_options b) = Inr before \<and> config L updated = Inr after \<and>
    planUserUpdate (rl_plan L) before after = Inr plan \<and> rl_unmarshal L after = Inr priv \<and>
    (if kept_user L plan priv tag name (e_fingerprint e)
     then map_of (m_tables (bx_users b') (ib_table h)) name = Some e \<and> id_valid (m_idents (bx_users b') (e_identity e)) \<and>
       (\<forall>s < m_next_sess (bx_users b). s_identity (m_sess (bx_users b) s) = Some (e_identity e) \<longrightarrow>
          s_closed (m_sess (bx_users b') s) = s_closed (m_sess (bx_users b) s))
     else \<not> id_valid (m_idents (bx_users b') (e_identity e)) \<and> (\<forall>ctx. fst (bind_session ctx (Some (e_identity e)) (bx_users b')) \<noteq> None) \<and>
       (\<forall>s < m_next_sess (bx_users b). s_identity (m_sess (bx_users b) s) = Some (e_identity e) \<longrightarrow> s_closed (m_sess (bx_users b') s)))"
proof -
  from codec ok acc new obtain before after plan priv us m n where c: "config L (bx_options b) = Inr before" "config L updated = Inr after"
      "planUserUpdate (rl_plan L) before after = Inr plan" "rl_unmarshal L after = Inr priv"
    and pi: "prepare_inbounds L (bx_inbounds b) (op_inbounds priv) (changedNames plan) (inboundIndexes plan) (bx_users b) = (Inr us, m)"
    and dist: "distinct (map p_table (map (fst \<circ> snd) us))" and com: "commit (publish_all (map (fst \<circ> snd) us)) m = (n, bx_users b')"
    by (rule accepted_parts) (rule that, assumption+)
  obtain fs where run: "prepared_run (\<lambda>name. name \<in> changedNames plan) (bx_users b) fs (map (fst \<circ> snd) us) m"
    using prepare_inbounds_Inr [OF pi] by blast
  note life = publications_life [OF box_okD(2,3) [OF ok] prepared_run_untouched [OF run] prepared_run_all [OF run dist] com e]
  show ?thesis
    by (intro exI conjI, (rule c)+) (rule life [unfolded prepared_kept [OF pi box_okD(4,3) [OF ok] h e]])
qed

text \<open>The invariant is kept.\<close>

lemma accepted_box_ok:
  assumes codec: "faithful_codec L" and ok: "box_ok L b"
    and acc: "ReloadUsers L updated expectedRevision expectedInstance b = ((status, None), b')" and new: "bx_revision b' \<noteq> bx_revision b"
  shows "box_ok L b'"
proof -
  from assms obtain before after plan priv oldOut newOut us outs m om retired om2 n where c: "config L (bx_options b) = Inr before"
      "planUserUpdate (rl_plan L) before after = Inr plan"
    and d: "namedRows (field before ''outbounds'') = Inr oldOut" "namedRows (field after ''outbounds'') = Inr newOut"
      "map oo_tag (op_outbounds priv) = map fst newOut" "config L priv = Inr after"
    and pi: "prepare_inbounds L (bx_inbounds b) (op_inbounds priv) (changedNames plan) (inboundIndexes plan) (bx_users b) = (Inr us, m)"
    and dist: "distinct (map p_table (map (fst \<circ> snd) us))" and com: "commit (publish_all (map (fst \<circ> snd) us)) m = (n, bx_users b')"
    and po: "outbound_PrepareUserUpdate (rl_life L) (rl_registry L) (rl_endpoints L) (map ((!) (op_outbounds priv)) (outboundIndexes plan))
       (removedOutbounds plan) (bx_outbound b) = (Inr outs, om)" "outbound_publish outs (removedOutbounds plan) om = (retired, om2)"
    and om2: "om_outbounds (bx_outbound b') = om_outbounds om2" "om_by_tag (bx_outbound b') = om_by_tag om2" "om_fresh (bx_outbound b') = om_fresh om2"
    and bx: "bx_inbounds b' = fold store_credentials us (bx_inbounds b)" "bx_options b' = priv" "view_ok b'"
    by (rule accepted_parts) (rule that, assumption+)
  obtain fs where run: "prepared_run (\<lambda>name. name \<in> changedNames plan) (bx_users b) fs (map (fst \<circ> snd) us) m"
    using prepare_inbounds_Inr [OF pi] by blast
  note out = accepted_outbounds [OF c(2) d(1-3) box_okD(5) [OF ok] box_okD(6) [OF ok c(1) d(1)] po]
  have "registry_ok (bx_users b')" "tables_ok (bx_users b')"
    using publications_effect(5) [OF box_okD(2,3) [OF ok] prepared_run_untouched [OF run] prepared_run_all [OF run dist] com]
      publications_tables_ok [OF box_okD(2,3) [OF ok] run dist com] by blast+
  moreover have "om_wf (bx_outbound b')" using out(1) om2 by (simp add: om_wf_def)
  moreover have "map_of newOut t \<noteq> None" if "map_of (om_by_tag (bx_outbound b')) t \<noteq> None" for t
    using that out(3) [of t] om2(2) by (auto split: if_splits)
  ultimately show ?thesis
    using own_tables_store [OF box_okD(4) [OF ok]] d(2,4) bx unfolding box_ok_def bx(1,2) by auto
qed

text \<open>C2: An accepted update as a whole. The program runs the decoded copy of the wanted options under the next revision; there is one rule for each wanted
  rule: the old object where the plan takes one over, otherwise a new one that was built and started; each wanted
  outbound that is new or different is a new one, those that are wanted as they were are the old objects and every other tag means nothing,
  while the default outbound is the same; the invariant of the program holds again, and the same request
  repeated at any revision succeeds and changes nothing.\<close>

theorem accepted_reload_published:
  assumes codec: "faithful_codec L" and ok: "box_ok L b"
    and acc: "ReloadUsers L updated expectedRevision expectedInstance b = ((status, None), b')" and new: "bx_revision b' \<noteq> bx_revision b"
  shows "\<exists>before after plan priv oldOut newOut. config L (bx_options b) = Inr before \<and> config L updated = Inr after \<and>
    planUserUpdate (rl_plan L) before after = Inr plan \<and> rl_unmarshal L after = Inr priv \<and>
    namedRows (field before ''outbounds'') = Inr oldOut \<and> namedRows (field after ''outbounds'') = Inr newOut \<and>
    bx_options b' = priv \<and> bx_revision b' = bx_revision b + 1 \<and> rs_revision status = bx_revision b' \<and>
    length (currentRules (bx_router b')) = length (rules_of after) \<and>
    (\<forall>i < length (rules_of after).
       if 0 \<le> ruleIndexes plan ! i then currentRules (bx_router b') ! i = currentRules (bx_router b) ! nat (ruleIndexes plan ! i)
       else \<exists>q. NewRule (rl_rule_libs L) (rl_action_libs L) False (op_rules priv ! i) = Inr (q, ro_action (currentRules (bx_router b') ! i)) \<and>
              rule_start (rl_services L) (rl_rule_sets L) q = Inr (ro_rule (currentRules (bx_router b') ! i))) \<and>
    (\<forall>t. (map_of newOut t = None \<longrightarrow> map_of (om_by_tag (bx_outbound b')) t = None) \<and>
         (map_of newOut t \<noteq> None \<longrightarrow> map_of newOut t = map_of oldOut t \<longrightarrow> map_of (om_by_tag (bx_outbound b')) t = map_of (om_by_tag (bx_outbound b)) t) \<and>
         (map_of newOut t \<noteq> None \<longrightarrow> map_of newOut t \<noteq> map_of oldOut t \<longrightarrow>
            (\<exists>c. map_of (om_by_tag (bx_outbound b')) t = Some c \<and> c \<notin> set (om_outbounds (bx_outbound b))))) \<and>
    om_default (bx_outbound b') = om_default (bx_outbound b) \<and> box_ok L b' \<and>
    (\<forall>revision. \<exists>s. ReloadUsers L updated revision expectedInstance b' = ((s, None), b'))"
proof -
  from assms obtain before after plan priv oldOut newOut rules r outs om retired om2 where c: "config L (bx_options b) = Inr before"
      "config L updated = Inr after" "planUserUpdate (rl_plan L) before after = Inr plan" "rl_unmarshal L after = Inr priv"
    and d: "namedRows (field before ''outbounds'') = Inr oldOut" "namedRows (field after ''outbounds'') = Inr newOut"
      "map oo_tag (op_outbounds priv) = map fst newOut" "length (op_rules priv) = length (rules_of after)"
    and pr: "PrepareAddedRules (rl_rule_libs L) (rl_action_libs L) (rl_services L) (rl_rule_sets L) (op_rules priv) (ruleIndexes plan) (bx_router b) = (Inr rules, r)"
    and rt: "bx_router b' = publishRules rules r"
    and po: "outbound_PrepareUserUpdate (rl_life L) (rl_registry L) (rl_endpoints L) (map ((!) (op_outbounds priv)) (outboundIndexes plan))
       (removedOutbounds plan) (bx_outbound b) = (Inr outs, om)" "outbound_publish outs (removedOutbounds plan) om = (retired, om2)"
    and om2: "om_by_tag (bx_outbound b') = om_by_tag om2" "om_default (bx_outbound b') = om_default om2"
    and bx: "bx_options b' = priv" "bx_revision b' = bx_revision b + 1" "rs_revision status = bx_revision b + 1"
    and again: "\<And>revision. \<exists>s. ReloadUsers L updated revision expectedInstance b' = ((s, None), b')"
    by (rule accepted_parts) (rule that, assumption+)
  note out = accepted_outbounds [OF c(3) d(1-3) box_okD(5) [OF ok] box_okD(6) [OF ok c(1) d(1)] po]
  note rules = PrepareAddedRules_Inr(3,4) [OF pr, unfolded d(4)]
  have cur: "currentRules (bx_router b') = pr_next rules" by (simp add: rt currentRules_publish)
  show ?thesis
  proof (rule exI [of _ before], rule exI [of _ after], rule exI [of _ plan], rule exI [of _ priv], rule exI [of _ oldOut], rule exI [of _ newOut],
      intro conjI allI)
    show "i < length (rules_of after) \<longrightarrow>
      (if 0 \<le> ruleIndexes plan ! i then currentRules (bx_router b') ! i = currentRules (bx_router b) ! nat (ruleIndexes plan ! i)
       else \<exists>q. NewRule (rl_rule_libs L) (rl_action_libs L) False (op_rules priv ! i) = Inr (q, ro_action (currentRules (bx_router b') ! i)) \<and>
              rule_start (rl_services L) (rl_rule_sets L) q = Inr (ro_rule (currentRules (bx_router b') ! i)))" for i
      using rules(2) [of i] unfolding cur by (auto split: if_splits)
  qed (use c d(1,2) out om2 bx rules(1) cur again accepted_box_ok [OF assms] in auto)
qed

section \<open>An accepted update\<close>

text \<open>The program of the rejected update, with the users \<^verbatim>\<open>alice\<close> and \<^verbatim>\<open>bob\<close> and an open session of each. The update takes \<^verbatim>\<open>bob\<close> out of the
  rule the two share.\<close>

definition demo_codec :: reload_libs where
  "demo_codec = demo_reload_libs\<lparr>rl_unmarshal :=
     (\<lambda>c. if c = demo_before \<or> c = demo_after then Inr (demo_options c) else Inl (ENew ''unknown options''))\<rparr>"

definition demo_two_users :: manager where
  "demo_two_users = (let (_, p, m) = table_prepare 0 [(''alice'', ''a''), (''bob'', ''b'')] (\<lambda>_. False) (new_manager 7) in snd (publish p m))"

definition demo_sessions :: manager where
  "demo_sessions =
     snd (bind_session \<lparr>ctx_err = None, ctx_session = Some 1\<rparr> (Some 1)
       (snd (bind_session \<lparr>ctx_err = None, ctx_session = Some 0\<rparr> (Some 0) (snd (new_session False (snd (new_session False demo_two_users)))))))"

definition demo_program :: box where
  "demo_program = demo_box\<lparr>bx_users := demo_sessions,
     bx_outbound := snd (outbound_Create demo_life demo_registry ''d'' ''direct'' ''{}'' (NewOutboundManager ''d''))\<rparr>"

lemma demo_sessions_facts:
  "map_of (m_tables demo_sessions 0) ''alice'' = Some \<lparr>e_fingerprint = ''a'', e_identity = 0\<rparr>"
  "map_of (m_tables demo_sessions 0) ''bob'' = Some \<lparr>e_fingerprint = ''b'', e_identity = 1\<rparr>"
  "m_next_sess demo_sessions = 2" "s_identity (m_sess demo_sessions 0) = Some 0" "s_identity (m_sess demo_sessions 1) = Some 1"
  "\<not> s_closed (m_sess demo_sessions 0)" "\<not> s_closed (m_sess demo_sessions 1)"
  by code_simp+

lemma admission_tables:
  "m_tables (snd (bind_session ctx ident m)) = m_tables m" "m_idents (snd (bind_session ctx ident m)) = m_idents m"
  "m_next_ident (snd (bind_session ctx ident m)) = m_next_ident m" "m_self (snd (bind_session ctx ident m)) = m_self m"
  "m_tables (snd (new_session tr m)) = m_tables m" "m_idents (snd (new_session tr m)) = m_idents m"
  "m_next_ident (snd (new_session tr m)) = m_next_ident m" "m_self (snd (new_session tr m)) = m_self m"
  by (auto simp: bind_session_def new_session_def Let_def split: option.split)

lemma demo_sessions_ok: "registry_ok demo_sessions" "tables_ok demo_sessions"
proof -
  obtain ids p m where t: "table_prepare 0 [(''alice'', ''a''), (''bob'', ''b'')] (\<lambda>_. False) (new_manager 7) = (ids, p, m)" by (metis prod_cases3)
  obtain r m2 where pub: "publish p m = (r, m2)" by (cases "publish p m")
  have two: "demo_two_users = m2" by (simp add: demo_two_users_def t pub)
  have tab: "tables_ok demo_two_users" unfolding two by (rule tables_ok_update [OF tables_ok_new_manager _ t pub]) simp
  have "same_sessions (new_manager 7) demo_two_users" unfolding two by (rule prepare_publish(7) [OF t pub])
  then have "registry_ok demo_two_users" using registry_ok_same_sessions by simp
  then have r: "registry_ok (snd (new_session False (snd (new_session False demo_two_users))))"
    using registry_ok_new_session by (metis prod.collapse)
  have n: "m_next_sess (snd (new_session False (snd (new_session False demo_two_users)))) = 2" by code_simp
  let ?c = "\<lambda>s. \<lparr>ctx_err = None, ctx_session = Some s\<rparr>"
  let ?m = "snd (bind_session (?c 0) (Some 0) (snd (new_session False (snd (new_session False demo_two_users)))))"
  have r0: "registry_ok ?m" by (rule registry_ok_bind [OF r, of "?c 0" "Some 0", OF _ surjective_pairing]) (simp add: n)
  have n0: "m_next_sess ?m = 2" by code_simp
  show "registry_ok demo_sessions"
    unfolding demo_sessions_def by (rule registry_ok_bind [OF r0, of "?c 1" "Some 1", OF _ surjective_pairing]) (simp add: n0)
  show "tables_ok demo_sessions"
    by (rule tables_ok_same [OF tab]) (simp_all add: demo_sessions_def admission_tables)
qed

lemma demo_codec_fields: "rl_marshal demo_codec = rl_marshal demo_reload_libs" "rl_plan demo_codec = rl_plan demo_reload_libs"
  "rl_unmarshal demo_codec demo_after = Inr (demo_options demo_after)"
  by (simp_all add: demo_codec_def)

lemma demo_codec_faithful: "faithful_codec demo_codec"
proof -
  have known: "c = demo_before \<or> c = demo_after" if "rl_unmarshal demo_codec c = Inr x" for c x
    using that by (auto simp: demo_codec_def split: if_splits)
  have tags: "map fst (op_inbounds (demo_options c)) = [''in'']" "map oo_tag (op_outbounds (demo_options c)) = [''d'']"
    "length (op_rules (demo_options c)) = 1" for c by (simp_all add: demo_options_def)
  have rules: "length (rules_of demo_before) = 1" "length (rules_of demo_after) = 1" by code_simp+
  show ?thesis
    unfolding faithful_codec_def demo_codec_fields
  proof (intro allI impI)
    fix y c x ins outs
    assume u: "rl_unmarshal demo_codec c = Inr x" and n: "namedRows (field c ''inbounds'') = Inr ins" "namedRows (field c ''outbounds'') = Inr outs"
    have x: "x = demo_options c" using u by (auto simp: demo_codec_def split: if_splits)
    show "map fst (op_inbounds x) = map fst ins \<and> map oo_tag (op_outbounds x) = map fst outs \<and> length (op_rules x) = length (rules_of c) \<and>
        config demo_reload_libs x = Inr c"
      using known [OF u] n rules demo_config_of unfolding x tags by (auto simp: demo_inbounds_eq demo_outbounds_row_eq)
  qed
qed

lemma demo_program_fields:
  "bx_options demo_program = demo_options demo_before" "bx_users demo_program = demo_sessions" "bx_router demo_program = demo_router"
  "bx_revision demo_program = 0" "\<not> bx_closed demo_program" "bx_view demo_program = None"
  "bx_inbounds demo_program = [(''in'', Some \<lparr>ib_type = ''socks'', ib_table = 0, ib_kernel_tls = False,
        ib_credentials = SocksUsers \<lparr>us_required = True, us_authenticator = [], us_identities = []\<rparr>\<rparr>)]"
  by (simp_all add: demo_program_def demo_box_def)

lemma demo_program_ok: "box_ok demo_codec demo_program"
proof -
  have om: "om_wf (bx_outbound demo_program)" unfolding demo_program_def by (simp add: outbound_Create_wf NewOutboundManager_wf)
  have tags: "map_of (om_by_tag (bx_outbound demo_program)) t \<noteq> None \<Longrightarrow> t = ''d''" for t
    by (simp add: demo_program_def outbound_Create_def demo_registry_direct NewOutboundManager_def outbound_replace_def outbound_install_def split: if_splits)
  show ?thesis
    unfolding box_ok_def demo_program_fields
    using om demo_sessions_ok tags demo_config_of(1) demo_outbounds_row_eq
    by (auto simp: view_ok_def own_tables_def demo_program_fields demo_codec_fields split: if_splits)
qed

lemma demo_program_plan: "planUserUpdate (rl_plan demo_reload_libs) demo_before demo_after = Inr demo_plan"
  unfolding demo_reload_libs_def by code_simp

lemma demo_prepared_inbounds:
  "\<exists>us m. prepare_inbounds demo_codec (bx_inbounds demo_program) (op_inbounds (demo_options demo_after)) {''bob''} [0] demo_sessions = (Inr us, m)"
  by (simp add: demo_program_fields demo_options_def PrepareUserUpdate_def socks_prepareUsers_def split_beta)

lemma demo_accepted:
  "\<exists>status b'. ReloadUsers demo_codec (demo_options demo_after) None [] demo_program = ((status, None), b') \<and> bx_revision b' = 1"
proof -
  obtain s b1 where st: "statusLocked demo_codec demo_program = (s, b1)" by (cases "statusLocked demo_codec demo_program")
  note b1 = box_ok_unchanged [OF demo_program_ok st]
  have hash: "rs_content_hash s = ''before''" "bx_closed b1 = False"
    using st by (auto simp: statusLocked_def publishRuntimeStatusLocked_def demo_program_fields demo_codec_fields demo_config_of demo_hash Let_def split: if_splits)
  obtain us m where pi: "prepare_inbounds demo_codec (bx_inbounds b1) (op_inbounds (demo_options demo_after)) {''bob''} [0] (bx_users b1) = (Inr us, m)"
    using demo_prepared_inbounds unfolding b1 demo_program_fields by blast
  obtain p where pr: "PrepareAddedRules demo_libs demo_action_libs demo_services (\<lambda>_. None) [demo_user_options] [-1] demo_router =
     (Inr p, demo_router\<lparr>rt_fresh := 2\<rparr>)" using demo_prepared_rules by blast
  have "\<exists>u b2. prepare_update demo_codec demo_plan (demo_options demo_after) b1 = (Inr u, b2)"
    using pi pr by (simp add: prepare_update_def demo_plan_def b1 demo_program_fields demo_codec_def demo_reload_libs_def demo_options_def
        outbound_PrepareUserUpdate_def)
  then obtain u b2 where u: "prepare_update demo_codec demo_plan (demo_options demo_after) b1 = (Inr u, b2)" by blast
  obtain status b' where pb: "publish_update demo_codec demo_plan u (demo_options demo_after) demo_after b2 = (status, b')"
    by (cases "publish_update demo_codec demo_plan u (demo_options demo_after) demo_after b2")
  have "ReloadUsers demo_codec (demo_options demo_after) None [] demo_program = ((status, None), b')"
    by (simp add: ReloadUsers_def reloadUsersLocked_def st hash b1 demo_program_fields demo_codec_fields demo_config_of demo_hash demo_program_plan u pb)
  moreover have "bx_revision b' = 1"
    using publish_update_view(3) [OF pb] prepare_update_view [OF u] b1(7) by (simp add: demo_program_fields)
  ultimately show ?thesis by blast
qed

theorem accepted_reload_users_witness:
  "\<exists>status b'. ReloadUsers demo_codec (demo_options demo_after) None [] demo_program = ((status, None), b') \<and>
     \<not> s_closed (m_sess (bx_users b') 0) \<and> s_closed (m_sess (bx_users b') 1)"
proof -
  obtain status b' where run: "ReloadUsers demo_codec (demo_options demo_after) None [] demo_program = ((status, None), b')" "bx_revision b' = 1"
    using demo_accepted by blast
  have new: "bx_revision b' \<noteq> bx_revision demo_program" using run(2) by (simp add: demo_program_fields)
  have h: "map_of (bx_inbounds demo_program) ''in'' = Some (Some \<lparr>ib_type = ''socks'', ib_table = 0, ib_kernel_tls = False,
        ib_credentials = SocksUsers \<lparr>us_required = True, us_authenticator = [], us_identities = []\<rparr>\<rparr>)" by (simp add: demo_program_fields)
  note life = accepted_reload_users [OF demo_codec_faithful demo_program_ok run(1) new h]
  have kept: "kept_user demo_codec demo_plan (demo_options demo_after) ''in'' ''alice'' ''a''" "\<not> kept_user demo_codec demo_plan (demo_options demo_after) ''in'' ''bob'' ''b''"
    by (simp_all add: kept_user_def demo_plan_def demo_options_def user_fingerprints_def demo_codec_def demo_reload_libs_def demo_user_libs_def)
  have "\<not> s_closed (m_sess (bx_users b') 0)"
    using life [of "''alice''" "\<lparr>e_fingerprint = ''a'', e_identity = 0\<rparr>"] kept(1) demo_sessions_facts
    by (auto simp: demo_config_of demo_codec_fields demo_program_plan demo_program_fields)
  moreover have "s_closed (m_sess (bx_users b') 1)"
    using life [of "''bob''" "\<lparr>e_fingerprint = ''b'', e_identity = 1\<rparr>"] kept(2) demo_sessions_facts
    by (auto simp: demo_config_of demo_codec_fields demo_program_plan demo_program_fields)
  ultimately show ?thesis using run(1) by blast
qed

theorem accepted_reload_published_witness:
  "\<exists>status b'. ReloadUsers demo_codec (demo_options demo_after) None [] demo_program = ((status, None), b') \<and>
     box_ok demo_codec b' \<and> bx_options b' = demo_options demo_after \<and> length (currentRules (bx_router b')) = 1"
proof -
  obtain status b' where run: "ReloadUsers demo_codec (demo_options demo_after) None [] demo_program = ((status, None), b')" "bx_revision b' = 1"
    using demo_accepted by blast
  have new: "bx_revision b' \<noteq> bx_revision demo_program" using run(2) by (simp add: demo_program_fields)
  have "length (rules_of demo_after) = 1" by code_simp
  then show ?thesis
    using accepted_reload_published [OF demo_codec_faithful demo_program_ok run(1) new] run(1) by (auto simp: demo_config_of demo_codec_fields)
qed

end
