(* ===== verification/Vless_Codec.thy ===== *)
theory Vless_Codec
  imports Inbound_Users Rule_Item
begin

text \<open>
  The VLESS wire format (\<^verbatim>\<open>local-modules/sing-vmess/vless\<close>: \<^verbatim>\<open>protocol.go\<close>, \<^verbatim>\<open>client.go\<close> and the connections of \<^verbatim>\<open>service.go\<close>): requests,
  responses and packets, as the client writes and the server reads them.

  A write gives the bytes that go to the connection. The address serializer and \<^verbatim>\<open>varbin.UvarintLen\<close> of the library are parameters; \<open>reads_back\<close> says that an
  address is one the serializer writes in the announced length and reads back.
\<close>

record wire_libs =
  wl_write :: "socksaddr \<Rightarrow> go_error + byte list"
  wl_read :: "byte list \<Rightarrow> go_error + socksaddr \<times> byte list"
  wl_len :: "socksaddr \<Rightarrow> nat"
  wl_uvarint_len :: "nat \<Rightarrow> nat"
  wl_skip :: "nat \<Rightarrow> byte list \<Rightarrow> go_error + byte list"

definition reads_back :: "wire_libs \<Rightarrow> socksaddr \<Rightarrow> bool" where
  "reads_back W a \<longleftrightarrow> (\<exists>bs. wl_write W a = Inr bs \<and> length bs = wl_len W a \<and> (\<forall>rest. wl_read W (bs @ rest) = Inr (a, rest)))"

definition uvarint_ok :: "wire_libs \<Rightarrow> bool" where
  "uvarint_ok W \<longleftrightarrow> (\<forall>n. wl_uvarint_len W n = length (put_uvarint n))"

definition skip_ok :: "wire_libs \<Rightarrow> bool" where
  "skip_ok W \<longleftrightarrow> (\<forall>n xs rest. length xs = n \<longrightarrow> wl_skip W n (xs @ rest) = Inr rest)"

section \<open>Requests\<close>

definition VlessVersion :: byte where "VlessVersion = 0"
definition CommandTCP :: byte where "CommandTCP = 1"
definition CommandMux :: byte where "CommandMux = 3"

record request =
  rq_uuid :: "byte list"
  rq_command :: byte
  rq_destination :: socksaddr
  rq_flow :: string

definition no_destination :: socksaddr where
  "no_destination = \<lparr>sa_addr = None, sa_port = 0, sa_fqdn = []\<rparr>"

record addons =
  ad_flow :: string
  ad_seed :: string

text \<open>One field of the add-ons: its length, the slice for it and its bytes.\<close>

definition read_field :: "byte list \<Rightarrow> go_error + string \<times> byte list" where
  "read_field bs =
     (case read_uvarint bs of
        Inl e \<Rightarrow> Inl e
      | Inr (n, rest) \<Rightarrow>
          (case make_bytes n of
             Inl e \<Rightarrow> Inl e
           | Inr _ \<Rightarrow> (case read_full n rest of Inl e \<Rightarrow> Inl e | Inr (xs, rest') \<Rightarrow> Inr (bytes_string xs, rest'))))"

lemma uvarint_loop_shorter: "uvarint_loop i x bs = Inr (n, rest) \<Longrightarrow> length rest < length bs"
  by (induction i x bs rule: uvarint_loop.induct) (auto split: if_splits)

lemma read_field_shorter: "read_field bs = Inr (s, rest) \<Longrightarrow> length rest < length bs"
  by (auto simp: read_field_def read_uvarint_def read_full_def split: sum.splits if_splits dest!: uvarint_loop_shorter)

function readAddons :: "byte list \<Rightarrow> addons \<Rightarrow> go_error + addons" where
  "readAddons [] addons = Inr addons"
| "readAddons (protoHeader # rest) addons =
     (if protoHeader = 10 then
        (case read_field rest of Inl e \<Rightarrow> Inl e | Inr (s, rest') \<Rightarrow> readAddons rest' (addons\<lparr>ad_flow := s\<rparr>))
      else if protoHeader = 18 then
        (case read_field rest of Inl e \<Rightarrow> Inl e | Inr (s, rest') \<Rightarrow> readAddons rest' (addons\<lparr>ad_seed := s\<rparr>))
      else Inl (ENew (''unknown protobuf message header: '' @ digits (unat protoHeader))))"
  by pat_completeness auto

termination
  by (relation "measure (length \<circ> fst)") (auto dest: read_field_shorter)

definition ReadRequest :: "wire_libs \<Rightarrow> byte list \<Rightarrow> go_error + request \<times> byte list" where
  "ReadRequest W bs =
     rbind (read_byte bs) (\<lambda>(version, r1).
     rbind (rfail_if (version \<noteq> VlessVersion) (ENew (''unknown version: '' @ digits (unat version)))) (\<lambda>_.
     rbind (read_full 16 r1) (\<lambda>(uid, r2).
     rbind (read_byte r2) (\<lambda>(addonsLen, r3).
     rbind (if addonsLen = 0 then Inr ([], r3)
            else rbind (read_full (unat addonsLen) r3) (\<lambda>(xs, r4).
                 rbind (readAddons xs \<lparr>ad_flow = [], ad_seed = []\<rparr>) (\<lambda>addons. Inr (ad_flow addons, r4)))) (\<lambda>(flow, r4).
     rbind (read_byte r4) (\<lambda>(command, r5).
     rbind (if command = CommandMux then Inr (no_destination, r5) else wl_read W r5) (\<lambda>(destination, r6).
     Inr (\<lparr>rq_uuid = uid, rq_command = command, rq_destination = destination, rq_flow = flow\<rparr>, r6))))))))"

section \<open>Writing requests\<close>

definition addons_len :: "wire_libs \<Rightarrow> string \<Rightarrow> nat" where
  "addons_len W flow = (if flow = [] then 0 else 1 + wl_uvarint_len W (length flow) + length flow)"

text \<open>\<^verbatim>\<open>binary.PutUvarint\<close> into a slice of \<open>k\<close> bytes panics when the slice is too short and leaves the rest of it as it is.\<close>

definition put_uvarint_in :: "nat \<Rightarrow> nat \<Rightarrow> go_error + byte list" where
  "put_uvarint_in k n =
     (if k < length (put_uvarint n) then Inl (EPanic ''index out of range'') else Inr (put_uvarint n @ replicate (k - length (put_uvarint n)) 0))"

definition write_addons :: "wire_libs \<Rightarrow> string \<Rightarrow> go_error + byte list" where
  "write_addons W flow =
     (if addons_len W flow = 0 then Inr []
      else rbind (put_uvarint_in (wl_uvarint_len W (length flow)) (length flow)) (\<lambda>v. Inr (10 # v @ string_bytes flow)))"

definition EncodeRequest :: "wire_libs \<Rightarrow> request \<Rightarrow> go_error + byte list" where
  "EncodeRequest W rq =
     rbind (write_addons W (rq_flow rq)) (\<lambda>addons.
     rbind (if rq_command rq = CommandMux then Inr [] else wl_write W (rq_destination rq)) (\<lambda>destination.
     Inr (VlessVersion # rq_uuid rq @ of_nat (addons_len W (rq_flow rq)) # addons @ rq_command rq # destination)))"

definition RequestLen :: "wire_libs \<Rightarrow> request \<Rightarrow> nat" where
  "RequestLen W rq = 1 + 16 + 1 + addons_len W (rq_flow rq) + 1 + (if rq_command rq = CommandMux then 0 else wl_len W (rq_destination rq))"

text \<open>The buffer of a request has exactly the computed size; writing beyond it panics.\<close>

definition in_buffer :: "nat \<Rightarrow> byte list \<Rightarrow> go_error + byte list" where
  "in_buffer requestLen bs = (if length bs \<le> requestLen then Inr bs else Inl (EPanic ''buffer overflow''))"

definition WriteRequest :: "wire_libs \<Rightarrow> request \<Rightarrow> byte list \<Rightarrow> go_error + byte list" where
  "WriteRequest W rq payload =
     rbind (EncodeRequest W rq) (\<lambda>bs. in_buffer (RequestLen W rq + length payload) (bs @ payload))"

definition WritePacketRequest :: "wire_libs \<Rightarrow> request \<Rightarrow> byte list \<Rightarrow> go_error + byte list" where
  "WritePacketRequest W rq payload =
     (let requestLen = 1 + 16 + 1 + 1 + wl_len W (rq_destination rq) + (if payload = [] then 0 else 2 + length payload)
      in rbind (wl_write W (rq_destination rq)) (\<lambda>destination.
         in_buffer requestLen (VlessVersion # rq_uuid rq @ 0 # CommandUDP # destination @
           (if payload = [] then [] else be16 (of_nat (length payload)) @ payload))))"

definition ReadResponse :: "wire_libs \<Rightarrow> byte list \<Rightarrow> go_error + byte list" where
  "ReadResponse W bs =
     rbind (read_byte bs) (\<lambda>(version, r1).
     rbind (rfail_if (version \<noteq> VlessVersion) (ENew (''unknown version: '' @ digits (unat version)))) (\<lambda>_.
     rbind (read_byte r1) (\<lambda>(protobufLength, r2).
     if protobufLength = 0 then Inr r2 else wl_skip W (unat protobufLength) r2)))"

section \<open>The client\<close>

record client =
  cl_key :: "byte list"
  cl_flow :: string

text \<open>UUIDs are strings of 16 bytes in the user tables.\<close>

definition NewClient :: "user_libs \<Rightarrow> string \<Rightarrow> string \<Rightarrow> go_error + client" where
  "NewClient L userId flow =
     (if flow = [] \<or> flow = FlowVision then Inr \<lparr>cl_key = string_bytes (service_uuid L userId), cl_flow = flow\<rparr>
      else Inl (ENew (''unsupported flow: '' @ flow)))"

text \<open>A connection as its two ends see it: what was sent on it so far and what is still to be read. A write may fail after a part of the bytes.\<close>

type_synonym transport = "byte list \<Rightarrow> byte list \<Rightarrow> nat \<times> go_error option"

definition reliable :: "transport \<Rightarrow> bool" where
  "reliable T \<longleftrightarrow> (\<forall>sent bs. T sent bs = (length bs, None))"

definition conn_write :: "transport \<Rightarrow> byte list \<Rightarrow> byte list \<Rightarrow> byte list \<times> nat \<times> go_error option" where
  "conn_write T sent bs = (let (n, err) = T sent bs in (sent @ take n bs, n, err))"

record vless_conn =
  vc_request :: request
  vc_requestWritten :: bool
  vc_responseRead :: bool
  vc_sent :: "byte list"
  vc_in :: "byte list"

definition NewConn :: "byte list \<Rightarrow> byte list \<Rightarrow> byte \<Rightarrow> socksaddr \<Rightarrow> string \<Rightarrow> vless_conn" where
  "NewConn incoming uid command destination flow =
     \<lparr>vc_request = \<lparr>rq_uuid = uid, rq_command = command, rq_destination = destination, rq_flow = flow\<rparr>,
      vc_requestWritten = False, vc_responseRead = False, vc_sent = [], vc_in = incoming\<rparr>"

definition Conn_Write :: "wire_libs \<Rightarrow> transport \<Rightarrow> vless_conn \<Rightarrow> byte list \<Rightarrow> vless_conn \<times> nat \<times> go_error option" where
  "Conn_Write W T c b =
     (if \<not> vc_requestWritten c then
        (case WriteRequest W (vc_request c) b of
           Inl e \<Rightarrow> (c\<lparr>vc_requestWritten := True\<rparr>, 0, Some e)
         | Inr bs \<Rightarrow>
             (let (sent, _, err) = conn_write T (vc_sent c) bs
              in (c\<lparr>vc_requestWritten := True, vc_sent := sent\<rparr>, if err = None then length b else 0, err)))
      else (let (sent, n, err) = conn_write T (vc_sent c) b in (c\<lparr>vc_sent := sent\<rparr>, n, err)))"

definition Conn_WriteBuffer :: "wire_libs \<Rightarrow> transport \<Rightarrow> vless_conn \<Rightarrow> byte list \<Rightarrow> vless_conn \<times> go_error option" where
  "Conn_WriteBuffer W T c b =
     (if \<not> vc_requestWritten c then
        (case rbind (EncodeRequest W (vc_request c)) (in_buffer (RequestLen W (vc_request c))) of
           Inl e \<Rightarrow> (c, Some e)
         | Inr bs \<Rightarrow>
             (let header = bs @ replicate (RequestLen W (vc_request c) - length bs) 0; (sent, _, err) = conn_write T (vc_sent c) (header @ b)
              in (c\<lparr>vc_requestWritten := True, vc_sent := sent\<rparr>, err)))
      else (let (sent, _, err) = conn_write T (vc_sent c) b in (c\<lparr>vc_sent := sent\<rparr>, err)))"

text \<open>A read gives some of the bytes that arrived: \<open>rd\<close> says how many of at most \<open>n\<close>.\<close>

type_synonym reading = "nat \<Rightarrow> byte list \<Rightarrow> go_error + byte list \<times> byte list"

definition Conn_Read :: "wire_libs \<Rightarrow> reading \<Rightarrow> vless_conn \<Rightarrow> nat \<Rightarrow> vless_conn \<times> (go_error + byte list)" where
  "Conn_Read W rd c n =
     (case (if vc_responseRead c then Inr (vc_in c) else ReadResponse W (vc_in c)) of
        Inl e \<Rightarrow> (c, Inl e)
      | Inr rest \<Rightarrow>
          (case rd n rest of
             Inl e \<Rightarrow> (c\<lparr>vc_responseRead := True, vc_in := rest\<rparr>, Inl e)
           | Inr (xs, rest') \<Rightarrow> (c\<lparr>vc_responseRead := True, vc_in := rest'\<rparr>, Inr xs)))"

definition Conn_FrontHeadroom :: "wire_libs \<Rightarrow> vless_conn \<Rightarrow> nat" where
  "Conn_FrontHeadroom W c = (if vc_requestWritten c then 0 else RequestLen W (vc_request c))"

text \<open>The dial functions: the connection below, whether vision goes on top (\<open>vision\<close> gives the error of its construction), and the first write.\<close>

definition prepareConn :: "go_error option \<Rightarrow> client \<Rightarrow> go_error + bool" where
  "prepareConn vision cl =
     (if cl_flow cl = FlowVision then (case vision of Some e \<Rightarrow> Inl (ECause e ''initialize vision'') | None \<Rightarrow> Inr True) else Inr False)"

definition DialConn ::
  "wire_libs \<Rightarrow> transport \<Rightarrow> go_error option \<Rightarrow> client \<Rightarrow> byte list \<Rightarrow> socksaddr \<Rightarrow> go_error + bool \<times> vless_conn \<times> go_error option" where
  "DialConn W T vision cl incoming destination =
     rbind (prepareConn vision cl) (\<lambda>v.
     let (c, _, err) = Conn_Write W T (NewConn incoming (cl_key cl) CommandTCP destination (cl_flow cl)) [] in Inr (v, c, err))"

definition DialEarlyConn :: "go_error option \<Rightarrow> client \<Rightarrow> byte list \<Rightarrow> socksaddr \<Rightarrow> go_error + bool \<times> vless_conn" where
  "DialEarlyConn vision cl incoming destination =
     rbind (prepareConn vision cl) (\<lambda>v. Inr (v, NewConn incoming (cl_key cl) CommandTCP destination (cl_flow cl)))"

definition DialXUDPPacketConn ::
  "wire_libs \<Rightarrow> transport \<Rightarrow> go_error option \<Rightarrow> client \<Rightarrow> byte list \<Rightarrow> socksaddr \<Rightarrow> go_error + bool \<times> vless_conn \<times> go_error option" where
  "DialXUDPPacketConn W T vision cl incoming destination =
     rbind (prepareConn vision cl) (\<lambda>v.
     let (c, _, err) = Conn_Write W T (NewConn incoming (cl_key cl) CommandTCP destination (cl_flow cl)) [] in Inr (v, c, err))"

definition DialEarlyXUDPPacketConn ::
  "wire_libs \<Rightarrow> transport \<Rightarrow> go_error option \<Rightarrow> client \<Rightarrow> byte list \<Rightarrow> socksaddr \<Rightarrow> go_error + bool \<times> vless_conn \<times> go_error option" where
  "DialEarlyXUDPPacketConn W T vision cl incoming destination =
     rbind (prepareConn vision cl) (\<lambda>v.
     let (c, _, err) = Conn_Write W T (NewConn incoming (cl_key cl) CommandMux destination (cl_flow cl)) [] in Inr (v, c, err))"

section \<open>Packets of the client\<close>

record packet_conn =
  pc_key :: "byte list"
  pc_destination :: socksaddr
  pc_flow :: string
  pc_requestWritten :: bool
  pc_responseRead :: bool
  pc_sent :: "byte list"
  pc_in :: "byte list"

definition pc_request :: "packet_conn \<Rightarrow> request" where
  "pc_request c = \<lparr>rq_uuid = pc_key c, rq_command = CommandUDP, rq_destination = pc_destination c, rq_flow = pc_flow c\<rparr>"

definition pc_write :: "transport \<Rightarrow> packet_conn \<Rightarrow> byte list \<Rightarrow> packet_conn \<times> nat \<times> go_error option" where
  "pc_write T c bs = (let (sent, n, err) = conn_write T (pc_sent c) bs in (c\<lparr>pc_sent := sent\<rparr>, n, err))"

text \<open>The first write sends the request; whatever its error, the packet follows.\<close>

definition PacketConn_Write :: "wire_libs \<Rightarrow> transport \<Rightarrow> packet_conn \<Rightarrow> byte list \<Rightarrow> packet_conn \<times> nat \<times> go_error option" where
  "PacketConn_Write W T c b =
     (let (c1, n1) =
        (if pc_requestWritten c then (c, 0)
         else (case WritePacketRequest W (pc_request c) [] of
                 Inl e \<Rightarrow> (c\<lparr>pc_requestWritten := True\<rparr>, 0)
               | Inr bs \<Rightarrow> (let (c', _, err) = pc_write T c bs in (c'\<lparr>pc_requestWritten := True\<rparr>, if err = None then length b else 0))))
      in case pc_write T c1 (be16 (of_nat (length b))) of
           (c2, _, Some e) \<Rightarrow> (c2, n1, Some e)
         | (c2, _, None) \<Rightarrow> pc_write T c2 b)"

definition PacketConn_WritePacket :: "wire_libs \<Rightarrow> transport \<Rightarrow> packet_conn \<Rightarrow> byte list \<Rightarrow> packet_conn \<times> go_error option" where
  "PacketConn_WritePacket W T c b =
     (let buffer = be16 (of_nat (length b)) @ b
      in if pc_requestWritten c then (let (c', _, err) = pc_write T c buffer in (c', err))
         else (case WritePacketRequest W (pc_request c) buffer of
                 Inl e \<Rightarrow> (c\<lparr>pc_requestWritten := True\<rparr>, Some e)
               | Inr bs \<Rightarrow> (let (c', _, err) = pc_write T c bs in (c'\<lparr>pc_requestWritten := True\<rparr>, err))))"

definition read_packet :: "nat \<Rightarrow> byte list \<Rightarrow> go_error + byte list \<times> byte list" where
  "read_packet n bs =
     rbind (read_u16 bs) (\<lambda>(packetLen, rest).
     rbind (rfail_if (n < unat packetLen) io_ErrShortBuffer) (\<lambda>_. read_full (unat packetLen) rest))"

definition PacketConn_Read :: "wire_libs \<Rightarrow> packet_conn \<Rightarrow> nat \<Rightarrow> packet_conn \<times> (go_error + byte list)" where
  "PacketConn_Read W c n =
     (case (if pc_responseRead c then Inr (pc_in c) else ReadResponse W (pc_in c)) of
        Inl e \<Rightarrow> (c, Inl e)
      | Inr rest \<Rightarrow>
          (case read_packet n rest of
             Inl e \<Rightarrow> (c\<lparr>pc_responseRead := True, pc_in := rest\<rparr>, Inl e)
           | Inr (xs, rest') \<Rightarrow> (c\<lparr>pc_responseRead := True, pc_in := rest'\<rparr>, Inr xs)))"

definition DialEarlyPacketConn :: "client \<Rightarrow> byte list \<Rightarrow> socksaddr \<Rightarrow> packet_conn" where
  "DialEarlyPacketConn cl incoming destination =
     \<lparr>pc_key = cl_key cl, pc_destination = destination, pc_flow = cl_flow cl, pc_requestWritten = False, pc_responseRead = False,
      pc_sent = [], pc_in = incoming\<rparr>"

definition DialPacketConn :: "wire_libs \<Rightarrow> transport \<Rightarrow> client \<Rightarrow> byte list \<Rightarrow> socksaddr \<Rightarrow> packet_conn \<times> go_error option" where
  "DialPacketConn W T cl incoming destination =
     (let (c, _, err) = PacketConn_Write W T (DialEarlyPacketConn cl incoming destination) [] in (c, err))"

section \<open>The server\<close>

datatype vless_outcome =
    PacketConnection user_identity socksaddr "byte list"
  | StreamConnection user_identity bool socksaddr "byte list"
  | MuxConnection user_identity bool "byte list"

text \<open>A connection at the service: the request, the user, the hook and the kind of connection handed on with the bytes that follow. The flag says whether vision
  is on top.\<close>

definition vless_NewConnection ::
  "user_libs \<Rightarrow> wire_libs \<Rightarrow> vless_service \<Rightarrow> (user_identity \<Rightarrow> go_error option) \<Rightarrow> go_error option \<Rightarrow> byte list \<Rightarrow> go_error + vless_outcome" where
  "vless_NewConnection L W s onAuthenticated vision conn =
     rbind (ReadRequest W conn) (\<lambda>(rq, rest).
     rbind (vless_authenticate L s (bytes_string (rq_uuid rq)) (rq_flow rq) (rq_command rq)) (\<lambda>user.
     rbind (case onAuthenticated user of Some e \<Rightarrow> Inl e | None \<Rightarrow> Inr ()) (\<lambda>_.
     let userFlow = (case map_of (vs_user_flow s) user of Some f \<Rightarrow> f | None \<Rightarrow> [])
     in if rq_command rq = CommandUDP then Inr (PacketConnection user (rq_destination rq) rest)
        else
          rbind (if userFlow = FlowVision then (case vision of Some e \<Rightarrow> Inl (ECause e ''initialize vision'') | None \<Rightarrow> Inr True)
                 else if userFlow = [] then Inr False
                 else Inl (ENew (''unknown flow: '' @ userFlow))) (\<lambda>v.
          if rq_command rq = CommandTCP then Inr (StreamConnection user v (rq_destination rq) rest)
          else if rq_command rq = CommandMux then Inr (MuxConnection user v rest)
          else Inl (ENew (''unknown command: '' @ digits (unat (rq_command rq))))))))"

record server_conn =
  sc_responseWritten :: bool
  sc_sent :: "byte list"

definition sc_write :: "transport \<Rightarrow> server_conn \<Rightarrow> byte list \<Rightarrow> server_conn \<times> nat \<times> go_error option" where
  "sc_write T c bs = (let (sent, n, err) = conn_write T (sc_sent c) bs in (c\<lparr>sc_sent := sent\<rparr>, n, err))"

definition serverConn_Write :: "transport \<Rightarrow> server_conn \<Rightarrow> byte list \<Rightarrow> server_conn \<times> nat \<times> go_error option" where
  "serverConn_Write T c b =
     (if sc_responseWritten c then sc_write T c b
      else (let (c', _, err) = sc_write T c (VlessVersion # 0 # b) in (c'\<lparr>sc_responseWritten := True\<rparr>, if err = None then length b else 0, err)))"

definition serverConn_WriteBuffer :: "transport \<Rightarrow> server_conn \<Rightarrow> byte list \<Rightarrow> server_conn \<times> go_error option" where
  "serverConn_WriteBuffer T c b =
     (let (c', _, err) = sc_write T (c\<lparr>sc_responseWritten := True\<rparr>) (if sc_responseWritten c then b else VlessVersion # 0 # b) in (c', err))"

definition serverConn_FrontHeadroom :: "server_conn \<Rightarrow> nat" where
  "serverConn_FrontHeadroom c = (if sc_responseWritten c then 0 else 2)"

definition server_response :: "transport \<Rightarrow> server_conn \<Rightarrow> server_conn \<times> go_error option" where
  "server_response T c =
     (if sc_responseWritten c then (c, None)
      else (case sc_write T c [VlessVersion, 0] of
              (c', _, Some e) \<Rightarrow> (c', Some e)
            | (c', _, None) \<Rightarrow> (c'\<lparr>sc_responseWritten := True\<rparr>, None)))"

definition serverPacketConn_WriteTo :: "transport \<Rightarrow> server_conn \<Rightarrow> byte list \<Rightarrow> server_conn \<times> nat \<times> go_error option" where
  "serverPacketConn_WriteTo T c p =
     (case server_response T c of
        (c1, Some e) \<Rightarrow> (c1, 0, Some e)
      | (c1, None) \<Rightarrow>
          (case sc_write T c1 (be16 (of_nat (length p))) of
             (c2, _, Some e) \<Rightarrow> (c2, 0, Some e)
           | (c2, _, None) \<Rightarrow> sc_write T c2 p))"

definition serverPacketConn_WritePacket :: "transport \<Rightarrow> server_conn \<Rightarrow> byte list \<Rightarrow> server_conn \<times> go_error option" where
  "serverPacketConn_WritePacket T c b =
     (case server_response T c of
        (c1, Some e) \<Rightarrow> (c1, Some e)
      | (c1, None) \<Rightarrow> (let (c2, _, err) = sc_write T c1 (be16 (of_nat (length b)) @ b) in (c2, err)))"

text \<open>Packets of the client: \<^verbatim>\<open>ReadFrom\<close> with a slice of \<open>n\<close> bytes; \<^verbatim>\<open>ReadPacket\<close> with a buffer that has \<open>n\<close> bytes free (\<^verbatim>\<open>ReadFullFrom\<close> fails
  on a larger packet). Both give the destination of the request. After a failed read a connection is not used again.\<close>

definition serverPacketConn_ReadFrom :: "socksaddr \<Rightarrow> nat \<Rightarrow> byte list \<Rightarrow> go_error + (byte list \<times> socksaddr) \<times> byte list" where
  "serverPacketConn_ReadFrom destination n bs = rbind (read_packet n bs) (\<lambda>(xs, rest). Inr ((xs, destination), rest))"

definition serverPacketConn_ReadPacket :: "socksaddr \<Rightarrow> nat \<Rightarrow> byte list \<Rightarrow> go_error + (byte list \<times> socksaddr) \<times> byte list" where
  "serverPacketConn_ReadPacket destination n bs = rbind (read_packet n bs) (\<lambda>(xs, rest). Inr ((xs, destination), rest))"

section \<open>Round trips\<close>

lemma reads_backE:
  assumes "reads_back W a"
  obtains bs where "wl_write W a = Inr bs" "length bs = wl_len W a" "\<And>rest. wl_read W (bs @ rest) = Inr (a, rest)"
  using assms by (auto simp: reads_back_def)

lemma put_uvarint_length: "n < 128 ^ Suc k \<Longrightarrow> length (put_uvarint n) \<le> Suc k"
proof (induction k arbitrary: n)
  case (Suc k)
  have "n div 128 < 128 ^ Suc k" using Suc.prems by (simp add: less_mult_imp_div_less mult.commute)
  then show ?case using Suc.IH [of "n div 128"] by (subst put_uvarint.simps) simp
qed (simp add: put_uvarint.simps)

lemma addons_len_bound: "uvarint_ok W \<Longrightarrow> length f \<le> 252 \<Longrightarrow> addons_len W f < 256"
  using put_uvarint_length [of "length f" 1] by (simp add: addons_len_def uvarint_ok_def)

lemma read_field_written:
  assumes "length f < 2 ^ 48"
  shows "read_field (put_uvarint (length f) @ string_bytes f @ rest) = Inr (f, rest)"
proof -
  have "length f < 2 ^ 64" using assms by simp
  then show ?thesis using assms by (simp add: read_field_def read_uvarint_put make_bytes_def)
qed

lemma write_addons_written:
  assumes "uvarint_ok W" "f \<noteq> []"
  shows "write_addons W f = Inr (10 # put_uvarint (length f) @ string_bytes f)"
  using assms by (simp add: write_addons_def addons_len_def put_uvarint_in_def uvarint_ok_def)

lemma readAddons_written:
  assumes "length f < 2 ^ 48"
  shows "readAddons (10 # put_uvarint (length f) @ string_bytes f) a = Inr (a\<lparr>ad_flow := f\<rparr>)"
  using read_field_written [OF assms, of "[]"] by simp

lemma vless_request_written:
  assumes lib: "uvarint_ok W" and "length (rq_uuid rq) = 16" "length (rq_flow rq) \<le> 252"
    and dest: "rq_command rq = CommandMux \<and> d = [] \<and> rq_destination rq = no_destination \<or>
      rq_command rq \<noteq> CommandMux \<and> wl_write W (rq_destination rq) = Inr d \<and> length d = wl_len W (rq_destination rq) \<and>
      (\<forall>rest. wl_read W (d @ rest) = Inr (rq_destination rq, rest))"
  obtains bs where "EncodeRequest W rq = Inr bs" "length bs = RequestLen W rq" "\<And>payload. ReadRequest W (bs @ payload) = Inr (rq, payload)"
proof -
  let ?f = "rq_flow rq"
  define ad where "ad = (if ?f = [] then [] else 10 # put_uvarint (length ?f) @ string_bytes ?f)"
  have ad: "write_addons W ?f = Inr ad" "addons_len W ?f = length ad"
    using write_addons_written [OF lib, of ?f] lib by (auto simp: ad_def write_addons_def addons_len_def uvarint_ok_def)
  have "length ad < 256" using addons_len_bound [OF lib, of ?f] assms ad by simp
  then have len: "unat (of_nat (length ad) :: byte) = length ad" by (simp add: unat_of_nat)
  have none: "(of_nat (length ad) :: byte) = 0 \<longleftrightarrow> ad = []" by (subst unat_eq_zero [symmetric]) (simp only: len length_0_conv)
  define bs where "bs = VlessVersion # rq_uuid rq @ of_nat (length ad) # ad @ rq_command rq # d"
  have flow: "(if ad = [] then Inr ([], ad @ r) else rbind (read_full (length ad) (ad @ r)) (\<lambda>(xs, r4).
      rbind (readAddons xs \<lparr>ad_flow = [], ad_seed = []\<rparr>) (\<lambda>addons. Inr (ad_flow addons, r4)))) = Inr (?f, r)" for r
    using assms readAddons_written [of ?f "\<lparr>ad_flow = [], ad_seed = []\<rparr>"] by (simp add: ad_def)
  have enc: "EncodeRequest W rq = Inr bs" using dest ad by (auto simp: EncodeRequest_def bs_def)
  have "length bs = RequestLen W rq" using dest ad assms by (auto simp: RequestLen_def bs_def)
  moreover have "ReadRequest W (bs @ payload) = Inr (rq, payload)" for payload
    using dest assms flow [of "rq_command rq # d @ payload"] by (auto simp: ReadRequest_def bs_def rfail_if_def len none)
  ultimately show ?thesis using enc that by blast
qed

lemma stream_request_written:
  assumes "uvarint_ok W" "length (rq_uuid rq) = 16" "length (rq_flow rq) \<le> 252" "rq_command rq \<noteq> CommandMux" "reads_back W (rq_destination rq)"
  obtains bs where "\<And>payload. WriteRequest W rq payload = Inr (bs @ payload)" "length bs = RequestLen W rq"
    "\<And>payload. ReadRequest W (bs @ payload) = Inr (rq, payload)"
proof -
  from \<open>reads_back W _\<close> obtain d where "wl_write W (rq_destination rq) = Inr d" "length d = wl_len W (rq_destination rq)"
    "\<And>rest. wl_read W (d @ rest) = Inr (rq_destination rq, rest)" by (rule reads_backE) blast
  then obtain bs where "EncodeRequest W rq = Inr bs" "length bs = RequestLen W rq" "\<And>payload. ReadRequest W (bs @ payload) = Inr (rq, payload)"
    using vless_request_written [of W rq d] assms by blast
  then show ?thesis by (intro that [of bs]) (simp_all add: WriteRequest_def in_buffer_def)
qed

text \<open>A serializer for host names, a user and a destination, as an instance of the parameters.\<close>

definition demo_wire :: wire_libs where
  "demo_wire =
     \<lparr>wl_write = (\<lambda>a. Inr (be16 (sa_port a) @ of_nat (length (sa_fqdn a)) # string_bytes (sa_fqdn a))),
      wl_read = (\<lambda>bs. rbind (read_u16 bs) (\<lambda>(port, r1). rbind (read_byte r1) (\<lambda>(n, r2). rbind (read_full (unat n) r2) (\<lambda>(xs, r3).
        Inr (\<lparr>sa_addr = None, sa_port = port, sa_fqdn = bytes_string xs\<rparr>, r3))))),
      wl_len = (\<lambda>a. 3 + length (sa_fqdn a)), wl_uvarint_len = (\<lambda>n. length (put_uvarint n)),
      wl_skip = (\<lambda>n bs. rbind (read_full n bs) (\<lambda>(_, rest). Inr rest))\<rparr>"

definition demo_destination :: socksaddr where
  "demo_destination = \<lparr>sa_addr = None, sa_port = 443, sa_fqdn = ''a.b''\<rparr>"

definition demo_uuid :: string where "demo_uuid = ''0123456789abcdef''"

definition demo_identity :: user_identity where
  "demo_identity = \<lparr>ui_name = ''alice'', ui_index = 0, ui_token = Some 0\<rparr>"

definition demo_service :: "string \<Rightarrow> vless_service" where
  "demo_service flow = \<lparr>vs_user_map = [(demo_uuid, demo_identity)], vs_user_flow = [(demo_identity, flow)]\<rparr>"

definition demo_transport :: transport where
  "demo_transport sent bs = (length bs, None)"

lemma demo_libs: "uvarint_ok demo_wire" "reads_back demo_wire demo_destination" "reliable demo_transport"
  by (auto simp: uvarint_ok_def reads_back_def reliable_def demo_wire_def demo_destination_def demo_transport_def)

lemma demo_user:
  "length (service_uuid demo_user_libs demo_uuid) = 16" "map_of (vs_user_map (demo_service flow)) (service_uuid demo_user_libs demo_uuid) = Some demo_identity"
  "map_of (vs_user_flow (demo_service flow)) demo_identity = Some flow"
  by (simp_all add: service_uuid_def demo_user_libs_def demo_uuid_def demo_service_def)

definition demo_client :: "string \<Rightarrow> client" where
  "demo_client flow = \<lparr>cl_key = string_bytes demo_uuid, cl_flow = flow\<rparr>"

lemma demo_client: "NewClient demo_user_libs demo_uuid [] = Inr (demo_client [])" "NewClient demo_user_libs demo_uuid FlowVision = Inr (demo_client FlowVision)"
  by (simp_all add: NewClient_def demo_client_def service_uuid_def demo_user_libs_def)

text \<open>The writes to a \<^verbatim>\<open>Conn\<close>, one after the other. With the vision flow the caller writes to a \<^verbatim>\<open>VisionConn\<close> instead, whose padded output these writes are.\<close>

fun conn_writes :: "wire_libs \<Rightarrow> transport \<Rightarrow> vless_conn \<Rightarrow> byte list list \<Rightarrow> vless_conn" where
  "conn_writes W T c [] = c"
| "conn_writes W T c (b # bs) = conn_writes W T (fst (Conn_Write W T c b)) bs"

lemma conn_write_reliable [simp]: "reliable T \<Longrightarrow> conn_write T sent bs = (sent @ bs, length bs, None)"
  by (simp add: reliable_def conn_write_def)

lemma conn_writes_later: "reliable T \<Longrightarrow> vc_requestWritten c \<Longrightarrow> vc_sent (conn_writes W T c bs) = vc_sent c @ concat bs"
  by (induction bs arbitrary: c) (simp_all add: Conn_Write_def)

lemma conn_writes_all:
  assumes "reliable T" "\<not> vc_requestWritten c" "\<And>payload. WriteRequest W (vc_request c) payload = Inr (h @ payload)"
  shows "vc_sent (conn_writes W T c (b # bs)) = vc_sent c @ h @ b @ concat bs"
  using assms by (simp add: Conn_Write_def conn_writes_later)

text \<open>C14: A client reaches the destination it asks for. Let a client and a user of the service have the same id and the same flow (none or vision). Then
  whatever is written to the \<^verbatim>\<open>Conn\<close> the client dials, in any number of writes, the service accepts it, as this user, for the destination dialled, and exactly the bytes written are
  left to be read from the connection. Without a flow these are the bytes the client writes and the handler reads; with vision both sides put a \<^verbatim>\<open>VisionConn\<close> around it, and they are
  the output of the client's and the input of the service's.\<close>

theorem vless_client_reaches:
  assumes libs: "uvarint_ok W" "reads_back W destination" "reliable T"
    and cl: "NewClient L userId flow = Inr cl" and uid: "length (service_uuid L userId) = 16"
    and user: "map_of (vs_user_map s) (service_uuid L userId) = Some u" "map_of (vs_user_flow s) u = Some flow" "onAuthenticated u = None"
  shows "\<exists>v c. DialEarlyConn None cl incoming destination = Inr (v, c) \<and> v = (flow = FlowVision) \<and>
    vless_NewConnection L W s onAuthenticated None (vc_sent (conn_writes W T c (b # bs))) = Inr (StreamConnection u v destination (b @ concat bs))"
proof -
  have cl': "cl = \<lparr>cl_key = string_bytes (service_uuid L userId), cl_flow = flow\<rparr>" and flow: "flow = [] \<or> flow = FlowVision"
    using cl by (auto simp: NewClient_def split: if_splits)
  let ?c = "NewConn incoming (cl_key cl) CommandTCP destination flow"
  have dial: "DialEarlyConn None cl incoming destination = Inr (flow = FlowVision, ?c)"
    by (simp add: DialEarlyConn_def prepareConn_def cl')
  have "length flow \<le> 252" using flow by (auto simp: FlowVision_def)
  then have rq: "length (rq_uuid (vc_request ?c)) = 16" "length (rq_flow (vc_request ?c)) \<le> 252" "rq_command (vc_request ?c) \<noteq> CommandMux"
    "reads_back W (rq_destination (vc_request ?c))"
    using libs uid by (simp_all add: NewConn_def cl' CommandTCP_def CommandMux_def)
  obtain h where h: "\<And>payload. WriteRequest W (vc_request ?c) payload = Inr (h @ payload)"
    "\<And>payload. ReadRequest W (h @ payload) = Inr (vc_request ?c, payload)"
    by (rule stream_request_written [OF libs(1) rq]) (rule that)
  have sent: "vc_sent (conn_writes W T ?c (b # bs)) = h @ b @ concat bs"
    using conn_writes_all [of T ?c W h b bs] libs(3) h(1) by (simp add: NewConn_def)
  have "CommandTCP \<noteq> CommandUDP" by (simp add: CommandTCP_def CommandUDP_def)
  then have "vless_NewConnection L W s onAuthenticated None (h @ b @ concat bs) = Inr (StreamConnection u (flow = FlowVision) destination (b @ concat bs))"
    using user flow unfolding vless_NewConnection_def h(2) by (auto simp: NewConn_def cl' vless_authenticate_def FlowVision_def)
  then show ?thesis unfolding dial sent [symmetric] by blast
qed

theorem vless_client_reaches_witness:
  "(\<exists>c. DialEarlyConn None (demo_client []) [] demo_destination = Inr (False, c) \<and>
     vless_NewConnection demo_user_libs demo_wire (demo_service []) (\<lambda>_. None) None (vc_sent (conn_writes demo_wire demo_transport c [[1, 2], [3]])) =
       Inr (StreamConnection demo_identity False demo_destination [1, 2, 3])) \<and>
   (\<exists>c. DialEarlyConn None (demo_client FlowVision) [] demo_destination = Inr (True, c) \<and>
     vless_NewConnection demo_user_libs demo_wire (demo_service FlowVision) (\<lambda>_. None) None (vc_sent (conn_writes demo_wire demo_transport c [[1, 2], [3]])) =
       Inr (StreamConnection demo_identity True demo_destination [1, 2, 3]))"
  using vless_client_reaches [OF demo_libs demo_client(1) demo_user, of "\<lambda>_. None" "[]" "[1, 2]" "[[3]]"]
    vless_client_reaches [OF demo_libs demo_client(2) demo_user, of "\<lambda>_. None" "[]" "[1, 2]" "[[3]]"] by (auto simp: FlowVision_def)

section \<open>Packets\<close>

text \<open>The writes of a client, each with \<^verbatim>\<open>Write\<close> or, when it is buffered, with \<^verbatim>\<open>WritePacket\<close>.\<close>

fun packet_writes :: "wire_libs \<Rightarrow> transport \<Rightarrow> packet_conn \<Rightarrow> (bool \<times> byte list) list \<Rightarrow> packet_conn" where
  "packet_writes W T c [] = c"
| "packet_writes W T c ((buffered, p) # ps) =
     packet_writes W T (if buffered then fst (PacketConn_WritePacket W T c p) else fst (PacketConn_Write W T c p)) ps"

text \<open>Reading as many packets as the list has, each into a buffer for the largest packet.\<close>

fun packet_reads :: "socksaddr \<Rightarrow> nat \<Rightarrow> byte list \<Rightarrow> go_error + (byte list \<times> socksaddr) list \<times> byte list" where
  "packet_reads destination 0 bs = Inr ([], bs)"
| "packet_reads destination (Suc k) bs =
     rbind (serverPacketConn_ReadPacket destination 65535 bs) (\<lambda>(p, rest).
     rbind (packet_reads destination k rest) (\<lambda>(ps, rest'). Inr (p # ps, rest')))"

definition framed :: "byte list \<Rightarrow> byte list" where
  "framed p = be16 (of_nat (length p)) @ p"

lemma read_packet_framed: "length p < 65536 \<Longrightarrow> length p \<le> n \<Longrightarrow> read_packet n (framed p @ rest) = Inr (p, rest)"
  by (simp add: read_packet_def framed_def unat_u16 rfail_if_def)

lemma packet_reads_framed:
  "list_all (\<lambda>p. length p < 65536) ps \<Longrightarrow>
     packet_reads destination (length ps) (concat (map framed ps) @ rest) = Inr (map (\<lambda>p. (p, destination)) ps, rest)"
  by (induction ps) (simp_all add: serverPacketConn_ReadPacket_def read_packet_framed)

lemma pc_write_reliable [simp]: "reliable T \<Longrightarrow> pc_write T c bs = (c\<lparr>pc_sent := pc_sent c @ bs\<rparr>, length bs, None)"
  by (simp add: pc_write_def)

lemma packet_writes_later:
  "reliable T \<Longrightarrow> pc_requestWritten c \<Longrightarrow> pc_sent (packet_writes W T c ps) = pc_sent c @ concat (map (framed \<circ> snd) ps)"
  by (induction ps arbitrary: c) (auto simp: PacketConn_Write_def PacketConn_WritePacket_def framed_def)

lemma packet_request_written:
  assumes "reads_back W (rq_destination rq)" "length (rq_uuid rq) = 16"
  obtains h where "\<And>payload. WritePacketRequest W rq payload = Inr (h @ (if payload = [] then [] else framed payload))"
    "\<And>payload. ReadRequest W (h @ payload) = Inr (rq\<lparr>rq_command := CommandUDP, rq_flow := []\<rparr>, payload)"
proof -
  from assms(1) obtain d where d: "wl_write W (rq_destination rq) = Inr d" "length d = wl_len W (rq_destination rq)"
    "\<And>rest. wl_read W (d @ rest) = Inr (rq_destination rq, rest)" by (rule reads_backE) blast
  let ?h = "VlessVersion # rq_uuid rq @ 0 # CommandUDP # d"
  show ?thesis
    by (rule that [of ?h])
      (use d assms(2) in \<open>auto simp: WritePacketRequest_def in_buffer_def framed_def ReadRequest_def rfail_if_def CommandUDP_def CommandMux_def\<close>)
qed

lemma packet_client_sent:
  assumes "reads_back W destination" "reliable T" "length (cl_key cl) = 16"
  obtains h where
    "\<And>incoming buffered p ps. pc_sent (packet_writes W T (DialEarlyPacketConn cl incoming destination) ((buffered, p) # ps)) =
       h @ framed (if buffered then framed p else p) @ concat (map (framed \<circ> snd) ps)"
    "\<And>incoming p. PacketConn_WritePacket W T (DialEarlyPacketConn cl incoming destination) p =
       ((DialEarlyPacketConn cl incoming destination)\<lparr>pc_sent := h @ framed (framed p), pc_requestWritten := True\<rparr>, None)"
    "\<And>payload. ReadRequest W (h @ payload) = Inr (\<lparr>rq_uuid = cl_key cl, rq_command = CommandUDP, rq_destination = destination, rq_flow = []\<rparr>, payload)"
proof -
  let ?c = "\<lambda>incoming. DialEarlyPacketConn cl incoming destination"
  have rq: "pc_request (?c incoming) = \<lparr>rq_uuid = cl_key cl, rq_command = CommandUDP, rq_destination = destination, rq_flow = cl_flow cl\<rparr>" for incoming
    by (simp add: pc_request_def DialEarlyPacketConn_def)
  have new: "\<not> pc_requestWritten (?c incoming)" "pc_sent (?c incoming) = []" for incoming by (simp_all add: DialEarlyPacketConn_def)
  obtain h where h: "\<And>payload. WritePacketRequest W (pc_request (?c [])) payload = Inr (h @ (if payload = [] then [] else framed payload))"
    "\<And>payload. ReadRequest W (h @ payload) = Inr (pc_request (?c [])\<lparr>rq_command := CommandUDP, rq_flow := []\<rparr>, payload)"
    by (rule packet_request_written [of W "pc_request (?c [])"]) (use assms that in \<open>auto simp: rq\<close>)
  have ne: "framed p \<noteq> []" for p by (simp add: framed_def be16_def)
  have packet: "PacketConn_WritePacket W T (?c incoming) p = ((?c incoming)\<lparr>pc_sent := h @ framed (framed p), pc_requestWritten := True\<rparr>, None)" for incoming p
    using h(1) [of "framed p"] assms(2) ne unfolding rq by (simp add: PacketConn_WritePacket_def rq new framed_def [symmetric])
  have plain: "fst (PacketConn_Write W T (?c incoming) p) = (?c incoming)\<lparr>pc_sent := h @ framed p, pc_requestWritten := True\<rparr>" for incoming p
    using h(1) [of "[]"] assms(2) unfolding rq by (simp add: PacketConn_Write_def rq new framed_def)
  show ?thesis
  proof (rule that [of h])
    show "pc_sent (packet_writes W T (?c incoming) ((buffered, p) # ps)) = h @ framed (if buffered then framed p else p) @ concat (map (framed \<circ> snd) ps)"
      for incoming buffered p ps using assms(2) by (simp add: packet plain packet_writes_later)
    show "ReadRequest W (h @ payload) = Inr (\<lparr>rq_uuid = cl_key cl, rq_command = CommandUDP, rq_destination = destination, rq_flow = []\<rparr>, payload)" for payload
      using h(2) by (simp add: rq)
  qed (rule packet)
qed

lemma packet_connection_accepted:
  assumes "ReadRequest W conn = Inr (\<lparr>rq_uuid = string_bytes uid, rq_command = CommandUDP, rq_destination = destination, rq_flow = []\<rparr>, rest)"
    and "map_of (vs_user_map s) uid = Some u" "map_of (vs_user_flow s) u = Some []" "onAuthenticated u = None"
  shows "vless_NewConnection L W s onAuthenticated vision conn = Inr (PacketConnection u destination rest)"
  using assms by (simp add: vless_NewConnection_def vless_authenticate_def FlowVision_def)

text \<open>C25: Packets arrive as they were sent, but for the first one if it is buffered. A client without a flow dials a packet connection and writes packets of less than 64 KiB, each with \<^verbatim>\<open>Write\<close> or
  with \<^verbatim>\<open>WritePacket\<close>. The service accepts the connection as the client's user, for the destination dialled, and reading packets from it gives the packets written, one by one and in order; only the very first packet, if
  it is written with \<^verbatim>\<open>WritePacket\<close>, arrives with its own length in front.\<close>

theorem vless_packets_arrive:
  assumes libs: "reads_back W destination" "reliable T"
    and cl: "NewClient L userId [] = Inr cl" and uid: "length (service_uuid L userId) = 16"
    and user: "map_of (vs_user_map s) (service_uuid L userId) = Some u" "map_of (vs_user_flow s) u = Some []" "onAuthenticated u = None"
    and first: "q = (if buffered then be16 (of_nat (length p)) @ p else p)" and sizes: "list_all (\<lambda>q. length q < 65536) (q # map snd ps)"
  shows "\<exists>rest. vless_NewConnection L W s onAuthenticated vision (pc_sent (packet_writes W T (DialEarlyPacketConn cl incoming destination) ((buffered, p) # ps))) =
      Inr (PacketConnection u destination rest) \<and>
    packet_reads destination (Suc (length ps)) rest = Inr ((q, destination) # map (\<lambda>(_, r). (r, destination)) ps, [])"
proof -
  have key: "cl_key cl = string_bytes (service_uuid L userId)" using cl by (auto simp: NewClient_def)
  obtain h where h: "pc_sent (packet_writes W T (DialEarlyPacketConn cl incoming destination) ((buffered, p) # ps)) = h @ concat (map framed (q # map snd ps))"
    "\<And>payload. ReadRequest W (h @ payload) = Inr (\<lparr>rq_uuid = cl_key cl, rq_command = CommandUDP, rq_destination = destination, rq_flow = []\<rparr>, payload)"
    by (rule packet_client_sent [OF libs, of cl]) (use key uid that in \<open>simp_all add: first framed_def comp_def\<close>)
  have "packet_reads destination (Suc (length ps)) (concat (map framed (q # map snd ps))) = Inr ((q, destination) # map (\<lambda>(_, r). (r, destination)) ps, [])"
    using packet_reads_framed [OF sizes, of destination "[]"] by (simp add: comp_def case_prod_beta del: packet_reads.simps)
  then show ?thesis
    using packet_connection_accepted [where onAuthenticated = onAuthenticated, OF h(2) [unfolded key] user] unfolding h(1) by auto
qed

theorem vless_packets_arrive_witness:
  "\<exists>rest. vless_NewConnection demo_user_libs demo_wire (demo_service []) (\<lambda>_. None) None
       (pc_sent (packet_writes demo_wire demo_transport (DialEarlyPacketConn (demo_client []) [] demo_destination) [(False, [1, 2]), (True, [3]), (False, [4])])) =
       Inr (PacketConnection demo_identity demo_destination rest) \<and>
     packet_reads demo_destination 3 rest = Inr ([([1, 2], demo_destination), ([3], demo_destination), ([4], demo_destination)], [])"
  using vless_packets_arrive [OF demo_libs(2,3) demo_client(1) demo_user, of "\<lambda>_. None" "[1, 2]" False "[1, 2]" "[(True, [3]), (False, [4])]" None "[]"]
  by (simp add: numeral_3_eq_3)

text \<open>The packet that opens a connection through \<^verbatim>\<open>WritePacket\<close> arrives changed: the client puts its length in front and \<^verbatim>\<open>WritePacketRequest\<close> does so again, so
  the service reads it with two bytes too many in front.\<close>

theorem vless_first_packet_changed:
  assumes libs: "reads_back W destination" "reliable T"
    and cl: "NewClient L userId [] = Inr cl" and uid: "length (service_uuid L userId) = 16"
    and user: "map_of (vs_user_map s) (service_uuid L userId) = Some u" "map_of (vs_user_flow s) u = Some []" "onAuthenticated u = None"
    and small: "length p < 65534"
  shows "\<exists>c rest. PacketConn_WritePacket W T (DialEarlyPacketConn cl incoming destination) p = (c, None) \<and>
    vless_NewConnection L W s onAuthenticated vision (pc_sent c) = Inr (PacketConnection u destination rest) \<and>
    serverPacketConn_ReadPacket destination 65535 rest = Inr ((be16 (of_nat (length p)) @ p, destination), [])"
proof -
  have key: "cl_key cl = string_bytes (service_uuid L userId)" using cl by (auto simp: NewClient_def)
  obtain h where h: "PacketConn_WritePacket W T (DialEarlyPacketConn cl incoming destination) p =
       ((DialEarlyPacketConn cl incoming destination)\<lparr>pc_sent := h @ framed (framed p), pc_requestWritten := True\<rparr>, None)"
    "\<And>payload. ReadRequest W (h @ payload) = Inr (\<lparr>rq_uuid = cl_key cl, rq_command = CommandUDP, rq_destination = destination, rq_flow = []\<rparr>, payload)"
    by (rule packet_client_sent [OF libs, of cl]) (use key uid that in simp_all)
  have "read_packet 65535 (framed (framed p)) = Inr (framed p, [])"
    using read_packet_framed [of "framed p" 65535 "[]"] small by (simp add: framed_def)
  then show ?thesis
    using packet_connection_accepted [where onAuthenticated = onAuthenticated, OF h(2) [unfolded key] user] unfolding h(1) by (auto simp: serverPacketConn_ReadPacket_def framed_def)
qed

theorem vless_first_packet_changed_witness:
  "\<exists>c rest. PacketConn_WritePacket demo_wire demo_transport (DialEarlyPacketConn (demo_client []) [] demo_destination) [7] = (c, None) \<and>
     vless_NewConnection demo_user_libs demo_wire (demo_service []) (\<lambda>_. None) None (pc_sent c) = Inr (PacketConnection demo_identity demo_destination rest) \<and>
     serverPacketConn_ReadPacket demo_destination 65535 rest = Inr (([0, 1, 7], demo_destination), [])"
  using vless_first_packet_changed [OF demo_libs(2,3) demo_client(1) demo_user, of "\<lambda>_. None" "[7]" "[]" None] by (simp add: be16_def)

text \<open>C30: A request can crash the service before anybody is authenticated: a flow whose announced length is \<open>2 ^ 48\<close> or more makes reading the request
  panic, or run out of memory where it is exactly \<open>2 ^ 48\<close>, whatever the UUID and whatever the users are.\<close>

theorem vless_request_panics:
  assumes "length uid = 16" "2 ^ 48 \<le> n" "n < 2 ^ 64" "k = 1 + length (put_uvarint n)"
  shows "vless_NewConnection L W s onAuthenticated vision (VlessVersion # uid @ of_nat k # 10 # put_uvarint n @ rest) =
    Inl (EPanic (if n = 2 ^ 48 then ''out of memory'' else ''makeslice: len out of range''))"
proof -
  have "n < 128 ^ Suc 9" using assms(3) by simp
  then have "k < 256" using put_uvarint_length [of n 9] assms(4) by linarith
  then have k: "unat (of_nat k :: byte) = k" by (simp add: unat_of_nat)
  have "(of_nat k :: byte) \<noteq> 0" using k assms(4) by auto
  moreover have "read_full k (10 # put_uvarint n @ rest) = Inr (10 # put_uvarint n, rest)"
    using read_full_append [of "10 # put_uvarint n" k rest] assms(4) by simp
  moreover have "read_field (put_uvarint n) = Inl (EPanic (if n = 2 ^ 48 then ''out of memory'' else ''makeslice: len out of range''))"
    using assms read_uvarint_put [of n "[]"] by (simp add: read_field_def make_bytes_def)
  ultimately show ?thesis using assms(1) k by (simp add: vless_NewConnection_def ReadRequest_def rfail_if_def)
qed

theorem vless_request_panics_witness:
  "vless_NewConnection demo_user_libs demo_wire (demo_service []) (\<lambda>_. None) None (0 # replicate 16 0 @ [9, 10, 128, 128, 128, 128, 128, 128, 128, 1]) =
     Inl (EPanic ''makeslice: len out of range'')"
proof -
  have n: "put_uvarint 562949953421312 = [128, 128, 128, 128, 128, 128, 128, 1]" by (simp add: put_uvarint.simps)
  show ?thesis
    using vless_request_panics [of "replicate 16 0" 562949953421312 9 demo_user_libs demo_wire "demo_service []" "\<lambda>_. None" None "[]"]
    by (simp add: n VlessVersion_def)
qed

end
