(* ===== verification/Vmess_Chunks.thy ===== *)
theory Vmess_Chunks
  imports Vless_Codec
begin

text \<open>
  The body of a VMess connection (\<^verbatim>\<open>local-modules/sing-vmess\<close>: \<^verbatim>\<open>chunk_length_stream.go\<close>, \<^verbatim>\<open>chunk_length_aead.go\<close>, \<^verbatim>\<open>chunk_aead.go\<close>, \<^verbatim>\<open>chunk_stream_checksum.go\<close> and
  \<^verbatim>\<open>CreateReader\<close> and \<^verbatim>\<open>CreateWriter\<close> of \<^verbatim>\<open>protocol.go\<close>): chunks with a masked or sealed length, optional padding, and payloads that are plain, sealed or carry a checksum.

  Ciphers, hashes, key derivation and the SHAKE stream are parameters, those of the header (\<^verbatim>\<open>Vmess_Header\<close>) included; \<open>vb_seal\<close> and \<open>vb_open\<close> are AES-GCM with additional data. A buffer's capacity is its length. Below all this, the legacy security type
  encrypts the whole stream with CFB (\<open>StreamWriter_Write\<close>, \<open>StreamReader_Read\<close>).
\<close>

section \<open>Chunks one after the other\<close>

fun write_chunks :: "('s \<Rightarrow> byte list \<Rightarrow> byte list \<times> 's) \<Rightarrow> 's \<Rightarrow> byte list list \<Rightarrow> byte list \<times> 's" where
  "write_chunks write s [] = ([], s)"
| "write_chunks write s (p # ps) =
     (let (bs, s1) = write s p; (bs', s2) = write_chunks write s1 ps in (bs @ bs', s2))"

fun read_chunks :: "('s \<Rightarrow> nat \<Rightarrow> byte list \<Rightarrow> go_error + (byte list \<times> byte list) \<times> 's) \<Rightarrow> 's \<Rightarrow> nat \<Rightarrow> nat \<Rightarrow> byte list \<Rightarrow>
    go_error + (byte list list \<times> byte list) \<times> 's" where
  "read_chunks read s n 0 bs = Inr (([], bs), s)"
| "read_chunks read s n (Suc k) bs =
     rbind (read s n bs) (\<lambda>((p, rest), s1).
     rbind (read_chunks read s1 n k rest) (\<lambda>((ps, rest'), s2). Inr ((p # ps, rest'), s2)))"

text \<open>Writer and reader go through the same states, and a reader in the state of the writer reads what it wrote.\<close>

locale chunk_codec =
  fixes enc :: "'s \<Rightarrow> byte list \<Rightarrow> byte list \<times> 's"
    and dec :: "'s \<Rightarrow> nat \<Rightarrow> byte list \<Rightarrow> go_error + (byte list \<times> byte list) \<times> 's"
    and fits :: "'s \<Rightarrow> nat \<Rightarrow> byte list \<Rightarrow> bool"
  assumes read_written: "fits s n p \<Longrightarrow> enc s p = (bs, s') \<Longrightarrow> dec s n (bs @ rest) = Inr ((p, rest), s')"
    and fits_later: "enc s p = (bs, s') \<Longrightarrow> fits s' n q = fits s n q"
begin

lemma chunks_round_trip:
  "list_all (fits s n) ps \<Longrightarrow> write_chunks enc s ps = (bs, s') \<Longrightarrow> read_chunks dec s n (length ps) (bs @ rest) = Inr ((ps, rest), s')"
proof (induction ps arbitrary: s bs s')
  case (Cons p ps)
  obtain b1 s1 where w: "enc s p = (b1, s1)" by fastforce
  obtain b2 s2 where ws: "write_chunks enc s1 ps = (b2, s2)" by fastforce
  have "list_all (fits s1 n) ps" using Cons.prems(1) fits_later [OF w] by (simp add: list_all_iff)
  from Cons.IH [OF this ws] show ?case
    using Cons.prems w ws read_written [OF _ w, of n "b2 @ rest"] by auto
qed simp

end

section \<open>Plain lengths\<close>

definition MaxPaddingSize :: "16 word" where "MaxPaddingSize = 64"

text \<open>The codes a SHAKE stream gives; padding and masking read from the same one, padding first.\<close>

record chunk_codes =
  ck_padding :: bool
  ck_masking :: bool
  ck_shake :: "nat \<Rightarrow> 16 word"
  ck_pos :: nat

definition hash_codes :: "chunk_codes \<Rightarrow> (16 word \<times> 16 word) \<times> chunk_codes" where
  "hash_codes c =
     (let pos1 = (if ck_padding c then Suc (ck_pos c) else ck_pos c);
          pos2 = (if ck_masking c then Suc pos1 else pos1)
      in ((if ck_padding c then ck_shake c (ck_pos c) mod MaxPaddingSize else 0, if ck_masking c then ck_shake c pos1 else 0), c\<lparr>ck_pos := pos2\<rparr>))"

definition ErrBadLengthChunk :: go_error where "ErrBadLengthChunk = ENew ''bad length chunk''"
definition ErrInvalidChecksum :: go_error where "ErrInvalidChecksum = ENew ''vmess: invalid chunk checksum''"

definition discard_bytes :: "nat \<Rightarrow> byte list \<Rightarrow> go_error + byte list" where
  "discard_bytes n bs = (if n \<le> length bs then Inr (drop n bs) else Inl io_EOF)"

text \<open>The data and the padding of a chunk, into a buffer of \<open>n\<close> bytes.\<close>

definition read_data :: "string \<Rightarrow> 16 word \<Rightarrow> 16 word \<Rightarrow> nat \<Rightarrow> byte list \<Rightarrow> go_error + byte list \<times> byte list" where
  "read_data kind len paddingLen n bs =
     (let dataLen = uint len - uint paddingLen
      in if dataLen < 0 then Inl (EExtend ErrBadLengthChunk (''length='' @ digits (unat len) @ '', padding='' @ digits (unat paddingLen)))
         else if dataLen = 0 then Inl io_EOF
         else if n < nat dataLen then Inl (EExtend io_ErrShortBuffer (kind @ digits (nat dataLen)))
         else rbind (read_full (nat dataLen) bs) (\<lambda>(xs, r1). rbind (discard_bytes (unat paddingLen) r1) (\<lambda>r2. Inr (xs, r2))))"

definition StreamChunkReader_Read :: "chunk_codes \<Rightarrow> nat \<Rightarrow> byte list \<Rightarrow> go_error + (byte list \<times> byte list) \<times> chunk_codes" where
  "StreamChunkReader_Read c n bs =
     rbind (read_u16 bs) (\<lambda>(w, r1).
     let ((paddingLen, hashCode), c') = hash_codes c
     in rbind (read_data ''stream chunk need '' (w XOR hashCode) paddingLen n r1) (\<lambda>res. Inr (res, c')))"

definition random_bytes :: "(nat \<Rightarrow> byte) \<Rightarrow> 16 word \<Rightarrow> byte list" where
  "random_bytes rnd n = map rnd [0..<unat n]"

text \<open>The parts of a chunk, in the order they are written.\<close>

definition chunk_parts :: "(nat \<Rightarrow> byte) \<Rightarrow> chunk_codes \<Rightarrow> byte list list \<Rightarrow> byte list list \<times> chunk_codes" where
  "chunk_parts rnd c payload =
     (let ((paddingLen, hashCode), c') = hash_codes c
      in (be16 ((of_nat (length (concat payload)) + paddingLen) XOR hashCode) # payload @ (if paddingLen > 0 then [random_bytes rnd paddingLen] else []), c'))"

definition StreamChunk_frame :: "(nat \<Rightarrow> byte) \<Rightarrow> chunk_codes \<Rightarrow> byte list \<Rightarrow> byte list \<times> chunk_codes" where
  "StreamChunk_frame rnd c p = (let (parts, c') = chunk_parts rnd c [p] in (concat parts, c'))"

text \<open>
  The writer on a connection that may fail. The mutex \<^verbatim>\<open>writeAccess\<close> is released only at the end of a write that succeeds; a write that finds it taken waits forever,
  which is \<open>None\<close>.
\<close>

record chunk_writer =
  cw_codes :: chunk_codes
  cw_locked :: bool
  cw_sent :: "byte list"

fun write_parts :: "transport \<Rightarrow> byte list \<Rightarrow> byte list list \<Rightarrow> byte list \<times> go_error option" where
  "write_parts T sent [] = (sent, None)"
| "write_parts T sent (p # ps) =
     (case conn_write T sent p of
        (sent', _, Some e) \<Rightarrow> (sent', Some e)
      | (sent', _, None) \<Rightarrow> write_parts T sent' ps)"

definition locked_write :: "transport \<Rightarrow> (nat \<Rightarrow> byte) \<Rightarrow> chunk_writer \<Rightarrow> byte list list \<Rightarrow> (chunk_writer \<times> go_error option) option" where
  "locked_write T rnd w payload =
     (let (parts, c') = chunk_parts rnd (cw_codes w) payload
      in if cw_locked w then None
         else let (sent, err) = write_parts T (cw_sent w) parts in Some (w\<lparr>cw_codes := c', cw_sent := sent, cw_locked := err \<noteq> None\<rparr>, err))"

definition StreamChunkWriter_Write :: "transport \<Rightarrow> (nat \<Rightarrow> byte) \<Rightarrow> chunk_writer \<Rightarrow> byte list \<Rightarrow> (chunk_writer \<times> go_error option) option" where
  "StreamChunkWriter_Write T rnd w p = locked_write T rnd w [p]"

definition StreamChunkWriter_WriteWithChecksum ::
  "transport \<Rightarrow> (nat \<Rightarrow> byte) \<Rightarrow> chunk_writer \<Rightarrow> 32 word \<Rightarrow> byte list \<Rightarrow> (chunk_writer \<times> go_error option) option" where
  "StreamChunkWriter_WriteWithChecksum T rnd w checksum p = locked_write T rnd w [be32 checksum, p]"

definition StreamChunkWriter_WriteBuffer :: "transport \<Rightarrow> (nat \<Rightarrow> byte) \<Rightarrow> chunk_writer \<Rightarrow> byte list \<Rightarrow> chunk_writer \<times> go_error option" where
  "StreamChunkWriter_WriteBuffer T rnd w p =
     (let (frame, c') = StreamChunk_frame rnd (cw_codes w) p; (sent, _, err) = conn_write T (cw_sent w) frame
      in (w\<lparr>cw_codes := c', cw_sent := sent\<rparr>, err))"

section \<open>Checksums\<close>

definition StreamChecksumReader_Read :: "chunk_codes \<Rightarrow> nat \<Rightarrow> byte list \<Rightarrow> go_error + (byte list \<times> byte list) \<times> chunk_codes" where
  "StreamChecksumReader_Read c n bs =
     rbind (StreamChunkReader_Read c n bs) (\<lambda>((xs, rest), c').
     if length xs < 4 then Inl (EPanic ''slice bounds out of range'')
     else if fnv32a (drop 4 xs) \<noteq> of_be32 xs then Inl ErrInvalidChecksum
     else Inr ((drop 4 xs, rest), c'))"

definition StreamChecksumWriter_Write :: "(nat \<Rightarrow> byte) \<Rightarrow> chunk_codes \<Rightarrow> byte list \<Rightarrow> byte list \<times> chunk_codes" where
  "StreamChecksumWriter_Write rnd c p = (let (parts, c') = chunk_parts rnd c [be32 (fnv32a p), p] in (concat parts, c'))"

section \<open>Sealed lengths and payloads\<close>

definition CipherOverhead :: nat where "CipherOverhead = 16"

record aead =
  ae_nonce_size :: nat
  ae_seal :: "byte list \<Rightarrow> byte list \<Rightarrow> byte list"
  ae_open :: "byte list \<Rightarrow> byte list \<Rightarrow> go_error + byte list"

definition aead_ok :: "aead \<Rightarrow> bool" where
  "aead_ok A \<longleftrightarrow> (\<forall>nonce p. ae_open A nonce (ae_seal A nonce p) = Inr p \<and> length (ae_seal A nonce p) = length p + CipherOverhead)"

definition chunk_nonce :: "aead \<Rightarrow> byte list \<Rightarrow> byte list" where
  "chunk_nonce A nonce = take (ae_nonce_size A) (nonce @ replicate (ae_nonce_size A) 0)"

definition counted_nonce :: "byte list \<Rightarrow> 16 word \<Rightarrow> byte list" where
  "counted_nonce nonce count = be16 count @ drop 2 nonce"

record aead_chunks =
  ac_cipher :: aead
  ac_nonce :: "byte list"
  ac_count :: "16 word"
  ac_codes :: chunk_codes

definition NewAEADChunks :: "aead \<Rightarrow> byte list \<Rightarrow> chunk_codes \<Rightarrow> aead_chunks" where
  "NewAEADChunks A nonce c = \<lparr>ac_cipher = A, ac_nonce = chunk_nonce A nonce, ac_count = 0, ac_codes = c\<rparr>"

definition AEADChunkReader_Read :: "aead_chunks \<Rightarrow> nat \<Rightarrow> byte list \<Rightarrow> go_error + (byte list \<times> byte list) \<times> aead_chunks" where
  "AEADChunkReader_Read s n bs =
     rbind (rfail_if (n < 2 + CipherOverhead) (EExtend io_ErrShortBuffer (''AEAD chunk need '' @ digits (2 + CipherOverhead)))) (\<lambda>_.
     rbind (read_full (2 + CipherOverhead) bs) (\<lambda>(sealed, r1).
     rbind (ae_open (ac_cipher s) (counted_nonce (ac_nonce s) (ac_count s)) sealed) (\<lambda>len.
     let ((paddingLen, _), c') = hash_codes (ac_codes s)
     in rbind (read_data ''AEAD chunk need '' (of_be16 len + of_nat CipherOverhead) paddingLen n r1) (\<lambda>res.
        Inr (res, s\<lparr>ac_count := ac_count s + 1, ac_codes := c'\<rparr>)))))"

definition AEADChunkWriter_Write :: "(nat \<Rightarrow> byte) \<Rightarrow> aead_chunks \<Rightarrow> byte list \<Rightarrow> byte list \<times> aead_chunks" where
  "AEADChunkWriter_Write rnd s p =
     (let ((paddingLen, _), c') = hash_codes (ac_codes s);
          dataLength = of_nat (length p) + paddingLen - of_nat CipherOverhead
      in (ae_seal (ac_cipher s) (counted_nonce (ac_nonce s) (ac_count s)) (be16 dataLength) @ p @ random_bytes rnd paddingLen,
          s\<lparr>ac_count := ac_count s + 1, ac_codes := c'\<rparr>))"

datatype length_codec = PlainLength chunk_codes | SealedLength aead_chunks

definition length_read :: "length_codec \<Rightarrow> nat \<Rightarrow> byte list \<Rightarrow> go_error + (byte list \<times> byte list) \<times> length_codec" where
  "length_read l n bs =
     (case l of
        PlainLength c \<Rightarrow> rbind (StreamChunkReader_Read c n bs) (\<lambda>(res, c'). Inr (res, PlainLength c'))
      | SealedLength s \<Rightarrow> rbind (AEADChunkReader_Read s n bs) (\<lambda>(res, s'). Inr (res, SealedLength s')))"

definition length_write :: "(nat \<Rightarrow> byte) \<Rightarrow> length_codec \<Rightarrow> byte list \<Rightarrow> byte list \<times> length_codec" where
  "length_write rnd l p =
     (case l of
        PlainLength c \<Rightarrow> (let (bs, c') = StreamChunk_frame rnd c p in (bs, PlainLength c'))
      | SealedLength s \<Rightarrow> (let (bs, s') = AEADChunkWriter_Write rnd s p in (bs, SealedLength s')))"

record aead_body =
  ab_cipher :: aead
  ab_nonce :: "byte list"
  ab_count :: "16 word"

definition NewAEADBody :: "aead \<Rightarrow> byte list \<Rightarrow> aead_body" where
  "NewAEADBody A nonce = \<lparr>ab_cipher = A, ab_nonce = chunk_nonce A nonce, ab_count = 0\<rparr>"

definition AEADReader_Read :: "aead_body \<times> length_codec \<Rightarrow> nat \<Rightarrow> byte list \<Rightarrow> go_error + (byte list \<times> byte list) \<times> aead_body \<times> length_codec" where
  "AEADReader_Read = (\<lambda>(a, l) n bs.
     rbind (length_read l n bs) (\<lambda>((xs, rest), l').
     rbind (ae_open (ab_cipher a) (counted_nonce (ab_nonce a) (ab_count a)) xs) (\<lambda>p.
     Inr ((p, rest), (a\<lparr>ab_count := ab_count a + 1\<rparr>, l')))))"

definition AEADWriter_WriteBuffer :: "(nat \<Rightarrow> byte) \<Rightarrow> aead_body \<times> length_codec \<Rightarrow> byte list \<Rightarrow> byte list \<times> aead_body \<times> length_codec" where
  "AEADWriter_WriteBuffer rnd = (\<lambda>(a, l) p.
     let (bs, l') = length_write rnd l (ae_seal (ab_cipher a) (counted_nonce (ab_nonce a) (ab_count a)) p)
     in (bs, (a\<lparr>ab_count := ab_count a + 1\<rparr>, l')))"

section \<open>The layers of a body\<close>

record vmess_libs =
  vb_shake :: "byte list \<Rightarrow> nat \<Rightarrow> 16 word"
  vb_gcm :: "byte list \<Rightarrow> aead"
  vb_chacha :: "byte list \<Rightarrow> aead"
  vb_kdf :: "byte list \<Rightarrow> string \<Rightarrow> byte list list \<Rightarrow> byte list"
  vb_md5 :: "byte list \<Rightarrow> byte list"
  vb_sha256 :: "byte list \<Rightarrow> byte list"
  vb_hmac_md5 :: "byte list \<Rightarrow> byte list \<Rightarrow> byte list"
  vb_crc32 :: "byte list \<Rightarrow> 32 word"
  vb_aes_encrypt :: "byte list \<Rightarrow> byte list \<Rightarrow> byte list"
  vb_aes_decrypt :: "byte list \<Rightarrow> byte list \<Rightarrow> byte list"
  vb_cfb_encrypt :: "byte list \<Rightarrow> byte list \<Rightarrow> byte list \<Rightarrow> byte list"
  vb_cfb_decrypt :: "byte list \<Rightarrow> byte list \<Rightarrow> byte list \<Rightarrow> byte list"
  vb_seal :: "byte list \<Rightarrow> byte list \<Rightarrow> byte list \<Rightarrow> byte list \<Rightarrow> byte list"
  vb_open :: "byte list \<Rightarrow> byte list \<Rightarrow> byte list \<Rightarrow> byte list \<Rightarrow> go_error + byte list"
  vb_buffer_size :: nat

definition ciphers_ok :: "vmess_libs \<Rightarrow> bool" where
  "ciphers_ok V \<longleftrightarrow> (\<forall>k. aead_ok (vb_gcm V k) \<and> aead_ok (vb_chacha V k)) \<and>
     (\<forall>k iv xs ys. \<exists>zs. vb_cfb_decrypt V k iv (vb_cfb_encrypt V k iv xs @ ys) = xs @ zs \<and> length zs = length ys)"

definition GenerateChacha20Poly1305Key :: "vmess_libs \<Rightarrow> byte list \<Rightarrow> byte list" where
  "GenerateChacha20Poly1305Key V b = (let first = take 16 (vb_md5 V b) in first @ take 16 (vb_md5 V first))"

definition SecurityTypeLegacy :: byte where "SecurityTypeLegacy = 1"
definition SecurityTypeAes128Gcm :: byte where "SecurityTypeAes128Gcm = 3"
definition SecurityTypeChacha20Poly1305 :: byte where "SecurityTypeChacha20Poly1305 = 4"
definition SecurityTypeNone :: byte where "SecurityTypeNone = 5"
definition RequestOptionChunkStream :: byte where "RequestOptionChunkStream = 1"
definition RequestOptionChunkMasking :: byte where "RequestOptionChunkMasking = 4"
definition RequestOptionGlobalPadding :: byte where "RequestOptionGlobalPadding = 8"
definition RequestOptionAuthenticatedLength :: byte where "RequestOptionAuthenticatedLength = 16"

text \<open>\<open>RawBody\<close> passes bytes through.\<close>

datatype body_codec = RawBody | LengthBody length_codec | ChecksumBody chunk_codes | SealedBody aead_body length_codec

definition plain_codes :: "vmess_libs \<Rightarrow> byte list \<Rightarrow> byte \<Rightarrow> chunk_codes" where
  "plain_codes V nonce option =
     \<lparr>ck_padding = option AND RequestOptionGlobalPadding \<noteq> 0, ck_masking = option AND RequestOptionChunkMasking \<noteq> 0, ck_shake = vb_shake V nonce, ck_pos = 0\<rparr>"

definition length_layer :: "vmess_libs \<Rightarrow> aead \<Rightarrow> byte list \<Rightarrow> byte list \<Rightarrow> byte \<Rightarrow> length_codec" where
  "length_layer V lengthCipher requestNonce nonce option =
     (if option AND RequestOptionAuthenticatedLength \<noteq> 0
      then SealedLength (NewAEADChunks lengthCipher requestNonce (plain_codes V nonce option\<lparr>ck_masking := False\<rparr>))
      else PlainLength (plain_codes V nonce option))"

definition auth_len_key :: "vmess_libs \<Rightarrow> byte list \<Rightarrow> byte list" where
  "auth_len_key V key = take 16 (vb_kdf V key ''auth_len'' [])"

definition CreateReader ::
  "vmess_libs \<Rightarrow> byte list \<Rightarrow> byte list \<Rightarrow> byte list \<Rightarrow> byte list \<Rightarrow> byte \<Rightarrow> byte \<Rightarrow> go_error + body_codec" where
  "CreateReader V requestKey requestNonce key nonce security option =
     (if security = SecurityTypeNone then
        Inr (if option AND RequestOptionChunkStream \<noteq> 0
             then LengthBody (length_layer V (vb_gcm V (auth_len_key V requestKey)) requestNonce nonce option)
             else RawBody)
      else if security = SecurityTypeLegacy then
        Inr (if option AND RequestOptionChunkStream \<noteq> 0 then ChecksumBody (plain_codes V nonce option) else RawBody)
      else if security = SecurityTypeAes128Gcm then
        Inr (SealedBody (NewAEADBody (vb_gcm V key) nonce)
              (length_layer V (vb_gcm V (auth_len_key V requestKey)) requestNonce nonce option))
      else if security = SecurityTypeChacha20Poly1305 then
        Inr (SealedBody (NewAEADBody (vb_chacha V (GenerateChacha20Poly1305Key V key)) nonce)
              (length_layer V (vb_chacha V (GenerateChacha20Poly1305Key V (auth_len_key V requestKey))) requestNonce nonce option))
      else Inl (EPanic ''unexpected security type''))"

text \<open>The writer, with the flag that says whether writes are cut into pieces of at most \<open>WriteChunkSize\<close> bytes.\<close>

definition WriteChunkSize :: nat where "WriteChunkSize = 15000"
definition ReadChunkSize :: nat where "ReadChunkSize = 16384"

definition CreateWriter ::
  "vmess_libs \<Rightarrow> byte list \<Rightarrow> byte list \<Rightarrow> byte list \<Rightarrow> byte list \<Rightarrow> byte \<Rightarrow> byte \<Rightarrow> go_error + body_codec \<times> bool" where
  "CreateWriter V requestKey requestNonce key nonce security option =
     (if security = SecurityTypeNone then
        Inr (if option AND RequestOptionChunkStream \<noteq> 0
             then (LengthBody (length_layer V (vb_gcm V (auth_len_key V requestKey)) requestNonce nonce option), False)
             else (RawBody, False))
      else if security = SecurityTypeLegacy then
        Inr (if option AND RequestOptionChunkStream \<noteq> 0 then (ChecksumBody (plain_codes V nonce option), True) else (RawBody, False))
      else if security = SecurityTypeAes128Gcm then
        Inr (SealedBody (NewAEADBody (vb_gcm V key) nonce)
              (length_layer V (vb_gcm V (auth_len_key V requestKey)) requestNonce nonce option), True)
      else if security = SecurityTypeChacha20Poly1305 then
        Inr (SealedBody (NewAEADBody (vb_chacha V (GenerateChacha20Poly1305Key V key)) nonce)
              (length_layer V (vb_chacha V (GenerateChacha20Poly1305Key V (auth_len_key V requestKey))) requestNonce nonce option), True)
      else Inl (EPanic ''unexpected security type''))"

text \<open>The bytes of the connection that the layers above read and write: enciphered as one stream where the security type is the legacy one.\<close>

definition StreamReader_Read :: "vmess_libs \<Rightarrow> byte list \<Rightarrow> byte list \<Rightarrow> byte \<Rightarrow> byte list \<Rightarrow> byte list" where
  "StreamReader_Read V key nonce security bs = (if security = SecurityTypeLegacy then vb_cfb_decrypt V key nonce bs else bs)"

definition StreamWriter_Write :: "vmess_libs \<Rightarrow> byte list \<Rightarrow> byte list \<Rightarrow> byte \<Rightarrow> byte list \<Rightarrow> byte list" where
  "StreamWriter_Write V key nonce security bs = (if security = SecurityTypeLegacy then vb_cfb_encrypt V key nonce bs else bs)"

definition body_read :: "body_codec \<Rightarrow> nat \<Rightarrow> byte list \<Rightarrow> go_error + (byte list \<times> byte list) \<times> body_codec" where
  "body_read b n bs =
     (case b of
        RawBody \<Rightarrow> if bs = [] then Inl io_EOF else Inr ((take n bs, drop n bs), RawBody)
      | LengthBody l \<Rightarrow> rbind (length_read l n bs) (\<lambda>(res, l'). Inr (res, LengthBody l'))
      | ChecksumBody c \<Rightarrow> rbind (StreamChecksumReader_Read c n bs) (\<lambda>(res, c'). Inr (res, ChecksumBody c'))
      | SealedBody a l \<Rightarrow> rbind (AEADReader_Read (a, l) n bs) (\<lambda>(res, (a', l')). Inr (res, SealedBody a' l')))"

definition body_write :: "(nat \<Rightarrow> byte) \<Rightarrow> body_codec \<Rightarrow> byte list \<Rightarrow> byte list \<times> body_codec" where
  "body_write rnd b p =
     (case b of
        RawBody \<Rightarrow> (p, RawBody)
      | LengthBody l \<Rightarrow> (let (bs, l') = length_write rnd l p in (bs, LengthBody l'))
      | ChecksumBody c \<Rightarrow> (let (bs, c') = StreamChecksumWriter_Write rnd c p in (bs, ChecksumBody c'))
      | SealedBody a l \<Rightarrow> (let (bs, (a', l')) = AEADWriter_WriteBuffer rnd (a, l) p in (bs, SealedBody a' l')))"

function split_chunk :: "byte list \<Rightarrow> byte list list" where
  "split_chunk p = (if length p \<le> WriteChunkSize then [p] else take WriteChunkSize p # split_chunk (drop WriteChunkSize p))"
  by pat_completeness auto
termination
  by (relation "measure length") (auto simp: WriteChunkSize_def)

declare split_chunk.simps [simp del]

definition vmess_write :: "(nat \<Rightarrow> byte) \<Rightarrow> bool \<Rightarrow> body_codec \<Rightarrow> byte list list \<Rightarrow> byte list \<times> body_codec" where
  "vmess_write rnd limited b ps = write_chunks (body_write rnd) b (if limited then concat (map split_chunk ps) else ps)"

section \<open>Round trips\<close>

lemma length_random_bytes [simp]: "length (random_bytes rnd k) = unat k"
  by (simp add: random_bytes_def)

lemma unat_sum16: "k + unat (w :: 16 word) < 65536 \<Longrightarrow> unat (of_nat k + w) = k + unat w"
  by (simp add: unat_word_ariths(1) unat_of_nat mod_add_left_eq)

lemma hash_codes_padding: "hash_codes c = ((pad, hashCode), c') \<Longrightarrow> unat pad < 64"
  by (auto simp: hash_codes_def Let_def MaxPaddingSize_def unat_mod split: if_splits)

lemma read_data_written:
  assumes "p \<noteq> []" "length p + unat pad < 65536" "length p \<le> n"
  shows "read_data kind (of_nat (length p) + pad) pad n (p @ random_bytes rnd pad @ rest) = Inr (p, rest)"
proof -
  have "int (unat (of_nat (length p) + pad)) = int (length p) + int (unat pad)" by (simp only: unat_sum16 [OF assms(2)] of_nat_add)
  then have "uint (of_nat (length p) + pad) = int (length p) + uint pad" by (simp only: of_nat_unat)
  then show ?thesis using assms by (simp add: read_data_def Let_def discard_bytes_def)
qed

lemma stream_chunk_written:
  assumes parts: "chunk_parts rnd c payload = (parts, c')" and p: "concat payload \<noteq> []" "length (concat payload) + 64 \<le> 65536" "length (concat payload) \<le> n"
  shows "StreamChunkReader_Read c n (concat parts @ rest) = Inr ((concat payload, rest), c')"
proof -
  obtain pad hashCode c1 where h: "hash_codes c = ((pad, hashCode), c1)" by (metis prod.collapse)
  have c': "c' = c1" and cat: "concat parts = be16 ((of_nat (length (concat payload)) + pad) XOR hashCode) @ concat payload @ random_bytes rnd pad"
    using parts by (auto simp: chunk_parts_def h random_bytes_def word_gt_0 split: if_splits)
  have "length (concat payload) + unat pad < 65536" using hash_codes_padding [OF h] p(2) by linarith
  from read_data_written [OF p(1) this p(3), of "''stream chunk need ''" rnd rest] show ?thesis
    by (simp add: StreamChunkReader_Read_def cat h c' xor.assoc del: concat.simps)
qed

lemma stream_frame_written:
  assumes "StreamChunk_frame rnd c p = (bs, c')" "p \<noteq> []" "length p + 64 \<le> 65536" "length p \<le> n"
  shows "StreamChunkReader_Read c n (bs @ rest) = Inr ((p, rest), c')"
  using stream_chunk_written [of rnd c "[p]"] assms by (auto simp: StreamChunk_frame_def split: prod.splits)

lemma checksum_chunk_written:
  assumes "StreamChecksumWriter_Write rnd c p = (bs, c')" "length p + 68 \<le> 65536" "length p + 4 \<le> n"
  shows "StreamChecksumReader_Read c n (bs @ rest) = Inr ((p, rest), c')"
proof -
  obtain parts where parts: "chunk_parts rnd c [be32 (fnv32a p), p] = (parts, c')" and bs: "bs = concat parts"
    using assms(1) by (auto simp: StreamChecksumWriter_Write_def split: prod.splits)
  have "StreamChunkReader_Read c n (concat parts @ rest) = Inr ((be32 (fnv32a p) @ p, rest), c')"
    using stream_chunk_written [OF parts, of n rest] assms(2,3) by (simp add: be32_def)
  then show ?thesis by (simp add: StreamChecksumReader_Read_def bs)
qed

lemma aead_chunk_written:
  assumes w: "AEADChunkWriter_Write rnd s p = (bs, s')" and ok: "aead_ok (ac_cipher s)"
    and p: "p \<noteq> []" "length p + 64 \<le> 65536" "length p \<le> n" "2 + CipherOverhead \<le> n"
  shows "AEADChunkReader_Read s n (bs @ rest) = Inr ((p, rest), s')"
proof -
  obtain pad hashCode c1 where h: "hash_codes (ac_codes s) = ((pad, hashCode), c1)" by (metis prod.collapse)
  let ?len = "of_nat (length p) + pad - of_nat CipherOverhead :: 16 word"
  let ?sealed = "ae_seal (ac_cipher s) (counted_nonce (ac_nonce s) (ac_count s)) (be16 ?len)"
  have bs: "bs = ?sealed @ p @ random_bytes rnd pad" and s': "s' = s\<lparr>ac_count := ac_count s + 1, ac_codes := c1\<rparr>"
    using w by (auto simp: AEADChunkWriter_Write_def h)
  have "length ?sealed = 2 + CipherOverhead" using ok by (simp add: aead_ok_def)
  then have full: "read_full (2 + CipherOverhead) (bs @ rest) = Inr (?sealed, p @ random_bytes rnd pad @ rest)"
    by (simp add: bs)
  have opened: "ae_open (ac_cipher s) (counted_nonce (ac_nonce s) (ac_count s)) ?sealed = Inr (be16 ?len)" using ok by (simp add: aead_ok_def)
  have "length p + unat pad < 65536" using hash_codes_padding [OF h] p(2) by linarith
  from read_data_written [OF p(1) this p(3), of "''AEAD chunk need ''" rnd rest] show ?thesis
    using p(4) by (simp add: AEADChunkReader_Read_def full [simplified] opened h s' rfail_if_def)
qed

lemma aead_frame_later:
  "AEADChunkWriter_Write rnd s p = (bs, s') \<Longrightarrow> ac_cipher s' = ac_cipher s"
  by (auto simp: AEADChunkWriter_Write_def split: prod.splits)

text \<open>Which payload sizes fit into a chunk and into the buffer of the reader.\<close>

fun length_room :: "length_codec \<Rightarrow> nat \<Rightarrow> nat \<Rightarrow> bool" where
  "length_room (PlainLength _) n k = (0 < k \<and> k + 64 \<le> 65536 \<and> k \<le> n)"
| "length_room (SealedLength s) n k = (aead_ok (ac_cipher s) \<and> 0 < k \<and> k + 64 \<le> 65536 \<and> k \<le> n \<and> 2 + CipherOverhead \<le> n)"

fun body_room :: "body_codec \<Rightarrow> nat \<Rightarrow> nat \<Rightarrow> bool" where
  "body_room RawBody n k = False"
| "body_room (LengthBody l) n k = length_room l n k"
| "body_room (ChecksumBody c) n k = (k + 68 \<le> 65536 \<and> k + 4 \<le> n)"
| "body_room (SealedBody a l) n k = (aead_ok (ab_cipher a) \<and> length_room l n (k + CipherOverhead))"

interpretation lengths: chunk_codec "length_write rnd" length_read "\<lambda>l n p. length_room l n (length p)" for rnd
proof
  fix s n p bs s' rest q
  show "length_read s n (bs @ rest) = Inr ((p, rest), s')" if "length_room s n (length p)" "length_write rnd s p = (bs, s')"
    using that stream_frame_written aead_chunk_written
    by (cases s) (fastforce simp: length_read_def length_write_def split: prod.splits)+
  show "length_room s' n (length q) = length_room s n (length q)" if "length_write rnd s p = (bs, s')"
    using that aead_frame_later by (cases s) (fastforce simp: length_write_def split: prod.splits)+
qed

lemma length_room_later: "length_write rnd l p = (bs, l') \<Longrightarrow> length_room l' n k = length_room l n k"
  using aead_frame_later by (cases l) (fastforce simp: length_write_def split: prod.splits)+

lemma sealed_body_written:
  assumes w: "AEADWriter_WriteBuffer rnd (a, l) p = (bs, (a', l'))" and ok: "aead_ok (ab_cipher a)" and room: "length_room l n (length p + CipherOverhead)"
  shows "AEADReader_Read (a, l) n (bs @ rest) = Inr ((p, rest), (a', l'))"
proof -
  let ?sealed = "ae_seal (ab_cipher a) (counted_nonce (ab_nonce a) (ab_count a)) p"
  have "length ?sealed = length p + CipherOverhead" and opened: "ae_open (ab_cipher a) (counted_nonce (ab_nonce a) (ab_count a)) ?sealed = Inr p"
    using ok by (simp_all add: aead_ok_def)
  then have "length_room l n (length ?sealed)" using room by simp
  moreover have l: "length_write rnd l ?sealed = (bs, l')" and a': "a' = a\<lparr>ab_count := ab_count a + 1\<rparr>"
    using w by (auto simp: AEADWriter_WriteBuffer_def split: prod.splits)
  ultimately show ?thesis using lengths.read_written opened by (simp add: AEADReader_Read_def)
qed

interpretation bodies: chunk_codec "body_write rnd" body_read "\<lambda>b n p. body_room b n (length p)" for rnd
proof
  fix b n p bs b' rest q
  show "body_read b n (bs @ rest) = Inr ((p, rest), b')" if "body_room b n (length p)" "body_write rnd b p = (bs, b')"
    using that lengths.read_written checksum_chunk_written sealed_body_written
    by (cases b) (fastforce simp: body_read_def body_write_def split: prod.splits)+
  show "body_room b' n (length q) = body_room b n (length q)" if "body_write rnd b p = (bs, b')"
    using that length_room_later by (cases b) (fastforce simp: body_write_def AEADWriter_WriteBuffer_def split: prod.splits)+
qed

lemma concat_split_chunk [simp]: "concat (split_chunk p) = p"
  by (induction p rule: split_chunk.induct) (subst split_chunk.simps, simp)

lemma concat_split_chunks [simp]: "concat (concat (map split_chunk ps)) = concat ps"
  by (induction ps) simp_all

lemma split_chunk_pieces: "p \<noteq> [] \<Longrightarrow> list_all (\<lambda>q. q \<noteq> [] \<and> length q \<le> WriteChunkSize) (split_chunk p)"
proof (induction p rule: split_chunk.induct)
  case (1 p)
  then show ?case by (subst split_chunk.simps) (auto simp: WriteChunkSize_def)
qed

lemma created_room:
  assumes "ciphers_ok V" "CreateReader V rk rn k nonce security option = Inr b" "b \<noteq> RawBody" "0 < m" "m \<le> WriteChunkSize"
  shows "body_room b ReadChunkSize m"
  using assms
  by (auto simp: CreateReader_def length_layer_def NewAEADBody_def NewAEADChunks_def ciphers_ok_def WriteChunkSize_def ReadChunkSize_def CipherOverhead_def split: if_splits)

lemma created_same: "CreateWriter V rk rn k nonce security option = Inr (b, limited) \<Longrightarrow> CreateReader V rk rn k nonce security option = Inr b"
  by (auto simp: CreateReader_def CreateWriter_def split: if_splits)

lemma stream_round_trip:
  assumes "ciphers_ok V"
  obtains zs where "StreamReader_Read V k nonce security (StreamWriter_Write V k nonce security xs @ ys) = xs @ zs" "length zs = length ys"
proof (cases "security = SecurityTypeLegacy")
  case True
  from assms obtain zs where "vb_cfb_decrypt V k nonce (vb_cfb_encrypt V k nonce xs @ ys) = xs @ zs" "length zs = length ys"
    unfolding ciphers_ok_def by blast
  then show thesis using that True by (simp add: StreamReader_Read_def StreamWriter_Write_def)
next
  case False
  then show thesis using that [of ys] by (simp add: StreamReader_Read_def StreamWriter_Write_def)
qed

lemma write_chunks_append:
  "write_chunks enc s (ps @ qs) = (let (bs, s1) = write_chunks enc s ps; (bs', s2) = write_chunks enc s1 qs in (bs @ bs', s2))"
  by (induction ps arbitrary: s) (simp_all add: case_prod_beta Let_def)

lemma vmess_write_Cons:
  "vmess_write rnd limited b (p # ps) = (let (bs, b1) = vmess_write rnd limited b [p]; (bs', b2) = vmess_write rnd limited b1 ps in (bs @ bs', b2))"
  by (simp add: vmess_write_def write_chunks_append)

lemma written_chunks:
  assumes ok: "ciphers_ok V" and w: "CreateWriter V rk rn k nonce security option = Inr (b, limited)" and "b \<noteq> RawBody"
    and ps: "list_all (\<lambda>p. p \<noteq> [] \<and> (limited \<or> length p \<le> WriteChunkSize)) ps" and run: "vmess_write rnd limited b ps = (bs, b')"
  obtains qs where "concat qs = concat ps" "read_chunks body_read b ReadChunkSize (length qs) (bs @ zs) = Inr ((qs, zs), b')"
proof -
  let ?qs = "if limited then concat (map split_chunk ps) else ps"
  have "list_all (\<lambda>q. q \<noteq> [] \<and> length q \<le> WriteChunkSize) ?qs"
    using ps split_chunk_pieces by (fastforce simp: list_all_iff)
  then have "list_all (\<lambda>p. body_room b ReadChunkSize (length p)) ?qs"
    using created_room [OF ok created_same [OF w] assms(3)] by (auto simp: list_all_iff)
  from bodies.chunks_round_trip [OF this run [unfolded vmess_write_def], of zs] show thesis by (intro that [of ?qs]) simp_all
qed

lemma written_raw:
  assumes "CreateWriter V rk rn k nonce security option = Inr (RawBody, limited)" and run: "vmess_write rnd limited RawBody ps = (bs, b')"
  shows "bs = concat ps"
proof -
  have "write_chunks (body_write rnd) RawBody ps = (concat ps, RawBody)" for ps
    by (induction ps) (simp_all add: body_write_def)
  moreover have "\<not> limited" using assms(1) by (auto simp: CreateWriter_def split: if_splits)
  ultimately show ?thesis using run by (simp add: vmess_write_def)
qed

text \<open>C26: What is written to a body is read from it. For every security type, every combination of options that cuts the stream into chunks, and whatever keys and nonces are, the
  reader made for them gives back the bytes given to the writer, in chunks it has room for, and leaves what follows on the connection: writes of any size where the writer cuts
  them, writes of at most \<open>WriteChunkSize\<close> bytes where it does not.\<close>

theorem vmess_body_round_trip:
  assumes ok: "ciphers_ok V" and w: "CreateWriter V rk rn k nonce security option = Inr (b, limited)" and "b \<noteq> RawBody"
    and ps: "list_all (\<lambda>p. p \<noteq> [] \<and> (limited \<or> length p \<le> WriteChunkSize)) ps"
  shows "\<exists>bs b' qs rest'. vmess_write rnd limited b ps = (bs, b') \<and> CreateReader V rk rn k nonce security option = Inr b \<and> concat qs = concat ps \<and>
    read_chunks body_read b ReadChunkSize (length qs) (StreamReader_Read V k nonce security (StreamWriter_Write V k nonce security bs @ rest)) = Inr ((qs, rest'), b') \<and>
    length rest' = length rest"
proof -
  obtain bs b' where run: "vmess_write rnd limited b ps = (bs, b')" by fastforce
  obtain zs where zs: "StreamReader_Read V k nonce security (StreamWriter_Write V k nonce security bs @ rest) = bs @ zs" "length zs = length rest"
    by (rule stream_round_trip [OF ok])
  obtain qs where "concat qs = concat ps" "read_chunks body_read b ReadChunkSize (length qs) (bs @ zs) = Inr ((qs, zs), b')"
    by (rule written_chunks [OF ok w assms(3) ps run])
  then show ?thesis using run created_same [OF w] zs by metis
qed

lemma failed_write_locked:
  "StreamChunkWriter_Write T rnd w p = Some (w', Some e) \<Longrightarrow> cw_locked w'"
  "StreamChunkWriter_WriteWithChecksum T rnd w c p = Some (w', Some e) \<Longrightarrow> cw_locked w'"
  by (auto simp: StreamChunkWriter_Write_def StreamChunkWriter_WriteWithChecksum_def locked_write_def Let_def case_prod_beta split: if_splits)

lemma buffer_write_keeps_lock: "cw_locked (fst (StreamChunkWriter_WriteBuffer T rnd w p)) = cw_locked w"
  by (simp add: StreamChunkWriter_WriteBuffer_def Let_def case_prod_beta)

lemma buffer_writes_keep_lock: "cw_locked (foldl (\<lambda>w q. fst (StreamChunkWriter_WriteBuffer T rnd w q)) w qs) = cw_locked w"
  by (induction qs arbitrary: w) (simp_all add: buffer_write_keeps_lock)

text \<open>C29: A failed write blocks the writer for good. \<^verbatim>\<open>Write\<close> and \<^verbatim>\<open>WriteWithChecksum\<close> return from a failed write with the mutex taken, so every later call of either, whatever the connection does by then, waits forever;
  \<^verbatim>\<open>WriteBuffer\<close> does not take the mutex and goes on, but no number of such writes releases it.\<close>

theorem failed_write_blocks:
  assumes "StreamChunkWriter_Write T rnd w p = Some (w', Some e) \<or> StreamChunkWriter_WriteWithChecksum T rnd w c p = Some (w', Some e)"
    and later: "w'' = foldl (\<lambda>w q. fst (StreamChunkWriter_WriteBuffer T' rnd' w q)) w' qs"
  shows "StreamChunkWriter_Write T'' rnd'' w'' q = None \<and> StreamChunkWriter_WriteWithChecksum T'' rnd'' w'' c' q = None"
proof -
  have "cw_locked w''" using assms failed_write_locked by (auto simp: buffer_writes_keep_lock)
  then show ?thesis by (simp add: StreamChunkWriter_Write_def StreamChunkWriter_WriteWithChecksum_def locked_write_def Let_def case_prod_beta)
qed

text \<open>Chunks that are too short or too long break the reader. A chunk of one to three bytes where a checksum is expected makes it panic. A write of a multiple of
  64 KiB that is not cut into pieces announces no data, which the reader takes for the end of the stream.\<close>

theorem bad_chunk_sizes:
  assumes frame: "StreamChunk_frame rnd c p = (bs, c')" and n: "length p \<le> n"
  shows "(length p \<in> {1, 2, 3} \<longrightarrow> StreamChecksumReader_Read c n (bs @ rest) = Inl (EPanic ''slice bounds out of range'')) \<and>
    (65536 dvd length p \<longrightarrow> StreamChunkReader_Read c n (bs @ rest) = Inl io_EOF)"
proof (intro conjI impI)
  assume "length p \<in> {1, 2, 3}"
  then have "p \<noteq> []" "length p < 4" by auto
  moreover from this have "StreamChunkReader_Read c n (bs @ rest) = Inr ((p, rest), c')" by (intro stream_frame_written [OF frame _ _ n]) simp_all
  ultimately show "StreamChecksumReader_Read c n (bs @ rest) = Inl (EPanic ''slice bounds out of range'')"
    by (simp add: StreamChecksumReader_Read_def)
next
  assume "65536 dvd length p"
  then have none: "(of_nat (length p) :: 16 word) = 0" by (simp add: word_of_nat_eq_0_iff)
  obtain pad hashCode c1 where h: "hash_codes c = ((pad, hashCode), c1)" by (metis prod.collapse)
  have "\<exists>tail. bs = be16 (pad XOR hashCode) @ tail"
    using frame by (auto simp: StreamChunk_frame_def chunk_parts_def h none)
  then show "StreamChunkReader_Read c n (bs @ rest) = Inl io_EOF"
    by (auto simp: StreamChunkReader_Read_def h xor.assoc read_data_def)
qed

section \<open>Instances\<close>

text \<open>A cipher that appends sixteen zero bytes.\<close>

definition demo_aead :: aead where
  "demo_aead = \<lparr>ae_nonce_size = 12, ae_seal = (\<lambda>_ p. p @ replicate CipherOverhead 0),
     ae_open = (\<lambda>_ c. if length c < CipherOverhead then Inl (EExternal ''open'') else Inr (take (length c - CipherOverhead) c))\<rparr>"

definition demo_vmess :: vmess_libs where
  "demo_vmess = \<lparr>vb_shake = (\<lambda>nonce i. of_nat (i * 37 + length nonce)), vb_gcm = (\<lambda>_. demo_aead), vb_chacha = (\<lambda>_. demo_aead),
     vb_kdf = (\<lambda>key salt path. key), vb_md5 = (\<lambda>bs. take 16 (bs @ replicate 16 0)),
     vb_sha256 = (\<lambda>bs. take 32 (bs @ replicate 32 0)), vb_hmac_md5 = (\<lambda>key msg. take 16 (msg @ key @ replicate 16 0)), vb_crc32 = (\<lambda>_. 7),
     vb_aes_encrypt = (\<lambda>_ block. block), vb_aes_decrypt = (\<lambda>_ block. block), vb_cfb_encrypt = (\<lambda>_ _ bs. bs), vb_cfb_decrypt = (\<lambda>_ _ bs. bs),
     vb_seal = (\<lambda>_ _ _ p. p @ replicate CipherOverhead 0),
     vb_open = (\<lambda>_ _ _ c. if length c < CipherOverhead then Inl (EExternal ''open'') else Inr (take (length c - CipherOverhead) c)), vb_buffer_size = 32768\<rparr>"

lemma demo_ciphers: "ciphers_ok demo_vmess"
  by (simp add: ciphers_ok_def demo_vmess_def demo_aead_def aead_ok_def)

theorem vmess_body_round_trip_witness:
  "\<exists>b bs b' qs. CreateWriter demo_vmess [1] [2] [3] [4] SecurityTypeAes128Gcm 29 = Inr (b, True) \<and> vmess_write (\<lambda>_. 0) True b [[1, 2], [3]] = (bs, b') \<and>
     concat qs = [1, 2, 3] \<and> read_chunks body_read b ReadChunkSize (length qs) bs = Inr ((qs, []), b')"
proof -
  obtain b where b: "CreateWriter demo_vmess [1] [2] [3] [4] SecurityTypeAes128Gcm 29 = Inr (b, True)" "b \<noteq> RawBody"
    by (simp add: CreateWriter_def SecurityTypeAes128Gcm_def SecurityTypeNone_def SecurityTypeLegacy_def)
  have ps: "list_all (\<lambda>p. p \<noteq> [] \<and> (True \<or> length p \<le> WriteChunkSize)) [[1, 2], [3 :: byte]]" by simp
  have no_stream: "StreamReader_Read demo_vmess [3] [4] SecurityTypeAes128Gcm (StreamWriter_Write demo_vmess [3] [4] SecurityTypeAes128Gcm bs @ []) = bs" for bs
    by (simp add: StreamReader_Read_def StreamWriter_Write_def SecurityTypeAes128Gcm_def SecurityTypeLegacy_def)
  show ?thesis using vmess_body_round_trip [OF demo_ciphers b ps, of "\<lambda>_. 0" "[]", unfolded no_stream] b(1) by auto
qed

definition demo_codes :: chunk_codes where
  "demo_codes = \<lparr>ck_padding = True, ck_masking = True, ck_shake = (\<lambda>i. of_nat (37 * i)), ck_pos = 0\<rparr>"

definition demo_writer :: chunk_writer where
  "demo_writer = \<lparr>cw_codes = demo_codes, cw_locked = False, cw_sent = []\<rparr>"

theorem failed_write_blocks_witness:
  "\<exists>w e. StreamChunkWriter_Write (\<lambda>_ _. (0, Some io_EOF)) (\<lambda>_. 0) demo_writer [1] = Some (w, Some e) \<and>
     StreamChunkWriter_Write demo_transport (\<lambda>_. 0) (fst (StreamChunkWriter_WriteBuffer demo_transport (\<lambda>_. 0) w [7])) [2] = None"
proof -
  obtain w e where "StreamChunkWriter_Write (\<lambda>_ _. (0, Some io_EOF)) (\<lambda>_. 0) demo_writer [1] = Some (w, Some e)"
    by (auto simp: StreamChunkWriter_Write_def locked_write_def demo_writer_def chunk_parts_def Let_def case_prod_beta conn_write_def)
  with failed_write_blocks [OF disjI1 [OF this], of _ demo_transport "\<lambda>_. 0" "[[7]]"] show ?thesis by auto
qed

theorem bad_chunk_sizes_witness:
  "\<exists>bs c'. StreamChunk_frame (\<lambda>_. 0) demo_codes [7] = (bs, c') \<and> StreamChecksumReader_Read demo_codes 16 bs = Inl (EPanic ''slice bounds out of range'')"
proof -
  obtain bs c' where "StreamChunk_frame (\<lambda>_. 0) demo_codes [7] = (bs, c')" by fastforce
  with bad_chunk_sizes [OF this, of 16 "[]"] show ?thesis by auto
qed

end
