(* ===== verification/Vmess_Header.thy ===== *)
theory Vmess_Header
  imports Vmess_Chunks
begin

text \<open>
  Requests and responses of VMess connections (\<^verbatim>\<open>client.go\<close>, \<^verbatim>\<open>service.go\<close> and \<^verbatim>\<open>protocol.go\<close> of \<^verbatim>\<open>local-modules/sing-vmess\<close>): the header a client writes in front of its
  first data, sealed or, for users of the legacy protocol, enciphered; how the service authenticates and reads it; the response; and the table of legacy keys.

  What a client sends is kept in two parts, the header and the bytes of the body below the stream cipher. The service is given what its first read of the connection
  returned and what follows. Bytes the code leaves uninitialised or draws at random are arguments (\<open>handshake_random\<close>).
\<close>

section \<open>Keys\<close>

definition be64 :: "64 word \<Rightarrow> byte list" where
  "be64 w = be32 (ucast (drop_bit 32 w)) @ be32 (ucast w)"

definition of_be64 :: "byte list \<Rightarrow> 64 word" where
  "of_be64 bs = push_bit 32 (ucast (of_be32 bs)) OR ucast (of_be32 (drop 4 bs))"

lemma length_be64 [simp]: "length (be64 w) = 8"
  by (simp add: be64_def)

lemma of_be64_be64 [simp]: "of_be64 (be64 w @ rest) = w"
proof -
  have "of_be64 (be64 w @ rest) = push_bit 32 (ucast (ucast (drop_bit 32 w) :: 32 word)) OR ucast (ucast w :: 32 word)"
    by (simp add: of_be64_def be64_def)
  also have "\<dots> = w" by (rule bit_word_eqI) (auto simp: bit_simps)
  finally show ?thesis .
qed

definition Key :: "vmess_libs \<Rightarrow> string \<Rightarrow> byte list" where
  "Key V user = vb_md5 V (string_bytes user @ string_bytes ''c48619fe-8f02-49e0-b9e9-edf763e17e21'')"

definition id_key :: "vmess_libs \<Rightarrow> byte list \<Rightarrow> byte list" where
  "id_key V key = take 16 (vb_kdf V key ''AES Auth ID Encryption'' [])"

definition AuthID :: "vmess_libs \<Rightarrow> byte list \<Rightarrow> int \<Rightarrow> byte list \<Rightarrow> byte list" where
  "AuthID V key now random =
     (let buffer = be64 (of_int now) @ random in vb_aes_encrypt V (id_key V key) (buffer @ be32 (vb_crc32 V buffer)))"

text \<open>What the service makes of an authentication block with the key of one user: the timestamp in it when the checksum is right.\<close>

definition decode_id :: "vmess_libs \<Rightarrow> byte list \<Rightarrow> string \<Rightarrow> int option" where
  "decode_id V authId user =
     (let decodedId = vb_aes_decrypt V (id_key V (Key V user)) authId
      in if vb_crc32 V (take 12 decodedId) \<noteq> of_be32 (drop 12 decodedId) then None else Some (sint (of_be64 decodedId)))"

definition AutoSecurityType :: "string \<Rightarrow> byte" where
  "AutoSecurityType goarch = (if goarch \<in> {''amd64'', ''s390x'', ''arm64''} then SecurityTypeAes128Gcm else SecurityTypeChacha20Poly1305)"

section \<open>The client\<close>

record vmess_client =
  vc_key :: "byte list"
  vc_security :: byte
  vc_global_padding :: bool
  vc_authenticated_length :: bool
  vc_alter_id :: int
  vc_alter_key :: "byte list"

definition ErrUnsupportedSecurityType :: go_error where "ErrUnsupportedSecurityType = ENew ''vmess: unsupported security type''"

definition vmess_NewClient :: "user_libs \<Rightarrow> vmess_libs \<Rightarrow> string \<Rightarrow> string \<Rightarrow> string \<Rightarrow> int \<Rightarrow> bool \<Rightarrow> bool \<Rightarrow> go_error + vmess_client" where
  "vmess_NewClient L V goarch userId security alterId globalPadding authenticatedLength =
     (let user = service_uuid L userId
      in rbind (if security = ''auto'' then Inr (AutoSecurityType goarch)
                else if security = ''none'' \<or> security = ''zero'' then Inr SecurityTypeNone
                else if security = ''aes-128-cfb'' then Inr SecurityTypeLegacy
                else if security = ''aes-128-gcm'' then Inr SecurityTypeAes128Gcm
                else if security = ''chacha20-poly1305'' then Inr SecurityTypeChacha20Poly1305
                else Inl (EExtend ErrUnsupportedSecurityType security)) (\<lambda>rawSecurity.
         Inr \<lparr>vc_key = Key V user, vc_security = rawSecurity, vc_global_padding = globalPadding, vc_authenticated_length = authenticatedLength,
              vc_alter_id = alterId, vc_alter_key = (if alterId > 0 then string_bytes (ul_alter_id L user) else replicate 16 0)\<rparr>))"

record raw_client_conn =
  rc_client :: vmess_client
  rc_command :: byte
  rc_option :: byte
  rc_destination :: socksaddr
  rc_key :: "byte list"
  rc_nonce :: "byte list"
  rc_response :: byte
  rc_read_buffer :: bool

definition dialRaw :: "vmess_client \<Rightarrow> byte list \<Rightarrow> byte list \<Rightarrow> byte \<Rightarrow> socksaddr \<Rightarrow> raw_client_conn" where
  "dialRaw c key nonce command destination =
     (let security = vc_security c;
          option = (if security = SecurityTypeNone then (if command = CommandUDP then RequestOptionChunkStream else 0)
                    else if security = SecurityTypeLegacy then RequestOptionChunkStream
                    else if security = SecurityTypeAes128Gcm \<or> security = SecurityTypeChacha20Poly1305 then
                      RequestOptionChunkStream OR RequestOptionChunkMasking OR
                      (if vc_global_padding c then RequestOptionGlobalPadding else 0) OR
                      (if vc_authenticated_length c then RequestOptionAuthenticatedLength else 0)
                    else 0)
      in \<lparr>rc_client = c, rc_command = command, rc_option = option, rc_destination = destination, rc_key = key, rc_nonce = nonce, rc_response = 0,
          rc_read_buffer = (option AND RequestOptionChunkStream \<noteq> 0 \<and> command = CommandTCP \<or> command = CommandMux)\<rparr>)"

text \<open>Random and uninitialised bytes of a handshake: the padding (at most 15 bytes), the byte the response has to repeat, those of the authentication block and the nonce, and, for an
  address that cannot be written, what was written of it and what the buffer held.\<close>

record handshake_random =
  hr_padding :: "byte list"
  hr_response :: byte
  hr_auth :: "byte list"
  hr_nonce :: "byte list"
  hr_partial :: "byte list"
  hr_junk :: "byte list"

definition VmessVersion :: byte where "VmessVersion = 1"

definition header_fields :: "raw_client_conn \<Rightarrow> handshake_random \<Rightarrow> byte list" where
  "header_fields c hr =
     VmessVersion # rc_nonce c @ rc_key c @ [hr_response hr, rc_option c, push_bit 4 (of_nat (length (hr_padding hr))) OR vc_security (rc_client c), 0, rc_command c]"

definition encodeHeader :: "wire_libs \<Rightarrow> raw_client_conn \<Rightarrow> handshake_random \<Rightarrow> byte list \<times> go_error option" where
  "encodeHeader W c hr =
     (case (if rc_command c \<noteq> CommandMux then wl_write W (rc_destination c) else Inr []) of
        Inl e \<Rightarrow> (header_fields c hr @ hr_partial hr, Some e)
      | Inr address \<Rightarrow> (let header = header_fields c hr @ address @ hr_padding hr in (header @ be32 (fnv32a header), None)))"

definition header_len :: "wire_libs \<Rightarrow> raw_client_conn \<Rightarrow> handshake_random \<Rightarrow> nat" where
  "header_len W c hr = 38 + (if rc_command c \<noteq> CommandMux then wl_len W (rc_destination c) else 0) + length (hr_padding hr) + 4"

definition header_seal :: "vmess_libs \<Rightarrow> byte list \<Rightarrow> string \<Rightarrow> string \<Rightarrow> byte list \<Rightarrow> byte list \<Rightarrow> byte list \<Rightarrow> byte list" where
  "header_seal V key saltKey saltNonce authId nonce p =
     vb_seal V (take 16 (vb_kdf V key saltKey [authId, nonce])) (take 12 (vb_kdf V key saltNonce [authId, nonce])) authId p"

definition header_open :: "vmess_libs \<Rightarrow> byte list \<Rightarrow> string \<Rightarrow> string \<Rightarrow> byte list \<Rightarrow> byte list \<Rightarrow> byte list \<Rightarrow> go_error + byte list" where
  "header_open V key saltKey saltNonce authId nonce p =
     vb_open V (take 16 (vb_kdf V key saltKey [authId, nonce])) (take 12 (vb_kdf V key saltNonce [authId, nonce])) authId p"

definition seal_header :: "vmess_libs \<Rightarrow> wire_libs \<Rightarrow> int \<Rightarrow> raw_client_conn \<Rightarrow> handshake_random \<Rightarrow> byte list" where
  "seal_header V W now c hr =
     (let key = vc_key (rc_client c); headerLen = header_len W c hr; authId = AuthID V key now (hr_auth hr); (header, _) = encodeHeader W c hr;
          sealed = header_seal V key ''VMess Header AEAD Key'' ''VMess Header AEAD Nonce'' authId (hr_nonce hr) header
      in authId @ header_seal V key ''VMess Header AEAD Key_Length'' ''VMess Header AEAD Nonce_Length'' authId (hr_nonce hr) (be16 (of_nat headerLen)) @ hr_nonce hr @
         sealed @ drop (length sealed) (take (headerLen + CipherOverhead) (hr_junk hr)))"

definition time_hash :: "vmess_libs \<Rightarrow> 64 word \<Rightarrow> byte list" where
  "time_hash V timestamp = vb_md5 V (concat (replicate 4 (be64 timestamp)))"

definition legacy_header :: "vmess_libs \<Rightarrow> wire_libs \<Rightarrow> int \<Rightarrow> raw_client_conn \<Rightarrow> handshake_random \<Rightarrow> go_error + byte list" where
  "legacy_header V W now c hr =
     (case encodeHeader W c hr of
        (_, Some e) \<Rightarrow> Inl e
      | (header, None) \<Rightarrow>
          Inr (vb_hmac_md5 V (vc_alter_key (rc_client c)) (be64 (of_int now)) @ vb_cfb_encrypt V (vc_key (rc_client c)) (time_hash V (of_int now)) header))"

record vmess_client_conn = raw_client_conn +
  cc_writer :: "(body_codec \<times> bool) option"
  cc_header :: "byte list"
  cc_body :: "byte list"

definition body_writes :: "(nat \<Rightarrow> byte) \<Rightarrow> vmess_client_conn \<Rightarrow> body_codec \<times> bool \<Rightarrow> byte list \<Rightarrow> vmess_client_conn" where
  "body_writes rnd c w p =
     (let (b, limited) = w; (bs, b') = vmess_write rnd limited b [p] in c\<lparr>cc_writer := Some (b', limited), cc_body := cc_body c @ bs\<rparr>)"

definition writeHandshake ::
  "vmess_libs \<Rightarrow> wire_libs \<Rightarrow> (nat \<Rightarrow> byte) \<Rightarrow> int \<Rightarrow> handshake_random \<Rightarrow> vmess_client_conn \<Rightarrow> byte list \<Rightarrow> go_error + vmess_client_conn" where
  "writeHandshake V W rnd now hr c payload =
     rbind (if vc_alter_id (rc_client c) > 0 then legacy_header V W now (raw_client_conn.truncate c) hr
            else Inr (seal_header V W now (raw_client_conn.truncate c) hr)) (\<lambda>header.
     rbind (CreateWriter V (rc_key c) (rc_nonce c) (rc_key c) (rc_nonce c) (vc_security (rc_client c)) (rc_option c)) (\<lambda>w.
     let c1 = c\<lparr>rc_response := hr_response hr, cc_header := header, cc_writer := Some w\<rparr>
     in Inr (if payload = [] then c1 else body_writes rnd c1 w payload)))"

definition clientConn_Write ::
  "vmess_libs \<Rightarrow> wire_libs \<Rightarrow> (nat \<Rightarrow> byte) \<Rightarrow> int \<Rightarrow> handshake_random \<Rightarrow> vmess_client_conn \<Rightarrow> byte list \<Rightarrow> go_error + vmess_client_conn" where
  "clientConn_Write V W rnd now hr c p =
     (case cc_writer c of
        None \<Rightarrow> writeHandshake V W rnd now hr c p
      | Some w \<Rightarrow> Inr (body_writes rnd c w p))"

definition vmess_DialEarlyConn :: "vmess_client \<Rightarrow> byte list \<Rightarrow> byte list \<Rightarrow> byte \<Rightarrow> socksaddr \<Rightarrow> vmess_client_conn" where
  "vmess_DialEarlyConn cl key nonce command destination =
     raw_client_conn.extend (dialRaw cl key nonce command destination) \<lparr>cc_writer = None, cc_header = [], cc_body = []\<rparr>"

text \<open>What a client connection has sent.\<close>

definition sent_bytes :: "vmess_libs \<Rightarrow> vmess_client_conn \<Rightarrow> byte list" where
  "sent_bytes V c = cc_header c @ StreamWriter_Write V (rc_key c) (rc_nonce c) (vc_security (rc_client c)) (cc_body c)"

section \<open>The service\<close>

record legacy_entry =
  le_user :: user_identity
  le_time :: int
  le_index :: nat

record vmess_state =
  vt_users :: vmess_service
  vt_update_time :: "(user_identity, int) gomap"
  vt_alter_map :: "(byte list, legacy_entry) gomap"
  vt_disable_protect :: bool

definition ErrBadHeader :: go_error where "ErrBadHeader = ENew ''bad header''"
definition ErrBadVersion :: go_error where "ErrBadVersion = ENew ''bad version''"

definition aeadMinHeaderLen :: nat where "aeadMinHeaderLen = 16 + (2 + CipherOverhead) + 8 + CipherOverhead + 42"

text \<open>The first bytes of a connection: one read, which has to return enough, or as many reads as it takes.\<close>

definition read_first :: "vmess_state \<Rightarrow> byte list \<Rightarrow> byte list \<Rightarrow> go_error + byte list \<times> byte list" where
  "read_first s first rest =
     (let minHeaderLen = (if ms_alter_ids (vt_users s) \<noteq> [] then 16 + 38 else aeadMinHeaderLen)
      in if \<not> vt_disable_protect s then
           (if first = [] then Inl io_EOF else if length first < minHeaderLen then Inl ErrBadHeader else Inr (first, rest))
         else if length first < minHeaderLen then read_full minHeaderLen (first @ rest) else Inr (first, rest))"

definition vmess_find_user ::
  "vmess_libs \<Rightarrow> (byte list \<Rightarrow> bool) \<Rightarrow> int \<Rightarrow> vmess_state \<Rightarrow> byte list \<Rightarrow> go_error + user_identity \<times> int option" where
  "vmess_find_user V fresh now s authId =
     (case vmess_authenticate (decode_id V authId) (\<lambda>user. fresh (vb_aes_decrypt V (id_key V (Key V user)) authId)) now (ms_user_key (vt_users s)) of
        Inr user \<Rightarrow> Inr (user, None)
      | Inl e \<Rightarrow>
          if e \<noteq> ErrBadRequest then Inl e
          else (case map_of (vt_alter_map s) authId of
                  None \<Rightarrow> Inl ErrBadRequest
                | Some entry \<Rightarrow> Inr (le_user entry, Some (le_time entry))))"

text \<open>The fixed part of the header, a reader for the rest of it, and what follows the header on the connection for a given rest.\<close>

type_synonym header_reader = "(byte list \<times> byte list) \<times> (byte list \<Rightarrow> byte list)"

definition open_legacy_header :: "vmess_libs \<Rightarrow> byte list \<Rightarrow> int \<Rightarrow> byte list \<Rightarrow> go_error + header_reader" where
  "open_legacy_header V key timestamp input =
     (let deciphered = vb_cfb_decrypt V key (time_hash V (of_int timestamp)) input
      in case read_full 38 deciphered of
           Inl _ \<Rightarrow> Inl (EExtend ErrBadHeader ''short buffer'')
         | Inr (fixed, hs) \<Rightarrow> Inr ((fixed, hs), \<lambda>left. drop (length deciphered - length left) input))"

definition open_sealed_header :: "vmess_libs \<Rightarrow> byte list \<Rightarrow> byte list \<Rightarrow> byte list \<Rightarrow> go_error + header_reader" where
  "open_sealed_header V key request rest =
     (let authId = take 16 request; nonceIndex = 16 + (2 + CipherOverhead); headerIndex = nonceIndex + 8; nonce = take 8 (drop nonceIndex request)
      in rbind (rfail_if (length request < aeadMinHeaderLen) ErrBadHeader) (\<lambda>_.
         rbind (header_open V key ''VMess Header AEAD Key_Length'' ''VMess Header AEAD Nonce_Length'' authId nonce (take (2 + CipherOverhead) (drop 16 request))) (\<lambda>len.
         let headerLength = unat (of_be16 len); headerEnd = headerIndex + headerLength + CipherOverhead
         in rbind (if headerEnd \<le> length request then Inr (request, rest)
                   else if headerEnd > vb_buffer_size V then Inl io_ErrShortBuffer
                   else rbind (read_full (headerEnd - length request) rest) (\<lambda>(xs, rest'). Inr (request @ xs, rest'))) (\<lambda>(request', rest').
            rbind (header_open V key ''VMess Header AEAD Key'' ''VMess Header AEAD Nonce'' authId nonce (take (headerLength + CipherOverhead) (drop headerIndex request'))) (\<lambda>header.
            rbind (rfail_if (length header \<le> 38) (EExtend ErrBadHeader ''short buffer'')) (\<lambda>_.
            Inr ((take 38 header, drop 38 header), \<lambda>_. drop headerEnd request' @ rest')))))))"

record vmess_conn =
  sn_user :: user_identity
  sn_legacy :: bool
  sn_key :: "byte list"
  sn_nonce :: "byte list"
  sn_response :: byte
  sn_option :: byte
  sn_security :: byte
  sn_command :: byte
  sn_destination :: socksaddr
  sn_reader :: body_codec
  sn_read_buffer :: bool
  sn_input :: "byte list"

definition read_rest :: "wire_libs \<Rightarrow> byte list \<Rightarrow> byte list \<Rightarrow> go_error + socksaddr \<times> byte list" where
  "read_rest W fixed hs =
     (let option = fixed ! 34; paddingLen = unat (drop_bit 4 (fixed ! 35)); command = fixed ! 37
      in rbind (rfail_if (command \<notin> {CommandTCP, CommandUDP, CommandMux}) (ENew (''unknown command: '' @ digits (unat command)))) (\<lambda>_.
         rbind (rfail_if (command = CommandUDP \<and> option = 0) (ENew ''bad packet connection'')) (\<lambda>_.
         rbind (if command \<noteq> CommandMux then wl_read W hs else Inr (no_destination, hs)) (\<lambda>(destination, r1).
         rbind (case discard_bytes paddingLen r1 of Inl _ \<Rightarrow> Inl (EExtend ErrBadHeader ''bad padding'') | Inr r2 \<Rightarrow> Inr r2) (\<lambda>r2.
         rbind (wl_skip W 4 r2) (\<lambda>r3. Inr (destination, r3)))))))"

definition vmess_NewConnection ::
  "vmess_libs \<Rightarrow> wire_libs \<Rightarrow> (byte list \<Rightarrow> bool) \<Rightarrow> (user_identity \<Rightarrow> go_error option) \<Rightarrow> int \<Rightarrow> vmess_state \<Rightarrow> byte list \<Rightarrow> byte list \<Rightarrow> go_error + vmess_conn" where
  "vmess_NewConnection V W fresh onAuthenticated now s first rest0 =
     rbind (read_first s first rest0) (\<lambda>(request, rest).
     rbind (vmess_find_user V fresh now s (take 16 request)) (\<lambda>(user, legacyTimestamp).
     let cmdKey = (case map_of (ms_user_key (vt_users s)) user of Some uid \<Rightarrow> Key V uid | None \<Rightarrow> replicate 16 0)
     in rbind (case legacyTimestamp of
                 Some timestamp \<Rightarrow> open_legacy_header V cmdKey timestamp (drop 16 request @ rest)
               | None \<Rightarrow> open_sealed_header V cmdKey request rest) (\<lambda>((fixed, hs), after).
        rbind (case onAuthenticated user of Some e \<Rightarrow> Inl e | None \<Rightarrow> Inr ()) (\<lambda>_.
        rbind (rfail_if (fixed ! 0 \<noteq> VmessVersion) (EExtend ErrBadVersion (digits (unat (fixed ! 0))))) (\<lambda>_.
        let key = take 16 (drop 17 fixed); nonce = take 16 (drop 1 fixed); option = fixed ! 34; security = fixed ! 35 AND 0x0F; command = fixed ! 37
        in rbind (read_rest W fixed hs) (\<lambda>(destination, left).
           rbind (CreateReader V key nonce key nonce security option) (\<lambda>reader.
           Inr \<lparr>sn_user = user, sn_legacy = (legacyTimestamp \<noteq> None), sn_key = key, sn_nonce = nonce, sn_response = fixed ! 33, sn_option = option,
                sn_security = security, sn_command = command, sn_destination = destination, sn_reader = reader,
                sn_read_buffer = (option AND RequestOptionChunkStream \<noteq> 0 \<and> command = CommandTCP \<or> command = CommandMux), sn_input = after left\<rparr>)))))))"

section \<open>Legacy keys\<close>

text \<open>The authentication blocks of users of the legacy protocol, for each of their alternative ids and each second of a window, as the service computes them again every ten seconds.\<close>

definition CacheDurationSeconds :: int where "CacheDurationSeconds = 120"

definition legacy_hash :: "vmess_libs \<Rightarrow> string \<Rightarrow> int \<Rightarrow> byte list" where
  "legacy_hash V alterId ts = vb_hmac_md5 V (string_bytes alterId) (be64 (of_int ts))"

fun legacy_ids :: "vmess_libs \<Rightarrow> user_identity \<Rightarrow> int \<Rightarrow> int \<Rightarrow> nat \<Rightarrow> string list \<Rightarrow> (byte list, legacy_entry) gomap \<Rightarrow> (byte list, legacy_entry) gomap" where
  "legacy_ids V user beginSec endSec i [] m = m"
| "legacy_ids V user beginSec endSec i (alterId # alterIds) m =
     legacy_ids V user beginSec endSec (Suc i) alterIds
       (fold (\<lambda>ts. AList.update (legacy_hash V alterId ts) \<lparr>le_user = user, le_time = ts, le_index = i\<rparr>) [beginSec..endSec] m)"

definition begin_sec :: "int \<Rightarrow> (user_identity, int) gomap \<Rightarrow> user_identity \<Rightarrow> int" where
  "begin_sec nowSec update_time user =
     (let beginSec = (case map_of update_time user of Some t \<Rightarrow> t | None \<Rightarrow> 0)
      in if beginSec < nowSec - CacheDurationSeconds then nowSec - CacheDurationSeconds else beginSec)"

definition generateLegacyKeysLocked :: "vmess_libs \<Rightarrow> int \<Rightarrow> vmess_state \<Rightarrow> vmess_state" where
  "generateLegacyKeysLocked V nowSec s =
     (let alterIds = ms_alter_ids (vt_users s)
      in s\<lparr>vt_update_time := fold (\<lambda>(user, _). AList.update user nowSec) alterIds [],
           vt_alter_map := fold (\<lambda>(user, ids). legacy_ids V user (begin_sec nowSec (vt_update_time s) user) (nowSec + CacheDurationSeconds) 0 ids) alterIds []\<rparr>)"

definition vmess_commit_users :: "vmess_libs \<Rightarrow> int \<Rightarrow> vmess_service \<Rightarrow> vmess_state \<Rightarrow> vmess_state" where
  "vmess_commit_users V nowSec users s = generateLegacyKeysLocked V nowSec (s\<lparr>vt_users := users, vt_update_time := []\<rparr>)"

section \<open>The response\<close>

definition response_seal :: "vmess_libs \<Rightarrow> byte list \<Rightarrow> byte list \<Rightarrow> string \<Rightarrow> string \<Rightarrow> byte list \<Rightarrow> byte list" where
  "response_seal V key nonce saltKey saltNonce p = vb_seal V (take 16 (vb_kdf V key saltKey [])) (take 12 (vb_kdf V nonce saltNonce [])) [] p"

definition response_open :: "vmess_libs \<Rightarrow> byte list \<Rightarrow> byte list \<Rightarrow> string \<Rightarrow> string \<Rightarrow> byte list \<Rightarrow> go_error + byte list" where
  "response_open V key nonce saltKey saltNonce p = vb_open V (take 16 (vb_kdf V key saltKey [])) (take 12 (vb_kdf V nonce saltNonce [])) [] p"

definition response_keys :: "vmess_libs \<Rightarrow> bool \<Rightarrow> byte list \<Rightarrow> byte list" where
  "response_keys V legacy k = (if legacy then vb_md5 V k else take 16 (vb_sha256 V k))"

text \<open>All a service sends for a body of \<open>bs\<close> bytes below the stream cipher. With the legacy protocol the stream cipher of the header goes on in the body when it is cut into chunks, and starts anew when it is not.\<close>

definition writeResponse :: "vmess_libs \<Rightarrow> vmess_conn \<Rightarrow> byte list \<Rightarrow> byte list" where
  "writeResponse V c bs =
     (let key = response_keys V (sn_legacy c) (sn_key c); nonce = response_keys V (sn_legacy c) (sn_nonce c); header = [sn_response c, sn_option c, 0, 0];
          body = StreamWriter_Write V key nonce (sn_security c) bs
      in if sn_legacy c then
           (if sn_security c = SecurityTypeLegacy \<and> sn_option c AND RequestOptionChunkStream \<noteq> 0 then vb_cfb_encrypt V key nonce (header @ bs)
            else vb_cfb_encrypt V key nonce header @ body)
         else response_seal V key nonce ''AEAD Resp Header Len Key'' ''AEAD Resp Header Len IV'' (be16 4) @
              response_seal V key nonce ''AEAD Resp Header Key'' ''AEAD Resp Header IV'' header @ body)"

definition response_writer :: "vmess_libs \<Rightarrow> vmess_conn \<Rightarrow> go_error + body_codec \<times> bool" where
  "response_writer V c =
     CreateWriter V (sn_key c) (sn_nonce c) (response_keys V (sn_legacy c) (sn_key c)) (response_keys V (sn_legacy c) (sn_nonce c)) (sn_security c) (sn_option c)"

text \<open>The reader of the body and the bytes it reads, below the stream cipher.\<close>

definition readResponse :: "vmess_libs \<Rightarrow> raw_client_conn \<Rightarrow> byte list \<Rightarrow> go_error + body_codec \<times> byte list" where
  "readResponse V c input =
     (let legacy = vc_alter_id (rc_client c) > 0; security = vc_security (rc_client c); key = response_keys V legacy (rc_key c); nonce = response_keys V legacy (rc_nonce c)
      in if legacy then
           rbind (read_full 4 (vb_cfb_decrypt V key nonce input)) (\<lambda>(response, _).
           rbind (rfail_if (response ! 0 \<noteq> rc_response c) (ENew ''bad response header'')) (\<lambda>_.
           let cmdLen = unat (response ! 3); rest = drop 4 input
           in rbind (discard_bytes cmdLen rest) (\<lambda>rest'.
              rbind (CreateReader V (rc_key c) (rc_nonce c) key nonce security (rc_option c)) (\<lambda>reader.
              Inr (reader, if security = SecurityTypeLegacy then drop 4 (vb_cfb_decrypt V key nonce (take 4 input @ rest')) else rest')))))
         else
           rbind (read_full (2 + CipherOverhead) input) (\<lambda>(sealedLen, r1).
           rbind (response_open V key nonce ''AEAD Resp Header Len Key'' ''AEAD Resp Header Len IV'' sealedLen) (\<lambda>len.
           rbind (read_full (unat (of_be16 len) + CipherOverhead) r1) (\<lambda>(sealed, r2).
           rbind (response_open V key nonce ''AEAD Resp Header Key'' ''AEAD Resp Header IV'' sealed) (\<lambda>_.
           rbind (CreateReader V (rc_key c) (rc_nonce c) key nonce security (rc_option c)) (\<lambda>reader.
           Inr (reader, StreamReader_Read V key nonce security r2)))))))"

section \<open>Requests arrive\<close>

definition headers_ok :: "vmess_libs \<Rightarrow> bool" where
  "headers_ok V \<longleftrightarrow>
     (\<forall>k n ad p. vb_open V k n ad (vb_seal V k n ad p) = Inr p \<and> length (vb_seal V k n ad p) = length p + CipherOverhead) \<and>
     (\<forall>k b. length b = 16 \<longrightarrow> length (vb_aes_encrypt V k b) = 16 \<and> vb_aes_decrypt V k (vb_aes_encrypt V k b) = b) \<and>
     (\<forall>k msg. length (vb_hmac_md5 V k msg) = 16) \<and> (\<forall>k iv bs. length (vb_cfb_encrypt V k iv bs) = length bs \<and> length (vb_cfb_decrypt V k iv bs) = length bs) \<and> vb_buffer_size V \<ge> 1024"

definition random_ok :: "handshake_random \<Rightarrow> bool" where
  "random_ok hr \<longleftrightarrow> length (hr_padding hr) < 16 \<and> length (hr_auth hr) = 4 \<and> length (hr_nonce hr) = 8"

text \<open>The keys of the other users do not fit the authentication block.\<close>

definition only_decoded :: "vmess_libs \<Rightarrow> byte list \<Rightarrow> user_identity \<Rightarrow> (user_identity, string) gomap \<Rightarrow> bool" where
  "only_decoded V authId u users \<longleftrightarrow> list_all (\<lambda>(u', uid). u' = u \<or> decode_id V authId uid = None) users"

lemma sealed_ok:
  assumes "headers_ok V"
  shows "header_open V k sk sn ad n (header_seal V k sk sn ad n p) = Inr p" "length (header_seal V k sk sn ad n p) = length p + CipherOverhead"
    "response_open V k n sk sn (response_seal V k n sk sn p) = Inr p" "length (response_seal V k n sk sn p) = length p + CipherOverhead"
  using assms by (auto simp: headers_ok_def header_open_def header_seal_def response_open_def response_seal_def)

lemma auth_id:
  assumes "headers_ok V" and r: "length r = 4"
  shows "length (AuthID V k now r) = 16" "vb_aes_decrypt V (id_key V k) (AuthID V k now r) = be64 (of_int now) @ r @ be32 (vb_crc32 V (be64 (of_int now) @ r))"
proof -
  have "length (be64 (of_int now) @ r @ be32 (vb_crc32 V (be64 (of_int now) @ r))) = 16" using r by simp
  then show "length (AuthID V k now r) = 16" "vb_aes_decrypt V (id_key V k) (AuthID V k now r) = be64 (of_int now) @ r @ be32 (vb_crc32 V (be64 (of_int now) @ r))"
    using assms(1) by (simp_all add: headers_ok_def AuthID_def Let_def)
qed

lemma decoded_time:
  assumes "headers_ok V" and r: "length r = 4" and "0 \<le> now" "now < 2 ^ 63"
  shows "decode_id V (AuthID V (Key V uid) now r) uid = Some now"
proof -
  have "sint (of_int now :: 64 word) = now" using assms(3, 4) by (simp add: signed_of_int signed_take_bit_int_eq_self)
  then show ?thesis using r auth_id(2) [OF assms(1) r, of "Key V uid" now] by (simp add: decode_id_def Let_def)
qed

lemma authenticated:
  assumes "map_of users u = Some uid" "list_all (\<lambda>(u', k). u' = u \<or> decode k = None) users" "decode uid = Some ts" "\<bar>\<bar>ts\<bar> - now\<bar> \<le> 120" "fresh uid"
  shows "vmess_authenticate decode fresh now users = Inr u"
  using assms by (induction users) (auto split: if_splits)

text \<open>Whatever the first read returned, the header is read to its end and the rest is what follows it.\<close>

lemma read_to:
  assumes w: "request @ rest = head @ body" and "length head \<le> room"
  obtains request' rest' where
    "(if length head \<le> length request then Inr (request, rest)
      else if length head > room then Inl e
      else rbind (read_full (length head - length request) rest) (\<lambda>(xs, rest'). Inr (request @ xs, rest'))) = Inr (request', rest')"
    "take (length head) request' = head" "drop (length head) request' @ rest' = body"
proof -
  from w consider r where "request = head @ r" "r @ rest = body" | h where "head = request @ h" "h \<noteq> []" "rest = h @ body"
    by (auto simp: append_eq_append_conv2) blast
  then show thesis
  proof cases
    case 1
    then show thesis by (intro that [of request rest]) simp_all
  next
    case 2
    then have "read_full (length head - length request) rest = Inr (h, body)" by (simp add: read_full_def)
    with 2 assms(2) show thesis by (intro that [of head body]) simp_all
  qed
qed

lemma security_nibble:
  assumes "n < 16" "security < 16"
  shows "unat (drop_bit 4 (push_bit 4 (of_nat n) OR security :: byte)) = n" "(push_bit 4 (of_nat n) OR security) AND 0x0F = security"
proof -
  have n: "push_bit 4 (of_nat n) = (of_nat (n * 16) :: byte)" by (simp add: push_bit_eq_mult)
  have m: "unat (of_nat (n * 16) :: byte) = n * 16" unfolding unat_of_nat using assms(1) by simp
  have "unat (drop_bit 4 (of_nat (n * 16) :: byte)) = n" unfolding unat_drop_bit_eq m by (simp add: drop_bit_eq_div)
  moreover have "of_nat (n * 16) AND 0x0F = (0 :: byte)"
  proof -
    have "of_nat (n * 16) AND 0x0F = (take_bit 4 (of_nat (n * 16)) :: byte)" by (simp add: take_bit_eq_mask mask_eq_decr_exp)
    also have "\<dots> = 0" by (rule word_unat_eq_iff [THEN iffD2]) (simp only: unsigned_take_bit_eq m, simp add: take_bit_eq_mod)
    finally show ?thesis .
  qed
  ultimately have "unat (drop_bit 4 (push_bit 4 (of_nat n) :: byte)) = n" "push_bit 4 (of_nat n) AND 0x0F = (0 :: byte)"
    unfolding n by blast+
  moreover have small: "unat security < 16" using assms(2) by (simp add: word_less_nat_alt)
  then have "drop_bit 4 security = 0" by (intro word_unat_eq_iff [THEN iffD2]) (simp only: unat_drop_bit_eq, simp add: drop_bit_eq_div)
  moreover have "security AND 0x0F = security"
  proof -
    have "security AND 0x0F = take_bit 4 security" by (simp add: take_bit_eq_mask mask_eq_decr_exp)
    also have "\<dots> = security" using small by (intro word_unat_eq_iff [THEN iffD2]) (simp only: unsigned_take_bit_eq, simp add: take_bit_eq_mod)
    finally show ?thesis .
  qed
  ultimately show "unat (drop_bit 4 (push_bit 4 (of_nat n) OR security :: byte)) = n" "(push_bit 4 (of_nat n) OR security) AND 0x0F = security"
    by (simp_all add: drop_bit_or bit.conj_disj_distrib2)
qed

lemma header_fields_at:
  assumes "length (rc_nonce c) = 16" "length (rc_key c) = 16"
  shows "length (header_fields c hr) = 38" "header_fields c hr ! 0 = VmessVersion" "take 16 (drop 1 (header_fields c hr)) = rc_nonce c"
    "take 16 (drop 17 (header_fields c hr)) = rc_key c" "header_fields c hr ! 33 = hr_response hr" "header_fields c hr ! 34 = rc_option c"
    "header_fields c hr ! 35 = push_bit 4 (of_nat (length (hr_padding hr))) OR vc_security (rc_client c)" "header_fields c hr ! 37 = rc_command c"
  using assms by (simp_all add: header_fields_def nth_append)

definition expected_destination :: "byte \<Rightarrow> socksaddr \<Rightarrow> socksaddr" where
  "expected_destination command destination = (if command \<noteq> CommandMux then destination else no_destination)"

lemma encoded_header:
  assumes "length (rc_nonce c) = 16" "length (rc_key c) = 16" "reads_back W (rc_destination c)"
  obtains address where "encodeHeader W c hr = (header_fields c hr @ address @ hr_padding hr @ be32 (fnv32a (header_fields c hr @ address @ hr_padding hr)), None)"
    "header_len W c hr = 38 + length address + length (hr_padding hr) + 4"
    "\<And>rest. (if rc_command c \<noteq> CommandMux then wl_read W (address @ rest) else Inr (no_destination, address @ rest)) = Inr (expected_destination (rc_command c) (rc_destination c), rest)"
proof (cases "rc_command c = CommandMux")
  case True
  then show thesis by (intro that [of "[]"]) (simp_all add: encodeHeader_def header_len_def expected_destination_def)
next
  case False
  from assms(3) obtain bs where "wl_write W (rc_destination c) = Inr bs" "length bs = wl_len W (rc_destination c)" "\<And>rest. wl_read W (bs @ rest) = Inr (rc_destination c, rest)"
    unfolding reads_back_def by blast
  with False show thesis by (intro that [of bs]) (simp_all add: encodeHeader_def header_len_def expected_destination_def)
qed

lemma header_read:
  assumes "length (rc_nonce c) = 16" "length (rc_key c) = 16" "length (hr_padding hr) < 16"
    and sec: "vc_security (rc_client c) < 16"
    and "rc_command c \<in> {CommandTCP, CommandUDP, CommandMux}" "\<not> (rc_command c = CommandUDP \<and> rc_option c = 0)" "skip_ok W"
    and read: "\<And>rest. (if rc_command c \<noteq> CommandMux then wl_read W (address @ rest) else Inr (no_destination, address @ rest)) = Inr (destination, rest)"
  shows "read_rest W (header_fields c hr) (address @ hr_padding hr @ be32 h @ left) = Inr (destination, left)"
proof -
  have "wl_skip W 4 (be32 h @ left) = Inr left" using assms(7) length_be(2) [of h] unfolding skip_ok_def by blast
  then show ?thesis
    using assms header_fields_at [OF assms(1, 2), of hr] security_nibble(1) [OF assms(3) sec]
    by (simp add: read_rest_def Let_def discard_bytes_def rfail_if_def)
qed

lemma sealed_header_opened:
  assumes ok: "headers_ok V" and "random_ok hr" and enc: "encodeHeader W c hr = (header, None)" and len: "length header = header_len W c hr" "header_len W c hr \<le> 900"
    and w: "request @ rest = seal_header V W now c hr @ body" and "aeadMinHeaderLen \<le> length request"
  shows "\<exists>after. open_sealed_header V (vc_key (rc_client c)) request rest = Inr ((take 38 header, drop 38 header), after) \<and> (\<forall>left. after left = body)"
    and "take 16 request = AuthID V (vc_key (rc_client c)) now (hr_auth hr)"
proof -
  let ?key = "vc_key (rc_client c)" let ?id = "AuthID V ?key now (hr_auth hr)"
  let ?slen = "header_seal V ?key ''VMess Header AEAD Key_Length'' ''VMess Header AEAD Nonce_Length'' ?id (hr_nonce hr) (be16 (of_nat (header_len W c hr)))"
  let ?sealed = "header_seal V ?key ''VMess Header AEAD Key'' ''VMess Header AEAD Nonce'' ?id (hr_nonce hr) header"
  let ?head = "?id @ ?slen @ hr_nonce hr @ ?sealed"
  have id: "length ?id = 16" and nonce: "length (hr_nonce hr) = 8" using assms(2) auth_id(1) [OF ok] by (simp_all add: random_ok_def)
  have sizes: "length ?slen = 18" "length ?sealed = header_len W c hr + 16" using sealed_ok(2) [OF ok] len(1) by (simp_all add: CipherOverhead_def)
  have head: "seal_header V W now c hr = ?head" using enc sizes(2) by (simp add: seal_header_def Let_def CipherOverhead_def)
  have l: "length ?head = 58 + header_len W c hr" using id nonce sizes by simp
  have big: "100 \<le> length request" using assms(7) by (simp add: aeadMinHeaderLen_def CipherOverhead_def)
  have pre: "take n request = take n (?head @ body)" if "n \<le> 100" for n
  proof -
    have "take n request = take n (request @ rest)" using big that by simp
    then show ?thesis unfolding w head .
  qed
  have parts: "take 16 request = ?id" "take 18 (drop 16 request) = ?slen" "take 8 (drop 34 request) = hr_nonce hr"
    unfolding take_drop by (simp_all add: pre id nonce sizes)
  have room: "length ?head \<le> vb_buffer_size V" using ok len(2) l by (simp add: headers_ok_def)
  obtain request' rest' where r: "(if length ?head \<le> length request then Inr (request, rest)
      else if length ?head > vb_buffer_size V then Inl io_ErrShortBuffer
      else rbind (read_full (length ?head - length request) rest) (\<lambda>(xs, rest'). Inr (request @ xs, rest'))) = Inr (request', rest')"
    and r': "take (length ?head) request' = ?head" "drop (length ?head) request' @ rest' = body"
    by (rule read_to [OF w [unfolded head] room])
  have sealed: "take (header_len W c hr + 16) (drop 42 request') = ?sealed"
  proof -
    have "take (header_len W c hr + 16) (drop 42 request') = drop 42 (take (length ?head) request')" unfolding take_drop l by (simp add: add.commute)
    then show ?thesis unfolding r'(1) by (simp add: id nonce sizes)
  qed
  have hl: "unat (of_nat (header_len W c hr) :: 16 word) = header_len W c hr" using len(2) by (simp add: unat_of_nat)
  have hlen: "\<not> length header \<le> 38" using len(1) by (simp add: header_len_def)
  have "open_sealed_header V ?key request rest = Inr ((take 38 header, drop 38 header), \<lambda>_. drop (58 + header_len W c hr) request' @ rest')"
    using big hlen sealed parts r [unfolded l] by (simp add: open_sealed_header_def aeadMinHeaderLen_def CipherOverhead_def sealed_ok [OF ok] hl Let_def rfail_if_def split del: if_split cong: if_cong)
  then show "\<exists>after. open_sealed_header V ?key request rest = Inr ((take 38 header, drop 38 header), after) \<and> (\<forall>left. after left = body)" using r'(2) [unfolded l] by auto
  show "take 16 request = ?id" by (rule parts(1))
qed

fun client_writes ::
  "vmess_libs \<Rightarrow> wire_libs \<Rightarrow> (nat \<Rightarrow> byte) \<Rightarrow> int \<Rightarrow> handshake_random \<Rightarrow> vmess_client_conn \<Rightarrow> byte list list \<Rightarrow> go_error + vmess_client_conn" where
  "client_writes V W rnd now hr c [] = Inr c"
| "client_writes V W rnd now hr c (p # ps) = rbind (clientConn_Write V W rnd now hr c p) (\<lambda>c'. client_writes V W rnd now hr c' ps)"

lemma later_writes:
  assumes "cc_writer c = Some (b, limited)" "client_writes V W rnd now hr c ps = Inr c'"
  shows "\<exists>bs b'. vmess_write rnd limited b ps = (bs, b') \<and> c' = c\<lparr>cc_writer := Some (b', limited), cc_body := cc_body c @ bs\<rparr>"
  using assms
proof (induction ps arbitrary: c b)
  case Nil
  then show ?case by (simp add: vmess_write_def)
next
  case (Cons p ps)
  obtain bs b1 where w: "vmess_write rnd limited b [p] = (bs, b1)" by fastforce
  let ?c = "c\<lparr>cc_writer := Some (b1, limited), cc_body := cc_body c @ bs\<rparr>"
  have "client_writes V W rnd now hr ?c ps = Inr c'" using Cons.prems w by (simp add: clientConn_Write_def body_writes_def)
  from Cons.IH [OF _ this, of b1] obtain bs' b2 where "vmess_write rnd limited b1 ps = (bs', b2)" "c' = ?c\<lparr>cc_writer := Some (b2, limited), cc_body := cc_body ?c @ bs'\<rparr>"
    by auto
  then show ?case using w by (simp add: vmess_write_Cons [of rnd limited b p ps])
qed

lemma client_sends:
  assumes "client_writes V W rnd now hr (vmess_DialEarlyConn cl key nonce command destination) ps = Inr c" "ps \<noteq> []" "list_all (\<lambda>p. p \<noteq> []) ps"
  obtains header b limited bs b' where
    "(if vc_alter_id cl > 0 then legacy_header V W now (dialRaw cl key nonce command destination) hr
      else Inr (seal_header V W now (dialRaw cl key nonce command destination) hr)) = Inr header"
    "CreateWriter V key nonce key nonce (vc_security cl) (rc_option (dialRaw cl key nonce command destination)) = Inr (b, limited)"
    "vmess_write rnd limited b ps = (bs, b')" "sent_bytes V c = header @ StreamWriter_Write V key nonce (vc_security cl) bs"
    "raw_client_conn.truncate c = dialRaw cl key nonce command destination\<lparr>rc_response := hr_response hr\<rparr>"
proof -
  let ?r = "dialRaw cl key nonce command destination" let ?d = "vmess_DialEarlyConn cl key nonce command destination"
  from assms(2, 3) obtain p qs where ps: "ps = p # qs" and p: "p \<noteq> []" by (cases ps) auto
  have d: "raw_client_conn.truncate ?d = ?r" "rc_client ?d = cl" "rc_key ?d = key" "rc_nonce ?d = nonce" "rc_option ?d = rc_option ?r" "cc_writer ?d = None" "cc_body ?d = []"
    by (simp_all add: vmess_DialEarlyConn_def dialRaw_def Let_def raw_client_conn.defs)
  from assms(1) ps obtain c1 where c1: "writeHandshake V W rnd now hr ?d p = Inr c1" "client_writes V W rnd now hr c1 qs = Inr c"
    by (auto simp: clientConn_Write_def d rbind_eq_Inr_iff)
  from c1(1) obtain header b limited where h: "(if vc_alter_id cl > 0 then legacy_header V W now ?r hr else Inr (seal_header V W now ?r hr)) = Inr header"
      "CreateWriter V key nonce key nonce (vc_security cl) (rc_option ?r) = Inr (b, limited)"
    and c1': "c1 = body_writes rnd (?d\<lparr>rc_response := hr_response hr, cc_header := header, cc_writer := Some (b, limited)\<rparr>) (b, limited) p"
    using p unfolding writeHandshake_def d by (auto simp: rbind_eq_Inr_iff Let_def)
  obtain bs b1 where w: "vmess_write rnd limited b [p] = (bs, b1)" by fastforce
  have "cc_writer c1 = Some (b1, limited)" using w c1' by (simp add: body_writes_def)
  from later_writes [OF this c1(2)] obtain bs' b2 where w': "vmess_write rnd limited b1 qs = (bs', b2)"
    and c: "c = c1\<lparr>cc_writer := Some (b2, limited), cc_body := cc_body c1 @ bs'\<rparr>" by blast
  show thesis
  proof (rule that [OF h])
    show "vmess_write rnd limited b ps = (bs @ bs', b2)" using w w' ps by (simp add: vmess_write_Cons [of rnd limited b p qs])
    show "sent_bytes V c = header @ StreamWriter_Write V key nonce (vc_security cl) (bs @ bs')" using w by (simp add: c c1' body_writes_def sent_bytes_def d)
    show "raw_client_conn.truncate c = ?r\<lparr>rc_response := hr_response hr\<rparr>"
      using w by (simp add: c c1' body_writes_def vmess_DialEarlyConn_def raw_client_conn.defs)
  qed
qed

text \<open>The data read from a connection of the service: all of it, in chunks unless the body is not cut into any.\<close>

definition received :: "vmess_libs \<Rightarrow> vmess_conn \<Rightarrow> byte list \<Rightarrow> bool" where
  "received V sn data \<longleftrightarrow>
     (let input = StreamReader_Read V (sn_key sn) (sn_nonce sn) (sn_security sn) (sn_input sn)
      in if sn_reader sn = RawBody then input = data
         else \<exists>qs b'. concat qs = data \<and> read_chunks body_read (sn_reader sn) ReadChunkSize (length qs) input = Inr ((qs, []), b'))"

definition known_security :: "byte \<Rightarrow> bool" where
  "known_security security \<longleftrightarrow> security \<in> {SecurityTypeLegacy, SecurityTypeAes128Gcm, SecurityTypeChacha20Poly1305, SecurityTypeNone}"

lemma known_security_small: "known_security security \<Longrightarrow> security < 16"
  by (auto simp: known_security_def SecurityTypeLegacy_def SecurityTypeAes128Gcm_def SecurityTypeChacha20Poly1305_def SecurityTypeNone_def)

lemma dialled:
  "rc_client (dialRaw cl key nonce command destination) = cl" "rc_command (dialRaw cl key nonce command destination) = command"
  "rc_destination (dialRaw cl key nonce command destination) = destination" "rc_key (dialRaw cl key nonce command destination) = key"
  "rc_nonce (dialRaw cl key nonce command destination) = nonce"
  by (simp_all add: dialRaw_def Let_def)

lemma dialled_option:
  assumes "known_security (vc_security cl)"
  shows "\<not> (command = CommandUDP \<and> rc_option (dialRaw cl key nonce command destination) = 0)"
  using assms by (auto simp: known_security_def dialRaw_def Let_def SecurityTypeLegacy_def SecurityTypeAes128Gcm_def SecurityTypeChacha20Poly1305_def SecurityTypeNone_def
      RequestOptionChunkStream_def RequestOptionChunkMasking_def RequestOptionGlobalPadding_def RequestOptionAuthenticatedLength_def)

lemma connection_made:
  fixes cl key nonce command destination
  defines "r \<equiv> dialRaw cl key nonce command destination"
  assumes first: "read_first s first rest0 = Inr (request, rest)" "vmess_find_user V fresh now s (take 16 request) = Inr (u, ts)"
    and user: "map_of (ms_user_key (vt_users s)) u = Some uid" "onAuthenticated u = None"
    and opened: "(case ts of Some t \<Rightarrow> open_legacy_header V (Key V uid) t (drop 16 request @ rest) | None \<Rightarrow> open_sealed_header V (Key V uid) request rest) =
      Inr ((header_fields r hr, address @ hr_padding hr @ be32 h @ left), after)"
    and lens: "length key = 16" "length nonce = 16" "random_ok hr" "vc_security cl < 16" "command \<in> {CommandTCP, CommandUDP, CommandMux}" "skip_ok W" "\<not> (command = CommandUDP \<and> rc_option r = 0)"
    and read: "\<And>rest. (if command \<noteq> CommandMux then wl_read W (address @ rest) else Inr (no_destination, address @ rest)) = Inr (expected_destination command destination, rest)"
  shows "\<exists>sn. vmess_NewConnection V W fresh onAuthenticated now s first rest0 =
      rbind (CreateReader V key nonce key nonce (vc_security cl) (rc_option r)) (\<lambda>reader. Inr (sn\<lparr>sn_reader := reader\<rparr>)) \<and> sn_user sn = u \<and> sn_legacy sn = (ts \<noteq> None) \<and> sn_command sn = command \<and>
    sn_destination sn = expected_destination command destination \<and> sn_key sn = key \<and> sn_nonce sn = nonce \<and> sn_response sn = hr_response hr \<and>
    sn_option sn = rc_option r \<and> sn_security sn = vc_security cl \<and> sn_input sn = after left"
proof -
  have r: "rc_client r = cl" "rc_command r = command" "rc_destination r = destination" "rc_key r = key" "rc_nonce r = nonce" by (simp_all add: r_def dialled)
  have pad: "length (hr_padding hr) < 16" using lens(3) by (simp add: random_ok_def)
  have rest: "read_rest W (header_fields r hr) (address @ hr_padding hr @ be32 h @ left) = Inr (expected_destination command destination, left)"
    by (rule header_read) (use r lens pad read in auto)
  have fields: "header_fields r hr ! 0 = VmessVersion" "take 16 (drop 1 (header_fields r hr)) = nonce" "take 16 (drop 17 (header_fields r hr)) = key"
    "header_fields r hr ! 33 = hr_response hr" "header_fields r hr ! 34 = rc_option r" "header_fields r hr ! 37 = command" "header_fields r hr ! 35 AND 0x0F = vc_security cl"
    using header_fields_at [of r hr] r lens security_nibble(2) [OF pad] by simp_all
  let ?sn = "\<lparr>sn_user = u, sn_legacy = (ts \<noteq> None), sn_key = key, sn_nonce = nonce, sn_response = hr_response hr, sn_option = rc_option r, sn_security = vc_security cl,
    sn_command = command, sn_destination = expected_destination command destination, sn_reader = RawBody,
    sn_read_buffer = (rc_option r AND RequestOptionChunkStream \<noteq> 0 \<and> command = CommandTCP \<or> command = CommandMux), sn_input = after left\<rparr>"
  show ?thesis
    unfolding vmess_NewConnection_def first rbind_simps prod.case Let_def user option.case opened fields rest rfail_if_def by (intro exI [of _ ?sn]) simp
qed

lemma received_all:
  assumes ok: "ciphers_ok V" and w: "CreateWriter V key nonce key nonce security option = Inr (b, limited)" and run: "vmess_write rnd limited b ps = (bs, b')"
    and ps: "b \<noteq> RawBody \<Longrightarrow> list_all (\<lambda>p. p \<noteq> [] \<and> (limited \<or> length p \<le> WriteChunkSize)) ps"
    and sn: "sn_key sn = key" "sn_nonce sn = nonce" "sn_security sn = security" "sn_reader sn = b" "sn_input sn = StreamWriter_Write V key nonce security bs"
  shows "received V sn (concat ps)"
proof -
  have bs: "StreamReader_Read V key nonce security (StreamWriter_Write V key nonce security bs) = bs"
    using stream_round_trip [OF ok, of key nonce security bs "[]"] by auto
  show ?thesis
  proof (cases "b = RawBody")
    case True
    then show ?thesis using written_raw w run by (simp add: received_def sn bs)
  next
    case False
    obtain qs where "concat qs = concat ps" "read_chunks body_read b ReadChunkSize (length qs) (bs @ []) = Inr ((qs, []), b')"
      by (rule written_chunks [OF ok w False ps [OF False] run])
    then show ?thesis using False by (auto simp: received_def sn bs Let_def)
  qed
qed

definition writes_ok :: "vmess_client \<Rightarrow> byte \<Rightarrow> byte list list \<Rightarrow> bool" where
  "writes_ok cl command ps \<longleftrightarrow>
     ps \<noteq> [] \<and> list_all (\<lambda>p. p \<noteq> [] \<and> (vc_security cl = SecurityTypeNone \<and> command = CommandUDP \<longrightarrow> length p \<le> WriteChunkSize)) ps"

lemma writes_fit:
  assumes "CreateWriter V key nonce key nonce (vc_security cl) (rc_option (dialRaw cl key nonce command destination)) = Inr (b, limited)" "b \<noteq> RawBody" "writes_ok cl command ps"
  shows "list_all (\<lambda>p. p \<noteq> [] \<and> (limited \<or> length p \<le> WriteChunkSize)) ps"
proof (cases "vc_security cl = SecurityTypeNone")
  case True
  then have "command = CommandUDP" using assms(1, 2) by (auto simp: CreateWriter_def dialRaw_def Let_def split: if_splits)
  then show ?thesis using assms(3) True by (auto simp: writes_ok_def list_all_iff)
next
  case False
  then have limited using assms(1, 2) by (auto simp: CreateWriter_def split: if_splits)
  then show ?thesis using assms(3) by (auto simp: writes_ok_def list_all_iff)
qed

lemma first_read:
  assumes "aeadMinHeaderLen \<le> length first"
  shows "read_first s first rest = Inr (first, rest)"
  using assms by (auto simp: read_first_def aeadMinHeaderLen_def CipherOverhead_def Let_def)

lemma header_len_bound:
  assumes "wl_len W destination \<le> 259" "random_ok hr"
  shows "header_len W (dialRaw cl key nonce command destination) hr \<le> 900"
  using assms by (simp add: header_len_def random_ok_def dialled)

text \<open>What a service needs of its user table and clock to accept the authentication block of a user.\<close>

definition accepts_id :: "vmess_libs \<Rightarrow> vmess_state \<Rightarrow> (byte list \<Rightarrow> bool) \<Rightarrow> int \<Rightarrow> user_identity \<Rightarrow> string \<Rightarrow> int \<Rightarrow> byte list \<Rightarrow> bool" where
  "accepts_id V s fresh now u uid time random \<longleftrightarrow>
     (let authId = AuthID V (Key V uid) time random
      in map_of (ms_user_key (vt_users s)) u = Some uid \<and> only_decoded V authId u (ms_user_key (vt_users s)) \<and>
         fresh (vb_aes_decrypt V (id_key V (Key V uid)) authId) \<and> 0 \<le> time \<and> time < 2 ^ 63 \<and> \<bar>time - now\<bar> \<le> 120)"

lemma id_accepted:
  assumes "headers_ok V" "length random = 4" "accepts_id V s fresh now u uid time random"
  shows "vmess_find_user V fresh now s (AuthID V (Key V uid) time random) = Inr (u, None)"
proof -
  let ?id = "AuthID V (Key V uid) time random"
  have "decode_id V ?id uid = Some time" using assms decoded_time by (simp add: accepts_id_def Let_def)
  then have "vmess_authenticate (decode_id V ?id) (\<lambda>user. fresh (vb_aes_decrypt V (id_key V (Key V user)) ?id)) now (ms_user_key (vt_users s)) = Inr u"
    using assms(3) by (intro authenticated [where uid = uid and ts = time]) (auto simp: accepts_id_def only_decoded_def Let_def)
  then show ?thesis by (simp add: vmess_find_user_def)
qed

lemma sealed_request_handled:
  fixes cl key nonce command destination
  defines "r \<equiv> dialRaw cl key nonce command destination"
  assumes ok: "headers_ok V" "skip_ok W" "reads_back W destination" "wl_len W destination \<le> 259"
    and cl: "vc_key cl = Key V uid" "vc_security cl < 16" "\<not> (command = CommandUDP \<and> rc_option r = 0)"
    and user: "accepts_id V s fresh now u uid time (hr_auth hr)" "onAuthenticated u = None"
    and dial: "length key = 16" "length nonce = 16" "random_ok hr" "command \<in> {CommandTCP, CommandUDP, CommandMux}"
    and wire: "first @ rest = seal_header V W time r hr @ body" "aeadMinHeaderLen \<le> length first"
  shows "\<exists>sn. vmess_NewConnection V W fresh onAuthenticated now s first rest =
      rbind (CreateReader V key nonce key nonce (vc_security cl) (rc_option r)) (\<lambda>reader. Inr (sn\<lparr>sn_reader := reader\<rparr>)) \<and> sn_user sn = u \<and> \<not> sn_legacy sn \<and> sn_command sn = command \<and>
    sn_destination sn = expected_destination command destination \<and> sn_key sn = key \<and> sn_nonce sn = nonce \<and> sn_response sn = hr_response hr \<and>
    sn_option sn = rc_option r \<and> sn_security sn = vc_security cl \<and> sn_input sn = body"
proof -
  have r: "length (rc_nonce r) = 16" "length (rc_key r) = 16" "reads_back W (rc_destination r)" using dial ok(3) by (simp_all add: r_def dialled)
  obtain address where enc: "encodeHeader W r hr = (header_fields r hr @ address @ hr_padding hr @ be32 (fnv32a (header_fields r hr @ address @ hr_padding hr)), None)"
    and len: "header_len W r hr = 38 + length address + length (hr_padding hr) + 4"
    and read: "\<And>rest. (if command \<noteq> CommandMux then wl_read W (address @ rest) else Inr (no_destination, address @ rest)) = Inr (expected_destination command destination, rest)"
    by (rule encoded_header [OF r, of hr, unfolded r_def dialled, folded r_def]) (rule that)
  note opened = sealed_header_opened [OF ok(1) dial(3) enc _ header_len_bound [OF ok(4) dial(3), of cl key nonce command, folded r_def] wire,
      unfolded r_def dialled cl(1), folded r_def]
  have header: "length (header_fields r hr) = 38" using header_fields_at(1) [OF r(1, 2)] .
  obtain after where o: "open_sealed_header V (Key V uid) first rest =
      Inr ((header_fields r hr, address @ hr_padding hr @ be32 (fnv32a (header_fields r hr @ address @ hr_padding hr)) @ []), after)"
    and after: "\<And>left. after left = body"
    using opened(1) header len by auto
  have "take 16 first = AuthID V (Key V uid) time (hr_auth hr)" using opened(2) header len by simp
  then have found: "vmess_find_user V fresh now s (take 16 first) = Inr (u, None)"
    using id_accepted [OF ok(1) _ user(1)] dial(3) by (simp add: random_ok_def)
  have mapped: "map_of (ms_user_key (vt_users s)) u = Some uid" using user(1) by (simp add: accepts_id_def Let_def)
  show ?thesis
    using connection_made [where onAuthenticated = onAuthenticated, OF first_read [OF wire(2), of s rest] found mapped user(2) _ dial(1-3) cl(2) dial(4) ok(2)
        cl(3) [unfolded r_def] read, where ?left = "[]", unfolded option.case, folded r_def, OF o] after by simp
qed

lemma new_client:
  assumes "vmess_NewClient L V goarch userId security alterId gp al = Inr cl"
  shows "vc_key cl = Key V (service_uuid L userId)" "vc_alter_id cl = alterId" "known_security (vc_security cl)" "alterId > 0 \<Longrightarrow> vc_alter_key cl = string_bytes (ul_alter_id L (service_uuid L userId))"
  using assms by (auto simp: vmess_NewClient_def known_security_def AutoSecurityType_def rbind_eq_Inr_iff Let_def split: if_splits)

text \<open>A connection of the service with the keys, the options and the response byte of one of a client.\<close>

definition answers :: "raw_client_conn \<Rightarrow> vmess_conn \<Rightarrow> bool" where
  "answers c sn \<longleftrightarrow> sn_legacy sn = (vc_alter_id (rc_client c) > 0) \<and> sn_key sn = rc_key c \<and> sn_nonce sn = rc_nonce c \<and> sn_response sn = rc_response c \<and>
     sn_option sn = rc_option c \<and> sn_security sn = vc_security (rc_client c)"

text \<open>C15: A client reaches its service. When a client with the id of a user writes data to a connection it has dialled, the service that reads it accepts the request as this user and
  for the destination and command of the client, and the reader it makes for the body gives back exactly the bytes written. It does so however the bytes are
  split over reads, if the first one returns the least a header takes, whatever the random bytes are, and for clocks at most two minutes apart.\<close>

theorem vmess_client_reaches:
  assumes ok: "ciphers_ok V" "headers_ok V" "skip_ok W" "reads_back W destination" "wl_len W destination \<le> 259"
    and new: "vmess_NewClient L V goarch userId security alterId gp al = Inr cl" "alterId \<le> 0"
    and user: "accepts_id V s fresh now u (service_uuid L userId) time (hr_auth hr)" "onAuthenticated u = None"
    and dial: "length key = 16" "length nonce = 16" "random_ok hr" "command \<in> {CommandTCP, CommandUDP, CommandMux}"
    and sends: "client_writes V W rnd time hr (vmess_DialEarlyConn cl key nonce command destination) ps = Inr c" "writes_ok cl command ps"
    and wire: "first @ rest = sent_bytes V c" "aeadMinHeaderLen \<le> length first"
  shows "\<exists>sn. vmess_NewConnection V W fresh onAuthenticated now s first rest = Inr sn \<and> sn_user sn = u \<and> sn_command sn = command \<and>
    sn_destination sn = expected_destination command destination \<and> received V sn (concat ps) \<and> answers (raw_client_conn.truncate c) sn"
proof -
  let ?r = "dialRaw cl key nonce command destination"
  note cl = new_client(1) [OF new(1)] new(2) [folded new_client(2) [OF new(1)]] new_client(3) [OF new(1)]
  have "ps \<noteq> []" "list_all (\<lambda>p. p \<noteq> []) ps" using sends(2) by (auto simp: writes_ok_def list_all_iff)
  then obtain b limited bs b' where w: "CreateWriter V key nonce key nonce (vc_security cl) (rc_option ?r) = Inr (b, limited)" "vmess_write rnd limited b ps = (bs, b')"
    and sent: "sent_bytes V c = seal_header V W time ?r hr @ StreamWriter_Write V key nonce (vc_security cl) bs" and c: "raw_client_conn.truncate c = ?r\<lparr>rc_response := hr_response hr\<rparr>"
    using client_sends [OF sends(1)] cl(2) by (metis Inr_inject linorder_not_less)
  from sealed_request_handled [where onAuthenticated = onAuthenticated, OF ok(2-5) cl(1) known_security_small [OF cl(3)] dialled_option [OF cl(3)] user dial wire(1) [unfolded sent] wire(2),
      unfolded created_same [OF w(1)] rbind_simps]
  obtain sn where sn: "vmess_NewConnection V W fresh onAuthenticated now s first rest = Inr (sn\<lparr>sn_reader := b\<rparr>)" "sn_user sn = u" "sn_command sn = command"
    "sn_destination sn = expected_destination command destination" "sn_key sn = key" "sn_nonce sn = nonce" "sn_security sn = vc_security cl"
    "sn_input sn = StreamWriter_Write V key nonce (vc_security cl) bs" "\<not> sn_legacy sn" "sn_response sn = hr_response hr" "sn_option sn = rc_option ?r"
    by blast
  have "received V (sn\<lparr>sn_reader := b\<rparr>) (concat ps)"
    using sn writes_fit [OF w(1) _ sends(2)] by (intro received_all [OF ok(1) w]) simp_all
  moreover have "answers (raw_client_conn.truncate c) (sn\<lparr>sn_reader := b\<rparr>)" using sn cl(2) by (simp add: answers_def c dialled)
  ultimately show ?thesis using sn by auto
qed

lemma legacy_header_opened:
  assumes ok: "ciphers_ok V" "headers_ok V" and "38 \<le> length header"
  shows "\<exists>zs after. open_legacy_header V key t (vb_cfb_encrypt V key (time_hash V (of_int t)) header @ body) = Inr ((take 38 header, drop 38 header @ zs), after) \<and> after zs = body"
proof -
  let ?enc = "vb_cfb_encrypt V key (time_hash V (of_int t)) header"
  obtain zs where zs: "vb_cfb_decrypt V key (time_hash V (of_int t)) (?enc @ body) = header @ zs" "length zs = length body"
    using ok(1) unfolding ciphers_ok_def by blast
  have "length ?enc = length header" using ok(2) by (simp add: headers_ok_def)
  then show ?thesis using assms(3) zs
    by (intro exI [of _ zs] exI [of _ "\<lambda>left. drop (length (header @ zs) - length left) (?enc @ body)"]) (simp add: open_legacy_header_def read_full_def)
qed

text \<open>A service that knows the authentication block of a legacy user, and no key that fits it.\<close>

definition accepts_legacy :: "vmess_libs \<Rightarrow> vmess_state \<Rightarrow> user_identity \<Rightarrow> string \<Rightarrow> byte list \<Rightarrow> int \<Rightarrow> bool" where
  "accepts_legacy V s u uid authId time \<longleftrightarrow>
     map_of (ms_user_key (vt_users s)) u = Some uid \<and> list_all (\<lambda>(_, k). decode_id V authId k = None) (ms_user_key (vt_users s)) \<and>
     map_option (\<lambda>e. (le_user e, le_time e)) (map_of (vt_alter_map s) authId) = Some (u, time)"

lemma legacy_found:
  assumes "accepts_legacy V s u uid authId time"
  shows "vmess_find_user V fresh now s authId = Inr (u, Some time)"
proof -
  have "vmess_authenticate decode fresh' now users = Inl ErrBadRequest" if "list_all (\<lambda>(_, k). decode k = None) users" for decode fresh' and users :: "(user_identity, string) gomap"
    using that by (induction users) auto
  then show ?thesis using assms by (auto simp: accepts_legacy_def vmess_find_user_def)
qed

lemma legacy_request_handled:
  fixes cl key nonce command destination
  defines "r \<equiv> dialRaw cl key nonce command destination"
  assumes ok: "ciphers_ok V" "headers_ok V" "skip_ok W" "reads_back W destination"
    and cl: "vc_key cl = Key V uid" "known_security (vc_security cl)"
    and user: "accepts_legacy V s u uid (vb_hmac_md5 V (vc_alter_key cl) (be64 (of_int time))) time" "onAuthenticated u = None"
    and dial: "length key = 16" "length nonce = 16" "random_ok hr" "command \<in> {CommandTCP, CommandUDP, CommandMux}"
    and h: "legacy_header V W time r hr = Inr header" and wire: "first @ rest = header @ body" "aeadMinHeaderLen \<le> length first"
  shows "\<exists>sn. vmess_NewConnection V W fresh onAuthenticated now s first rest =
      rbind (CreateReader V key nonce key nonce (vc_security cl) (rc_option r)) (\<lambda>reader. Inr (sn\<lparr>sn_reader := reader\<rparr>)) \<and> sn_user sn = u \<and> sn_legacy sn \<and> sn_command sn = command \<and>
    sn_destination sn = expected_destination command destination \<and> sn_key sn = key \<and> sn_nonce sn = nonce \<and> sn_response sn = hr_response hr \<and>
    sn_option sn = rc_option r \<and> sn_security sn = vc_security cl \<and> sn_input sn = body"
proof -
  let ?id = "vb_hmac_md5 V (vc_alter_key cl) (be64 (of_int time))"
  have r: "length (rc_nonce r) = 16" "length (rc_key r) = 16" "reads_back W (rc_destination r)" using dial ok(4) by (simp_all add: r_def dialled)
  obtain address where enc: "encodeHeader W r hr = (header_fields r hr @ address @ hr_padding hr @ be32 (fnv32a (header_fields r hr @ address @ hr_padding hr)), None)"
    and read: "\<And>rest. (if command \<noteq> CommandMux then wl_read W (address @ rest) else Inr (no_destination, address @ rest)) = Inr (expected_destination command destination, rest)"
    by (rule encoded_header [OF r, of hr, unfolded r_def dialled, folded r_def]) (rule that)
  let ?h = "header_fields r hr @ address @ hr_padding hr @ be32 (fnv32a (header_fields r hr @ address @ hr_padding hr))"
  have fixed: "length (header_fields r hr) = 38" using header_fields_at(1) [OF r(1, 2)] .
  have header: "header = ?id @ vb_cfb_encrypt V (Key V uid) (time_hash V (of_int time)) ?h" using h enc cl(1) by (simp add: legacy_header_def r_def dialled)
  have id: "length ?id = 16" using ok(2) by (simp add: headers_ok_def)
  have long: "16 \<le> length first" using wire(2) by (simp add: aeadMinHeaderLen_def)
  have split: "take 16 first = ?id" "drop 16 first @ rest = vb_cfb_encrypt V (Key V uid) (time_hash V (of_int time)) ?h @ body"
    using wire(1) [unfolded header, THEN arg_cong, of "take 16"] wire(1) [unfolded header, THEN arg_cong, of "drop 16"] id long by simp_all
  obtain zs after where o: "open_legacy_header V (Key V uid) time (drop 16 first @ rest) =
      Inr ((header_fields r hr, address @ hr_padding hr @ be32 (fnv32a (header_fields r hr @ address @ hr_padding hr)) @ zs), after)" and after: "after zs = body"
    using legacy_header_opened [OF ok(1, 2), of ?h "Key V uid" time body] fixed unfolding split(2) by auto
  have mapped: "map_of (ms_user_key (vt_users s)) u = Some uid" using user(1) by (simp add: accepts_legacy_def)
  have found: "vmess_find_user V fresh now s (take 16 first) = Inr (u, Some time)" using legacy_found user(1) unfolding split(1) .
  show ?thesis
    using connection_made [where onAuthenticated = onAuthenticated, OF first_read [OF wire(2), of s rest] found mapped user(2) _ dial(1-3) known_security_small [OF cl(2)] dial(4) ok(3)
        dialled_option [OF cl(2)] read, where ?left = zs, unfolded option.case, folded r_def, OF o] after by simp
qed

text \<open>A client of the legacy protocol reaches its service. If the service has its authentication block in its table for a user and that time, it accepts the request as this user, for
  the destination and command of the client, and the reader it makes for the body gives back exactly the bytes written.\<close>

theorem vmess_legacy_reaches:
  assumes ok: "ciphers_ok V" "headers_ok V" "skip_ok W" "reads_back W destination"
    and new: "vmess_NewClient L V goarch userId security alterId gp al = Inr cl" "alterId > 0"
    and user: "accepts_legacy V s u (service_uuid L userId) (legacy_hash V (ul_alter_id L (service_uuid L userId)) time) time" "onAuthenticated u = None"
    and dial: "length key = 16" "length nonce = 16" "random_ok hr" "command \<in> {CommandTCP, CommandUDP, CommandMux}"
    and sends: "client_writes V W rnd time hr (vmess_DialEarlyConn cl key nonce command destination) ps = Inr c" "writes_ok cl command ps"
    and wire: "first @ rest = sent_bytes V c" "aeadMinHeaderLen \<le> length first"
  shows "\<exists>sn. vmess_NewConnection V W fresh onAuthenticated now s first rest = Inr sn \<and> sn_user sn = u \<and> sn_command sn = command \<and>
    sn_destination sn = expected_destination command destination \<and> received V sn (concat ps) \<and> answers (raw_client_conn.truncate c) sn"
proof -
  let ?r = "dialRaw cl key nonce command destination"
  note cl = new_client(1) [OF new(1)] new(2) [folded new_client(2) [OF new(1)]] new_client(3) [OF new(1)]
  have legacy: "accepts_legacy V s u (service_uuid L userId) (vb_hmac_md5 V (vc_alter_key cl) (be64 (of_int time))) time"
    using user(1) new_client(4) [OF new] by (simp add: legacy_hash_def)
  have "ps \<noteq> []" "list_all (\<lambda>p. p \<noteq> []) ps" using sends(2) by (auto simp: writes_ok_def list_all_iff)
  then obtain header b limited bs b' where w: "CreateWriter V key nonce key nonce (vc_security cl) (rc_option ?r) = Inr (b, limited)" "vmess_write rnd limited b ps = (bs, b')"
    and h: "legacy_header V W time ?r hr = Inr header" and sent: "sent_bytes V c = header @ StreamWriter_Write V key nonce (vc_security cl) bs"
    and c: "raw_client_conn.truncate c = ?r\<lparr>rc_response := hr_response hr\<rparr>"
    using client_sends [OF sends(1)] cl(2) by metis
  from legacy_request_handled [where onAuthenticated = onAuthenticated, OF ok cl(1, 3) legacy user(2) dial h wire(1) [unfolded sent] wire(2), unfolded created_same [OF w(1)] rbind_simps]
  obtain sn where sn: "vmess_NewConnection V W fresh onAuthenticated now s first rest = Inr (sn\<lparr>sn_reader := b\<rparr>)" "sn_user sn = u" "sn_command sn = command"
    "sn_destination sn = expected_destination command destination" "sn_key sn = key" "sn_nonce sn = nonce" "sn_security sn = vc_security cl"
    "sn_input sn = StreamWriter_Write V key nonce (vc_security cl) bs" "sn_legacy sn" "sn_response sn = hr_response hr" "sn_option sn = rc_option ?r"
    by blast
  have "received V (sn\<lparr>sn_reader := b\<rparr>) (concat ps)"
    using sn writes_fit [OF w(1) _ sends(2)] by (intro received_all [OF ok(1) w]) simp_all
  moreover have "answers (raw_client_conn.truncate c) (sn\<lparr>sn_reader := b\<rparr>)" using sn cl(2) by (simp add: answers_def c dialled)
  ultimately show ?thesis using sn by auto
qed

text \<open>C31: A user can stop the program. A request of an authenticated user whose header names a security type the service does not know makes it panic: the four bits are used as they are.\<close>

theorem unknown_security_panics:
  assumes ok: "headers_ok V" "skip_ok W" "reads_back W destination" "wl_len W destination \<le> 259"
    and cl: "vc_key cl = Key V uid" "vc_security cl < 16" "\<not> known_security (vc_security cl)"
    and user: "accepts_id V s fresh now u uid time (hr_auth hr)" "onAuthenticated u = None"
    and dial: "length key = 16" "length nonce = 16" "random_ok hr" "command \<in> {CommandTCP, CommandMux}"
    and wire: "first @ rest = seal_header V W time (dialRaw cl key nonce command destination) hr" "aeadMinHeaderLen \<le> length first"
  shows "vmess_NewConnection V W fresh onAuthenticated now s first rest = Inl (EPanic ''unexpected security type'')"
proof -
  have panic: "CreateReader V key nonce key nonce (vc_security cl) option = Inl (EPanic ''unexpected security type'')" for option
    using cl(3) by (simp add: CreateReader_def known_security_def)
  have command: "\<not> (command = CommandUDP \<and> rc_option (dialRaw cl key nonce command destination) = 0)" "command \<in> {CommandTCP, CommandUDP, CommandMux}"
    using dial(4) by (auto simp: CommandUDP_def CommandTCP_def CommandMux_def)
  have "first @ rest = seal_header V W time (dialRaw cl key nonce command destination) hr @ []" using wire(1) by simp
  from sealed_request_handled [where onAuthenticated = onAuthenticated, OF ok cl(1, 2) command(1) user dial(1-3) command(2) this wire(2), unfolded panic rbind_simps]
  show ?thesis by blast
qed

section \<open>Responses arrive\<close>

lemma response_header_read:
  assumes ok: "ciphers_ok V" "headers_ok V" and same: "answers c sn"
    and cut: "\<not> (sn_legacy sn \<and> sn_security sn = SecurityTypeLegacy \<and> sn_option sn AND RequestOptionChunkStream = 0)"
    and w: "response_writer V sn = Inr (b, limited)"
  shows "readResponse V c (writeResponse V sn bs) = Inr (b, bs)"
proof -
  let ?key = "response_keys V (sn_legacy sn) (sn_key sn)" let ?nonce = "response_keys V (sn_legacy sn) (sn_nonce sn)" let ?h = "[sn_response sn, sn_option sn, 0, 0]"
  have c: "rc_key c = sn_key sn" "rc_nonce c = sn_nonce sn" "rc_response c = sn_response sn" "rc_option c = sn_option sn" "vc_security (rc_client c) = sn_security sn"
    "(vc_alter_id (rc_client c) > 0) = sn_legacy sn" using same by (simp_all add: answers_def)
  have reader: "CreateReader V (sn_key sn) (sn_nonce sn) ?key ?nonce (sn_security sn) (sn_option sn) = Inr b"
    using created_same w unfolding response_writer_def by blast
  have body: "StreamReader_Read V k n security (StreamWriter_Write V k n security bs) = bs" for k n security
    using stream_round_trip [OF ok(1), of k n security bs "[]"] by auto
  have cfb: "length (vb_cfb_encrypt V k n xs) = length xs" for k n xs using ok(2) by (simp add: headers_ok_def)
  have dec: "\<exists>zs. vb_cfb_decrypt V k n (vb_cfb_encrypt V k n xs @ ys) = xs @ zs \<and> length zs = length ys" for k n xs ys
    using ok(1) unfolding ciphers_ok_def by blast
  consider (sealed) "\<not> sn_legacy sn" | (stream) "sn_legacy sn" "sn_security sn = SecurityTypeLegacy" | (plain) "sn_legacy sn" "sn_security sn \<noteq> SecurityTypeLegacy" by blast
  then show ?thesis
  proof cases
    case sealed
    then show ?thesis using reader
      by (simp add: readResponse_def writeResponse_def c Let_def read_full_def sealed_ok [OF ok(2)] body CipherOverhead_def)
  next
    case stream
    have "vb_cfb_decrypt V ?key ?nonce (vb_cfb_encrypt V ?key ?nonce (?h @ bs)) = ?h @ bs" using dec [of ?key ?nonce "?h @ bs" "[]"] by auto
    then show ?thesis using stream cut reader
      by (simp add: readResponse_def writeResponse_def c Let_def read_full_def discard_bytes_def rfail_if_def)
  next
    case plain
    let ?body = "StreamWriter_Write V ?key ?nonce (sn_security sn) bs"
    obtain zs where "vb_cfb_decrypt V ?key ?nonce (vb_cfb_encrypt V ?key ?nonce ?h @ ?body) = ?h @ zs" using dec by blast
    moreover have "?body = bs" using plain by (simp add: StreamWriter_Write_def)
    ultimately show ?thesis using plain reader
      by (simp add: readResponse_def writeResponse_def c Let_def read_full_def discard_bytes_def rfail_if_def cfb)
  qed
qed

text \<open>C16: The response reaches the client. What the service writes to a connection is read by the client that opened it, after a response header it accepts: the same bytes, chunk by chunk,
  for every security type and both protocols. The exception is a legacy body that is not cut into chunks.\<close>

theorem vmess_response_arrives:
  assumes ok: "ciphers_ok V" "headers_ok V" and same: "answers c sn"
    and cut: "\<not> (sn_legacy sn \<and> sn_security sn = SecurityTypeLegacy \<and> sn_option sn AND RequestOptionChunkStream = 0)"
    and w: "response_writer V sn = Inr (b, limited)" "vmess_write rnd limited b ps = (bs, b')"
    and ps: "list_all (\<lambda>p. p \<noteq> [] \<and> (limited \<or> length p \<le> WriteChunkSize)) ps"
  shows "readResponse V c (writeResponse V sn bs) = Inr (b, bs) \<and>
    (if b = RawBody then bs = concat ps else \<exists>qs. concat qs = concat ps \<and> read_chunks body_read b ReadChunkSize (length qs) bs = Inr ((qs, []), b'))"
proof -
  note w' = w(1) [unfolded response_writer_def]
  have "bs = concat ps" if "b = RawBody" using written_raw w' w(2) that by blast
  moreover have "\<exists>qs. concat qs = concat ps \<and> read_chunks body_read b ReadChunkSize (length qs) bs = Inr ((qs, []), b')" if "b \<noteq> RawBody"
    using written_chunks [OF ok(1) w' that ps w(2), of "[]"] by (metis append_Nil2)
  ultimately show ?thesis using response_header_read [OF ok same cut w(1)] by simp
qed

section \<open>The window of legacy keys\<close>

lemma keys_update: "fst ` set (AList.update k v m) = insert k (fst ` set m)"
  by (induction m) auto

lemma keys_fold_update: "fst ` set (fold (\<lambda>x. AList.update (f x) (g x)) xs m) = f ` set xs \<union> fst ` set m"
  by (induction xs arbitrary: m) (auto simp: keys_update)

lemma keys_legacy_ids:
  "fst ` set (legacy_ids V u b e i ids m) = {legacy_hash V a t | a t. a \<in> set ids \<and> b \<le> t \<and> t \<le> e} \<union> fst ` set m"
proof (induction ids arbitrary: i m)
  case (Cons a ids)
  have "fst ` set (legacy_ids V u b e i (a # ids) m) = {legacy_hash V a t | a t. a \<in> set ids \<and> b \<le> t \<and> t \<le> e} \<union> (legacy_hash V a ` {b..e} \<union> fst ` set m)"
    by (simp add: Cons.IH keys_fold_update)
  then show ?case by (auto; blast)
qed simp

lemma keys_legacy_users:
  "fst ` set (fold (\<lambda>(u, ids). legacy_ids V u (b u) e 0 ids) users m) = {legacy_hash V a t | u ids a t. (u, ids) \<in> set users \<and> a \<in> set ids \<and> b u \<le> t \<and> t \<le> e} \<union> fst ` set m"
proof (induction users arbitrary: m)
  case (Cons x users)
  obtain u ids where x: "x = (u, ids)" by fastforce
  have "fst ` set (fold (\<lambda>(u, ids). legacy_ids V u (b u) e 0 ids) (x # users) m) =
    {legacy_hash V a t | u ids a t. (u, ids) \<in> set users \<and> a \<in> set ids \<and> b u \<le> t \<and> t \<le> e} \<union> ({legacy_hash V a t | a t. a \<in> set ids \<and> b u \<le> t \<and> t \<le> e} \<union> fst ` set m)"
    by (simp add: Cons.IH x keys_legacy_ids)
  then show ?case unfolding x by auto
qed simp

lemma update_times: "map_of (fold (\<lambda>(u, _). AList.update u t) users m) v = (if v \<in> fst ` set users then Some t else map_of m v)"
  by (induction users arbitrary: m) (auto simp: update_conv')

text \<open>A block made with an alternative id at a time is in the table.\<close>

definition legacy_accepted :: "vmess_libs \<Rightarrow> vmess_state \<Rightarrow> string \<Rightarrow> int \<Rightarrow> bool" where
  "legacy_accepted V s alterId t \<longleftrightarrow> map_of (vt_alter_map s) (legacy_hash V alterId t) \<noteq> None"

definition hashes_differ :: "vmess_libs \<Rightarrow> vmess_service \<Rightarrow> bool" where
  "hashes_differ V users \<longleftrightarrow>
     (\<forall>(u, ids) \<in> set (ms_alter_ids users). \<forall>(u', ids') \<in> set (ms_alter_ids users). \<forall>a \<in> set ids. \<forall>a' \<in> set ids'. \<forall>t t'.
        \<bar>t\<bar> < 2 ^ 62 \<and> \<bar>t'\<bar> < 2 ^ 62 \<and> legacy_hash V a t = legacy_hash V a' t' \<longrightarrow> u = u' \<and> t = t')"

lemma generated_window:
  assumes d: "hashes_differ V (vt_users s)" and u: "(u, ids) \<in> set (ms_alter_ids (vt_users s))" "a \<in> set ids"
    and range: "\<bar>t\<bar> < 2 ^ 62" "\<bar>now\<bar> < 2 ^ 61" "\<And>v. \<bar>begin_sec now (vt_update_time s) v\<bar> < 2 ^ 62"
  shows "legacy_accepted V (generateLegacyKeysLocked V now s) a t \<longleftrightarrow> begin_sec now (vt_update_time s) u \<le> t \<and> t \<le> now + 120"
proof -
  let ?b = "begin_sec now (vt_update_time s)"
  have "legacy_accepted V (generateLegacyKeysLocked V now s) a t \<longleftrightarrow>
    (\<exists>u' ids' a' t'. legacy_hash V a t = legacy_hash V a' t' \<and> (u', ids') \<in> set (ms_alter_ids (vt_users s)) \<and> a' \<in> set ids' \<and> ?b u' \<le> t' \<and> t' \<le> now + 120)"
    by (simp add: legacy_accepted_def generateLegacyKeysLocked_def Let_def map_of_eq_None_iff keys_legacy_users CacheDurationSeconds_def) blast
  also have "\<dots> \<longleftrightarrow> ?b u \<le> t \<and> t \<le> now + 120"
  proof
    assume "\<exists>u' ids' a' t'. legacy_hash V a t = legacy_hash V a' t' \<and> (u', ids') \<in> set (ms_alter_ids (vt_users s)) \<and> a' \<in> set ids' \<and> ?b u' \<le> t' \<and> t' \<le> now + 120"
    then obtain u' ids' a' t' where h: "legacy_hash V a t = legacy_hash V a' t'" "(u', ids') \<in> set (ms_alter_ids (vt_users s))" "a' \<in> set ids'" "?b u' \<le> t'" "t' \<le> now + 120"
      by blast
    have "\<bar>t'\<bar> < 2 ^ 62" using h(4, 5) range(2) range(3) [of u'] by simp
    then have "u = u' \<and> t = t'" using d u h(1-3) range(1) unfolding hashes_differ_def by blast
    then show "?b u \<le> t \<and> t \<le> now + 120" using h(4, 5) by simp
  qed (use u in blast)
  finally show ?thesis .
qed

text \<open>C32: The window of the legacy protocol. Right after the users have been set, the service accepts blocks whose time is at most two minutes off, in both directions. After the next
  refresh it still accepts those up to two minutes ahead, but of those in the past only the ones since the refresh before: a client whose clock is
  behind by more than the time between two refreshes is refused.\<close>

theorem legacy_window:
  assumes d: "hashes_differ V users" and u: "(u, ids) \<in> set (ms_alter_ids users)" "a \<in> set ids" and times: "120 \<le> t0" "t0 \<le> t1" "t1 < 2 ^ 61" "\<bar>t\<bar> < 2 ^ 62"
  shows "(legacy_accepted V (vmess_commit_users V t0 users s) a t \<longleftrightarrow> t0 - 120 \<le> t \<and> t \<le> t0 + 120) \<and>
    (legacy_accepted V (generateLegacyKeysLocked V t1 (vmess_commit_users V t0 users s)) a t \<longleftrightarrow> max t0 (t1 - 120) \<le> t \<and> t \<le> t1 + 120)"
proof
  let ?s = "s\<lparr>vt_users := users, vt_update_time := []\<rparr>" let ?s1 = "vmess_commit_users V t0 users s"
  have b0: "begin_sec t0 (vt_update_time ?s) v = t0 - 120" for v using times by (simp add: begin_sec_def CacheDurationSeconds_def)
  show "legacy_accepted V ?s1 a t \<longleftrightarrow> t0 - 120 \<le> t \<and> t \<le> t0 + 120"
    unfolding vmess_commit_users_def using generated_window [of V ?s u ids a t t0] d u times by (simp only: b0) simp
  have s1: "vt_users ?s1 = users" "map_of (vt_update_time ?s1) v = (if v \<in> fst ` set (ms_alter_ids users) then Some t0 else None)" for v
    by (simp_all add: vmess_commit_users_def generateLegacyKeysLocked_def Let_def update_times)
  have b1: "begin_sec t1 (vt_update_time ?s1) u = max t0 (t1 - 120)" using u(1) times by (force simp: begin_sec_def s1 CacheDurationSeconds_def image_iff)
  have "\<bar>begin_sec t1 (vt_update_time ?s1) v\<bar> < 2 ^ 62" for v using times by (simp add: begin_sec_def s1 CacheDurationSeconds_def)
  then show "legacy_accepted V (generateLegacyKeysLocked V t1 ?s1) a t \<longleftrightarrow> max t0 (t1 - 120) \<le> t \<and> t \<le> t1 + 120"
    using generated_window [of V ?s1 u ids a t t1] d u times unfolding s1 b1 by simp
qed

section \<open>Instances\<close>

lemma seal_header_length:
  assumes "headers_ok V" "random_ok hr" "length (rc_nonce c) = 16" "length (rc_key c) = 16" "reads_back W (rc_destination c)"
  shows "aeadMinHeaderLen \<le> length (seal_header V W now c hr)"
proof -
  obtain address where "encodeHeader W c hr = (header_fields c hr @ address @ hr_padding hr @ be32 (fnv32a (header_fields c hr @ address @ hr_padding hr)), None)"
    by (rule encoded_header [OF assms(3-5), of hr]) (rule that)
  then show ?thesis using assms(2) auth_id(1) [OF assms(1)] header_fields_at(1) [OF assms(3, 4), of hr]
    by (simp add: seal_header_def Let_def sealed_ok [OF assms(1)] random_ok_def aeadMinHeaderLen_def CipherOverhead_def)
qed

lemma demo_headers: "headers_ok demo_vmess" "skip_ok demo_wire" "wl_len demo_wire demo_destination \<le> 259"
  by (auto simp: headers_ok_def demo_vmess_def skip_ok_def demo_wire_def read_full_def demo_destination_def min_def)

definition demo_vmess_client :: "byte \<Rightarrow> int \<Rightarrow> vmess_client" where
  "demo_vmess_client security alterId = \<lparr>vc_key = Key demo_vmess demo_uuid, vc_security = security, vc_global_padding = True, vc_authenticated_length = False,
     vc_alter_id = alterId, vc_alter_key = (if alterId > 0 then string_bytes (ul_alter_id demo_user_libs demo_uuid) else replicate 16 0)\<rparr>"

lemma demo_new_client:
  "vmess_NewClient demo_user_libs demo_vmess ''amd64'' demo_uuid ''auto'' 0 True False = Inr (demo_vmess_client SecurityTypeAes128Gcm 0)"
  "vmess_NewClient demo_user_libs demo_vmess ''amd64'' demo_uuid ''none'' 1 True False = Inr (demo_vmess_client SecurityTypeNone 1)"
  "service_uuid demo_user_libs demo_uuid = demo_uuid"
  by (simp_all add: vmess_NewClient_def demo_vmess_client_def AutoSecurityType_def service_uuid_def demo_user_libs_def Let_def)

definition demo_random :: handshake_random where
  "demo_random = \<lparr>hr_padding = [1, 2], hr_response = 5, hr_auth = [1, 2, 3, 4], hr_nonce = replicate 8 6, hr_partial = [], hr_junk = []\<rparr>"

definition demo_state :: "vmess_state" where
  "demo_state = \<lparr>vt_users = \<lparr>ms_user_key = [(demo_identity, demo_uuid)], ms_alter_ids = [(demo_identity, [demo_uuid])]\<rparr>, vt_update_time = [], vt_alter_map = [], vt_disable_protect = False\<rparr>"

definition demo_dial :: "vmess_client \<Rightarrow> vmess_client_conn" where
  "demo_dial cl = vmess_DialEarlyConn cl (replicate 16 1) (replicate 16 2) CommandTCP demo_destination"

lemma demo_accepts:
  "accepts_id demo_vmess demo_state (\<lambda>_. True) 1060 demo_identity demo_uuid 1000 (hr_auth demo_random)"
  "accepts_id demo_vmess demo_state (\<lambda>_. True) 1060 demo_identity (service_uuid demo_user_libs demo_uuid) 1000 (hr_auth demo_random)"
  by (simp_all add: accepts_id_def Let_def demo_state_def only_decoded_def demo_new_client(3))

lemma demo_random: "random_ok demo_random" "length (replicate 16 (1 :: byte)) = 16" "length (replicate 16 (2 :: byte)) = 16" "CommandTCP \<in> {CommandTCP, CommandUDP, CommandMux}"
  "CommandTCP \<in> {CommandTCP, CommandMux}"
  by (simp_all add: random_ok_def demo_random_def)

lemma known_writer: "known_security security \<Longrightarrow> \<exists>w. CreateWriter V rk rn k n security option = Inr w"
  by (auto simp: known_security_def CreateWriter_def)

lemma demo_writes:
  assumes "known_security security" "p \<noteq> []"
  shows "\<exists>c. client_writes demo_vmess demo_wire (\<lambda>_. 0) 1000 demo_random (demo_dial (demo_vmess_client security alterId)) [p] = Inr c"
proof -
  let ?d = "demo_dial (demo_vmess_client security alterId)"
  have d: "vc_security (rc_client ?d) = security" "cc_writer ?d = None"
    by (simp_all add: demo_dial_def vmess_DialEarlyConn_def raw_client_conn.defs dialRaw_def demo_vmess_client_def Let_def)
  obtain w where w: "CreateWriter demo_vmess (rc_key ?d) (rc_nonce ?d) (rc_key ?d) (rc_nonce ?d) security (rc_option ?d) = Inr w"
    using known_writer [OF assms(1)] by blast
  have "\<exists>h. legacy_header demo_vmess demo_wire t c demo_random = Inr h" for t c by (simp add: legacy_header_def encodeHeader_def demo_wire_def Let_def)
  then obtain h where h: "(if vc_alter_id (rc_client ?d) > 0 then legacy_header demo_vmess demo_wire 1000 (raw_client_conn.truncate ?d) demo_random
      else Inr (seal_header demo_vmess demo_wire 1000 (raw_client_conn.truncate ?d) demo_random)) = Inr h"
    by (cases "vc_alter_id (rc_client ?d) > 0") auto
  show ?thesis using assms(2) w by (simp add: clientConn_Write_def d writeHandshake_def h Let_def)
qed

text \<open>Data that was sent and its least length.\<close>

lemma demo_long:
  assumes "client_writes demo_vmess demo_wire (\<lambda>_. 0) 1000 demo_random (demo_dial (demo_vmess_client SecurityTypeAes128Gcm 0)) [[7]] = Inr c"
  shows "aeadMinHeaderLen \<le> length (sent_bytes demo_vmess c)"
proof -
  let ?r = "dialRaw (demo_vmess_client SecurityTypeAes128Gcm 0) (replicate 16 1) (replicate 16 2) CommandTCP demo_destination"
  have "\<exists>xs. sent_bytes demo_vmess c = seal_header demo_vmess demo_wire 1000 ?r demo_random @ xs"
    using client_sends [OF assms [unfolded demo_dial_def]] by (simp add: demo_vmess_client_def) metis
  moreover have "aeadMinHeaderLen \<le> length (seal_header demo_vmess demo_wire 1000 ?r demo_random)"
    using seal_header_length [OF demo_headers(1) demo_random(1), of ?r demo_wire] demo_libs(2) by (simp add: dialled)
  ultimately show ?thesis by auto
qed

theorem vmess_client_reaches_witness:
  "\<exists>c sn. client_writes demo_vmess demo_wire (\<lambda>_. 0) 1000 demo_random (demo_dial (demo_vmess_client SecurityTypeAes128Gcm 0)) [[7]] = Inr c \<and>
     vmess_NewConnection demo_vmess demo_wire (\<lambda>_. True) (\<lambda>_. None) 1060 demo_state (sent_bytes demo_vmess c) [] = Inr sn \<and> sn_user sn = demo_identity \<and>
     sn_destination sn = demo_destination \<and> received demo_vmess sn [7]"
proof -
  let ?cl = "demo_vmess_client SecurityTypeAes128Gcm 0"
  obtain c where c: "client_writes demo_vmess demo_wire (\<lambda>_. 0) 1000 demo_random (demo_dial ?cl) [[7]] = Inr c"
    using demo_writes [of SecurityTypeAes128Gcm "[7]" 0] by (auto simp: known_security_def)
  have ps: "writes_ok ?cl CommandTCP [[7]]" by (simp add: writes_ok_def demo_vmess_client_def SecurityTypeAes128Gcm_def SecurityTypeNone_def)
  have wire: "sent_bytes demo_vmess c @ [] = sent_bytes demo_vmess c" by simp
  from vmess_client_reaches [where onAuthenticated = "\<lambda>_. None", OF demo_ciphers demo_headers(1, 2) demo_libs(2) demo_headers(3) demo_new_client(1) order_refl
      demo_accepts(2) refl demo_random(2, 3, 1, 4) c [unfolded demo_dial_def] ps wire demo_long [OF c]] c
  show ?thesis by (simp add: expected_destination_def CommandTCP_def CommandMux_def) blast
qed

definition demo_legacy :: vmess_state where
  "demo_legacy = demo_state\<lparr>vt_alter_map := [(legacy_hash demo_vmess (ul_alter_id demo_user_libs demo_uuid) 1000, \<lparr>le_user = demo_identity, le_time = 1000, le_index = 0\<rparr>)]\<rparr>"

lemma demo_legacy:
  "accepts_legacy demo_vmess demo_legacy demo_identity (service_uuid demo_user_libs demo_uuid)
     (legacy_hash demo_vmess (ul_alter_id demo_user_libs (service_uuid demo_user_libs demo_uuid)) 1000) 1000"
  by (simp add: demo_new_client(3), simp add: legacy_hash_def demo_user_libs_def accepts_legacy_def demo_legacy_def demo_state_def decode_id_def demo_vmess_def demo_uuid_def string_bytes_def of_be32_def)

theorem vmess_legacy_reaches_witness:
  "\<exists>c sn. client_writes demo_vmess demo_wire (\<lambda>_. 0) 1000 demo_random (demo_dial (demo_vmess_client SecurityTypeNone 1)) [replicate 100 7] = Inr c \<and>
     vmess_NewConnection demo_vmess demo_wire (\<lambda>_. True) (\<lambda>_. None) 1060 demo_legacy (sent_bytes demo_vmess c) [] = Inr sn \<and> sn_user sn = demo_identity \<and>
     sn_destination sn = demo_destination \<and> received demo_vmess sn (replicate 100 7)"
proof -
  let ?cl = "demo_vmess_client SecurityTypeNone 1" let ?ps = "[replicate 100 7] :: byte list list"
  let ?r = "dialRaw ?cl (replicate 16 1) (replicate 16 2) CommandTCP demo_destination"
  have cl: "vc_security ?cl = SecurityTypeNone" "(0 :: int) < 1" by (simp_all add: demo_vmess_client_def)
  obtain c where c: "client_writes demo_vmess demo_wire (\<lambda>_. 0) 1000 demo_random (demo_dial ?cl) ?ps = Inr c"
    using demo_writes [of SecurityTypeNone "replicate 100 7" 1] by (auto simp: known_security_def)
  have ps: "writes_ok ?cl CommandTCP ?ps" by (simp add: writes_ok_def CommandTCP_def CommandUDP_def)
  have raw: "CreateWriter V rk rn k n SecurityTypeNone (rc_option ?r) = Inr (RawBody, False)" for V rk rn k n
    by (simp add: CreateWriter_def dialRaw_def cl(1) Let_def CommandTCP_def CommandUDP_def)
  have nonempty: "?ps \<noteq> []" "list_all (\<lambda>p. p \<noteq> []) ?ps" by simp_all
  obtain header b limited bs b' where w: "CreateWriter demo_vmess (replicate 16 1) (replicate 16 2) (replicate 16 1) (replicate 16 2) (vc_security ?cl) (rc_option ?r) = Inr (b, limited)"
      "vmess_write (\<lambda>_. 0) limited b ?ps = (bs, b')"
    and sent: "sent_bytes demo_vmess c = header @ StreamWriter_Write demo_vmess (replicate 16 1) (replicate 16 2) (vc_security ?cl) bs"
    by (rule client_sends [OF c [unfolded demo_dial_def] nonempty]) (rule that)
  have "b = RawBody" using w(1) unfolding cl(1) raw by blast
  with w have "bs = concat ?ps" using written_raw by blast
  moreover have "sent_bytes demo_vmess c = header @ bs" unfolding sent cl(1) by (simp add: StreamWriter_Write_def SecurityTypeNone_def SecurityTypeLegacy_def)
  ultimately have "100 \<le> length (sent_bytes demo_vmess c)" by simp
  then have long: "aeadMinHeaderLen \<le> length (sent_bytes demo_vmess c)" by (simp add: aeadMinHeaderLen_def CipherOverhead_def)
  have wire: "sent_bytes demo_vmess c @ [] = sent_bytes demo_vmess c" by simp
  from vmess_legacy_reaches [where onAuthenticated = "\<lambda>_. None" and fresh = "\<lambda>_. True" and now = 1060, OF demo_ciphers demo_headers(1, 2) demo_libs(2) demo_new_client(2) cl(2)
      demo_legacy refl demo_random(2, 3, 1, 4) c [unfolded demo_dial_def] ps wire long] c
  show ?thesis by (simp add: expected_destination_def CommandTCP_def CommandMux_def) blast
qed

theorem unknown_security_panics_witness:
  "vmess_NewConnection demo_vmess demo_wire (\<lambda>_. True) (\<lambda>_. None) 1060 demo_state
     (seal_header demo_vmess demo_wire 1000 (dialRaw (demo_vmess_client 0 0) (replicate 16 1) (replicate 16 2) CommandTCP demo_destination) demo_random) [] =
   Inl (EPanic ''unexpected security type'')"
proof -
  let ?cl = "demo_vmess_client 0 0" let ?r = "dialRaw ?cl (replicate 16 1) (replicate 16 2) CommandTCP demo_destination"
  have cl: "vc_key ?cl = Key demo_vmess demo_uuid" "vc_security ?cl < 16" "\<not> known_security (vc_security ?cl)"
    by (simp_all add: demo_vmess_client_def known_security_def SecurityTypeLegacy_def SecurityTypeAes128Gcm_def SecurityTypeChacha20Poly1305_def SecurityTypeNone_def)
  have long: "aeadMinHeaderLen \<le> length (seal_header demo_vmess demo_wire 1000 ?r demo_random)"
    using seal_header_length [OF demo_headers(1) demo_random(1), of ?r demo_wire] demo_libs(2) by (simp add: dialled)
  show ?thesis
    by (rule unknown_security_panics [where onAuthenticated = "\<lambda>_. None", OF demo_headers(1, 2) demo_libs(2) demo_headers(3) cl demo_accepts(1) refl demo_random(2, 3, 1, 5) append_Nil2 long])
qed

definition demo_answer :: "raw_client_conn \<Rightarrow> vmess_conn" where
  "demo_answer c = \<lparr>sn_user = demo_identity, sn_legacy = (vc_alter_id (rc_client c) > 0), sn_key = rc_key c, sn_nonce = rc_nonce c, sn_response = rc_response c, sn_option = rc_option c,
     sn_security = vc_security (rc_client c), sn_command = rc_command c, sn_destination = rc_destination c, sn_reader = RawBody, sn_read_buffer = False, sn_input = []\<rparr>"

theorem vmess_response_arrives_witness:
  "\<exists>b bs b' qs. response_writer demo_vmess (demo_answer (dialRaw (demo_vmess_client SecurityTypeLegacy 1) [1] [2] CommandTCP demo_destination)) = Inr (b, True) \<and>
     vmess_write (\<lambda>_. 0) True b [[1, 2], [3]] = (bs, b') \<and>
     readResponse demo_vmess (dialRaw (demo_vmess_client SecurityTypeLegacy 1) [1] [2] CommandTCP demo_destination)
       (writeResponse demo_vmess (demo_answer (dialRaw (demo_vmess_client SecurityTypeLegacy 1) [1] [2] CommandTCP demo_destination)) bs) = Inr (b, bs) \<and>
     concat qs = [1, 2, 3] \<and> read_chunks body_read b ReadChunkSize (length qs) bs = Inr ((qs, []), b')"
proof -
  let ?c = "dialRaw (demo_vmess_client SecurityTypeLegacy 1) [1] [2] CommandTCP demo_destination" let ?sn = "demo_answer ?c"
  have same: "answers ?c ?sn" by (simp add: answers_def demo_answer_def)
  have option: "sn_option ?sn = 1" "sn_security ?sn = 1"
    by (simp_all add: demo_answer_def dialRaw_def demo_vmess_client_def Let_def SecurityTypeLegacy_def SecurityTypeNone_def RequestOptionChunkStream_def)
  have cut: "\<not> (sn_legacy ?sn \<and> sn_security ?sn = SecurityTypeLegacy \<and> sn_option ?sn AND RequestOptionChunkStream = 0)" by (simp add: option RequestOptionChunkStream_def)
  have "CreateWriter V rk rn k n 1 1 = Inr (ChecksumBody (plain_codes V n 1), True)" for V rk rn k n
    by (simp add: CreateWriter_def SecurityTypeLegacy_def SecurityTypeNone_def RequestOptionChunkStream_def)
  then obtain b where b: "response_writer demo_vmess ?sn = Inr (b, True)" "b \<noteq> RawBody" unfolding response_writer_def option by blast
  obtain bs b' where w: "vmess_write (\<lambda>_. 0) True b [[1, 2], [3]] = (bs, b')" by fastforce
  have ps: "list_all (\<lambda>p. p \<noteq> [] \<and> (True \<or> length p \<le> WriteChunkSize)) [[1, 2], [3 :: byte]]" by simp
  show ?thesis using vmess_response_arrives [OF demo_ciphers demo_headers(1) same cut b(1) w ps] b w by auto
qed

definition demo_alter :: vmess_service where
  "demo_alter = \<lparr>ms_user_key = [(demo_identity, demo_uuid)], ms_alter_ids = [(demo_identity, [''abc''])]\<rparr>"

lemma demo_hashes: "hashes_differ demo_vmess demo_alter"
proof -
  have "t = t'" if "\<bar>t\<bar> < 2 ^ 62" "\<bar>t'\<bar> < 2 ^ 62" "legacy_hash demo_vmess ''abc'' t = legacy_hash demo_vmess ''abc'' t'" for t t'
  proof -
    have "be64 (of_int t) @ [] = be64 (of_int t') @ []"
      using that(3) [THEN arg_cong, of "take 8"] by (simp add: legacy_hash_def demo_vmess_def)
    then have "(of_int t :: 64 word) = of_int t'" by (metis of_be64_be64)
    then have "sint (of_int t :: 64 word) = sint (of_int t' :: 64 word)" by simp
    then show ?thesis using that(1, 2) by (simp add: signed_of_int signed_take_bit_int_eq_self)
  qed
  then show ?thesis by (auto simp: hashes_differ_def demo_alter_def)
qed

theorem legacy_window_witness:
  "legacy_accepted demo_vmess (vmess_commit_users demo_vmess 1000 demo_alter demo_state) ''abc'' 900 \<and>
   \<not> legacy_accepted demo_vmess (generateLegacyKeysLocked demo_vmess 1010 (vmess_commit_users demo_vmess 1000 demo_alter demo_state)) ''abc'' 995"
  using legacy_window [OF demo_hashes, of demo_identity "[''abc'']" "''abc''" 1000 1010 900 demo_state] legacy_window [OF demo_hashes, of demo_identity "[''abc'']" "''abc''" 1000 1010 995 demo_state]
  by (simp add: demo_alter_def)

end
