(* ===== verification/Vmess_Mux.thy ===== *)
theory Vmess_Mux
  imports Vmess_Header
begin

text \<open>
  Connections with several streams (\<^verbatim>\<open>mux.go\<close> of \<^verbatim>\<open>local-modules/sing-vmess\<close>): how the service takes frames apart and passes them to the handlers of the streams, and the frames it writes; and
  the packet connection of a client that speaks this protocol with one stream (\<^verbatim>\<open>xudp.go\<close>).

  A stream is read through a pipe, which is kept as all the bytes written to it; \<open>accepts\<close> gives the error of a write to a pipe whose reader has gone. Frames are written to the connection one at a time, under a
  mutex, and are kept in a list.
\<close>

section \<open>The service\<close>

definition StatusNew :: byte where "StatusNew = 1"
definition StatusKeep :: byte where "StatusKeep = 2"
definition StatusEnd :: byte where "StatusEnd = 3"
definition StatusKeepAlive :: byte where "StatusKeepAlive = 4"
definition OptionData :: byte where "OptionData = 1"
definition OptionError :: byte where "OptionError = 2"
definition NetworkTCP :: byte where "NetworkTCP = 1"
definition NetworkUDP :: byte where "NetworkUDP = 2"

record mux_stream =
  mx_network :: byte
  mx_destination :: socksaddr
  mx_pipe :: nat

record mux_session =
  mu_streams :: "(16 word, mux_stream) gomap"
  mu_pipes :: "byte list list"
  mu_closed :: "nat list"
  mu_started :: "(16 word \<times> mux_stream) list"
  mu_out :: "byte list list"

definition new_mux_session :: mux_session where
  "new_mux_session = \<lparr>mu_streams = [], mu_pipes = [], mu_closed = [], mu_started = [], mu_out = []\<rparr>"

definition valid_address :: "socksaddr \<Rightarrow> bool" where
  "valid_address a \<longleftrightarrow> sa_addr a \<noteq> None \<or> sa_fqdn a \<noteq> []"

definition writeFrame :: "16 word \<Rightarrow> byte list \<Rightarrow> byte list" where
  "writeFrame sessionID data = be16 4 @ be16 sessionID @ [StatusKeep, OptionData] @ be16 (of_nat (length data)) @ data"

text \<open>The address is announced also when it is not valid, and then not written.\<close>

definition writePacketFrame :: "wire_libs \<Rightarrow> 16 word \<Rightarrow> byte list \<Rightarrow> socksaddr \<Rightarrow> go_error + byte list" where
  "writePacketFrame W sessionID data destination =
     rbind (if valid_address destination then rbind (wl_write W destination) (\<lambda>address. Inr (NetworkUDP # address)) else Inr []) (\<lambda>address.
     Inr (be16 (of_nat (5 + wl_len W destination)) @ be16 sessionID @ [StatusKeep, OptionData] @ address @ be16 (of_nat (length data)) @ data))"

definition writeCloseFrame :: "16 word \<Rightarrow> bool \<Rightarrow> byte list" where
  "writeCloseFrame sessionID hasError = be16 4 @ be16 sessionID @ [StatusEnd, if hasError then OptionError else 0]"

definition mux_Write :: "16 word \<Rightarrow> byte list \<Rightarrow> mux_session \<Rightarrow> mux_session" where
  "mux_Write sessionID data s = s\<lparr>mu_out := mu_out s @ [writeFrame sessionID data]\<rparr>"

definition mux_WriteTo :: "wire_libs \<Rightarrow> 16 word \<Rightarrow> byte list \<Rightarrow> socksaddr \<Rightarrow> mux_session \<Rightarrow> mux_session \<times> go_error option" where
  "mux_WriteTo W sessionID data destination s =
     (case writePacketFrame W sessionID data destination of
        Inl e \<Rightarrow> (s, Some e)
      | Inr frame \<Rightarrow> (s\<lparr>mu_out := mu_out s @ [frame]\<rparr>, None))"

definition syncClose :: "16 word \<Rightarrow> bool \<Rightarrow> mux_session \<Rightarrow> mux_session" where
  "syncClose sessionID hasError s = s\<lparr>mu_out := mu_out s @ [writeCloseFrame sessionID hasError]\<rparr>"

definition localClose :: "16 word \<Rightarrow> mux_session \<Rightarrow> bool \<times> mux_session" where
  "localClose sessionID s =
     (case map_of (mu_streams s) sessionID of
        None \<Rightarrow> (False, s)
      | Some stream \<Rightarrow> (True, s\<lparr>mu_streams := AList.delete sessionID (mu_streams s), mu_closed := mu_closed s @ [mx_pipe stream]\<rparr>))"

definition mux_close :: "16 word \<Rightarrow> bool \<Rightarrow> mux_session \<Rightarrow> mux_session" where
  "mux_close sessionID hasError s = (let (closed, s1) = localClose sessionID s in if closed then syncClose sessionID hasError s1 else s1)"

definition mux_cleanup :: "mux_session \<Rightarrow> mux_session" where
  "mux_cleanup s = s\<lparr>mu_closed := mu_closed s @ map (mx_pipe \<circ> snd) (mu_streams s)\<rparr>"

definition pipe_write :: "nat \<Rightarrow> byte list \<Rightarrow> mux_session \<Rightarrow> mux_session" where
  "pipe_write k bs s = s\<lparr>mu_pipes := (mu_pipes s)[k := mu_pipes s ! k @ bs]\<rparr>"

definition recvTo :: "wire_libs \<Rightarrow> (nat \<Rightarrow> go_error option) \<Rightarrow> mux_stream \<Rightarrow> byte list \<Rightarrow> socksaddr \<Rightarrow> mux_session \<Rightarrow> mux_session \<times> go_error option" where
  "recvTo W accepts stream data destination s =
     (case accepts (mx_pipe stream) of
        Some e \<Rightarrow> (s, Some e)
      | None \<Rightarrow>
          if mx_network stream = NetworkTCP then (pipe_write (mx_pipe stream) data s, None)
          else let s1 = pipe_write (mx_pipe stream) (be16 (of_nat (length data)) @ data) s
               in case wl_write W destination of Inl e \<Rightarrow> (s1, Some e) | Inr address \<Rightarrow> (pipe_write (mx_pipe stream) address s1, None))"

text \<open>The header of a frame: number of the stream, status, option and, if it is long enough, network and destination.\<close>

definition recv_header :: "wire_libs \<Rightarrow> byte list \<Rightarrow> go_error + (16 word \<times> byte \<times> byte \<times> byte \<times> socksaddr) \<times> byte list" where
  "recv_header W input =
     rbind (case read_u16 input of Inl e \<Rightarrow> Inl (ECause e ''read frame header'') | Inr r \<Rightarrow> Inr r) (\<lambda>(len, r1).
     rbind (read_u16 r1) (\<lambda>(sessionID, r2).
     rbind (read_byte r2) (\<lambda>(status, r3).
     rbind (read_byte r3) (\<lambda>(option, r4).
     if len > 4 then
       let n = unat len - 4; limited = take n r4
       in rbind (read_byte limited) (\<lambda>(network, l1).
          rbind (wl_read W l1) (\<lambda>(destination, _). Inr ((sessionID, status, option, network, destination), drop n r4)))
     else Inr ((sessionID, status, option, 0, no_destination), r4)))))"

definition mux_new :: "16 word \<Rightarrow> byte \<Rightarrow> socksaddr \<Rightarrow> mux_session \<Rightarrow> mux_session \<times> mux_stream" where
  "mux_new sessionID network destination s =
     (let stream = \<lparr>mx_network = network, mx_destination = destination, mx_pipe = length (mu_pipes s)\<rparr>
      in (s\<lparr>mu_streams := AList.update sessionID stream (mu_streams s), mu_pipes := mu_pipes s @ [[]]\<rparr>, stream))"

definition recv_status :: "16 word \<Rightarrow> byte \<Rightarrow> byte \<Rightarrow> byte \<Rightarrow> socksaddr \<Rightarrow> mux_session \<Rightarrow> mux_session \<times> (go_error + mux_stream option)" where
  "recv_status sessionID status option network destination s =
     (if status = StatusNew then
        let (s1, stream) = mux_new sessionID network destination s
        in if network = NetworkTCP \<or> network = NetworkUDP then (s1\<lparr>mu_started := mu_started s1 @ [(sessionID, stream)]\<rparr>, Inr (Some stream))
           else (s1, Inl (ENew (''bad network: '' @ digits (unat network))))
      else if status = StatusKeep then
        (case map_of (mu_streams s) sessionID of
           None \<Rightarrow> (syncClose sessionID True s, Inr None)
         | Some stream \<Rightarrow> (s, Inr (Some stream)))
      else if status = StatusEnd then (snd (localClose sessionID s), Inr None)
      else if status = StatusKeepAlive then (s, Inr None)
      else (s, Inl (ENew (''bad session status: '' @ digits (unat status)))))"

definition recv :: "wire_libs \<Rightarrow> (nat \<Rightarrow> go_error option) \<Rightarrow> mux_session \<Rightarrow> byte list \<Rightarrow> mux_session \<times> (go_error + byte list)" where
  "recv W accepts s input =
     (case recv_header W input of
        Inl e \<Rightarrow> (s, Inl e)
      | Inr ((sessionID, status, option, network, destination), r) \<Rightarrow>
          (case recv_status sessionID status option network destination s of
             (s1, Inl e) \<Rightarrow> (s1, Inl e)
           | (s1, Inr stream) \<Rightarrow>
               if option AND OptionData \<noteq> OptionData then (s1, Inr r)
               else case read_u16 r of
                      Inl e \<Rightarrow> (s1, Inl e)
                    | Inr (len, r1) \<Rightarrow>
                        if len = 0 then (s1, Inr r1)
                        else case stream of
                               None \<Rightarrow> (s1, discard_bytes (unat len) r1)
                             | Some st \<Rightarrow>
                                 (case read_full (unat len) r1 of
                                    Inl e \<Rightarrow> (s1, Inl e)
                                  | Inr (data, r2) \<Rightarrow>
                                      (case recvTo W accepts st data (if valid_address destination then destination else mx_destination st) s1 of
                                         (s2, None) \<Rightarrow> (s2, Inr r2)
                                       | (s2, Some e) \<Rightarrow> (mux_close sessionID True s2, Inr r2)))))"

text \<open>So many frames, and the end of the connection.\<close>

fun recv_frames :: "wire_libs \<Rightarrow> (nat \<Rightarrow> go_error option) \<Rightarrow> nat \<Rightarrow> mux_session \<Rightarrow> byte list \<Rightarrow> mux_session \<times> (go_error + byte list)" where
  "recv_frames W accepts 0 s input = (s, Inr input)"
| "recv_frames W accepts (Suc n) s input =
     (case recv W accepts s input of
        (s1, Inl e) \<Rightarrow> (mux_cleanup s1, Inl (ECause e ''mux connection closed''))
      | (s1, Inr rest) \<Rightarrow> recv_frames W accepts n s1 rest)"

text \<open>The packets of a stream, read from its pipe into a buffer of \<open>n\<close> bytes; \<open>unwrap\<close> turns IPv4-mapped addresses into IPv4 ones.\<close>

definition muxPacketConn_ReadPacket :: "wire_libs \<Rightarrow> (socksaddr \<Rightarrow> socksaddr) \<Rightarrow> nat \<Rightarrow> byte list \<Rightarrow> go_error + (byte list \<times> socksaddr) \<times> byte list" where
  "muxPacketConn_ReadPacket W unwrap n pipe =
     rbind (read_u16 pipe) (\<lambda>(len, r1).
     rbind (rfail_if (unat len > n) (EExtend io_ErrShortBuffer (''mux need '' @ digits (unat len)))) (\<lambda>_.
     rbind (read_full (unat len) r1) (\<lambda>(data, r2).
     rbind (wl_read W r2) (\<lambda>(destination, r3). Inr ((data, unwrap destination), r3)))))"

section \<open>The packet connection of a client\<close>

record xudp_conn =
  xu_destination :: socksaddr
  xu_written :: bool

definition NewXUDPConn :: "socksaddr \<Rightarrow> xudp_conn" where
  "NewXUDPConn destination = \<lparr>xu_destination = destination, xu_written = False\<rparr>"

text \<open>The length of the address is asked of \<^verbatim>\<open>M.SocksaddrSerializer\<close> and the address written by \<^verbatim>\<open>AddressSerializer\<close>. The two differ in the order of port and address and in the codes of the families, not in the
  length, so \<open>wl_len\<close> stands for both.\<close>

definition XUDP_WritePacket :: "wire_libs \<Rightarrow> xudp_conn \<Rightarrow> byte list \<Rightarrow> socksaddr \<Rightarrow> (go_error + byte list) \<times> xudp_conn" where
  "XUDP_WritePacket W c data destination =
     (case wl_write W destination of
        Inl e \<Rightarrow> (Inl e, c)
      | Inr address \<Rightarrow>
          (Inr (be16 (of_nat (5 + wl_len W destination)) @ [0, 0, if xu_written c then StatusKeep else StatusNew, OptionData, NetworkUDP] @ address @ be16 (of_nat (length data)) @ data),
           c\<lparr>xu_written := True\<rparr>))"

text \<open>Reading into a buffer of \<open>n\<close> bytes; \<open>negative\<close> is what reading a negative number of bytes gives.\<close>

function XUDP_ReadPacket ::
  "wire_libs \<Rightarrow> (socksaddr \<Rightarrow> socksaddr) \<Rightarrow> go_error \<Rightarrow> xudp_conn \<Rightarrow> nat \<Rightarrow> byte list \<Rightarrow> go_error + (byte list \<times> socksaddr) \<times> byte list" where
  "XUDP_ReadPacket W unwrap negative c n input =
     (if n < 6 then Inl io_ErrShortBuffer
      else case read_full 6 input of
        Inl e \<Rightarrow> Inl e
      | Inr (header, r1) \<Rightarrow>
          (let len = unat (of_be16 header); status = header ! 4; option = header ! 5
           in case (if status = StatusNew then Inl (ENew ''unexpected frame new'')
                     else if status = StatusKeep then
                       (if len \<noteq> 4 then
                          if len < 2 then Inl negative
                          else if 6 + (len - 2) > n then Inl io_ErrShortBuffer
                          else rbind (read_full (len - 2) r1) (\<lambda>(xs, r2). rbind (wl_read W (drop 1 xs)) (\<lambda>(destination, ys). Inr (unwrap destination, ys, r2)))
                        else if 8 > n then Inl io_ErrShortBuffer
                        else rbind (read_full 2 r1) (\<lambda>(xs, r2). Inr (xu_destination c, xs, r2)))
                     else if status = StatusEnd then Inl io_EOF
                     else if status = StatusKeepAlive then Inr (no_destination, [], r1)
                     else Inl (ENew ''unexpected frame'')) of
                Inl e \<Rightarrow> Inl e
              | Inr (destination, left, r2) \<Rightarrow>
              if option AND OptionError = OptionError then Inl (ECause (EExternal ''use of closed network connection'') ''remote closed'')
              else if option AND OptionData \<noteq> OptionData then XUDP_ReadPacket W unwrap negative c n r2
              else rbind (read_u16 left) (\<lambda>(dataLen, _).
                   rbind (rfail_if (unat dataLen > n) io_ErrShortBuffer) (\<lambda>_.
                   rbind (read_full (unat dataLen) r2) (\<lambda>(data, r3). Inr ((data, destination), r3))))))"
  by pat_completeness auto
termination
  by (relation "measure (\<lambda>(_, _, _, _, _, input). length input)") (auto simp: read_full_Inr rbind_eq_Inr_iff split: if_splits)

declare XUDP_ReadPacket.simps [simp del]

section \<open>The stream connection of a client\<close>

record mux_conn =
  mw_destination :: socksaddr
  mw_written :: bool
  mw_remaining :: nat

definition NewMuxConnWrapper :: "socksaddr \<Rightarrow> mux_conn" where
  "NewMuxConnWrapper destination = \<lparr>mw_destination = destination, mw_written = False, mw_remaining = 0\<rparr>"

definition MuxConn_WriteBuffer :: "wire_libs \<Rightarrow> mux_conn \<Rightarrow> byte list \<Rightarrow> (go_error + byte list) \<times> mux_conn" where
  "MuxConn_WriteBuffer W c data =
     (if mw_written c then (Inr (be16 4 @ [0, 0, StatusKeep, OptionData] @ be16 (of_nat (length data)) @ data), c)
      else case wl_write W (mw_destination c) of
             Inl e \<Rightarrow> (Inl e, c)
           | Inr address \<Rightarrow>
               (Inr (be16 (of_nat (5 + wl_len W (mw_destination c))) @ [0, 0, StatusNew, OptionData, NetworkTCP] @ address @ be16 (of_nat (length data)) @ data), c\<lparr>mw_written := True\<rparr>))"

text \<open>The header of a frame the client reads, up to the length of its data.\<close>

definition mux_frame :: "byte list \<Rightarrow> go_error + nat option \<times> byte list" where
  "mux_frame input = rbind (read_full 6 input) (\<lambda>(header, r1).
     let len = unat (of_be16 header); status = header ! 4; option = header ! 5
     in rbind (if status = StatusNew then Inl (ENew ''unexpected frame new'')
               else if status = StatusKeep then (if len > 4 then discard_bytes (len - 4) r1 else Inr r1)
               else if status = StatusEnd then Inl io_EOF
               else if status = StatusKeepAlive then Inr r1
               else Inl (ENew ''unexpected frame'')) (\<lambda>r2.
        if option AND OptionError = OptionError then Inl (ECause (EExternal ''use of closed network connection'') ''remote closed'')
        else if option AND OptionData \<noteq> OptionData then Inr (None, r2)
        else rbind (read_u16 r2) (\<lambda>(dataLen, r3). Inr (Some (unat dataLen), r3))))"

lemma mux_frame_shorter: "mux_frame input = Inr (d, r) \<Longrightarrow> length r < length input"
  by (auto simp: mux_frame_def rbind_eq_Inr_iff read_full_Inr discard_bytes_def read_u16_def Let_def split: if_splits dest!: arg_cong [where f = length])

text \<open>Reading into an empty buffer of \<open>n\<close> bytes.\<close>

function MuxConn_ReadBuffer :: "mux_conn \<Rightarrow> nat \<Rightarrow> byte list \<Rightarrow> go_error + byte list \<times> mux_conn \<times> byte list" where
  "MuxConn_ReadBuffer c n input =
     (if mw_remaining c > 0 then
        (if input = [] then Inl io_EOF
         else let p = take (min n (mw_remaining c)) input in Inr (p, c\<lparr>mw_remaining := mw_remaining c - length p\<rparr>, drop (length p) input))
      else if n < 6 then Inl io_ErrShortBuffer
      else case mux_frame input of
        Inl e \<Rightarrow> Inl e
      | Inr (None, r) \<Rightarrow> MuxConn_ReadBuffer c n r
      | Inr (Some dataLen, r) \<Rightarrow> MuxConn_ReadBuffer (c\<lparr>mw_remaining := dataLen\<rparr>) n r)"
  by pat_completeness auto
termination
  by (relation "measure (\<lambda>(_, _, input). length input)") (auto dest: mux_frame_shorter)

declare MuxConn_ReadBuffer.simps [simp del]

section \<open>Packets of a client\<close>

fun xudp_writes :: "wire_libs \<Rightarrow> xudp_conn \<Rightarrow> (byte list \<times> socksaddr) list \<Rightarrow> go_error + byte list" where
  "xudp_writes W c [] = Inr []"
| "xudp_writes W c ((data, destination) # ps) =
     (case XUDP_WritePacket W c data destination of
        (Inl e, _) \<Rightarrow> Inl e
      | (Inr frame, c1) \<Rightarrow> rbind (xudp_writes W c1 ps) (\<lambda>bs. Inr (frame @ bs)))"

fun mux_reads :: "wire_libs \<Rightarrow> (socksaddr \<Rightarrow> socksaddr) \<Rightarrow> nat \<Rightarrow> nat \<Rightarrow> byte list \<Rightarrow> go_error + (byte list \<times> socksaddr) list \<times> byte list" where
  "mux_reads W unwrap n 0 pipe = Inr ([], pipe)"
| "mux_reads W unwrap n (Suc k) pipe =
     rbind (muxPacketConn_ReadPacket W unwrap n pipe) (\<lambda>(p, r1). rbind (mux_reads W unwrap n k r1) (\<lambda>(ps, r2). Inr (p # ps, r2)))"

definition packet_ok :: "wire_libs \<Rightarrow> (socksaddr \<Rightarrow> socksaddr) \<Rightarrow> byte list \<times> socksaddr \<Rightarrow> bool" where
  "packet_ok W unwrap = (\<lambda>(data, destination).
     data \<noteq> [] \<and> length data < 2 ^ 16 \<and> reads_back W destination \<and> wl_len W destination \<le> 259 \<and> valid_address destination \<and> unwrap destination = destination)"

text \<open>A packet in the pipe of its stream.\<close>

definition piped :: "wire_libs \<Rightarrow> byte list \<times> socksaddr \<Rightarrow> byte list" where
  "piped W = (\<lambda>(data, destination). be16 (of_nat (length data)) @ data @ (case wl_write W destination of Inr address \<Rightarrow> address | Inl _ \<Rightarrow> []))"

lemma pipe_write_twice: "k < length (mu_pipes s) \<Longrightarrow> pipe_write k bs (pipe_write k as s) = pipe_write k (as @ bs) s"
  by (simp add: pipe_write_def)

lemma read_piped:
  assumes "packet_ok W unwrap p" "length (fst p) \<le> n"
  shows "muxPacketConn_ReadPacket W unwrap n (piped W p @ rest) = Inr (p, rest)"
proof -
  obtain data d where p: "p = (data, d)" by fastforce
  with assms(1) obtain address where a: "wl_write W d = Inr address" "\<And>rest. wl_read W (address @ rest) = Inr (d, rest)" "length data < 2 ^ 16" "unwrap d = d"
    by (auto simp: packet_ok_def reads_back_def)
  then show ?thesis using assms(2) p
    by (simp add: piped_def muxPacketConn_ReadPacket_def unat_of_nat rfail_if_def read_full_def)
qed

lemma read_all_piped:
  assumes "list_all (\<lambda>p. packet_ok W unwrap p \<and> length (fst p) \<le> n) ps"
  shows "mux_reads W unwrap n (length ps) (concat (map (piped W) ps) @ rest) = Inr (ps, rest)"
  using assms by (induction ps) (auto simp: read_piped)

lemma header_received:
  assumes "reads_back W d" "wl_write W d = Inr address" "wl_len W d \<le> 259"
  shows "recv_header W (be16 (of_nat (5 + wl_len W d)) @ [0, 0, status, option, network] @ address @ rest) = Inr ((0, status, option, network, d), rest)"
proof -
  from assms(1, 2) have a: "length address = wl_len W d" "\<And>rest. wl_read W (address @ rest) = Inr (d, rest)" by (auto simp: reads_back_def)
  have n: "unat (of_nat (5 + wl_len W d) :: 16 word) = 5 + wl_len W d" using assms(3) unfolding unat_of_nat by simp
  then have big: "(of_nat (5 + wl_len W d) :: 16 word) > 4" by (simp add: word_less_nat_alt)
  have id: "read_u16 (0 # 0 # xs) = Inr (0, xs)" for xs using read_u16_be16 [of 0 xs] by (simp add: be16_def)
  show ?thesis
    using n big a(2) [of "[]"]
    by (simp add: recv_header_def id read_byte_def a(1) Let_def del: of_nat_add)
qed

lemma frame_received:
  assumes ok: "packet_ok W unwrap (data, d)" and "status = StatusNew \<or> status = StatusKeep" "wl_write W d = Inr address"
    and st: "recv_status 0 status OptionData NetworkUDP d s = (s1, Inr (Some st))" "mx_network st = NetworkUDP" "mx_pipe st < length (mu_pipes s1)"
  shows "recv W (\<lambda>_. None) s (be16 (of_nat (5 + wl_len W d)) @ [0, 0, status, OptionData, NetworkUDP] @ address @ be16 (of_nat (length data)) @ data @ rest) =
    (pipe_write (mx_pipe st) (piped W (data, d)) s1, Inr rest)"
proof -
  have p: "reads_back W d" "wl_len W d \<le> 259" "valid_address d" "data \<noteq> []" "length data < 2 ^ 16" using ok by (auto simp: packet_ok_def)
  have n: "unat (of_nat (length data) :: 16 word) = length data" using p(5) by (simp add: unat_of_nat)
  then have nz: "(of_nat (length data) :: 16 word) \<noteq> 0" using p(4) by (metis length_0_conv unat_0)
  have tcp: "mx_network st \<noteq> NetworkTCP" using st(2) by (simp add: NetworkTCP_def NetworkUDP_def)
  show ?thesis
    unfolding recv_def header_received [OF p(1) assms(3) p(2)] sum.case prod.case st(1)
    using n nz p(3) tcp assms(3) st(3) pipe_write_twice [OF st(3), of address "be16 (of_nat (length data)) @ data"]
    by (simp add: OptionData_def read_full_def recvTo_def Let_def piped_def)
qed

lemma later_packets:
  assumes "list_all (packet_ok W unwrap) ps" "xudp_writes W c ps = Inr bs" "xu_written c" "map_of (mu_streams s) 0 = Some st" "mx_network st = NetworkUDP" "mx_pipe st < length (mu_pipes s)"
  shows "recv_frames W (\<lambda>_. None) (length ps) s (bs @ rest) = (pipe_write (mx_pipe st) (concat (map (piped W) ps)) s, Inr rest)"
  using assms
proof (induction ps arbitrary: c bs s)
  case Nil
  then show ?case by (simp add: pipe_write_def)
next
  case (Cons p ps)
  obtain data d where p: "p = (data, d)" by fastforce
  with Cons.prems obtain address bs' where a: "wl_write W d = Inr address" "xudp_writes W (c\<lparr>xu_written := True\<rparr>) ps = Inr bs'"
    and bs: "bs = be16 (of_nat (5 + wl_len W d)) @ [0, 0, StatusKeep, OptionData, NetworkUDP] @ address @ be16 (of_nat (length data)) @ data @ bs'"
    by (auto simp: XUDP_WritePacket_def rbind_eq_Inr_iff split: sum.splits)
  have status: "recv_status 0 StatusKeep OptionData NetworkUDP d s = (s, Inr (Some st))"
    using Cons.prems(4) by (simp add: recv_status_def StatusNew_def StatusKeep_def)
  have ok: "packet_ok W unwrap (data, d)" "list_all (packet_ok W unwrap) ps" using Cons.prems(1) p by auto
  let ?s1 = "pipe_write (mx_pipe st) (piped W (data, d)) s"
  have "recv W (\<lambda>_. None) s (bs @ rest) = (?s1, Inr (bs' @ rest))"
    using frame_received [OF ok(1) disjI2 [OF refl] a(1) status Cons.prems(5, 6), of "bs' @ rest"] bs by simp
  moreover have "recv_frames W (\<lambda>_. None) (length ps) ?s1 (bs' @ rest) = (pipe_write (mx_pipe st) (concat (map (piped W) ps)) ?s1, Inr rest)"
    by (rule Cons.IH [OF ok(2) a(2)]) (use Cons.prems in \<open>simp_all add: pipe_write_def\<close>)
  ultimately show ?case using p Cons.prems(6) by (simp add: pipe_write_twice)
qed

text \<open>C27: Packets of a client reach the handler. When a client writes packets to a packet connection, the service starts one handler for them, for the destination of the first, and what the handler reads from
  its stream are these packets with their destinations, in order.\<close>

theorem xudp_packets_arrive:
  assumes ps: "list_all (\<lambda>p. packet_ok W unwrap p \<and> length (fst p) \<le> n) ps" "ps \<noteq> []" and sent: "xudp_writes W (NewXUDPConn destination) ps = Inr bs"
  shows "\<exists>s st. recv_frames W (\<lambda>_. None) (length ps) new_mux_session (bs @ rest) = (s, Inr rest) \<and> mu_started s = [(0, st)] \<and> mx_network st = NetworkUDP \<and>
    mx_destination st = snd (hd ps) \<and> mux_reads W unwrap n (length ps) (mu_pipes s ! mx_pipe st) = Inr (ps, [])"
proof -
  from ps(2) obtain data d qs where split: "ps = (data, d) # qs" by (metis list.exhaust prod.exhaust)
  with sent obtain address bs' where a: "wl_write W d = Inr address" "xudp_writes W (NewXUDPConn destination\<lparr>xu_written := True\<rparr>) qs = Inr bs'"
    and bs: "bs = be16 (of_nat (5 + wl_len W d)) @ [0, 0, StatusNew, OptionData, NetworkUDP] @ address @ be16 (of_nat (length data)) @ data @ bs'"
    by (auto simp: XUDP_WritePacket_def NewXUDPConn_def rbind_eq_Inr_iff split: sum.splits)
  let ?st = "\<lparr>mx_network = NetworkUDP, mx_destination = d, mx_pipe = 0\<rparr>"
  let ?s1 = "\<lparr>mu_streams = [(0, ?st)], mu_pipes = [[]], mu_closed = [], mu_started = [(0, ?st)], mu_out = []\<rparr>"
  have status: "recv_status 0 StatusNew OptionData NetworkUDP d new_mux_session = (?s1, Inr (Some ?st))"
    by (simp add: recv_status_def mux_new_def new_mux_session_def Let_def)
  have ok: "packet_ok W unwrap (data, d)" "list_all (packet_ok W unwrap) qs" using ps(1) split by (auto simp: list_all_iff)
  let ?s2 = "pipe_write 0 (piped W (data, d)) ?s1"
  have "recv W (\<lambda>_. None) new_mux_session (bs @ rest) = (?s2, Inr (bs' @ rest))"
    using frame_received [OF ok(1) disjI1 [OF refl] a(1) status, of "bs' @ rest"] bs by simp
  moreover have "recv_frames W (\<lambda>_. None) (length qs) ?s2 (bs' @ rest) = (pipe_write 0 (concat (map (piped W) qs)) ?s2, Inr rest)"
    using later_packets [OF ok(2) a(2), of ?s2 ?st rest] by (simp add: pipe_write_def)
  moreover have "mux_reads W unwrap n (length ps) (concat (map (piped W) ps)) = Inr (ps, [])" using read_all_piped [OF ps(1), of "[]"] by simp
  ultimately show ?thesis using split
    by (intro exI [of _ "pipe_write 0 (concat (map (piped W) qs)) ?s2"] exI [of _ ?st]) (simp add: pipe_write_def)
qed

section \<open>Streams of a client\<close>

fun mux_writes :: "wire_libs \<Rightarrow> mux_conn \<Rightarrow> byte list list \<Rightarrow> go_error + byte list" where
  "mux_writes W c [] = Inr []"
| "mux_writes W c (data # ps) =
     (case MuxConn_WriteBuffer W c data of
        (Inl e, _) \<Rightarrow> Inl e
      | (Inr frame, c1) \<Rightarrow> rbind (mux_writes W c1 ps) (\<lambda>bs. Inr (frame @ bs)))"

lemma keep_received: "recv_header W (be16 4 @ [0, 0, status, option] @ rest) = Inr ((0, status, option, 0, no_destination), rest)"
proof -
  have "read_u16 (0 # 0 # xs) = Inr (0, xs)" for xs using read_u16_be16 [of 0 xs] by (simp add: be16_def)
  then show ?thesis by (simp add: recv_header_def read_byte_def)
qed

lemma data_received:
  assumes "recv_header W input = Inr ((0, status, OptionData, network, destination), be16 (of_nat (length data)) @ data @ rest)" "data \<noteq> []" "length data < 2 ^ 16"
    and st: "recv_status 0 status OptionData network destination s = (s1, Inr (Some st))" "mx_network st = NetworkTCP"
  shows "recv W (\<lambda>_. None) s input = (pipe_write (mx_pipe st) data s1, Inr rest)"
proof -
  have n: "unat (of_nat (length data) :: 16 word) = length data" using assms(3) by (simp add: unat_of_nat)
  then have nz: "(of_nat (length data) :: 16 word) \<noteq> 0" using assms(2) by (metis length_0_conv unat_0)
  show ?thesis
    unfolding recv_def assms(1) sum.case prod.case st(1) using n nz st(2) by (simp add: OptionData_def read_full_def recvTo_def)
qed

lemma later_data:
  assumes "list_all (\<lambda>p. p \<noteq> [] \<and> length p < 2 ^ 16) ps" "mux_writes W c ps = Inr bs" "mw_written c" "map_of (mu_streams s) 0 = Some st" "mx_network st = NetworkTCP" "mx_pipe st < length (mu_pipes s)"
  shows "recv_frames W (\<lambda>_. None) (length ps) s (bs @ rest) = (pipe_write (mx_pipe st) (concat ps) s, Inr rest)"
  using assms
proof (induction ps arbitrary: bs s)
  case Nil
  then show ?case by (simp add: pipe_write_def)
next
  case (Cons p ps)
  then obtain bs' where a: "mux_writes W c ps = Inr bs'" and bs: "bs = be16 4 @ [0, 0, StatusKeep, OptionData] @ be16 (of_nat (length p)) @ p @ bs'"
    by (auto simp: MuxConn_WriteBuffer_def rbind_eq_Inr_iff)
  have status: "recv_status 0 StatusKeep OptionData 0 no_destination s = (s, Inr (Some st))" using Cons.prems(4) by (simp add: recv_status_def StatusNew_def StatusKeep_def)
  have "recv W (\<lambda>_. None) s (bs @ rest) = (pipe_write (mx_pipe st) p s, Inr (bs' @ rest))"
    by (rule data_received [OF _ _ _ status Cons.prems(5)]) (use Cons.prems(1) keep_received [of W StatusKeep OptionData] bs in auto)
  moreover have "recv_frames W (\<lambda>_. None) (length ps) (pipe_write (mx_pipe st) p s) (bs' @ rest) = (pipe_write (mx_pipe st) (concat ps) (pipe_write (mx_pipe st) p s), Inr rest)"
    by (rule Cons.IH [OF _ a]) (use Cons.prems in \<open>simp_all add: pipe_write_def\<close>)
  ultimately show ?case using Cons.prems(6) by (simp add: pipe_write_twice)
qed

text \<open>What a client writes to a stream reaches the handler the service starts for it, for the destination of the client.\<close>

theorem mux_data_arrives:
  assumes ps: "list_all (\<lambda>p. p \<noteq> [] \<and> length p < 2 ^ 16) ps" "ps \<noteq> []" and d: "reads_back W destination" "wl_len W destination \<le> 259"
    and sent: "mux_writes W (NewMuxConnWrapper destination) ps = Inr bs"
  shows "\<exists>s st. recv_frames W (\<lambda>_. None) (length ps) new_mux_session (bs @ rest) = (s, Inr rest) \<and> mu_started s = [(0, st)] \<and> mx_network st = NetworkTCP \<and>
    mx_destination st = destination \<and> mu_pipes s ! mx_pipe st = concat ps"
proof -
  from ps(2) obtain p qs where split: "ps = p # qs" by (cases ps) auto
  with sent obtain address bs' where a: "wl_write W destination = Inr address" "mux_writes W (NewMuxConnWrapper destination\<lparr>mw_written := True\<rparr>) qs = Inr bs'"
    and bs: "bs = be16 (of_nat (5 + wl_len W destination)) @ [0, 0, StatusNew, OptionData, NetworkTCP] @ address @ be16 (of_nat (length p)) @ p @ bs'"
    by (auto simp: MuxConn_WriteBuffer_def NewMuxConnWrapper_def rbind_eq_Inr_iff split: sum.splits)
  let ?st = "\<lparr>mx_network = NetworkTCP, mx_destination = destination, mx_pipe = 0\<rparr>"
  let ?s1 = "\<lparr>mu_streams = [(0, ?st)], mu_pipes = [[]], mu_closed = [], mu_started = [(0, ?st)], mu_out = []\<rparr>"
  have status: "recv_status 0 StatusNew OptionData NetworkTCP destination new_mux_session = (?s1, Inr (Some ?st))"
    by (simp add: recv_status_def mux_new_def new_mux_session_def Let_def)
  have "recv W (\<lambda>_. None) new_mux_session (bs @ rest) = (pipe_write 0 p ?s1, Inr (bs' @ rest))"
    using data_received [OF _ _ _ status] header_received [OF d(1) a(1) d(2), of StatusNew OptionData NetworkTCP "be16 (of_nat (length p)) @ p @ bs' @ rest"] ps(1) split bs by simp
  moreover have "recv_frames W (\<lambda>_. None) (length qs) (pipe_write 0 p ?s1) (bs' @ rest) = (pipe_write 0 (concat qs) (pipe_write 0 p ?s1), Inr rest)"
    using later_data [OF _ a(2), of "pipe_write 0 p ?s1" ?st rest] ps(1) split by (simp add: pipe_write_def)
  ultimately show ?thesis using split
    by (intro exI [of _ "pipe_write 0 (concat qs) (pipe_write 0 p ?s1)"] exI [of _ ?st]) (simp add: pipe_write_def)
qed

text \<open>What the service writes to a stream the client reads back from the start of the data on, as much as there is room for.\<close>

theorem mux_reply_arrives:
  assumes "mw_remaining c = 0" "6 \<le> n" "data \<noteq> []" "length data < 2 ^ 16"
  shows "MuxConn_ReadBuffer c n (writeFrame sessionID data @ rest) =
    Inr (take n data, c\<lparr>mw_remaining := length data - n\<rparr>, drop n data @ rest)"
proof -
  have n: "unat (of_nat (length data) :: 16 word) = length data" using assms(4) by (simp add: unat_of_nat)
  have six: "read_full 6 (writeFrame sessionID data @ rest) = Inr (be16 4 @ be16 sessionID @ [StatusKeep, OptionData], be16 (of_nat (length data)) @ data @ rest)"
    by (simp add: writeFrame_def read_full_def)
  have "mux_frame (writeFrame sessionID data @ rest) = Inr (Some (length data), data @ rest)"
    unfolding mux_frame_def six using n
    by (simp add: be16_def [of 4] be16_def [of sessionID] of_be16_def StatusNew_def StatusKeep_def OptionData_def OptionError_def Let_def)
  then show ?thesis using assms by (simp add: MuxConn_ReadBuffer.simps min_def)
qed

section \<open>Replies of the service\<close>

text \<open>Replies reach the client. A packet the handler of the stream writes is read by the packet connection of the client with its source address, whatever follows it.\<close>

theorem xudp_replies_arrive:
  assumes ok: "packet_ok W unwrap (data, source)" and frame: "writePacketFrame W 0 data source = Inr frame" and room: "9 + wl_len W source \<le> n" "length data \<le> n"
  shows "XUDP_ReadPacket W unwrap negative c n (frame @ rest) = Inr ((data, source), rest)"
proof -
  from ok frame obtain address where p: "wl_write W source = Inr address" "length address = wl_len W source" "\<And>rest. wl_read W (address @ rest) = Inr (source, rest)"
      "wl_len W source \<le> 259" "length data < 2 ^ 16" "unwrap source = source" "valid_address source"
    by (auto simp: packet_ok_def reads_back_def)
  then have f: "frame = be16 (of_nat (5 + wl_len W source)) @ [0, 0, StatusKeep, OptionData] @ (NetworkUDP # address @ be16 (of_nat (length data))) @ data"
    using frame by (simp add: writePacketFrame_def be16_def)
  let ?h = "be16 (of_nat (5 + wl_len W source)) @ [0, 0, StatusKeep, OptionData]"
  have len: "unat (of_be16 ?h) = 5 + wl_len W source" using p(4) by (simp add: unat_of_nat del: of_nat_add)
  have at: "?h ! 4 = StatusKeep" "?h ! 5 = OptionData" by (simp_all add: be16_def)
  have n: "unat (of_nat (length data) :: 16 word) = length data" using p(5) by (simp add: unat_of_nat)
  have r: "read_full 6 (frame @ rest) = Inr (?h, (NetworkUDP # address @ be16 (of_nat (length data))) @ data @ rest)" by (simp add: f read_full_def)
  have r': "read_full (5 + wl_len W source - 2) ((NetworkUDP # address @ be16 (of_nat (length data))) @ data @ rest) = Inr (NetworkUDP # address @ be16 (of_nat (length data)), data @ rest)"
  proof -
    have "5 + wl_len W source - 2 = length (NetworkUDP # address @ be16 (of_nat (length data)))" using p(2) by simp
    then show ?thesis by (simp only: read_full_def) simp
  qed
  show ?thesis
    unfolding XUDP_ReadPacket.simps [of W unwrap negative c n "frame @ rest"] r sum.case prod.case Let_def len at
    using room p r' n read_u16_be16 [of "of_nat (length data)" "[]"] by (simp add: StatusKeep_def StatusNew_def OptionData_def OptionError_def read_full_def rfail_if_def)
qed

text \<open>A frame without data costs the client the next one. After a frame that keeps the stream open and has no data, the packet connection skips two bytes of the frame that follows.\<close>

theorem xudp_skips_two_bytes:
  assumes "8 \<le> n" "option AND OptionData = 0" "option AND OptionError = 0"
  shows "XUDP_ReadPacket W unwrap negative c n (be16 4 @ [0, 0, StatusKeep, option] @ a # b # rest) = XUDP_ReadPacket W unwrap negative c n rest"
proof -
  let ?h = "be16 4 @ [0, 0, StatusKeep, option]"
  have r: "read_full 6 (be16 4 @ [0, 0, StatusKeep, option] @ a # b # rest) = Inr (?h, a # b # rest)" by (simp add: read_full_def)
  have at: "?h ! 4 = StatusKeep" "?h ! 5 = option" "unat (of_be16 ?h) = 4" by (simp_all add: be16_def of_be16_def)
  show ?thesis
    unfolding XUDP_ReadPacket.simps [of W unwrap negative c n "be16 4 @ [0, 0, StatusKeep, option] @ a # b # rest"] r sum.case prod.case Let_def at
    using assms by (simp add: StatusKeep_def StatusNew_def OptionData_def OptionError_def read_full_def)
qed

section \<open>Streams that are never closed\<close>

text \<open>What happens to a session: frames, writes and closes of its streams, and the end of the connection.\<close>

inductive mux_step :: "wire_libs \<Rightarrow> mux_session \<Rightarrow> mux_session \<Rightarrow> bool" for W where
  recv: "recv W accepts s input = (t, r) \<Longrightarrow> mux_step W s t"
| closed: "mux_step W s (mux_close sessionID hasError s)"
| written: "mux_step W s (mux_Write sessionID data s)"
| cleanup: "mux_step W s (mux_cleanup s)"

text \<open>A pipe no stream of the session belongs to and that has not been closed.\<close>

definition orphaned :: "nat \<Rightarrow> mux_session \<Rightarrow> bool" where
  "orphaned k s \<longleftrightarrow> k < length (mu_pipes s) \<and> k \<notin> set (mu_closed s) \<and> (\<forall>st \<in> snd ` set (mu_streams s). mx_pipe st \<noteq> k)"

lemma orphaned_local: "orphaned k s \<Longrightarrow> orphaned k (snd (localClose sessionID s))"
  by (force simp: orphaned_def localClose_def AList.delete_eq dest: map_of_SomeD split: option.splits)

lemma orphaned_simps: "orphaned k (syncClose sessionID e s) = orphaned k s" "orphaned k (mux_Write sessionID data s) = orphaned k s"
  "orphaned k (pipe_write j bs s) = orphaned k s" "orphaned k (s\<lparr>mu_started := x\<rparr>) = orphaned k s"
  by (simp_all add: orphaned_def syncClose_def mux_Write_def pipe_write_def)

lemma orphaned_close: "orphaned k s \<Longrightarrow> orphaned k (mux_close sessionID e s)"
  using orphaned_local [of k s sessionID] by (auto simp: mux_close_def orphaned_simps split: prod.splits)

lemma orphaned_new: "orphaned k s \<Longrightarrow> orphaned k (fst (mux_new sessionID network destination s))"
proof -
  have "snd ` set (AList.update key v m) \<subseteq> insert v (snd ` set m)" for key v and m :: "(16 word, mux_stream) gomap"
    by (induction m) auto
  then show "orphaned k s \<Longrightarrow> orphaned k (fst (mux_new sessionID network destination s))"
    by (fastforce simp: orphaned_def mux_new_def Let_def)
qed

lemma orphaned_status: "orphaned k s \<Longrightarrow> orphaned k (fst (recv_status sessionID status option network destination s))"
  using orphaned_new [of k s sessionID network destination] orphaned_local [of k s sessionID]
  by (auto simp: recv_status_def orphaned_simps Let_def split: prod.splits option.splits)

lemma orphaned_recvTo: "orphaned k (fst (recvTo W accepts st data destination s)) = orphaned k s"
  by (simp add: recvTo_def Let_def orphaned_simps split: option.splits sum.splits)

lemma orphaned_recv:
  assumes "orphaned k s"
  shows "orphaned k (fst (recv W accepts s input))"
proof (cases "recv_header W input")
  case (Inr h)
  then obtain sessionID status option network destination r where h: "recv_header W input = Inr ((sessionID, status, option, network, destination), r)" by (metis prod.exhaust)
  obtain s1 x where st: "recv_status sessionID status option network destination s = (s1, x)" by fastforce
  then have s1: "orphaned k s1" using orphaned_status [OF assms, of sessionID status option network destination] by simp
  have "orphaned k (fst (recvTo W accepts st data d s1))" for st data d using s1 by (simp add: orphaned_recvTo)
  then show ?thesis unfolding recv_def h sum.case prod.case st using s1
    by (auto split: sum.splits option.splits prod.splits intro: orphaned_close) (metis fst_conv orphaned_close)+
qed (use assms in \<open>simp add: recv_def\<close>)

lemma orphaned_kept:
  assumes "mux_step W s t" "orphaned k s"
  shows "orphaned k t"
  using assms(1)
proof cases
  case (recv accepts input r)
  then show ?thesis using orphaned_recv [OF assms(2), of W accepts input] by simp
next
  case (closed sessionID hasError)
  then show ?thesis using orphaned_close [OF assms(2)] by simp
next
  case (written sessionID data)
  then show ?thesis using assms(2) by (simp add: orphaned_simps)
next
  case cleanup
  then show ?thesis using assms(2) by (auto simp: orphaned_def mux_cleanup_def)
qed

interpretation mux_sys: invariant_system "orphaned k" "mux_step W" "orphaned k" for k W
  by unfold_locales (auto intro: orphaned_kept)

definition open_stream :: "mux_session \<Rightarrow> 16 word \<Rightarrow> mux_stream \<Rightarrow> bool" where
  "open_stream s sessionID st \<longleftrightarrow> map_of (mu_streams s) sessionID = Some st \<and> distinct (map fst (mu_streams s)) \<and> mx_pipe st < length (mu_pipes s) \<and> mx_pipe st \<notin> set (mu_closed s) \<and>
     (\<forall>(i, st') \<in> set (mu_streams s). i \<noteq> sessionID \<longrightarrow> mx_pipe st' \<noteq> mx_pipe st)"

lemma update_members: "distinct (map fst m) \<Longrightarrow> x \<in> set (AList.update k v m) \<Longrightarrow> x = (k, v) \<or> x \<in> set m \<and> fst x \<noteq> k"
  by (induction m) (force split: if_splits)+

lemma replaced_orphaned:
  assumes "open_stream s sessionID st"
  shows "orphaned (mx_pipe st) (fst (mux_new sessionID network destination s))"
proof -
  let ?new = "\<lparr>mx_network = network, mx_destination = destination, mx_pipe = length (mu_pipes s)\<rparr>"
  have "x = (sessionID, ?new) \<or> x \<in> set (mu_streams s) \<and> fst x \<noteq> sessionID" if "x \<in> set (AList.update sessionID ?new (mu_streams s))" for x
    using update_members [OF _ that] assms by (simp add: open_stream_def)
  then show ?thesis using assms by (fastforce simp: orphaned_def open_stream_def mux_new_def Let_def)
qed

text \<open>C28: A stream that is replaced is never closed. When a frame opens a stream under the number of one that is open, the pipe of the old one is lost: no later frame, no close and not even the end of the connection closes it,
  so its handler waits forever.\<close>

theorem replaced_stream_leaks:
  assumes "open_stream s sessionID st" "recv_status sessionID StatusNew option network destination s = (s1, r)" "(mux_step W)\<^sup>*\<^sup>* s1 t"
  shows "mx_pipe st \<notin> set (mu_closed t) \<and> (\<forall>st' \<in> snd ` set (mu_streams t). mx_pipe st' \<noteq> mx_pipe st)"
proof -
  have "orphaned (mx_pipe st) s1"
    using assms(2) replaced_orphaned [OF assms(1), of network destination] by (auto simp: recv_status_def Let_def orphaned_simps split: prod.splits if_splits)
  then have "orphaned (mx_pipe st) t" by (rule mux_sys.inv_steps [OF assms(3)])
  then show ?thesis by (simp add: orphaned_def)
qed

section \<open>Instances\<close>

lemma demo_packet: "packet_ok demo_wire id ([1, 2, 3], demo_destination)"
  using demo_libs(2) demo_headers(3) by (simp add: packet_ok_def valid_address_def demo_destination_def)

theorem xudp_packets_arrive_witness:
  "\<exists>bs s st. xudp_writes demo_wire (NewXUDPConn demo_destination) [([1, 2, 3], demo_destination), ([1, 2, 3], demo_destination)] = Inr bs \<and>
     recv_frames demo_wire (\<lambda>_. None) 2 new_mux_session bs = (s, Inr []) \<and> mu_started s = [(0, st)] \<and> mx_destination st = demo_destination \<and>
     mux_reads demo_wire id 100 2 (mu_pipes s ! mx_pipe st) = Inr ([([1, 2, 3], demo_destination), ([1, 2, 3], demo_destination)], [])"
proof -
  let ?ps = "[([1, 2, 3], demo_destination), ([1, 2, 3], demo_destination)] :: (byte list \<times> socksaddr) list"
  have ps: "list_all (\<lambda>p. packet_ok demo_wire id p \<and> length (fst p) \<le> 100) ?ps" using demo_packet by simp
  obtain bs where bs: "xudp_writes demo_wire (NewXUDPConn demo_destination) ?ps = Inr bs" by (simp add: XUDP_WritePacket_def demo_wire_def)
  then show ?thesis using xudp_packets_arrive [OF ps _ bs, of "[]"] by (auto simp: numeral_2_eq_2)
qed

theorem xudp_replies_arrive_witness:
  "\<exists>frame. writePacketFrame demo_wire 0 [1, 2, 3] demo_destination = Inr frame \<and>
     XUDP_ReadPacket demo_wire id io_EOF (NewXUDPConn demo_destination) 100 (frame @ []) = Inr (([1, 2, 3], demo_destination), [])"
proof -
  obtain frame where f: "writePacketFrame demo_wire 0 [1, 2, 3] demo_destination = Inr frame"
    by (simp add: writePacketFrame_def demo_wire_def demo_destination_def valid_address_def)
  have "9 + wl_len demo_wire demo_destination \<le> 100" "length [1, 2, 3 :: byte] \<le> 100" by (simp_all add: demo_wire_def demo_destination_def)
  from xudp_replies_arrive [OF demo_packet f this] f show ?thesis by blast
qed

theorem xudp_skips_two_bytes_witness:
  "XUDP_ReadPacket demo_wire id io_EOF (NewXUDPConn demo_destination) 100 (be16 4 @ [0, 0, StatusKeep, 0] @ 7 # 8 # []) = Inl io_EOF"
proof -
  have "XUDP_ReadPacket demo_wire id io_EOF (NewXUDPConn demo_destination) 100 [] = Inl io_EOF" by (simp add: XUDP_ReadPacket.simps read_full_def)
  then show ?thesis using xudp_skips_two_bytes [of 100 0 demo_wire id io_EOF "NewXUDPConn demo_destination" 7 8 "[]"] by simp
qed

definition demo_session :: mux_session where
  "demo_session = new_mux_session\<lparr>mu_streams := [(5, \<lparr>mx_network = NetworkTCP, mx_destination = demo_destination, mx_pipe = 0\<rparr>)], mu_pipes := [[]]\<rparr>"

theorem replaced_stream_leaks_witness:
  "\<exists>s1 r. recv_status 5 StatusNew 0 NetworkTCP demo_destination demo_session = (s1, r) \<and> 0 \<notin> set (mu_closed (mux_cleanup s1))"
proof -
  let ?st = "\<lparr>mx_network = NetworkTCP, mx_destination = demo_destination, mx_pipe = 0\<rparr>"
  obtain s1 r where r: "recv_status 5 StatusNew 0 NetworkTCP demo_destination demo_session = (s1, r)" by fastforce
  have "open_stream demo_session 5 ?st" by (simp add: open_stream_def demo_session_def new_mux_session_def)
  from replaced_stream_leaks [OF this r, of demo_wire "mux_cleanup s1"] r show ?thesis by (auto intro: mux_step.cleanup)
qed

end
