(* ===== verification/Route_Match.thy ===== *)
theory Route_Match
  imports Rule_Leases Outbound_Manager Go_Bytes
begin

text \<open>
  Routing a connection (\<^verbatim>\<open>route/route.go\<close>, \<^verbatim>\<open>common/sniff/sniff.go\<close>, \<^verbatim>\<open>route/process_cache.go\<close>): the rules are tried in order, actions that do not end the
  search change the metadata, read data ahead or resolve the destination, and the selected rule decides the outbound.

  The input of a connection is what arrives on it before the deadline of a read: a list of reads or of packets. Sniffers, the DNS router, the fake IP store, the
  process searcher and the wrappers of the network library that put read data in front of a connection are parameters.
\<close>

section \<open>Metadata and environment\<close>

record route_context =
  rx_md :: metadata
  rx_sniff_context :: "byte list list"
  rx_sniffer_names :: "string list"
  rx_sniff_error :: "go_error list"
  rx_inbound_detour :: string
  rx_last_inbound :: string
  rx_origin_destination :: socksaddr
  rx_route_original_destination :: socksaddr
  rx_udp_disable_domain_unmapping :: bool
  rx_udp_connect :: bool
  rx_udp_timeout :: int
  rx_tls_fragment :: bool
  rx_tls_fragment_fallback_delay :: int
  rx_tls_record_fragment :: bool
  rx_network_strategy :: "8 word option"
  rx_network_type :: "interface_type list option"
  rx_fallback_network_type :: "interface_type list option"
  rx_fallback_delay :: int
  rx_fake_ip :: bool

type_synonym reads = "(go_error + byte list) list"
type_synonym packet = "byte list \<times> socksaddr"
type_synonym sniffing = "sniffer \<Rightarrow> route_context \<Rightarrow> byte list \<Rightarrow> route_context \<times> go_error option"

record stream_conn =
  st_deadline :: "go_error option"
  st_reads :: reads

datatype packet_event = PacketRead packet | PacketError go_error | PacketCancelled go_error

datatype conn_input = StreamInput stream_conn | PacketInput "packet_event list" | NoInput

record route_env =
  en_libs :: libs
  en_services :: services
  en_find_process :: "(string \<Rightarrow> socksaddr \<Rightarrow> socksaddr option \<Rightarrow> go_error + connection_owner) option"
  en_platform_addresses :: "addr list"
  en_fakeip :: "((addr \<Rightarrow> bool) \<times> (addr \<Rightarrow> string option)) option"
  en_reverse_mapping :: "addr option \<Rightarrow> string option"
  en_dns_transport :: "string \<Rightarrow> bool"
  en_dns_lookup :: "route_context \<Rightarrow> string \<Rightarrow> string option \<Rightarrow> action_dns_options \<Rightarrow> go_error + addr list"
  en_is_domain :: "socksaddr \<Rightarrow> bool"
  en_mux_fqdn :: string
  en_is_timeout :: "go_error \<Rightarrow> bool"
  en_stream_sniffer :: sniffing
  en_packet_sniffer :: sniffing
  en_packet_size :: nat
  en_networks :: "component \<Rightarrow> string list"
  en_direct_route :: "component \<Rightarrow> bool"
  en_cached_conn :: "reads \<Rightarrow> byte list \<Rightarrow> reads"
  en_cached_packet :: "packet_event list \<Rightarrow> packet \<Rightarrow> packet_event list"

text \<open>What was read ahead so far and what is still on the connection.\<close>

record routing =
  rg_context :: route_context
  rg_buffers :: "byte list list"
  rg_packets :: "packet list"
  rg_input :: conn_input

section \<open>The process of a local connection\<close>

fun addr_is_loopback :: "addr \<Rightarrow> bool" where
  "addr_is_loopback (V4 a) = (drop_bit 24 a = 127)"
| "addr_is_loopback (V6 a _) = (a = 1 \<or> drop_bit 32 a = 0xffff \<and> drop_bit 24 (take_bit 32 a) = 127)"

definition isLocalSource :: "route_env \<Rightarrow> addr option \<Rightarrow> bool" where
  "isLocalSource E source =
     (case source of
        None \<Rightarrow> False
      | Some a \<Rightarrow> addr_is_loopback a \<or> a \<in> set (en_platform_addresses E) \<or>
          list_ex (\<lambda>i. a \<in> prefix_addr ` set (if_addresses i)) (sv_finder_interfaces (en_services E)))"

definition searchProcessInfo :: "route_env \<Rightarrow> route_context \<Rightarrow> route_context" where
  "searchProcessInfo E c =
     (let md = rx_md c in
      case en_find_process E of
        None \<Rightarrow> c
      | Some searcher \<Rightarrow>
          if md_process_info md \<noteq> None \<or> \<not> isLocalSource E (sa_addr (md_source md)) then c
          else
            (let originDestination =
               (if socksaddr_valid (rx_origin_destination c) then Some (rx_origin_destination c)
                else if sa_addr (md_destination md) \<noteq> None then Some (md_destination md)
                else None)
             in case searcher (md_network md) (md_source md) originDestination of
                  Inl e \<Rightarrow> c
                | Inr info \<Rightarrow> c\<lparr>rx_md := md\<lparr>md_process_info := Some info\<rparr>\<rparr>))"

section \<open>Sniffing\<close>

definition ErrNeedMoreData :: go_error where "ErrNeedMoreData = ENew ''need more data''"
definition os_ErrDeadlineExceeded :: go_error where "os_ErrDeadlineExceeded = EExternal ''i/o timeout''"

fun needs_more :: "go_error \<Rightarrow> bool" where
  "needs_more (ECause e _) = needs_more e"
| "needs_more (EExtend e _) = needs_more e"
| "needs_more e = (e = ErrNeedMoreData)"

definition sniff_Skip :: "metadata \<Rightarrow> bool" where
  "sniff_Skip md \<longleftrightarrow> sa_port (md_destination md) \<in> {25, 465, 587, 143, 993, 110, 995}"

text \<open>The sniffers are tried in turn; the first that succeeds ends the search. The empty list is the nil error.\<close>

fun try_sniffers :: "sniffing \<Rightarrow> sniffer list \<Rightarrow> byte list \<Rightarrow> go_error list \<Rightarrow> route_context \<Rightarrow> route_context \<times> go_error list" where
  "try_sniffers sniff [] bs errs c = (c, errs)"
| "try_sniffers sniff (s # ss) bs errs c =
     (case sniff s c bs of
        (c', None) \<Rightarrow> (c', [])
      | (c', Some e) \<Rightarrow> try_sniffers sniff ss bs (errs @ [e]) c')"

definition PeekPacket :: "route_env \<Rightarrow> sniffer list \<Rightarrow> byte list \<Rightarrow> route_context \<Rightarrow> route_context \<times> go_error list" where
  "PeekPacket E sniffers bs c = try_sniffers (en_packet_sniffer E) sniffers bs [] c"

text \<open>One read into a buffer with room for \<open>room\<close> bytes.\<close>

definition read_once :: "nat \<Rightarrow> reads \<Rightarrow> (go_error + byte list) \<times> reads" where
  "read_once room rs =
     (if room = 0 then (Inl io_ErrShortBuffer, rs)
      else case rs of
        [] \<Rightarrow> (Inl os_ErrDeadlineExceeded, [])
      | Inl e # rest \<Rightarrow> (Inl e, rest)
      | Inr bs # rest \<Rightarrow> if length bs \<le> room then (Inr bs, rest) else (Inr (take room bs), Inr (drop room bs) # rest))"

definition reads_size :: "reads \<Rightarrow> nat" where
  "reads_size rs = sum_list (map (\<lambda>r. case r of Inl _ \<Rightarrow> 1 | Inr bs \<Rightarrow> Suc (length bs)) rs)"

lemma read_once_smaller: "read_once room rs = (Inr bs, rest) \<Longrightarrow> reads_size rest < reads_size rs"
  by (auto simp: read_once_def reads_size_def split: list.splits sum.splits if_splits)

text \<open>\<open>prev\<close> is the result of the previous round, if there was one.\<close>

function PeekStream ::
  "route_env \<Rightarrow> sniffer list \<Rightarrow> go_error option \<Rightarrow> byte list list \<Rightarrow> byte list \<Rightarrow> go_error list option \<Rightarrow> reads \<Rightarrow> route_context \<Rightarrow>
     route_context \<times> byte list \<times> reads \<times> go_error list" where
  "PeekStream E sniffers deadline buffers buffer prev rs c =
     (case deadline of
        Some e \<Rightarrow> (c, buffer, rs, [ECause e ''set read deadline''])
      | None \<Rightarrow>
          (case read_once (en_packet_size E - length buffer) rs of
             (Inl e, rest) \<Rightarrow> (c, buffer, rest, case prev of Some errs \<Rightarrow> errs | None \<Rightarrow> [ECause e ''read payload''])
           | (Inr bs, rest) \<Rightarrow>
               (let buffer' = buffer @ bs; (c', errs) = try_sniffers (en_stream_sniffer E) sniffers (concat buffers @ buffer') [] c
                in if list_ex needs_more errs then PeekStream E sniffers deadline buffers buffer' (Some errs) rest c'
                   else (c', buffer', rest, errs))))"
  by pat_completeness auto

termination
  by (relation "measure (\<lambda>(_, _, _, _, _, _, rs, _). reads_size rs)") (auto dest: read_once_smaller [OF sym])

declare PeekStream.simps [simp del]

definition default_stream_sniffers :: "sniffer list" where
  "default_stream_sniffers = [TLSClientHello, HTTPHost, StreamDomainNameQuery, BitTorrent, SSH, RDP]"

definition default_packet_sniffers :: "sniffer list" where
  "default_packet_sniffers = [DomainNameQuery, QUICClientHello, STUNMessage, UTP, UDPTracker, DTLSRecord, NTP]"

text \<open>A sniff with the same sniffers that failed before is not repeated.\<close>

definition failed_before :: "string list \<Rightarrow> route_context \<Rightarrow> bool" where
  "failed_before names c \<longleftrightarrow> rx_sniffer_names c = names \<and> rx_sniff_error c \<noteq> [] \<and> \<not> list_ex needs_more (rx_sniff_error c)"

definition sniff_stream :: "route_env \<Rightarrow> string list \<Rightarrow> sniffer list \<Rightarrow> stream_conn \<Rightarrow> routing \<Rightarrow> routing" where
  "sniff_stream E names sniffers conn g =
     (let (c, buffer, rest, errs) =
            PeekStream E (if sniffers = [] then default_stream_sniffers else sniffers) (st_deadline conn) (rg_buffers g) [] None (st_reads conn) (rg_context g)
      in g\<lparr>rg_context := c\<lparr>rx_sniffer_names := names, rx_sniff_error := errs\<rparr>,
           rg_buffers := rg_buffers g @ (if buffer = [] then [] else [buffer]),
           rg_input := StreamInput (conn\<lparr>st_reads := rest\<rparr>)\<rparr>)"

text \<open>Sniffing one packet: after the first fragment of a QUIC hello only QUIC is tried.\<close>

definition peek_packet :: "route_env \<Rightarrow> string list \<Rightarrow> sniffer list \<Rightarrow> byte list \<Rightarrow> route_context \<Rightarrow> route_context \<times> go_error list" where
  "peek_packet E names sniffers bs c =
     (let quicMoreData = (rx_sniffer_names c = names \<and> list_ex needs_more (rx_sniff_error c));
          (c', errs) = PeekPacket E (if quicMoreData then [QUICClientHello] else sniffers) bs c
      in (c'\<lparr>rx_sniffer_names := names, rx_sniff_error := errs\<rparr>, errs))"

text \<open>The packets read ahead by earlier rules; \<open>True\<close> when one of them settled it.\<close>

fun sniff_buffered :: "route_env \<Rightarrow> string list \<Rightarrow> sniffer list \<Rightarrow> packet list \<Rightarrow> route_context \<Rightarrow> route_context \<times> bool" where
  "sniff_buffered E names sniffers [] c = (c, False)"
| "sniff_buffered E names sniffers (p # ps) c =
     (let (c', errs) = peek_packet E names sniffers (fst p) c
      in if list_ex needs_more errs then sniff_buffered E names sniffers ps c' else (c', True))"

text \<open>Further packets from the connection; a read that times out ends the sniffing without an error.\<close>

fun sniff_packets ::
  "route_env \<Rightarrow> string list \<Rightarrow> sniffer list \<Rightarrow> packet_event list \<Rightarrow> packet list \<Rightarrow> route_context \<Rightarrow>
     route_context \<times> packet list \<times> packet_event list \<times> go_error option" where
  "sniff_packets E names sniffers [] packetBuffers c = (c, packetBuffers, [], None)"
| "sniff_packets E names sniffers (PacketCancelled e # evs) packetBuffers c = (c, packetBuffers, evs, Some e)"
| "sniff_packets E names sniffers (PacketError e # evs) packetBuffers c =
     (c, packetBuffers, evs, if en_is_timeout E e then None else Some e)"
| "sniff_packets E names sniffers (PacketRead p # evs) packetBuffers c =
     (let (c', errs) = peek_packet E names sniffers (fst p) c
      in if list_ex needs_more errs then sniff_packets E names sniffers evs (packetBuffers @ [p]) c'
         else (c', packetBuffers @ [p], evs, None))"

definition sniff_packet_conn :: "route_env \<Rightarrow> string list \<Rightarrow> sniffer list \<Rightarrow> packet_event list \<Rightarrow> routing \<Rightarrow> routing \<times> go_error option" where
  "sniff_packet_conn E names sniffers evs g =
     (let ss = (if sniffers = [] then default_packet_sniffers else sniffers);
          (c, settled) = sniff_buffered E names ss (rg_packets g) (rg_context g)
      in if settled then (g\<lparr>rg_context := c\<rparr>, None)
         else
           (let (c', packetBuffers, evs', err) = sniff_packets E names ss evs (rg_packets g) c
            in (g\<lparr>rg_context := c', rg_packets := rg_packets g @ packetBuffers, rg_input := PacketInput evs'\<rparr>, err)))"

text \<open>The deprecated override of the destination is never set by a rule and is left out.\<close>

definition actionSniff :: "route_env \<Rightarrow> string list \<Rightarrow> sniffer list \<Rightarrow> sniffer list \<Rightarrow> routing \<Rightarrow> routing \<times> go_error option" where
  "actionSniff E names streamSniffers packetSniffers g =
     (let c = rg_context g
      in if sniff_Skip (rx_md c) \<or> md_protocol (rx_md c) \<noteq> [] then (g, None)
         else case rg_input g of
           StreamInput conn \<Rightarrow>
             if streamSniffers = [] \<and> packetSniffers \<noteq> [] \<or> failed_before names c then (g, None)
             else (sniff_stream E names streamSniffers conn g, None)
         | PacketInput evs \<Rightarrow>
             if packetSniffers = [] \<and> streamSniffers \<noteq> [] \<or> failed_before names c then (g, None)
             else sniff_packet_conn E names packetSniffers evs g
         | NoInput \<Rightarrow> (g, None))"

section \<open>Matching\<close>

definition actionResolve :: "route_env \<Rightarrow> string \<Rightarrow> action_dns_options \<Rightarrow> route_context \<Rightarrow> go_error + route_context" where
  "actionResolve E server options c =
     (let md = rx_md c
      in if en_is_domain E (md_destination md) then
           rbind (rfail_if (server \<noteq> [] \<and> \<not> en_dns_transport E server) (ENew (''DNS server not found: '' @ server))) (\<lambda>_.
           rbind (en_dns_lookup E c (sa_fqdn (md_destination md)) (if server = [] then None else Some server) options) (\<lambda>addresses.
           Inr (c\<lparr>rx_md := md\<lparr>md_destination_addresses := addresses\<rparr>\<rparr>)))
         else Inr c)"

definition apply_route_options :: "action_route_options \<Rightarrow> route_context \<Rightarrow> route_context" where
  "apply_route_options ro c0 =
     (let c1 = (if (socksaddr_valid (OverrideAddress ro) \<or> OverridePort ro > 0) \<and> \<not> socksaddr_valid (rx_route_original_destination c0)
                then c0\<lparr>rx_route_original_destination := md_destination (rx_md c0)\<rparr> else c0);
          md = rx_md c1;
          md1 = (if socksaddr_valid (OverrideAddress ro)
                 then md\<lparr>md_destination := (OverrideAddress ro)\<lparr>sa_port := sa_port (md_destination md)\<rparr>, md_destination_addresses := []\<rparr> else md);
          md2 = (if OverridePort ro > 0 then md1\<lparr>md_destination := (md_destination md1)\<lparr>sa_port := OverridePort ro\<rparr>\<rparr> else md1)
      in c1\<lparr>rx_md := md2,
            rx_network_strategy := (if NetworkStrategy ro \<noteq> None then NetworkStrategy ro else rx_network_strategy c1),
            rx_network_type := (if NetworkType ro \<notin> {None, Some []} then NetworkType ro else rx_network_type c1),
            rx_fallback_network_type := (if FallbackNetworkType ro \<notin> {None, Some []} then FallbackNetworkType ro else rx_fallback_network_type c1),
            rx_fallback_delay := (if FallbackDelay ro \<noteq> 0 then FallbackDelay ro else rx_fallback_delay c1),
            rx_udp_disable_domain_unmapping := (UDPDisableDomainUnmapping ro \<or> rx_udp_disable_domain_unmapping c1),
            rx_udp_connect := (UDPConnect ro \<or> rx_udp_connect c1),
            rx_udp_timeout := (if UDPTimeout ro > 0 then UDPTimeout ro else rx_udp_timeout c1),
            rx_tls_fragment := (TLSFragment ro \<or> rx_tls_fragment c1),
            rx_tls_fragment_fallback_delay := (if TLSFragment ro then TLSFragmentFallbackDelay ro else rx_tls_fragment_fallback_delay c1),
            rx_tls_record_fragment := (TLSRecordFragment ro \<or> rx_tls_record_fragment c1)\<rparr>)"

definition action_options :: "rule_action \<Rightarrow> action_route_options option" where
  "action_options a = (case a of RuleActionRoute _ ro \<Rightarrow> Some ro | RuleActionRouteOptions ro \<Rightarrow> Some ro | _ \<Rightarrow> None)"

text \<open>Sniff and resolve; before a connection exists a sniff action ends the search, except for ICMP.\<close>

definition run_action :: "route_env \<Rightarrow> bool \<Rightarrow> rule_action \<Rightarrow> routing \<Rightarrow> routing \<times> go_error option \<times> bool" where
  "run_action E preMatch a g =
     (case a of
        RuleActionSniff names ss ps _ \<Rightarrow>
          if preMatch then (g, None, md_network (rx_md (rg_context g)) \<noteq> ''icmp'')
          else (let (g', e) = actionSniff E names ss ps g in (g', e, False))
      | RuleActionResolve server options \<Rightarrow>
          (case actionResolve E server options (rg_context g) of
             Inl e \<Rightarrow> (g, Some e, False)
           | Inr c \<Rightarrow> (g\<lparr>rg_context := c\<rparr>, None, False))
      | _ \<Rightarrow> (g, None, False))"

definition final_action :: "bool \<Rightarrow> rule_action \<Rightarrow> bool" where
  "final_action supportBypass a \<longleftrightarrow>
     action_type a \<in> {''route'', ''reject'', ''hijack-dns''} \<or>
     (case a of RuleActionBypass outbound _ \<Rightarrow> supportBypass \<or> outbound \<noteq> [] | _ \<Rightarrow> False)"

fun match_rules ::
  "route_env \<Rightarrow> bool \<Rightarrow> bool \<Rightarrow> nat \<Rightarrow> rule_obj list \<Rightarrow> routing \<Rightarrow> (go_error + (nat \<times> rule_obj) option) \<times> routing" where
  "match_rules E preMatch supportBypass i [] g = (Inr None, g)"
| "match_rules E preMatch supportBypass i (q # qs) g =
     (let (m, md) = rule_Match (en_libs E) (en_services E) (ro_rule q) (reset_rule_cache (rx_md (rg_context g)));
          g1 = g\<lparr>rg_context := (rg_context g)\<lparr>rx_md := md\<rparr>\<rparr>
      in if \<not> m then match_rules E preMatch supportBypass (Suc i) qs g1
         else case ro_action q of
           None \<Rightarrow> (Inl (EPanic ''nil pointer dereference''), g1)
         | Some a \<Rightarrow>
             (let g2 = (case action_options a of None \<Rightarrow> g1 | Some ro \<Rightarrow> g1\<lparr>rg_context := apply_route_options ro (rg_context g1)\<rparr>);
                  (g3, err, stop) = run_action E preMatch a g2
              in case err of
                   Some e \<Rightarrow> (Inl e, g3)
                 | None \<Rightarrow>
                     if stop \<or> final_action supportBypass a then (Inr (Some (i, q)), g3)
                     else match_rules E preMatch supportBypass (Suc i) qs g3))"

text \<open>A fake IP is replaced by its name; otherwise the name a DNS answer had for the address is noted.\<close>

definition restore_domain :: "route_env \<Rightarrow> route_context \<Rightarrow> go_error + route_context" where
  "restore_domain E c =
     (let md = rx_md c; dest = md_destination md;
          fake = (case (sa_addr dest, en_fakeip E) of
                    (Some a, Some (isFake, lookup)) \<Rightarrow> if isFake a then Some (lookup a) else None
                  | _ \<Rightarrow> None)
      in case fake of
           Some None \<Rightarrow> Inl (ENew ''missing fakeip record, try enable `experimental.cache_file`'')
         | Some (Some domain) \<Rightarrow>
             Inr (if domain = [] then c
                  else c\<lparr>rx_origin_destination := dest, rx_md := md\<lparr>md_destination := \<lparr>sa_addr = None, sa_port = sa_port dest, sa_fqdn = domain\<rparr>\<rparr>,
                        rx_fake_ip := True\<rparr>)
         | None \<Rightarrow>
             Inr (if md_domain md \<noteq> [] then c
                  else case en_reverse_mapping E (sa_addr dest) of
                         None \<Rightarrow> c
                       | Some domain \<Rightarrow> c\<lparr>rx_md := md\<lparr>md_domain := domain\<rparr>\<rparr>))"

definition set_ip_version :: "route_context \<Rightarrow> route_context" where
  "set_ip_version c =
     (case sa_addr (md_destination (rx_md c)) of
        None \<Rightarrow> c
      | Some a \<Rightarrow> c\<lparr>rx_md := (rx_md c)\<lparr>md_ip_version := if is4 a then 4 else 6\<rparr>\<rparr>)"

text \<open>The rules are leased for the time of the search.\<close>

definition matchRule ::
  "route_env \<Rightarrow> bool \<Rightarrow> bool \<Rightarrow> conn_input \<Rightarrow> route_context \<Rightarrow> rule_router \<Rightarrow> ((go_error + (nat \<times> rule_obj) option) \<times> routing) \<times> rule_router" where
  "matchRule E preMatch supportBypass input c r =
     (let g = (\<lambda>c. \<lparr>rg_context = c, rg_buffers = [], rg_packets = [], rg_input = input\<rparr>);
          c1 = searchProcessInfo E c
      in case restore_domain E c1 of
           Inl e \<Rightarrow> ((Inl e, g c1), r)
         | Inr c2 \<Rightarrow>
             (let (i, r1) = acquireRules r
              in (match_rules E preMatch supportBypass 0 (sn_rules (rt_snapshots r1 ! i)) (g (set_ip_version c2)), releaseRules i r1)))"

section \<open>Routing\<close>

text \<open>
  What becomes of a connection: it is injected into another inbound, handed to an outbound with the data read ahead in front of it, answered by the DNS
  router, or refused. \<open>Refused\<close> is the error of a reject action, which its counter of dropped connections decides. An
  \<open>Outgoing\<close> connection is the one the code has before it passes the trackers, which \<open>run_trackers\<close> applies.
\<close>

datatype route_outcome =
    Injected component route_context
  | Outgoing component route_context conn_input "rule_obj option"
  | HijackedDNS route_context conn_input "packet list"
  | Refused string bool
  | Failed go_error

record route_managers =
  rm_endpoints :: tag_manager
  rm_inbounds :: "string \<Rightarrow> component option"
  rm_injectable :: "component \<Rightarrow> string \<Rightarrow> bool"
  rm_outbounds :: outbound_manager

text \<open>The deprecated detour of an inbound, for a network.\<close>

definition inbound_detour :: "route_managers \<Rightarrow> string \<Rightarrow> route_context \<Rightarrow> route_outcome" where
  "inbound_detour M network c =
     (let detour = rx_inbound_detour c
      in if rx_last_inbound c = detour then Failed (ENew (''routing loop on detour: '' @ detour))
         else case rm_inbounds M detour of
           None \<Rightarrow> Failed (ENew (''inbound detour not found: '' @ detour))
         | Some inbound \<Rightarrow>
             if \<not> rm_injectable M inbound network then Failed (ENew (''inbound detour is not '' @ network @ '' injectable: '' @ detour))
             else Injected inbound (c\<lparr>rx_last_inbound := md_inbound (rx_md c), rx_md := (rx_md c)\<lparr>md_inbound := detour\<rparr>, rx_inbound_detour := []\<rparr>))"

definition find_outbound :: "route_env \<Rightarrow> route_managers \<Rightarrow> string \<Rightarrow> string \<Rightarrow> string \<Rightarrow> go_error + component" where
  "find_outbound E M network label tag =
     (case Outbound (rm_endpoints M) tag (rm_outbounds M) of
        None \<Rightarrow> Inl (ENew (''outbound not found: '' @ tag))
      | Some outbound \<Rightarrow>
          if network \<in> set (en_networks E outbound) then Inr outbound
          else Inl (ENew (label @ '' is not supported by outbound: '' @ cp_tag outbound)))"

definition default_outbound :: "route_env \<Rightarrow> route_managers \<Rightarrow> string \<Rightarrow> string \<Rightarrow> go_error + component" where
  "default_outbound E M network message =
     (case om_default (rm_outbounds M) of
        None \<Rightarrow> Inl (EPanic ''nil pointer dereference'')
      | Some outbound \<Rightarrow> if network \<in> set (en_networks E outbound) then Inr outbound else Inl (ENew (message @ cp_tag outbound)))"

text \<open>The data read ahead is put in front of the connection, one buffer after the other.\<close>

definition cached_input :: "route_env \<Rightarrow> routing \<Rightarrow> conn_input" where
  "cached_input E g =
     (case rg_input g of
        StreamInput conn \<Rightarrow> StreamInput (conn\<lparr>st_reads := foldl (en_cached_conn E) (st_reads conn) (rg_buffers g)\<rparr>)
      | PacketInput evs \<Rightarrow> PacketInput (foldl (en_cached_packet E) evs (rg_packets g))
      | NoInput \<Rightarrow> NoInput)"

text \<open>The action of the selected rule, for TCP (\<open>label = ''TCP''\<close>) and UDP. An action of another type, or a bypass without outbound, would leave no outbound.\<close>

definition route_selected ::
  "route_env \<Rightarrow> route_managers \<Rightarrow> string \<Rightarrow> string \<Rightarrow> string \<Rightarrow> (nat \<times> rule_obj) option \<Rightarrow> routing \<Rightarrow> route_outcome" where
  "route_selected E M network label defaultMessage selected g =
     (let c = rg_context g;
          go = (\<lambda>res. case res of Inl e \<Rightarrow> Failed e | Inr o' \<Rightarrow> Outgoing o' c (cached_input E g) (map_option snd selected))
      in case selected of
           None \<Rightarrow> go (default_outbound E M network defaultMessage)
         | Some (i, q) \<Rightarrow>
             (case ro_action q of
                Some (RuleActionRoute outbound _) \<Rightarrow> go (find_outbound E M network label outbound)
              | Some (RuleActionBypass outbound _) \<Rightarrow>
                  if outbound = [] then Failed (EPanic ''nil pointer dereference'') else go (find_outbound E M network label outbound)
              | Some (RuleActionReject method noDrop) \<Rightarrow>
                  if method = ''reply'' then Failed (ENew (''reject method `reply` is not supported for '' @ label @ '' connections''))
                  else Refused method noDrop
              | Some RuleActionHijackDNS \<Rightarrow>
                  if network = ''tcp'' then HijackedDNS c (cached_input E g) [] else HijackedDNS c (rg_input g) (rg_packets g)
              | _ \<Rightarrow> Failed (EPanic ''nil pointer dereference'')))"

definition global_mux_error :: "route_env \<Rightarrow> string \<Rightarrow> go_error option" where
  "global_mux_error E fqdn =
     (if fqdn = en_mux_fqdn E then Some (ENew ''global multiplex is deprecated since sing-box v1.7.0, enable multiplex in Inbound fields instead.'')
      else if fqdn = ''v1.mux.cool'' then Some (ENew ''global multiplex (v2ray legacy) not supported since sing-box v1.7.0.'')
      else if fqdn = ''sp.v2.udp-over-tcp.arpa'' then Some (ENew ''global UoT not supported since sing-box v1.7.0.'')
      else if fqdn = ''sp.udp-over-tcp.arpa'' then Some (ENew ''global UoT (legacy) not supported since sing-box v1.7.0.'')
      else None)"

definition routeConnection ::
  "route_env \<Rightarrow> route_managers \<Rightarrow> stream_conn \<Rightarrow> route_context \<Rightarrow> rule_router \<Rightarrow> route_outcome \<times> rule_router" where
  "routeConnection E M conn c r =
     (if rx_inbound_detour c \<noteq> [] then (inbound_detour M ''TCP'' c, r)
      else
        case global_mux_error E (sa_fqdn (md_destination (rx_md c))) of
          Some e \<Rightarrow> (Failed e, r)
        | None \<Rightarrow>
            (case matchRule E False False (StreamInput conn) (c\<lparr>rx_md := (rx_md c)\<lparr>md_network := ''tcp''\<rparr>\<rparr>) r of
               ((Inl e, g), r') \<Rightarrow> (Failed e, r')
             | ((Inr selected, g), r') \<Rightarrow>
                 (route_selected E M ''tcp'' ''TCP'' ''TCP is not supported by default outbound: '' selected g, r')))"

definition routePacketConnection ::
  "route_env \<Rightarrow> route_managers \<Rightarrow> packet_event list \<Rightarrow> route_context \<Rightarrow> rule_router \<Rightarrow> route_outcome \<times> rule_router" where
  "routePacketConnection E M evs c r =
     (if rx_inbound_detour c \<noteq> [] then (inbound_detour M ''UDP'' c, r)
      else
        case matchRule E False False (PacketInput evs) (c\<lparr>rx_md := (rx_md c)\<lparr>md_network := ''udp''\<rparr>\<rparr>) r of
          ((Inl e, g), r') \<Rightarrow> (Failed e, r')
        | ((Inr selected, g), r') \<Rightarrow> (route_selected E M ''udp'' ''UDP'' ''UDP is not supported by outbound: '' selected g, r'))"

text \<open>The trackers wrap an outgoing connection one after the other; what they make of it is an argument.\<close>

type_synonym tracker = "route_context \<Rightarrow> rule_obj option \<Rightarrow> component \<Rightarrow> conn_input \<Rightarrow> conn_input"

definition run_trackers :: "tracker list \<Rightarrow> route_outcome \<Rightarrow> route_outcome" where
  "run_trackers trackers res =
     (case res of
        Outgoing outbound c conn selected \<Rightarrow>
          Outgoing outbound c (foldl (\<lambda>conn tracker. tracker c selected outbound conn) conn trackers) selected
      | _ \<Rightarrow> res)"

text \<open>Before a connection exists: whether it is refused, bypassed or goes to an outbound directly; \<open>PreNone\<close> when it is to be routed later.\<close>

datatype pre_outcome =
    PreNone
  | PreFailed go_error
  | PreRefused string bool
  | PreBypassed
  | PreDirect component route_context "addr option"

definition direct_outbound :: "route_env \<Rightarrow> route_managers \<Rightarrow> route_context \<Rightarrow> string \<Rightarrow> go_error + component" where
  "direct_outbound E M c tag =
     (case Outbound (rm_endpoints M) tag (rm_outbounds M) of
        None \<Rightarrow> Inl (ENew (''outbound not found: '' @ tag))
      | Some outbound \<Rightarrow>
          if md_network (rx_md c) \<notin> set (en_networks E outbound) then Inl (ENew (md_network (rx_md c) @ '' is not supported by outbound: '' @ tag))
          else if en_direct_route E outbound then Inr outbound
          else Inl (EPanic ''interface conversion''))"

definition DomainStrategyIPv4Only :: "8 word" where "DomainStrategyIPv4Only = 3"
definition DomainStrategyIPv6Only :: "8 word" where "DomainStrategyIPv6Only = 4"

definition source_is4 :: "route_context \<Rightarrow> bool" where
  "source_is4 c = (case sa_addr (md_source (rx_md c)) of Some a \<Rightarrow> is4 a | None \<Rightarrow> False)"

definition direct_destination :: "route_env \<Rightarrow> component \<Rightarrow> route_context \<Rightarrow> pre_outcome" where
  "direct_destination E outbound c =
     (let dest = md_destination (rx_md c);
          options = \<lparr>dns_strategy = if source_is4 c then DomainStrategyIPv4Only else DomainStrategyIPv6Only, dns_disable_cache = False,
                     dns_rewrite_ttl = None, dns_client_subnet = None\<rparr>
      in if \<not> en_is_domain E dest then PreDirect outbound c None
         else
           case (if md_destination_addresses (rx_md c) = [] then actionResolve E [] options c else Inr c) of
             Inl e \<Rightarrow> PreFailed e
           | Inr c' \<Rightarrow>
               (case List.find (\<lambda>a. is4 a = source_is4 c) (md_destination_addresses (rx_md c')) of
                  None \<Rightarrow> PreFailed (ENew ((if source_is4 c then ''no IPv4 address found for domain: '' else ''no IPv6 address found for domain: '') @ sa_fqdn dest))
                | Some a \<Rightarrow>
                    PreDirect outbound (c'\<lparr>rx_md := (rx_md c')\<lparr>md_destination := \<lparr>sa_addr = Some a, sa_port = 0, sa_fqdn = []\<rparr>\<rparr>\<rparr>) (Some a)))"

definition PreMatch :: "route_env \<Rightarrow> route_managers \<Rightarrow> bool \<Rightarrow> bool \<Rightarrow> route_context \<Rightarrow> rule_router \<Rightarrow> pre_outcome \<times> rule_router" where
  "PreMatch E M hasContext supportBypass c0 r =
     (let network = md_network (rx_md c0);
          direct = (\<lambda>c res. case res of Inl e \<Rightarrow> PreFailed e | Inr outbound \<Rightarrow> direct_destination E outbound c)
      in case matchRule E True supportBypass NoInput c0 r of
           ((Inl e, g), r') \<Rightarrow> (PreFailed e, r')
         | ((Inr selected, g), r') \<Rightarrow>
             (let c = rg_context g
              in case selected of
                   None \<Rightarrow>
                     if network \<noteq> ''icmp'' then (PreNone, r')
                     else (case default_outbound E M network (network @ '' is not supported by default outbound: '') of
                             Inl e \<Rightarrow> (PreFailed e, r')
                           | Inr outbound \<Rightarrow>
                               (if en_direct_route E outbound then direct_destination E outbound c else PreFailed (EPanic ''interface conversion''), r'))
                 | Some (i, q) \<Rightarrow>
                     ((case ro_action q of
                         Some (RuleActionReject method noDrop) \<Rightarrow>
                           if method = ''reply'' \<and> network = ''tcp'' then PreFailed (ENew ''reject method `reply` is not supported for TCP connections'')
                           else if method = ''reply'' \<and> network = ''udp'' then PreFailed (ENew ''reject method `reply` is not supported for UDP connections'')
                           else PreRefused method noDrop
                       | Some (RuleActionBypass outbound _) \<Rightarrow>
                           if supportBypass then PreBypassed
                           else if \<not> hasContext then PreNone
                           else direct c (direct_outbound E M c outbound)
                       | Some (RuleActionRoute outbound _) \<Rightarrow>
                           if \<not> hasContext then PreNone else direct c (direct_outbound E M c outbound)
                       | _ \<Rightarrow> PreNone), r')))"

end
