(* ===== verification/Route_Props.thy ===== *)
theory Route_Props
  imports Route_Match
begin

text \<open>
  What routing promises (\<^verbatim>\<open>route/route.go\<close>): a connection is handed on by a rule that matches it, the first one when no rule changes the metadata, and
  never by a rule for other users; what it carries is what it sent, as long as one rule reads data ahead.
\<close>

section \<open>What a search keeps\<close>

lemma reset_did [simp]: "reset_rule_cache (md\<lparr>md_did_match := b\<rparr>) = reset_rule_cache md"
  by (simp add: reset_rule_cache_def reset_rule_match_cache_def)

lemma reset_reset [simp]: "reset_rule_cache (reset_rule_cache md) = reset_rule_cache md"
  by (simp add: reset_rule_cache_def reset_rule_match_cache_def)

text \<open>Who a connection belongs to and where it came from.\<close>

definition same_origin :: "metadata \<Rightarrow> metadata \<Rightarrow> bool" where
  "same_origin md md' \<longleftrightarrow> md_user md = md_user md' \<and> md_inbound md = md_inbound md' \<and> md_source md = md_source md' \<and> md_network md = md_network md'"

text \<open>A sniffer sets the protocol, domain and client it finds and its own state.\<close>

definition sniffers_only :: "route_env \<Rightarrow> bool" where
  "sniffers_only E \<longleftrightarrow> (\<forall>s c bs. same_origin (rx_md (fst (en_stream_sniffer E s c bs))) (rx_md c) \<and> same_origin (rx_md (fst (en_packet_sniffer E s c bs))) (rx_md c))"

lemma same_origin_refl [simp]: "same_origin md md"
  by (simp add: same_origin_def)

lemma same_origin_trans: "same_origin a b \<Longrightarrow> same_origin b c \<Longrightarrow> same_origin a c"
  by (simp add: same_origin_def)

lemma try_sniffers_origin:
  assumes "\<And>s c. same_origin (rx_md (fst (sniff s c bs))) (rx_md c)"
  shows "same_origin (rx_md (fst (try_sniffers sniff ss bs errs c))) (rx_md c)"
proof (induction ss arbitrary: errs c)
  case (Cons s ss)
  obtain c' e where s: "sniff s c bs = (c', e)" by (cases "sniff s c bs")
  have "same_origin (rx_md c') (rx_md c)" using assms [of s c] s by simp
  then show ?case using Cons.IH [of "errs @ [the e]" c'] by (auto simp: s split: option.split intro: same_origin_trans)
qed simp

lemma PeekStream_origin:
  "sniffers_only E \<Longrightarrow> same_origin (rx_md (fst (PeekStream E ss deadline bufs buf prev rs c))) (rx_md c)"
proof (induction E ss deadline bufs buf prev rs c rule: PeekStream.induct)
  case (1 E ss deadline bufs buf prev rs c)
  have tried: "same_origin (rx_md (fst (try_sniffers (en_stream_sniffer E) ss bs [] c))) (rx_md c)" for bs
    using "1.prems" by (intro try_sniffers_origin) (simp add: sniffers_only_def)
  show ?case
  proof (cases deadline)
    case None
    show ?thesis
    proof (cases "read_once (en_packet_size E - length buf) rs")
      case (Pair res rest)
      show ?thesis
      proof (cases res)
        case (Inl e)
        then show ?thesis by (subst PeekStream.simps) (simp add: None Pair)
      next
        case (Inr bs)
        obtain c' errs where t: "try_sniffers (en_stream_sniffer E) ss (concat bufs @ buf @ bs) [] c = (c', errs)" by fastforce
        have c': "same_origin (rx_md c') (rx_md c)" using tried [of "concat bufs @ buf @ bs"] t by simp
        show ?thesis
        proof (cases "list_ex needs_more errs")
          case True
          have "same_origin (rx_md (fst (PeekStream E ss deadline bufs (buf @ bs) (Some errs) rest c'))) (rx_md c')"
            using "1.IH" [OF None Pair [symmetric] Inr refl t [symmetric] refl True "1.prems"] .
          then show ?thesis using c' by (subst PeekStream.simps) (auto simp: None Pair Inr t True intro: same_origin_trans)
        next
          case False
          then show ?thesis using c' by (subst PeekStream.simps) (simp add: None Pair Inr t)
        qed
      qed
    qed
  qed (subst PeekStream.simps, simp)
qed

lemma peek_packet_origin:
  "sniffers_only E \<Longrightarrow> same_origin (rx_md (fst (peek_packet E names ss bs c))) (rx_md c)"
  using try_sniffers_origin [of "en_packet_sniffer E" bs] by (simp add: peek_packet_def PeekPacket_def sniffers_only_def case_prod_beta Let_def)

lemma sniff_buffered_origin:
  "sniffers_only E \<Longrightarrow> same_origin (rx_md (fst (sniff_buffered E names ss ps c))) (rx_md c)"
proof (induction E names ss ps c rule: sniff_buffered.induct)
  case (2 E names ss p ps c)
  obtain c' errs where pk: "peek_packet E names ss (fst p) c = (c', errs)" by fastforce
  have "same_origin (rx_md c') (rx_md c)" using peek_packet_origin [OF "2.prems", of names ss "fst p" c] pk by simp
  then show ?case using "2.IH" [OF pk [symmetric] refl _ "2.prems"] by (auto simp: pk intro: same_origin_trans)
qed simp

lemma sniff_packets_origin:
  "sniffers_only E \<Longrightarrow> same_origin (rx_md (fst (sniff_packets E names ss evs acc c))) (rx_md c)"
proof (induction E names ss evs acc c rule: sniff_packets.induct)
  case (4 E names ss p evs acc c)
  obtain c' errs where pk: "peek_packet E names ss (fst p) c = (c', errs)" by fastforce
  have "same_origin (rx_md c') (rx_md c)" using peek_packet_origin [OF "4.prems", of names ss "fst p" c] pk by simp
  then show ?case using "4.IH" [OF pk [symmetric] refl _ "4.prems"] by (auto simp: pk intro: same_origin_trans)
qed simp_all

abbreviation rg_md :: "routing \<Rightarrow> metadata" where
  "rg_md g \<equiv> rx_md (rg_context g)"

lemma actionSniff_origin:
  assumes "sniffers_only E"
  shows "same_origin (rg_md (fst (actionSniff E names ss ps g))) (rg_md g)"
proof -
  have stream: "same_origin (rg_md (sniff_stream E names ss' conn g)) (rg_md g)" for ss' conn
    using PeekStream_origin [OF assms] by (simp add: sniff_stream_def case_prod_beta)
  have "same_origin (rg_md (fst (sniff_packet_conn E names ss' evs g))) (rg_md g)" for ss' evs
    unfolding sniff_packet_conn_def Let_def
    using same_origin_trans [OF sniff_packets_origin [OF assms] sniff_buffered_origin [OF assms]] sniff_buffered_origin [OF assms]
    by (simp add: case_prod_beta)
  then show ?thesis using stream by (auto simp: actionSniff_def Let_def split: conn_input.split)
qed

lemma apply_route_options_origin [simp]: "same_origin (rx_md (apply_route_options ro c)) (rx_md c)"
  by (simp add: apply_route_options_def Let_def same_origin_def)

lemma actionResolve_origin: "actionResolve E server options c = Inr c' \<Longrightarrow> same_origin (rx_md c') (rx_md c)"
  by (auto simp: actionResolve_def Let_def rbind_eq_Inr_iff same_origin_def split: if_splits)

lemma run_action_origin:
  assumes "sniffers_only E" shows "same_origin (rg_md (fst (run_action E preMatch a g))) (rg_md g)"
  using actionSniff_origin [OF assms] actionResolve_origin by (cases a) (auto simp: run_action_def case_prod_beta split: sum.split)

section \<open>Searching\<close>

text \<open>One rule of the search: the metadata it leaves when it does not match, and its effect when it does.\<close>

definition after_match :: "route_env \<Rightarrow> rule_obj \<Rightarrow> routing \<Rightarrow> routing" where
  "after_match E q g = g\<lparr>rg_context := (rg_context g)\<lparr>rx_md := snd (rule_Match (en_libs E) (en_services E) (ro_rule q) (reset_rule_cache (rg_md g)))\<rparr>\<rparr>"

definition with_options :: "rule_action \<Rightarrow> routing \<Rightarrow> routing" where
  "with_options a g = (case action_options a of None \<Rightarrow> g | Some ro \<Rightarrow> g\<lparr>rg_context := apply_route_options ro (rg_context g)\<rparr>)"

definition rule_matches :: "route_env \<Rightarrow> rule_obj \<Rightarrow> metadata \<Rightarrow> bool" where
  "rule_matches E q md = matches (en_libs E) (en_services E) (ro_rule q) (reset_rule_cache md)"

lemma match_rules_Cons:
  "match_rules E pre sb i (q # qs) g =
     (if \<not> rule_matches E q (rg_md g) then match_rules E pre sb (Suc i) qs (after_match E q g)
      else case ro_action q of
        None \<Rightarrow> (Inl (EPanic ''nil pointer dereference''), after_match E q g)
      | Some a \<Rightarrow>
          (case run_action E pre a (with_options a (after_match E q g)) of
             (g', Some e, _) \<Rightarrow> (Inl e, g')
           | (g', None, stop) \<Rightarrow>
               if stop \<or> final_action sb a then (Inr (Some (i, q)), g') else match_rules E pre sb (Suc i) qs g'))"
  by (simp add: rule_matches_def matches_def after_match_def with_options_def Let_def case_prod_beta split: option.split)

declare match_rules.simps(2) [simp del]

lemma after_match_origin [simp]: "same_origin (rg_md (after_match E q g)) (rg_md g)"
proof -
  obtain b where "snd (rule_Match (en_libs E) (en_services E) (ro_rule q) (reset_rule_cache (rg_md g))) = (reset_rule_cache (rg_md g))\<lparr>md_did_match := b\<rparr>"
    using rule_Match_snd by blast
  then show ?thesis by (simp add: after_match_def same_origin_def reset_rule_cache_def reset_rule_match_cache_def)
qed

lemma with_options_origin [simp]: "same_origin (rg_md (with_options a g)) (rg_md g)"
  by (simp add: with_options_def split: option.split)

lemma step_origin:
  assumes "sniffers_only E" shows "same_origin (rg_md (fst (run_action E pre a (with_options a (after_match E q g))))) (rg_md g)"
  using run_action_origin [OF assms] with_options_origin after_match_origin by (meson same_origin_trans)

lemma match_rules_selected:
  assumes "sniffers_only E" "match_rules E pre sb i qs g = (Inr (Some (j, q)), g')"
  shows "\<exists>md a. same_origin md (rg_md g) \<and> rule_matches E q md \<and> i \<le> j \<and> j < i + length qs \<and> qs ! (j - i) = q \<and> ro_action q = Some a \<and>
    same_origin (rg_md g') (rg_md g) \<and> (final_action sb a \<or> pre \<and> (\<exists>names ss ps t. a = RuleActionSniff names ss ps t))"
  using assms(2)
proof (induction qs arbitrary: i g)
  case (Cons p qs)
  have later: ?case if l: "match_rules E pre sb (Suc i) qs h = (Inr (Some (j, q)), g')" "same_origin (rg_md h) (rg_md g)" for h
  proof -
    obtain md a where IH: "same_origin md (rg_md h)" "rule_matches E q md" "Suc i \<le> j" "j < Suc i + length qs" "qs ! (j - Suc i) = q" "ro_action q = Some a"
      "same_origin (rg_md g') (rg_md h)" "final_action sb a \<or> pre \<and> (\<exists>names ss ps t. a = RuleActionSniff names ss ps t)"
      using Cons.IH [OF l(1)] by blast
    have "(p # qs) ! (j - i) = q" using IH(3,5) by (metis Suc_diff_Suc Suc_le_lessD nth_Cons_Suc)
    then show ?thesis using IH l(2) by (intro exI [of _ md] exI [of _ a]) (auto intro: same_origin_trans)
  qed
  show ?case
  proof (cases "rule_matches E p (rg_md g)")
    case False
    then show ?thesis using Cons.prems later [of "after_match E p g"] by (simp add: match_rules_Cons)
  next
    case True
    then obtain a where a: "ro_action p = Some a" using Cons.prems by (cases "ro_action p") (simp_all add: match_rules_Cons)
    obtain h e stop where run: "run_action E pre a (with_options a (after_match E p g)) = (h, e, stop)" by (metis prod_cases3)
    have e: "e = None" using Cons.prems True a run by (cases e) (simp_all add: match_rules_Cons)
    have h: "same_origin (rg_md h) (rg_md g)" using step_origin [OF assms(1), of pre a p g] run by simp
    have stop: "pre \<and> (\<exists>names ss ps t. a = RuleActionSniff names ss ps t)" if stop
      using run that by (cases a) (auto simp: run_action_def case_prod_beta split: if_splits sum.splits)
    show ?thesis
    proof (cases "stop \<or> final_action sb a")
      case final: True
      then have "j = i" "q = p" "g' = h" using Cons.prems True a run e by (auto simp: match_rules_Cons)
      then show ?thesis using True a h final stop by (intro exI [of _ "rg_md g"] exI [of _ a]) auto
    next
      case False
      then show ?thesis using Cons.prems True a run e h later [of h] by (simp add: match_rules_Cons)
    qed
  qed
qed simp

lemma searchProcessInfo_origin: "same_origin (rx_md (searchProcessInfo E c)) (rx_md c)"
  by (auto simp: searchProcessInfo_def Let_def same_origin_def split: option.split sum.split)

lemma restore_domain_origin: "restore_domain E c = Inr c' \<Longrightarrow> same_origin (rx_md c') (rx_md c)"
  by (auto simp: restore_domain_def Let_def same_origin_def split: option.splits if_splits)

lemma set_ip_version_origin: "same_origin (rx_md (set_ip_version c)) (rx_md c)"
  by (simp add: set_ip_version_def same_origin_def split: option.split)

lemma acquired_rules:
  "acquireRules r = (i, r1) \<Longrightarrow> sn_rules (rt_snapshots r1 ! i) = currentRules r \<and> currentRules (releaseRules i r1) = currentRules r"
  by (cases "rt_added r"; cases "i < length (rt_snapshots r)")
    (auto simp: acquireRules_def current_snapshot_def currentRules_def releaseRules_def Let_def nth_append list_update_beyond split: if_splits)

text \<open>The search that a call of \<open>matchRule\<close> makes.\<close>

lemma matchRule_search:
  assumes "matchRule E pre sb input c r = ((Inr sel, g), r')"
  obtains c1 where "restore_domain E (searchProcessInfo E c) = Inr c1" "same_origin (rx_md (set_ip_version c1)) (rx_md c)"
    "match_rules E pre sb 0 (currentRules r) \<lparr>rg_context = set_ip_version c1, rg_buffers = [], rg_packets = [], rg_input = input\<rparr> = (Inr sel, g)"
    "currentRules r' = currentRules r"
proof -
  obtain c1 where c1: "restore_domain E (searchProcessInfo E c) = Inr c1"
    using assms by (cases "restore_domain E (searchProcessInfo E c)") (simp_all add: matchRule_def Let_def)
  obtain i r1 where acq: "acquireRules r = (i, r1)" by fastforce
  have "same_origin (rx_md (set_ip_version c1)) (rx_md c)"
    using set_ip_version_origin restore_domain_origin [OF c1] searchProcessInfo_origin same_origin_trans by blast
  then show ?thesis using assms acquired_rules [OF acq] by (intro that [OF c1]) (auto simp: matchRule_def Let_def c1 acq)
qed

lemma matchRule_selected:
  assumes "sniffers_only E" "matchRule E pre sb input c r = ((Inr (Some (i, q)), g), r')"
  obtains md a where "same_origin md (rx_md c)" "rule_matches E q md" "i < length (currentRules r)" "currentRules r ! i = q" "ro_action q = Some a"
    "same_origin (rg_md g) (rx_md c)" "final_action sb a \<or> pre \<and> (\<exists>names ss ps t. a = RuleActionSniff names ss ps t)" "currentRules r' = currentRules r"
proof -
  obtain c1 where c1: "same_origin (rx_md (set_ip_version c1)) (rx_md c)"
    and run: "match_rules E pre sb 0 (currentRules r) \<lparr>rg_context = set_ip_version c1, rg_buffers = [], rg_packets = [], rg_input = input\<rparr> = (Inr (Some (i, q)), g)"
    and r': "currentRules r' = currentRules r"
    by (rule matchRule_search [OF assms(2)]) (rule that)
  obtain md a where sel: "same_origin md (rx_md (set_ip_version c1))" "rule_matches E q md" "i < length (currentRules r)" "currentRules r ! i = q" "ro_action q = Some a"
    "same_origin (rg_md g) (rx_md (set_ip_version c1))" "final_action sb a \<or> pre \<and> (\<exists>names ss ps t. a = RuleActionSniff names ss ps t)"
    using match_rules_selected [OF assms(1) run] by auto
  show ?thesis by (rule that [OF same_origin_trans [OF sel(1) c1] sel(2-5) same_origin_trans [OF sel(6) c1] sel(7) r'])
qed


section \<open>Who is routed where\<close>

lemma find_outbound_Inr:
  "find_outbound E M network label tag = Inr out \<longleftrightarrow> Outbound (rm_endpoints M) tag (rm_outbounds M) = Some out \<and> network \<in> set (en_networks E out)"
  by (auto simp: find_outbound_def split: option.split)

lemma default_outbound_Inr:
  "default_outbound E M network message = Inr out \<longleftrightarrow> om_default (rm_outbounds M) = Some out \<and> network \<in> set (en_networks E out)"
  by (auto simp: default_outbound_def split: option.split)

lemma route_selected_Outgoing:
  assumes "route_selected E M network label message selected g = Outgoing out c inp sel"
  shows "c = rg_context g \<and> inp = cached_input E g \<and> sel = map_option snd selected \<and> network \<in> set (en_networks E out) \<and>
    (case sel of
       None \<Rightarrow> om_default (rm_outbounds M) = Some out
     | Some q \<Rightarrow> \<exists>tag ro. (ro_action q = Some (RuleActionRoute tag ro) \<or> ro_action q = Some (RuleActionBypass tag ro)) \<and>
         Outbound (rm_endpoints M) tag (rm_outbounds M) = Some out)"
  using assms
  by (auto simp: route_selected_def Let_def find_outbound_Inr default_outbound_Inr split: option.splits sum.splits rule_action.splits if_splits)

lemma routeConnection_Outgoing:
  assumes "routeConnection E M conn c r = (Outgoing out c' inp sel, r')"
  obtains selected g where "rx_inbound_detour c = []"
    "matchRule E False False (StreamInput conn) (c\<lparr>rx_md := (rx_md c)\<lparr>md_network := ''tcp''\<rparr>\<rparr>) r = ((Inr selected, g), r')"
    "route_selected E M ''tcp'' ''TCP'' ''TCP is not supported by default outbound: '' selected g = Outgoing out c' inp sel"
  using assms
  by (auto simp: routeConnection_def inbound_detour_def Let_def split: if_splits option.splits sum.splits prod.splits)

text \<open>C11: Connections are handed on by a rule that is for them. When a connection goes to an outbound, the outbound supports TCP, and either no rule was selected and it
  is the default one, or the selected rule is one of the current rules, matched the connection (its user, inbound, source and network, whatever
  sniffing and resolving found out on the way) and names the outbound in its route or bypass action. The rules stay as they were.\<close>

theorem routed_by_matching_rule:
  assumes "sniffers_only E" and route: "routeConnection E M conn c r = (Outgoing out c' inp sel, r')"
  shows "''tcp'' \<in> set (en_networks E out) \<and> currentRules r' = currentRules r \<and>
    (case sel of
       None \<Rightarrow> om_default (rm_outbounds M) = Some out
     | Some q \<Rightarrow> q \<in> set (currentRules r) \<and> (\<exists>md. same_origin md ((rx_md c)\<lparr>md_network := ''tcp''\<rparr>) \<and> rule_matches E q md) \<and>
         (\<exists>tag ro. (ro_action q = Some (RuleActionRoute tag ro) \<or> ro_action q = Some (RuleActionBypass tag ro) \<and> tag \<noteq> []) \<and>
           Outbound (rm_endpoints M) tag (rm_outbounds M) = Some out))"
proof -
  obtain selected g where m: "matchRule E False False (StreamInput conn) (c\<lparr>rx_md := (rx_md c)\<lparr>md_network := ''tcp''\<rparr>\<rparr>) r = ((Inr selected, g), r')"
    and out: "route_selected E M ''tcp'' ''TCP'' ''TCP is not supported by default outbound: '' selected g = Outgoing out c' inp sel"
    by (rule routeConnection_Outgoing [OF route]) (rule that)
  note out' = route_selected_Outgoing [OF out]
  have kept: "currentRules r' = currentRules r" by (rule matchRule_search [OF m])
  show ?thesis
  proof (cases selected)
    case None
    then show ?thesis using out' kept by auto
  next
    case (Some p)
    obtain i q where p: "p = (i, q)" by (cases p)
    obtain md a where sel: "same_origin md (rx_md (c\<lparr>rx_md := (rx_md c)\<lparr>md_network := ''tcp''\<rparr>\<rparr>))" "rule_matches E q md" "i < length (currentRules r)"
      "currentRules r ! i = q" "ro_action q = Some a" "final_action False a"
      by (rule matchRule_selected [OF assms(1) m [unfolded Some p]]) (use that in auto)
    from out' Some p obtain tag ro where tag: "ro_action q = Some (RuleActionRoute tag ro) \<or> ro_action q = Some (RuleActionBypass tag ro)"
      "Outbound (rm_endpoints M) tag (rm_outbounds M) = Some out" by auto
    have "ro_action q = Some (RuleActionRoute tag ro) \<or> ro_action q = Some (RuleActionBypass tag ro) \<and> tag \<noteq> []"
      using tag(1) sel(5,6) by (auto simp: final_action_def)
    then have "\<exists>tag ro. (ro_action q = Some (RuleActionRoute tag ro) \<or> ro_action q = Some (RuleActionBypass tag ro) \<and> tag \<noteq> []) \<and>
        Outbound (rm_endpoints M) tag (rm_outbounds M) = Some out" using tag(2) by blast
    moreover have "q \<in> set (currentRules r)" using sel(3,4) by (auto simp: set_conv_nth)
    ultimately show ?thesis using out' kept Some p sel(1,2) by auto
  qed
qed

lemma same_user: "same_origin md md' \<Longrightarrow> md_user md = md_user md'"
  by (simp add: same_origin_def)

text \<open>C10: User isolation. A rule that names authenticated users and is not inverted is selected only for their connections: whatever the other rules are, whatever is
  sniffed, resolved or overridden before it is reached, for streams, packets and before a connection exists.\<close>

theorem user_rule_selected:
  assumes "sniffers_only E" and sel: "matchRule E pre sb input c r = ((Inr (Some (i, q)), g), r')"
    and new: "NewRule L A b (RuleOptions type conds a mode rules invert la) = Inr (p, action)" "type \<noteq> ''logical''" "c_auth_user conds \<noteq> []" "\<not> c_invert conds"
    and start: "rule_start (en_services E) router p = Inr (ro_rule q)" and lib: "en_libs E = L"
  shows "md_user (rx_md c) \<in> set (c_auth_user conds)"
proof -
  obtain md where md: "same_origin md (rx_md c)" "rule_matches E q md" by (rule matchRule_selected [OF assms(1) sel]) (rule that)
  have "md_user (reset_rule_cache md) \<in> set (c_auth_user conds)"
    using user_rule_isolated [OF new start] md(2) by (simp add: rule_matches_def lib)
  then show ?thesis using same_user [OF md(1)] by (simp add: reset_rule_cache_def reset_rule_match_cache_def)
qed

section \<open>The first rule\<close>

lemma rule_matches_after [simp]: "rule_matches E p (rg_md (after_match E q g)) = rule_matches E p (rg_md g)"
proof -
  obtain b where "snd (rule_Match (en_libs E) (en_services E) (ro_rule q) (reset_rule_cache (rg_md g))) = (reset_rule_cache (rg_md g))\<lparr>md_did_match := b\<rparr>"
    using rule_Match_snd by blast
  then show ?thesis by (simp add: after_match_def rule_matches_def)
qed

lemma after_match_input [simp]:
  "rg_buffers (after_match E q g) = rg_buffers g" "rg_packets (after_match E q g) = rg_packets g" "rg_input (after_match E q g) = rg_input g"
  by (simp_all add: after_match_def)

lemma with_options_input [simp]:
  "rg_buffers (with_options a g) = rg_buffers g" "rg_packets (with_options a g) = rg_packets g" "rg_input (with_options a g) = rg_input g"
  by (simp_all add: with_options_def split: option.split)

definition ends_search :: "bool \<Rightarrow> rule_obj \<Rightarrow> bool" where
  "ends_search sb q = (case ro_action q of Some a \<Rightarrow> final_action sb a | None \<Rightarrow> False)"

lemma final_run_action: "final_action sb a \<Longrightarrow> run_action E pre a g = (g, None, False)"
  by (cases a) (auto simp: final_action_def run_action_def)

lemma match_rules_first:
  assumes "list_all (ends_search sb) qs" "match_rules E pre sb i qs g = (Inr sel, g')"
  shows "(case sel of
      None \<Rightarrow> \<forall>q \<in> set qs. \<not> rule_matches E q (rg_md g)
    | Some (j, q) \<Rightarrow> i \<le> j \<and> j < i + length qs \<and> q = qs ! (j - i) \<and> rule_matches E q (rg_md g) \<and> (\<forall>k < j - i. \<not> rule_matches E (qs ! k) (rg_md g))) \<and>
    rg_buffers g' = rg_buffers g \<and> rg_packets g' = rg_packets g \<and> rg_input g' = rg_input g"
  using assms
proof (induction qs arbitrary: i g)
  case (Cons p qs)
  obtain a where a: "ro_action p = Some a" "final_action sb a" using Cons.prems(1) by (auto simp: ends_search_def split: option.splits)
  show ?case
  proof (cases "rule_matches E p (rg_md g)")
    case True
    then have "sel = Some (i, p)" "g' = with_options a (after_match E p g)"
      using Cons.prems(2) a final_run_action [OF a(2)] by (simp_all add: match_rules_Cons)
    then show ?thesis using True by simp
  next
    case False
    have run: "match_rules E pre sb (Suc i) qs (after_match E p g) = (Inr sel, g')" using Cons.prems(2) False by (simp add: match_rules_Cons)
    note IH = Cons.IH [OF _ run]
    show ?thesis
    proof (cases sel)
      case None
      then show ?thesis using IH False Cons.prems(1) by simp
    next
      case (Some jq)
      obtain j q where jq: "jq = (j, q)" by (cases jq)
      from IH Cons.prems(1) Some jq have j: "Suc i \<le> j" "j < Suc i + length qs" "q = qs ! (j - Suc i)" "rule_matches E q (rg_md g)"
        "\<forall>k < j - Suc i. \<not> rule_matches E (qs ! k) (rg_md g)" and g': "rg_buffers g' = rg_buffers g" "rg_packets g' = rg_packets g" "rg_input g' = rg_input g"
        by auto
      obtain d where d: "j - i = Suc d" "j - Suc i = d" using j(1) by (metis Suc_diff_Suc Suc_le_lessD)
      have "\<not> rule_matches E ((p # qs) ! k) (rg_md g)" if "k < j - i" for k using that j(5) False d by (cases k) simp_all
      then show ?thesis using j g' Some jq d by simp
    qed
  qed
qed simp

text \<open>C12: The first matching rule decides. When every current rule ends the search, as rules that route, reject or hijack do, the selected rule is the first
  one that matches the connection, none is selected exactly when none matches, and nothing is read from the connection.\<close>

theorem first_matching_rule:
  assumes "list_all (ends_search sb) (currentRules r)" and sel: "matchRule E pre sb input c r = ((Inr selected, g), r')"
  shows "\<exists>c1. restore_domain E (searchProcessInfo E c) = Inr c1 \<and> rg_buffers g = [] \<and> rg_packets g = [] \<and> rg_input g = input \<and>
    (let md = rx_md (set_ip_version c1) in
     case selected of
       None \<Rightarrow> \<not> list_ex (\<lambda>q. rule_matches E q md) (currentRules r)
     | Some (i, q) \<Rightarrow> i < length (currentRules r) \<and> q = currentRules r ! i \<and> rule_matches E q md \<and>
         \<not> list_ex (\<lambda>q. rule_matches E q md) (take i (currentRules r)))"
proof -
  obtain c1 where c1: "restore_domain E (searchProcessInfo E c) = Inr c1"
    and run: "match_rules E pre sb 0 (currentRules r) \<lparr>rg_context = set_ip_version c1, rg_buffers = [], rg_packets = [], rg_input = input\<rparr> = (Inr selected, g)"
    by (rule matchRule_search [OF sel]) (rule that)
  show ?thesis
    using match_rules_first [OF assms(1) run] c1 by (auto simp: list_ex_iff in_set_conv_nth split: option.splits)
qed

section \<open>What the connection carries\<close>

definition stream_bytes :: "reads \<Rightarrow> byte list" where
  "stream_bytes rs = concat (map (\<lambda>x. case x of Inl _ \<Rightarrow> [] | Inr bs \<Rightarrow> bs) rs)"

text \<open>The cached connection of the network library gives its buffer before it reads from the connection.\<close>

definition cached_first :: "route_env \<Rightarrow> bool" where
  "cached_first E \<longleftrightarrow> (\<forall>rs b. stream_bytes (en_cached_conn E rs b) = b @ stream_bytes rs)"

definition is_sniff :: "rule_obj \<Rightarrow> bool" where
  "is_sniff q = (case ro_action q of Some (RuleActionSniff _ _ _ _) \<Rightarrow> True | _ \<Rightarrow> False)"

lemma read_once_bytes: "read_once n rs = (res, rest) \<Longrightarrow> stream_bytes rs = (case res of Inl _ \<Rightarrow> [] | Inr bs \<Rightarrow> bs) @ stream_bytes rest"
  by (auto simp: read_once_def stream_bytes_def split: if_splits list.splits sum.splits)

lemma PeekStream_bytes:
  "PeekStream E ss deadline bufs buf prev rs c = (c', buf', rest, errs) \<Longrightarrow> \<exists>new. buf' = buf @ new \<and> stream_bytes rs = new @ stream_bytes rest"
proof (induction E ss deadline bufs buf prev rs c rule: PeekStream.induct)
  case (1 E ss deadline bufs buf prev rs c)
  show ?case
  proof (cases deadline)
    case None
    obtain res rest1 where once: "read_once (en_packet_size E - length buf) rs = (res, rest1)" by fastforce
    note bytes = read_once_bytes [OF once]
    show ?thesis
    proof (cases res)
      case (Inl e)
      then have "buf' = buf" "rest = rest1" using "1.prems" by (simp_all add: PeekStream.simps [of E] None once)
      then show ?thesis using bytes Inl by simp
    next
      case (Inr bs)
      obtain c1 e1 where t: "try_sniffers (en_stream_sniffer E) ss (concat bufs @ buf @ bs) [] c = (c1, e1)" by fastforce
      show ?thesis
      proof (cases "list_ex needs_more e1")
        case True
        then have run: "PeekStream E ss deadline bufs (buf @ bs) (Some e1) rest1 c1 = (c', buf', rest, errs)"
          using "1.prems" by (simp add: PeekStream.simps [of E ss None bufs buf prev rs c] None once Inr t)
        show ?thesis
          using "1.IH" [OF None once [symmetric] Inr refl t [symmetric] refl True run] bytes Inr by auto
      next
        case False
        then have "buf' = buf @ bs" "rest = rest1" using "1.prems" by (simp_all add: PeekStream.simps [of E] None once Inr t)
        then show ?thesis using bytes Inr by simp
      qed
    qed
  next
    case (Some e)
    then show ?thesis using "1.prems" by (simp add: PeekStream.simps [of E])
  qed
qed

text \<open>The bytes a connection has in front of it and in the buffers stay the same, in order.\<close>

definition carries :: "routing \<Rightarrow> byte list \<Rightarrow> bool" where
  "carries g bs \<longleftrightarrow> (\<exists>conn. rg_input g = StreamInput conn \<and> concat (rg_buffers g) @ stream_bytes (st_reads conn) = bs)"

lemma sniff_stream_carries:
  assumes "rg_input g = StreamInput conn" "carries g bs"
  shows "carries (sniff_stream E names ss conn g) bs \<and> length (rg_buffers (sniff_stream E names ss conn g)) \<le> Suc (length (rg_buffers g))"
proof -
  obtain c' buf rest errs where run: "PeekStream E (if ss = [] then default_stream_sniffers else ss) (st_deadline conn) (rg_buffers g) [] None (st_reads conn) (rg_context g) = (c', buf, rest, errs)"
    by (metis prod_cases4)
  show ?thesis using PeekStream_bytes [OF run] assms by (auto simp: sniff_stream_def run carries_def)
qed

lemma run_action_carries:
  assumes "run_action E pre a g = (g', e, stop)" "carries g bs"
  shows "carries g' bs \<and> length (rg_buffers g') \<le> length (rg_buffers g) + (case a of RuleActionSniff _ _ _ _ \<Rightarrow> 1 | _ \<Rightarrow> 0)"
proof (cases "\<exists>names ss ps t. a = RuleActionSniff names ss ps t")
  case True
  then obtain names ss ps t where a: "a = RuleActionSniff names ss ps t" by blast
  obtain conn where conn: "rg_input g = StreamInput conn" using assms(2) by (auto simp: carries_def)
  show ?thesis using assms sniff_stream_carries [OF conn assms(2)] by (auto simp: a run_action_def actionSniff_def Let_def conn split: if_splits prod.splits)
next
  case False
  then have "rg_buffers g' = rg_buffers g \<and> rg_input g' = rg_input g"
    using assms(1) by (cases a) (auto simp: run_action_def split: sum.splits)
  then show ?thesis using assms(2) by (simp add: carries_def)
qed

lemma match_rules_carries:
  "match_rules E pre sb i qs g = (res, g') \<Longrightarrow> carries g bs \<Longrightarrow>
     carries g' bs \<and> length (rg_buffers g') \<le> length (rg_buffers g) + length (filter is_sniff qs)"
proof (induction qs arbitrary: i g)
  case (Cons p qs)
  have am: "carries (after_match E p g) bs" using Cons.prems(2) by (simp add: carries_def)
  show ?case
  proof (cases "rule_matches E p (rg_md g)")
    case False
    then show ?thesis using Cons.IH [of "Suc i" "after_match E p g"] Cons.prems am by (auto simp: match_rules_Cons)
  next
    case True
    show ?thesis
    proof (cases "ro_action p")
      case None
      then show ?thesis using True Cons.prems(1) am by (auto simp: match_rules_Cons)
    next
      case (Some a)
      obtain h e stop where run: "run_action E pre a (with_options a (after_match E p g)) = (h, e, stop)" by (metis prod_cases3)
      have "carries (with_options a (after_match E p g)) bs" using am by (simp add: carries_def)
      from run_action_carries [OF run this] have h: "carries h bs" "length (rg_buffers h) \<le> length (rg_buffers g) + length (filter is_sniff [p])"
        by (auto simp: is_sniff_def Some split: rule_action.splits)
      show ?thesis using Cons.prems(1) True Some run h Cons.IH [of "Suc i" h]
        by (cases e) (auto simp: match_rules_Cons split: if_splits)
    qed
  qed
qed simp

lemma cached_bytes: "cached_first E \<Longrightarrow> stream_bytes (foldl (en_cached_conn E) rs bufs) = concat (rev bufs) @ stream_bytes rs"
  by (induction bufs arbitrary: rs) (simp_all add: cached_first_def)

lemma routed_stream:
  assumes "cached_first E" and route: "routeConnection E M conn c r = (Outgoing out c' (StreamInput conn') sel, r')"
  obtains bufs rest where "stream_bytes (st_reads conn) = concat bufs @ rest" "stream_bytes (st_reads conn') = concat (rev bufs) @ rest"
    "length bufs \<le> length (filter is_sniff (currentRules r))"
proof -
  obtain selected g where m: "matchRule E False False (StreamInput conn) (c\<lparr>rx_md := (rx_md c)\<lparr>md_network := ''tcp''\<rparr>\<rparr>) r = ((Inr selected, g), r')"
    and out: "route_selected E M ''tcp'' ''TCP'' ''TCP is not supported by default outbound: '' selected g = Outgoing out c' (StreamInput conn') sel"
    by (rule routeConnection_Outgoing [OF route]) (rule that)
  obtain c1 where run: "match_rules E False False 0 (currentRules r)
      \<lparr>rg_context = set_ip_version c1, rg_buffers = [], rg_packets = [], rg_input = StreamInput conn\<rparr> = (Inr selected, g)"
    by (rule matchRule_search [OF m]) (rule that)
  from match_rules_carries [OF run, of "stream_bytes (st_reads conn)"] obtain conn1 where
    "rg_input g = StreamInput conn1" "concat (rg_buffers g) @ stream_bytes (st_reads conn1) = stream_bytes (st_reads conn)"
    "length (rg_buffers g) \<le> length (filter is_sniff (currentRules r))" by (auto simp: carries_def)
  then show ?thesis
    using route_selected_Outgoing [OF out] cached_bytes [OF assms(1), of "st_reads conn1" "rg_buffers g"]
    by (intro that [of "rg_buffers g" "stream_bytes (st_reads conn1)"]) (auto simp: cached_input_def)
qed

text \<open>C24: Sniffing loses nothing. With at most one sniff rule among the current rules the outbound reads exactly the bytes the client sent, in their order,
  however many of them were read ahead and whatever the sniffers found.\<close>

theorem sniffed_stream_kept:
  assumes "cached_first E" "length (filter is_sniff (currentRules r)) \<le> 1"
    and route: "routeConnection E M conn c r = (Outgoing out c' (StreamInput conn') sel, r')"
  shows "stream_bytes (st_reads conn') = stream_bytes (st_reads conn)"
proof -
  obtain bufs rest where b: "stream_bytes (st_reads conn) = concat bufs @ rest" "stream_bytes (st_reads conn') = concat (rev bufs) @ rest"
    "length bufs \<le> length (filter is_sniff (currentRules r))" by (rule routed_stream [OF assms(1) route])
  then have "length bufs \<le> 1" using assms(2) by simp
  then show ?thesis using b(1,2) by (cases bufs) simp_all
qed

section \<open>Instances\<close>

definition demo_env :: route_env where
  "demo_env = \<lparr>en_libs = demo_libs, en_services = demo_services, en_find_process = None, en_platform_addresses = [], en_fakeip = None,
     en_reverse_mapping = (\<lambda>_. None), en_dns_transport = (\<lambda>_. False), en_dns_lookup = (\<lambda>_ _ _ _. Inr []), en_is_domain = (\<lambda>a. sa_fqdn a \<noteq> []),
     en_mux_fqdn = ''mux'', en_is_timeout = (\<lambda>e. e = os_ErrDeadlineExceeded),
     en_stream_sniffer = (\<lambda>s c bs. (c, Some (if s = HTTPHost \<and> length bs < 4 then ErrNeedMoreData else ENew ''unknown''))),
     en_packet_sniffer = (\<lambda>s c bs. (c, Some (if s = QUICClientHello then ErrNeedMoreData else ENew ''unknown''))),
     en_packet_size = 16, en_networks = (\<lambda>_. [''tcp'', ''udp'']), en_direct_route = (\<lambda>_. False),
     en_cached_conn = (\<lambda>rs b. Inr b # rs), en_cached_packet = (\<lambda>evs p. PacketRead p # evs)\<rparr>"

definition demo_context :: "string \<Rightarrow> route_context" where
  "demo_context user = \<lparr>rx_md = demo_md\<lparr>md_user := user\<rparr>, rx_sniff_context = [], rx_sniffer_names = [], rx_sniff_error = [], rx_inbound_detour = [],
     rx_last_inbound = [], rx_origin_destination = \<lparr>sa_addr = None, sa_port = 0, sa_fqdn = []\<rparr>,
     rx_route_original_destination = \<lparr>sa_addr = None, sa_port = 0, sa_fqdn = []\<rparr>, rx_udp_disable_domain_unmapping = False,
     rx_udp_connect = False, rx_udp_timeout = 0, rx_tls_fragment = False, rx_tls_fragment_fallback_delay = 0, rx_tls_record_fragment = False,
     rx_network_strategy = None, rx_network_type = None, rx_fallback_network_type = None, rx_fallback_delay = 0, rx_fake_ip = False\<rparr>"

definition demo_out :: component where
  "demo_out = \<lparr>cp_id = 0, cp_type = ''direct'', cp_tag = ''out'', cp_deps = []\<rparr>"

definition demo_managers :: route_managers where
  "demo_managers = \<lparr>rm_endpoints = NewTagManager, rm_inbounds = (\<lambda>_. None), rm_injectable = (\<lambda>_ _. False),
     rm_outbounds = (NewOutboundManager [])\<lparr>om_by_tag := [(''out'', demo_out)], om_default := Some demo_out\<rparr>\<rparr>"

definition demo_sniff :: "string \<Rightarrow> sniffer list \<Rightarrow> sniffer list \<Rightarrow> rule_obj" where
  "demo_sniff name ss ps = \<lparr>ro_id = 0, ro_rule = DefaultRule no_items None False, ro_action = Some (RuleActionSniff [name] ss ps 0)\<rparr>"

definition demo_routing :: "rule_obj list \<Rightarrow> rule_router" where
  "demo_routing qs = \<lparr>rt_rules = qs, rt_added = None, rt_snapshots = [], rt_closed = [], rt_fresh = length qs\<rparr>"

definition demo_stream :: "byte list list \<Rightarrow> stream_conn" where
  "demo_stream bss = \<lparr>st_deadline = None, st_reads = map Inr bss\<rparr>"

lemma demo_env_ok: "cached_first demo_env" "sniffers_only demo_env"
  by (simp_all add: cached_first_def sniffers_only_def demo_env_def stream_bytes_def)

text \<open>What the outbound reads from a routed connection.\<close>

definition routed_reads :: "route_outcome \<Rightarrow> byte list option" where
  "routed_reads out = (case out of Outgoing _ _ (StreamInput conn) _ \<Rightarrow> Some (stream_bytes (st_reads conn)) | _ \<Rightarrow> None)"

definition routed_packets :: "route_outcome \<Rightarrow> packet_event list option" where
  "routed_packets out = (case out of Outgoing _ _ (PacketInput evs) _ \<Rightarrow> Some evs | _ \<Rightarrow> None)"

definition demo_packet :: "byte list \<Rightarrow> packet" where
  "demo_packet bs = (bs, md_destination demo_md)"

text \<open>Reading ahead in two rules changes what the outbound reads. For a stream, the data read by the second sniff rule comes before that of the first. For packets,
  the one the first rule read ahead comes after the one of the second rule, and twice.\<close>

theorem sniffed_twice_changed:
  "routed_reads (fst (routeConnection demo_env demo_managers (demo_stream [[1, 2], [3, 4]]) (demo_context [])
       (demo_routing [demo_sniff ''tls'' [TLSClientHello] [], demo_sniff ''ssh'' [SSH] []]))) = Some [3, 4, 1, 2] \<and>
   routed_packets (fst (routePacketConnection demo_env demo_managers
       [PacketRead (demo_packet [1]), PacketError os_ErrDeadlineExceeded, PacketRead (demo_packet [2])] (demo_context [])
       (demo_routing [demo_sniff ''quic'' [] [QUICClientHello], demo_sniff ''quic'' [] [QUICClientHello]]))) =
     Some [PacketRead (demo_packet [2]), PacketRead (demo_packet [1]), PacketRead (demo_packet [1])]"
  by code_simp

definition demo_user_obj :: rule_obj where
  "demo_user_obj = \<lparr>ro_id = 0, ro_rule = DefaultRule demo_user_items None False, ro_action = Some (RuleActionRoute ''out'' no_route_options)\<rparr>"

lemma demo_routed:
  "case routeConnection demo_env demo_managers (demo_stream [[1, 2], [3, 4]]) (demo_context ''alice'') (demo_routing [demo_sniff ''http'' [HTTPHost] [], demo_user_obj]) of
     (Outgoing out c (StreamInput conn) sel, r') \<Rightarrow> out = demo_out \<and> md_user (rx_md c) = ''alice'' \<and> sel \<noteq> None
   | _ \<Rightarrow> False"
  by code_simp

lemma demo_routedE:
  obtains c conn q r' where "routeConnection demo_env demo_managers (demo_stream [[1, 2], [3, 4]]) (demo_context ''alice'')
    (demo_routing [demo_sniff ''http'' [HTTPHost] [], demo_user_obj]) = (Outgoing demo_out c (StreamInput conn) (Some q), r')"
  using demo_routed by (auto split: prod.splits route_outcome.splits conn_input.splits)

theorem routed_by_matching_rule_witness:
  "\<exists>q \<in> {demo_sniff ''http'' [HTTPHost] [], demo_user_obj}. \<exists>md. md_user md = ''alice'' \<and> rule_matches demo_env q md"
proof -
  obtain c conn q r' where "routeConnection demo_env demo_managers (demo_stream [[1, 2], [3, 4]]) (demo_context ''alice'')
    (demo_routing [demo_sniff ''http'' [HTTPHost] [], demo_user_obj]) = (Outgoing demo_out c (StreamInput conn) (Some q), r')" by (rule demo_routedE)
  from routed_by_matching_rule [OF demo_env_ok(2) this] obtain md where
    "q \<in> set (currentRules (demo_routing [demo_sniff ''http'' [HTTPHost] [], demo_user_obj]))" "rule_matches demo_env q md"
    "same_origin md ((rx_md (demo_context ''alice''))\<lparr>md_network := ''tcp''\<rparr>)" by auto
  then show ?thesis by (auto simp: demo_routing_def currentRules_def same_origin_def demo_context_def)
qed

theorem sniffed_stream_kept_witness:
  "\<exists>c conn sel r'. routeConnection demo_env demo_managers (demo_stream [[1, 2], [3, 4]]) (demo_context ''alice'')
     (demo_routing [demo_sniff ''http'' [HTTPHost] [], demo_user_obj]) = (Outgoing demo_out c (StreamInput conn) sel, r') \<and> stream_bytes (st_reads conn) = [1, 2, 3, 4]"
proof -
  obtain c conn q r' where route: "routeConnection demo_env demo_managers (demo_stream [[1, 2], [3, 4]]) (demo_context ''alice'')
    (demo_routing [demo_sniff ''http'' [HTTPHost] [], demo_user_obj]) = (Outgoing demo_out c (StreamInput conn) (Some q), r')" by (rule demo_routedE)
  have "length (filter is_sniff (currentRules (demo_routing [demo_sniff ''http'' [HTTPHost] [], demo_user_obj]))) \<le> 1"
    by (simp add: demo_routing_def currentRules_def is_sniff_def demo_sniff_def demo_user_obj_def)
  from sniffed_stream_kept [OF demo_env_ok(1) this route] have "stream_bytes (st_reads conn) = [1, 2, 3, 4]"
    by (simp add: demo_stream_def stream_bytes_def)
  then show ?thesis using route by blast
qed

lemma demo_selected_index:
  "case fst (fst (matchRule demo_env False False NoInput (demo_context ''alice'') (demo_routing [demo_user_obj]))) of Inr (Some (i, _)) \<Rightarrow> i = 0 | _ \<Rightarrow> False"
  by code_simp

lemma demo_selected:
  obtains g r' where "matchRule demo_env False False NoInput (demo_context ''alice'') (demo_routing [demo_user_obj]) = ((Inr (Some (0, demo_user_obj)), g), r')"
proof -
  obtain q g r' where sel: "matchRule demo_env False False NoInput (demo_context ''alice'') (demo_routing [demo_user_obj]) = ((Inr (Some (0, q)), g), r')"
    using demo_selected_index
    by (cases "matchRule demo_env False False NoInput (demo_context ''alice'') (demo_routing [demo_user_obj])") (auto split: prod.splits sum.splits option.splits)
  have "currentRules (demo_routing [demo_user_obj]) ! 0 = q" by (rule matchRule_selected [OF demo_env_ok(2) sel])
  then show ?thesis using sel by (intro that) (simp add: demo_routing_def currentRules_def)
qed

theorem user_rule_selected_witness:
  "\<exists>g r'. matchRule demo_env False False NoInput (demo_context ''alice'') (demo_routing [demo_user_obj]) = ((Inr (Some (0, demo_user_obj)), g), r') \<and>
     md_user (rx_md (demo_context ''alice'')) \<in> set (c_auth_user (zero_conds\<lparr>c_auth_user := [''alice'']\<rparr>))"
proof -
  obtain g r' where sel: "matchRule demo_env False False NoInput (demo_context ''alice'') (demo_routing [demo_user_obj]) = ((Inr (Some (0, demo_user_obj)), g), r')"
    by (rule demo_selected)
  obtain action where new: "NewRule demo_libs demo_action_libs True demo_user_options = Inr (DefaultRule demo_user_items None False, action)"
    using demo_user_rule by blast
  have start: "rule_start (en_services demo_env) (\<lambda>_. None) (DefaultRule demo_user_items None False) = Inr (ro_rule demo_user_obj)"
    by (simp add: first_start_error_def items_started_def Let_def demo_user_items_def no_items_def NewAuthUserItem_def demo_user_obj_def)
  show ?thesis
    using user_rule_selected [OF demo_env_ok(2) sel new [unfolded demo_user_options_def] _ _ _ start] sel by (simp add: zero_conds_def demo_env_def)
qed

theorem first_matching_rule_witness:
  "\<exists>g r'. matchRule demo_env False False NoInput (demo_context ''alice'') (demo_routing [demo_user_obj]) = ((Inr (Some (0, demo_user_obj)), g), r') \<and>
     rg_buffers g = []"
proof -
  obtain g r' where sel: "matchRule demo_env False False NoInput (demo_context ''alice'') (demo_routing [demo_user_obj]) = ((Inr (Some (0, demo_user_obj)), g), r')"
    by (rule demo_selected)
  have "list_all (ends_search False) (currentRules (demo_routing [demo_user_obj]))"
    by (simp add: demo_routing_def currentRules_def demo_user_obj_def ends_search_def final_action_def)
  from first_matching_rule [OF this sel] show ?thesis using sel by auto
qed

end
