(* ===== verification/Outbound_Group.thy ===== *)
theory Outbound_Group
  imports Outbound_Manager "HOL-Library.Word"
begin

text \<open>
  Outbounds that stand for one of several others (\<^verbatim>\<open>protocol/group\<close>): the selector, whose member is chosen by hand, and the URL test, which measures its members and takes a fast one; with
  the history of measurements (\<^verbatim>\<open>common/urltest\<close>) and the connections that are closed when the choice changes (\<^verbatim>\<open>common/interrupt\<close>).

  Dialling and measuring are parameters, as is what members answer about themselves (\<open>group_env\<close>). Delays are 16-bit words. Connections are numbers.
\<close>

section \<open>Interrupted connections\<close>

record group_item =
  gi_conn :: nat
  gi_external :: bool

record interrupt_group =
  ig_items :: "group_item list"
  ig_closed :: "nat list"

definition NewGroup :: interrupt_group where "NewGroup = \<lparr>ig_items = [], ig_closed = []\<rparr>"

definition group_NewConn :: "interrupt_group \<Rightarrow> nat \<Rightarrow> bool \<Rightarrow> interrupt_group" where
  "group_NewConn g conn external = g\<lparr>ig_items := ig_items g @ [\<lparr>gi_conn = conn, gi_external = external\<rparr>]\<rparr>"

definition group_Conn_Close :: "interrupt_group \<Rightarrow> group_item \<Rightarrow> interrupt_group" where
  "group_Conn_Close g item = g\<lparr>ig_items := remove1 item (ig_items g), ig_closed := ig_closed g @ [gi_conn item]\<rparr>"

definition group_Interrupt :: "interrupt_group \<Rightarrow> bool \<Rightarrow> interrupt_group" where
  "group_Interrupt g interruptExternal =
     (let hit = (\<lambda>i. \<not> gi_external i \<or> interruptExternal)
      in g\<lparr>ig_items := filter (\<lambda>i. \<not> hit i) (ig_items g), ig_closed := ig_closed g @ map gi_conn (filter hit (ig_items g))\<rparr>)"

section \<open>The selector\<close>

record group_env =
  ge_lookup :: "string \<Rightarrow> component option"
  ge_networks :: "component \<Rightarrow> string list"
  ge_now :: "component \<Rightarrow> string option"

definition RealTag :: "group_env \<Rightarrow> component \<Rightarrow> string" where
  "RealTag E detour = (case ge_now E detour of Some now \<Rightarrow> now | None \<Rightarrow> cp_tag detour)"

record selector =
  sl_tag :: string
  sl_tags :: "string list"
  sl_default :: string
  sl_outbounds :: "(string, component) gomap"
  sl_selected :: "component option"
  sl_interrupt :: interrupt_group
  sl_interrupt_external :: bool

definition NewSelector :: "string \<Rightarrow> string list \<Rightarrow> string \<Rightarrow> bool \<Rightarrow> go_error + selector" where
  "NewSelector tag outbounds default_tag interruptExternal =
     (if outbounds = [] then Inl (ENew ''missing tags'')
      else Inr \<lparr>sl_tag = tag, sl_tags = outbounds, sl_default = default_tag, sl_outbounds = [], sl_selected = None, sl_interrupt = NewGroup, sl_interrupt_external = interruptExternal\<rparr>)"

definition Selector_Network :: "group_env \<Rightarrow> selector \<Rightarrow> string list" where
  "Selector_Network E s = (case sl_selected s of None \<Rightarrow> [''tcp'', ''udp''] | Some c \<Rightarrow> ge_networks E c)"

fun load_members :: "group_env \<Rightarrow> nat \<Rightarrow> string list \<Rightarrow> (string, component) gomap \<Rightarrow> (string, component) gomap \<times> go_error option" where
  "load_members E i [] m = (m, None)"
| "load_members E i (tag # tags) m =
     (case ge_lookup E tag of
        None \<Rightarrow> (m, Some (ENew (''outbound '' @ digits i @ '' not found: '' @ tag)))
      | Some detour \<Rightarrow> load_members E (Suc i) tags (AList.update tag detour m))"

text \<open>The selections kept in the cache file, if there is one.\<close>

type_synonym selections = "(string, string) gomap option"

definition cached_selection :: "selections \<Rightarrow> selector \<Rightarrow> component option" where
  "cached_selection cache s =
     (case (if sl_tag s = [] then None else cache) of
        None \<Rightarrow> None
      | Some kept \<Rightarrow> (case map_of kept (sl_tag s) of
                        None \<Rightarrow> None
                      | Some selected \<Rightarrow> if selected = [] then None else map_of (sl_outbounds s) selected))"

definition Selector_Start :: "group_env \<Rightarrow> selections \<Rightarrow> selector \<Rightarrow> selector \<times> go_error option" where
  "Selector_Start E cache s0 =
     (case load_members E 0 (sl_tags s0) (sl_outbounds s0) of
        (m, Some e) \<Rightarrow> (s0\<lparr>sl_outbounds := m\<rparr>, Some e)
      | (m, None) \<Rightarrow>
          (let s = s0\<lparr>sl_outbounds := m\<rparr>
           in case cached_selection cache s of
                Some detour \<Rightarrow> (s\<lparr>sl_selected := Some detour\<rparr>, None)
              | None \<Rightarrow>
                  if sl_default s \<noteq> [] then
                    (case map_of m (sl_default s) of
                       None \<Rightarrow> (s, Some (ENew (''default outbound not found: '' @ sl_default s)))
                     | Some detour \<Rightarrow> (s\<lparr>sl_selected := Some detour\<rparr>, None))
                  else (s\<lparr>sl_selected := map_of m (hd (sl_tags s))\<rparr>, None)))"

definition Selector_Now :: "selector \<Rightarrow> string" where
  "Selector_Now s = (case sl_selected s of None \<Rightarrow> hd (sl_tags s) | Some c \<Rightarrow> cp_tag c)"

text \<open>A selection swaps the selected outbound, keeps the choice in the cache file and interrupts the connections. No lock is held over the three. The swap returns when the outbound is not known or
  already selected; \<open>stores\<close> says whether the cache file takes the selection, an error is only logged.\<close>

definition select_swap :: "selector \<Rightarrow> string \<Rightarrow> bool option \<times> selector" where
  "select_swap s tag =
     (case map_of (sl_outbounds s) tag of
        None \<Rightarrow> (Some False, s)
      | Some detour \<Rightarrow> (if map_option cp_id (sl_selected s) = Some (cp_id detour) then Some True else None, s\<lparr>sl_selected := Some detour\<rparr>))"

definition select_store :: "bool \<Rightarrow> selector \<Rightarrow> string \<Rightarrow> selections \<Rightarrow> selections" where
  "select_store stores s tag cache = (if sl_tag s \<noteq> [] \<and> stores then map_option (AList.update (sl_tag s) tag) cache else cache)"

definition select_interrupt :: "selector \<Rightarrow> selector" where
  "select_interrupt s = s\<lparr>sl_interrupt := group_Interrupt (sl_interrupt s) (sl_interrupt_external s)\<rparr>"

definition SelectOutbound :: "bool \<Rightarrow> selections \<Rightarrow> selector \<Rightarrow> string \<Rightarrow> bool \<times> selector \<times> selections" where
  "SelectOutbound stores cache s tag =
     (case select_swap s tag of
        (Some r, s1) \<Rightarrow> (r, s1, cache)
      | (None, s1) \<Rightarrow> (True, select_interrupt s1, select_store stores s1 tag cache))"

text \<open>Dialling a stream or a packet connection loads the selected outbound, dials it, which may take long, and then puts the connection into the group; again there is no lock over this. \<open>dial\<close> gives
  the connection through a member.\<close>

definition dial_register :: "selector \<Rightarrow> bool \<Rightarrow> nat \<Rightarrow> selector" where
  "dial_register s external conn = s\<lparr>sl_interrupt := group_NewConn (sl_interrupt s) conn external\<rparr>"

definition Selector_Dial :: "(component \<Rightarrow> go_error + nat) \<Rightarrow> selector \<Rightarrow> bool \<Rightarrow> (go_error + nat) \<times> selector" where
  "Selector_Dial dial s external =
     (case sl_selected s of
        None \<Rightarrow> (Inl (EPanic ''nil pointer dereference''), s)
      | Some c \<Rightarrow> (case dial c of Inl e \<Rightarrow> (Inl e, s) | Inr conn \<Rightarrow> (Inr conn, dial_register s external conn)))"

section \<open>Measurements\<close>

record url_history =
  uh_time :: int
  uh_delay :: "16 word"

type_synonym histories = "(string, url_history) gomap"

definition LoadURLTestHistory :: "histories \<Rightarrow> string \<Rightarrow> url_history option" where "LoadURLTestHistory h tag = map_of h tag"
definition DeleteURLTestHistory :: "string \<Rightarrow> histories \<Rightarrow> histories" where "DeleteURLTestHistory tag h = AList.delete tag h"
definition StoreURLTestHistory :: "string \<Rightarrow> url_history \<Rightarrow> histories \<Rightarrow> histories" where "StoreURLTestHistory tag e h = AList.update tag e h"

record urltest_group =
  ug_outbounds :: "component list"
  ug_interval :: int
  ug_tolerance :: "16 word"
  ug_idle_timeout :: int
  ug_history :: histories
  ug_checking :: bool
  ug_tcp :: "component option"
  ug_udp :: "component option"
  ug_interrupt :: interrupt_group
  ug_interrupt_external :: bool
  ug_ticker :: bool
  ug_started :: bool
  ug_last_active :: int

definition DefaultURLTestInterval :: int where "DefaultURLTestInterval = 180000"
definition DefaultURLTestIdleTimeout :: int where "DefaultURLTestIdleTimeout = 1800000"

definition NewURLTestGroup :: "component list \<Rightarrow> int \<Rightarrow> 16 word \<Rightarrow> int \<Rightarrow> bool \<Rightarrow> histories \<Rightarrow> go_error + urltest_group" where
  "NewURLTestGroup outbounds interval0 tolerance0 idleTimeout0 interruptExternal history =
     (let interval = (if interval0 = 0 then DefaultURLTestInterval else interval0);
          tolerance = (if tolerance0 = 0 then 50 else tolerance0);
          idleTimeout = (if idleTimeout0 = 0 then DefaultURLTestIdleTimeout else idleTimeout0)
      in if interval > idleTimeout then Inl (ENew ''interval must be less or equal than idle_timeout'')
         else Inr \<lparr>ug_outbounds = outbounds, ug_interval = interval, ug_tolerance = tolerance, ug_idle_timeout = idleTimeout, ug_history = history, ug_checking = False,
                   ug_tcp = None, ug_udp = None, ug_interrupt = NewGroup, ug_interrupt_external = interruptExternal, ug_ticker = False, ug_started = False, ug_last_active = 0\<rparr>)"

definition select_start :: "group_env \<Rightarrow> histories \<Rightarrow> component option \<Rightarrow> 16 word \<times> component option" where
  "select_start E h selected =
     (case selected of
        None \<Rightarrow> (0, None)
      | Some c \<Rightarrow> (case LoadURLTestHistory h (RealTag E c) of None \<Rightarrow> (0, None) | Some e \<Rightarrow> (uh_delay e, Some c)))"

fun select_loop :: "group_env \<Rightarrow> histories \<Rightarrow> 16 word \<Rightarrow> string \<Rightarrow> component list \<Rightarrow> 16 word \<times> component option \<Rightarrow> 16 word \<times> component option" where
  "select_loop E h tolerance network [] best = best"
| "select_loop E h tolerance network (detour # detours) (minDelay, minOutbound) =
     select_loop E h tolerance network detours
       (if network \<notin> set (ge_networks E detour) then (minDelay, minOutbound)
        else case LoadURLTestHistory h (RealTag E detour) of
               None \<Rightarrow> (minDelay, minOutbound)
             | Some e \<Rightarrow> if minDelay = 0 \<or> minDelay > uh_delay e + tolerance then (uh_delay e, Some detour) else (minDelay, minOutbound))"

definition group_selected :: "urltest_group \<Rightarrow> string \<Rightarrow> component option" where
  "group_selected g network = (if network = ''tcp'' then ug_tcp g else if network = ''udp'' then ug_udp g else None)"

definition URLTest_Select :: "group_env \<Rightarrow> urltest_group \<Rightarrow> string \<Rightarrow> component option \<times> bool" where
  "URLTest_Select E g network =
     (case select_loop E (ug_history g) (ug_tolerance g) network (ug_outbounds g) (select_start E (ug_history g) (group_selected g network)) of
        (_, Some c) \<Rightarrow> (Some c, True)
      | (_, None) \<Rightarrow> (find (\<lambda>detour. network \<in> set (ge_networks E detour)) (ug_outbounds g), False))"

definition update_choice :: "component option \<Rightarrow> component option \<times> bool \<Rightarrow> component option \<times> bool" where
  "update_choice selected choice =
     (case choice of
        (None, _) \<Rightarrow> (selected, False)
      | (Some c, found) \<Rightarrow>
          if selected = None \<or> found \<and> map_option cp_id selected \<noteq> Some (cp_id c) then (Some c, selected \<noteq> None) else (selected, False))"

definition performUpdateCheck :: "group_env \<Rightarrow> urltest_group \<Rightarrow> urltest_group" where
  "performUpdateCheck E g =
     (let (tcp, updated1) = update_choice (ug_tcp g) (URLTest_Select E g ''tcp''); g1 = g\<lparr>ug_tcp := tcp\<rparr>;
          (udp, updated2) = update_choice (ug_udp g1) (URLTest_Select E g1 ''udp''); g2 = g1\<lparr>ug_udp := udp\<rparr>
      in if updated1 \<or> updated2 then g2\<lparr>ug_interrupt := group_Interrupt (ug_interrupt g2) (ug_interrupt_external g2)\<rparr> else g2)"

text \<open>The measurements of one round; \<open>test\<close> is the time a request through an outbound takes. They run concurrently in the code, each for another tag.\<close>

fun test_members ::
  "group_env \<Rightarrow> (component \<Rightarrow> go_error + 16 word) \<Rightarrow> int \<Rightarrow> bool \<Rightarrow> int \<Rightarrow> component list \<Rightarrow> string list \<Rightarrow> histories \<Rightarrow> (string, 16 word) gomap \<Rightarrow> histories \<times> (string, 16 word) gomap" where
  "test_members E test now force interval [] checked h res = (h, res)"
| "test_members E test now force interval (detour # detours) checked h res =
     (let realTag = RealTag E detour
      in if realTag \<in> set checked then test_members E test now force interval detours checked h res
         else if \<not> force \<and> (case LoadURLTestHistory h realTag of Some e \<Rightarrow> now - uh_time e < interval | None \<Rightarrow> False)
         then test_members E test now force interval detours checked h res
         else case ge_lookup E realTag of
                None \<Rightarrow> test_members E test now force interval detours (realTag # checked) h res
              | Some p \<Rightarrow>
                  (case test p of
                     Inl _ \<Rightarrow> test_members E test now force interval detours (realTag # checked) (DeleteURLTestHistory realTag h) res
                   | Inr t \<Rightarrow> test_members E test now force interval detours (realTag # checked)
                               (StoreURLTestHistory realTag \<lparr>uh_time = now, uh_delay = t\<rparr> h) (AList.update (cp_tag detour) t res)))"

definition urlTest :: "group_env \<Rightarrow> (component \<Rightarrow> go_error + 16 word) \<Rightarrow> int \<Rightarrow> bool \<Rightarrow> urltest_group \<Rightarrow> (string, 16 word) gomap \<times> urltest_group" where
  "urlTest E test now force g =
     (if ug_checking g then ([], g)
      else let (h, res) = test_members E test now force (ug_interval g) (ug_outbounds g) [] (ug_history g) []
           in (res, performUpdateCheck E (g\<lparr>ug_history := h\<rparr>)))"

definition URLTest_PostStart :: "int \<Rightarrow> urltest_group \<Rightarrow> urltest_group" where
  "URLTest_PostStart now g = g\<lparr>ug_started := True, ug_last_active := now\<rparr>"

definition URLTest_Touch :: "int \<Rightarrow> urltest_group \<Rightarrow> urltest_group" where
  "URLTest_Touch now g =
     (if \<not> ug_started g then g else if ug_ticker g then g\<lparr>ug_last_active := now\<rparr> else g\<lparr>ug_ticker := True\<rparr>)"

definition URLTest_Close :: "urltest_group \<Rightarrow> urltest_group" where
  "URLTest_Close g = g\<lparr>ug_ticker := False\<rparr>"

text \<open>What the loop of the ticker does at its start and at a tick.\<close>

definition loopCheck_start :: "group_env \<Rightarrow> (component \<Rightarrow> go_error + 16 word) \<Rightarrow> int \<Rightarrow> urltest_group \<Rightarrow> urltest_group" where
  "loopCheck_start E test now g =
     (if now - ug_last_active g > ug_interval g then snd (urlTest E test now False (g\<lparr>ug_last_active := now\<rparr>)) else g)"

definition loopCheck_tick :: "group_env \<Rightarrow> (component \<Rightarrow> go_error + 16 word) \<Rightarrow> int \<Rightarrow> urltest_group \<Rightarrow> urltest_group" where
  "loopCheck_tick E test now g =
     (if now - ug_last_active g > ug_idle_timeout g then g\<lparr>ug_ticker := False\<rparr> else snd (urlTest E test now False g))"

definition URLTest_Now :: "urltest_group \<Rightarrow> string" where
  "URLTest_Now g = (case ug_tcp g of Some c \<Rightarrow> cp_tag c | None \<Rightarrow> (case ug_udp g of Some c \<Rightarrow> cp_tag c | None \<Rightarrow> []))"

definition URLTest_Dial ::
  "group_env \<Rightarrow> (component \<Rightarrow> go_error + nat) \<Rightarrow> int \<Rightarrow> urltest_group \<Rightarrow> string \<Rightarrow> bool \<Rightarrow> (go_error + nat) \<times> urltest_group" where
  "URLTest_Dial E dial now g0 network external =
     (let g = URLTest_Touch now g0
      in if network \<noteq> ''tcp'' \<and> network \<noteq> ''udp'' then (Inl (EExtend (ENew ''unknown network'') network), g)
         else case (case group_selected g network of Some c \<Rightarrow> Some c | None \<Rightarrow> fst (URLTest_Select E g network)) of
                None \<Rightarrow> (Inl (ENew ''missing supported outbound''), g)
              | Some c \<Rightarrow>
                  (case dial c of
                     Inr conn \<Rightarrow> (Inr conn, g\<lparr>ug_interrupt := group_NewConn (ug_interrupt g) conn external\<rparr>)
                   | Inl e \<Rightarrow> (Inl e, g\<lparr>ug_history := DeleteURLTestHistory (cp_tag c) (ug_history g)\<rparr>)))"

section \<open>The choice of the URL test\<close>

text \<open>Measured delays are at least a millisecond and far enough from the end of 16 bits.\<close>

definition delays_ok :: "urltest_group \<Rightarrow> bool" where
  "delays_ok g \<longleftrightarrow> (\<forall>tag e. map_of (ug_history g) tag = Some e \<longrightarrow> 0 < uh_delay e \<and> unat (uh_delay e) + unat (ug_tolerance g) < 2 ^ 16)"

definition delay_of :: "group_env \<Rightarrow> histories \<Rightarrow> component \<Rightarrow> nat option" where
  "delay_of E h c = map_option (\<lambda>e. unat (uh_delay e)) (LoadURLTestHistory h (RealTag E c))"

text \<open>The best outbound so far is not slower than what was seen by more than the tolerance, and faster by more than the tolerance than the one it replaced.\<close>

definition best_ok :: "group_env \<Rightarrow> histories \<Rightarrow> 16 word \<Rightarrow> string \<Rightarrow> component option \<Rightarrow> component set \<Rightarrow> 16 word \<times> component option \<Rightarrow> bool" where
  "best_ok E h tolerance network start seen best \<longleftrightarrow>
     (case best of
        (m, None) \<Rightarrow> m = 0 \<and> (\<forall>c \<in> seen. network \<in> set (ge_networks E c) \<longrightarrow> delay_of E h c = None)
      | (m, Some c) \<Rightarrow> m > 0 \<and> network \<in> set (ge_networks E c) \<and> delay_of E h c = Some (unat m) \<and>
          (\<forall>c' \<in> seen. \<forall>d. network \<in> set (ge_networks E c') \<and> delay_of E h c' = Some d \<longrightarrow> unat m \<le> d + unat tolerance) \<and>
          (\<forall>c0 d0. start = Some c0 \<and> delay_of E h c0 = Some d0 \<and> c \<noteq> c0 \<longrightarrow> unat m + unat tolerance < d0))"

lemma unat_plus_small: "unat (a :: 16 word) + unat b < 2 ^ 16 \<Longrightarrow> unat (a + b) = unat a + unat b"
  by (simp add: unat_plus_if_size word_size)

lemma best_ok_step:
  assumes ok: "\<And>tag e. map_of h tag = Some e \<Longrightarrow> 0 < uh_delay e \<and> unat (uh_delay e) + unat tolerance < 2 ^ 16"
    and start: "\<And>c0 d0. start = Some c0 \<Longrightarrow> delay_of E h c0 = Some d0 \<Longrightarrow> minOutbound \<noteq> None"
    and best: "best_ok E h tolerance network start seen (minDelay, minOutbound)" and member: "network \<in> set (ge_networks E c)" "LoadURLTestHistory h (RealTag E c) = Some e"
  shows "best_ok E h tolerance network start (insert c seen) (if minDelay = 0 \<or> minDelay > uh_delay e + tolerance then (uh_delay e, Some c) else (minDelay, minOutbound))"
proof -
  have e: "0 < uh_delay e" "unat (uh_delay e + tolerance) = unat (uh_delay e) + unat tolerance" and d: "delay_of E h c = Some (unat (uh_delay e))"
    using ok member(2) by (auto simp: LoadURLTestHistory_def unat_plus_small delay_of_def)
  show ?thesis
  proof (cases minOutbound)
    case None
    then have "minDelay = 0" and unseen: "\<forall>c \<in> seen. network \<in> set (ge_networks E c) \<longrightarrow> delay_of E h c = None" using best by (auto simp: best_ok_def)
    moreover have "\<not> (start = Some c0 \<and> delay_of E h c0 = Some d0)" for c0 d0 using start None by blast
    ultimately show ?thesis using e d member by (auto simp: best_ok_def)
  next
    case (Some b)
    then have b: "minDelay > 0" "network \<in> set (ge_networks E b)" "delay_of E h b = Some (unat minDelay)"
      "\<And>c' d. c' \<in> seen \<Longrightarrow> network \<in> set (ge_networks E c') \<Longrightarrow> delay_of E h c' = Some d \<Longrightarrow> unat minDelay \<le> d + unat tolerance"
      "\<And>c0 d0. start = Some c0 \<Longrightarrow> delay_of E h c0 = Some d0 \<Longrightarrow> b \<noteq> c0 \<Longrightarrow> unat minDelay + unat tolerance < d0"
      using best by (auto simp: best_ok_def)
    show ?thesis
    proof (cases "minDelay > uh_delay e + tolerance")
      case True
      then have less: "unat (uh_delay e) + unat tolerance < unat minDelay" using e(2) by (simp add: word_less_nat_alt)
      have "unat (uh_delay e) \<le> d' + unat tolerance" if "c' \<in> insert c seen" "network \<in> set (ge_networks E c')" "delay_of E h c' = Some d'" for c' d'
        using that b(4) [of c' d'] d less by auto
      moreover have "unat (uh_delay e) + unat tolerance < d0" if "start = Some c0" "delay_of E h c0 = Some d0" "c \<noteq> c0" for c0 d0
        using that b(3) b(5) [of c0 d0] less by (cases "b = c0") auto
      ultimately show ?thesis using True e(1) d member(1) by (auto simp: best_ok_def)
    next
      case False
      then have "unat minDelay \<le> unat (uh_delay e) + unat tolerance" using e(2) by (simp add: word_less_nat_alt)
      then show ?thesis using False b d Some by (auto simp: best_ok_def)
    qed
  qed
qed

lemma best_ok_insert:
  assumes "best_ok E h tolerance network start seen best" "network \<notin> set (ge_networks E c) \<or> LoadURLTestHistory h (RealTag E c) = None"
  shows "best_ok E h tolerance network start (insert c seen) best"
  using assms by (auto simp: best_ok_def delay_of_def split: prod.splits option.splits)

lemma select_loop_best:
  assumes ok: "\<And>tag e. map_of h tag = Some e \<Longrightarrow> 0 < uh_delay e \<and> unat (uh_delay e) + unat tolerance < 2 ^ 16"
    and "\<And>c0 d0. start = Some c0 \<Longrightarrow> delay_of E h c0 = Some d0 \<Longrightarrow> snd best \<noteq> None" "best_ok E h tolerance network start seen best"
  shows "best_ok E h tolerance network start (seen \<union> set detours) (select_loop E h tolerance network detours best)"
  using assms(2, 3)
proof (induction detours arbitrary: best seen)
  case (Cons c detours)
  obtain m o' where best: "best = (m, o')" by fastforce
  let ?next = "if network \<notin> set (ge_networks E c) then (m, o')
    else case LoadURLTestHistory h (RealTag E c) of None \<Rightarrow> (m, o') | Some e \<Rightarrow> if m = 0 \<or> m > uh_delay e + tolerance then (uh_delay e, Some c) else (m, o')"
  have "best_ok E h tolerance network start (insert c seen) ?next"
    using best_ok_insert [OF Cons.prems(2), of c] best_ok_step [OF ok, where start = start and minOutbound = o' and network = network and seen = seen and minDelay = m and c = c] Cons.prems best by (auto split: option.splits)
  moreover have "snd ?next \<noteq> None" if "start = Some c0" "delay_of E h c0 = Some d0" for c0 d0
    using Cons.prems(1) [OF that] best by (auto split: option.splits)
  ultimately have "best_ok E h tolerance network start (insert c seen \<union> set detours) (select_loop E h tolerance network detours ?next)"
    by (intro Cons.IH)
  then show ?case by (simp add: best)
qed simp

definition selected_ok :: "group_env \<Rightarrow> urltest_group \<Rightarrow> bool" where
  "selected_ok E g \<longleftrightarrow> (\<forall>network \<in> {''tcp'', ''udp''}. \<forall>c. group_selected g network = Some c \<longrightarrow> network \<in> set (ge_networks E c))"

lemma select_best:
  assumes "delays_ok g" "selected_ok E g"
  shows "best_ok E (ug_history g) (ug_tolerance g) network (group_selected g network) (set (ug_outbounds g))
    (select_loop E (ug_history g) (ug_tolerance g) network (ug_outbounds g) (select_start E (ug_history g) (group_selected g network)))"
proof -
  have ok: "0 < uh_delay e \<and> unat (uh_delay e) + unat (ug_tolerance g) < 2 ^ 16" if "map_of (ug_history g) tag = Some e" for tag e
    using assms(1) that by (simp add: delays_ok_def)
  have member: "network \<in> set (ge_networks E c)" if "group_selected g network = Some c" for c
    using assms(2) that by (auto simp: selected_ok_def group_selected_def split: if_splits)
  have "best_ok E (ug_history g) (ug_tolerance g) network (group_selected g network) {} (select_start E (ug_history g) (group_selected g network))"
    using member ok by (auto simp: best_ok_def select_start_def delay_of_def LoadURLTestHistory_def split: option.splits)
  moreover have "snd (select_start E (ug_history g) (group_selected g network)) \<noteq> None" if "group_selected g network = Some c0" "delay_of E (ug_history g) c0 = Some d0" for c0 d0
    using that by (auto simp: select_start_def delay_of_def split: option.splits)
  ultimately show ?thesis using select_loop_best [OF ok, where seen = "{}"] by simp
qed

text \<open>C20: The URL test takes a fast outbound and stays with it. Let all measured delays be at least one millisecond, let delay plus tolerance fit into 16 bits, and let what is selected support its network. If an outbound of
  the group that supports the network has been measured, then what is selected supports the network and has been measured, and no other measured outbound of the group is faster by more than the tolerance; when the outbound
  selected before still has a measurement, it is left only for one that is faster by more than the tolerance. If nothing has been measured, the first outbound of the group that supports the network is taken.\<close>

theorem urltest_choice:
  assumes "delays_ok g" "selected_ok E g" "URLTest_Select E g network = (choice, measured)"
  shows "(measured \<longrightarrow> (\<exists>c d. choice = Some c \<and> network \<in> set (ge_networks E c) \<and> delay_of E (ug_history g) c = Some d \<and>
      (\<forall>c' \<in> set (ug_outbounds g). \<forall>d'. network \<in> set (ge_networks E c') \<and> delay_of E (ug_history g) c' = Some d' \<longrightarrow> d \<le> d' + unat (ug_tolerance g)) \<and>
      (\<forall>c0 d0. group_selected g network = Some c0 \<and> delay_of E (ug_history g) c0 = Some d0 \<and> c \<noteq> c0 \<longrightarrow> d + unat (ug_tolerance g) < d0))) \<and>
    (\<not> measured \<longrightarrow> choice = find (\<lambda>c. network \<in> set (ge_networks E c)) (ug_outbounds g) \<and>
      (\<forall>c \<in> set (ug_outbounds g). network \<in> set (ge_networks E c) \<longrightarrow> delay_of E (ug_history g) c = None))"
proof -
  obtain m best where r: "select_loop E (ug_history g) (ug_tolerance g) network (ug_outbounds g) (select_start E (ug_history g) (group_selected g network)) = (m, best)"
    by fastforce
  note ok = select_best [OF assms(1, 2), of network, unfolded r]
  show ?thesis
  proof (cases best)
    case None
    then have "\<not> measured" "choice = find (\<lambda>c. network \<in> set (ge_networks E c)) (ug_outbounds g)" using assms(3) r by (auto simp: URLTest_Select_def)
    with None ok show ?thesis by (simp add: best_ok_def)
  next
    case (Some c)
    then have "measured" "choice = Some c" using assms(3) r by (auto simp: URLTest_Select_def)
    with Some ok show ?thesis unfolding best_ok_def by fastforce
  qed
qed


section \<open>Changes of the choice\<close>



text \<open>A failed connection costs an outbound its measurement, but not if it is a group. The history is deleted under the tag of the outbound, while the measurement of a group is kept under the tag of
  the member it stands for; so a group that cannot be reached stays selected.\<close>

theorem failed_dial_forgotten:
  assumes "network \<in> {''tcp'', ''udp''}" "group_selected (URLTest_Touch now g) network = Some c" "dial c = Inl e"
  shows "fst (URLTest_Dial E dial now g network external) = Inl e \<and>
    (if ge_now E c = None then delay_of E (ug_history (snd (URLTest_Dial E dial now g network external))) c = None
     else RealTag E c \<noteq> cp_tag c \<longrightarrow> delay_of E (ug_history (snd (URLTest_Dial E dial now g network external))) c = delay_of E (ug_history g) c)"
proof -
  have "ug_history (URLTest_Touch now g) = ug_history g" by (simp add: URLTest_Touch_def)
  then show ?thesis using assms
    by (auto simp: URLTest_Dial_def Let_def delay_of_def LoadURLTestHistory_def DeleteURLTestHistory_def RealTag_def delete_conv')
qed

section \<open>The selector over time\<close>

text \<open>A selector that is used concurrently: the dials in progress with the outbound they have loaded, the number of selections that have swapped the outbound and not interrupted yet, and, for the
  specification, the late connections, whose outbound was no longer the selected one when they were put into the group.\<close>

record selector_run =
  sr_selector :: selector
  sr_dials :: "(component \<times> bool) list"
  sr_swaps :: nat
  sr_late :: "nat list"

definition new_conn :: "selector_run \<Rightarrow> nat \<Rightarrow> bool" where
  "new_conn s conn \<longleftrightarrow> conn \<notin> gi_conn ` set (ig_items (sl_interrupt (sr_selector s))) \<and> conn \<notin> set (ig_closed (sl_interrupt (sr_selector s))) \<and> conn \<notin> set (sr_late s)"

definition registered :: "selector_run \<Rightarrow> component \<Rightarrow> bool \<Rightarrow> nat \<Rightarrow> selector_run" where
  "registered s c external conn =
     s\<lparr>sr_selector := dial_register (sr_selector s) external conn, sr_dials := remove1 (c, external) (sr_dials s),
       sr_late := (if map_option cp_id (sl_selected (sr_selector s)) = Some (cp_id c) then sr_late s else conn # sr_late s)\<rparr>"

text \<open>The steps of the operations, in any order; \<open>via\<close> is the outbound a connection goes through.\<close>

inductive selector_step :: "(nat \<Rightarrow> nat) \<Rightarrow> selector_run \<Rightarrow> selector_run \<Rightarrow> bool" for via where
  load: "sl_selected (sr_selector s) = Some c \<Longrightarrow> selector_step via s (s\<lparr>sr_dials := (c, external) # sr_dials s\<rparr>)"
| register: "(c, external) \<in> set (sr_dials s) \<Longrightarrow> via conn = cp_id c \<Longrightarrow> new_conn s conn \<Longrightarrow> selector_step via s (registered s c external conn)"
| fail: "d \<in> set (sr_dials s) \<Longrightarrow> selector_step via s (s\<lparr>sr_dials := remove1 d (sr_dials s)\<rparr>)"
| swap: "select_swap (sr_selector s) tag = (r, sel) \<Longrightarrow>
    selector_step via s (s\<lparr>sr_selector := sel, sr_swaps := (if r = None then Suc (sr_swaps s) else sr_swaps s)\<rparr>)"
| interrupt: "sr_swaps s = Suc n \<Longrightarrow> selector_step via s (s\<lparr>sr_selector := select_interrupt (sr_selector s), sr_swaps := n\<rparr>)"
| close: "i \<in> set (ig_items (sl_interrupt (sr_selector s))) \<Longrightarrow>
    selector_step via s (s\<lparr>sr_selector := (sr_selector s)\<lparr>sl_interrupt := group_Conn_Close (sl_interrupt (sr_selector s)) i\<rparr>\<rparr>)"

definition selector_started :: "group_env \<Rightarrow> selector \<Rightarrow> bool" where
  "selector_started E s \<longleftrightarrow> (\<forall>tag c. ge_lookup E tag = Some c \<longrightarrow> cp_tag c = tag) \<and>
     (\<exists>tag tags def ie s0 cache. NewSelector tag tags def ie = Inr s0 \<and> Selector_Start E cache s0 = (s, None))"

definition selector_initial :: "group_env \<Rightarrow> selector_run \<Rightarrow> bool" where
  "selector_initial E s \<longleftrightarrow> selector_started E (sr_selector s) \<and> sr_dials s = [] \<and> sr_swaps s = 0 \<and> sr_late s = []"

text \<open>The outbounds of the selector are named by their tags, and the selected one is one of them.\<close>

definition members_ok :: "selector \<Rightarrow> bool" where
  "members_ok s \<longleftrightarrow> (\<forall>tag c. map_of (sl_outbounds s) tag = Some c \<longrightarrow> cp_tag c = tag \<and> tag \<in> set (sl_tags s)) \<and>
     (\<exists>c. sl_selected s = Some c \<and> map_of (sl_outbounds s) (cp_tag c) = Some c)"

definition interruptible :: "selector \<Rightarrow> group_item \<Rightarrow> bool" where
  "interruptible s i \<longleftrightarrow> i \<in> set (ig_items (sl_interrupt s)) \<and> (\<not> gi_external i \<or> sl_interrupt_external s)"

definition selector_inv :: "(nat \<Rightarrow> nat) \<Rightarrow> selector_run \<Rightarrow> bool" where
  "selector_inv via s \<longleftrightarrow> members_ok (sr_selector s) \<and>
     (\<forall>i c. interruptible (sr_selector s) i \<longrightarrow> sl_selected (sr_selector s) = Some c \<longrightarrow> sr_swaps s = 0 \<longrightarrow> gi_conn i \<notin> set (sr_late s) \<longrightarrow> via (gi_conn i) = cp_id c)"

lemma load_members_ok:
  assumes "load_members E i tags m = (m', None)" "\<And>tag c. ge_lookup E tag = Some c \<Longrightarrow> cp_tag c = tag" "\<And>tag c. map_of m tag = Some c \<Longrightarrow> cp_tag c = tag"
  shows "(map_of m' tag = Some c \<longrightarrow> cp_tag c = tag \<and> (tag \<in> set tags \<or> map_of m tag \<noteq> None)) \<and> (tag \<in> set tags \<longrightarrow> map_of m' tag \<noteq> None) \<and> (map_of m tag \<noteq> None \<longrightarrow> map_of m' tag \<noteq> None)"
  using assms(1, 3)
proof (induction tags arbitrary: i m)
  case (Cons t tags)
  then obtain d where d: "ge_lookup E t = Some d" "load_members E (Suc i) tags (AList.update t d m) = (m', None)" by (auto split: option.splits)
  have "cp_tag c' = tag'" if "map_of (AList.update t d m) tag' = Some c'" for tag' c'
    using that Cons.prems(2) assms(2) [OF d(1)] by (auto simp: update_conv' split: if_splits)
  from Cons.IH [OF d(2) this] show ?case by (auto simp: update_conv' split: if_splits)
qed auto

lemma started_ok:
  assumes "selector_started E s"
  shows "members_ok s \<and> ig_items (sl_interrupt s) = []"
proof -
  obtain tag tags def ie s0 cache where s0: "NewSelector tag tags def ie = Inr s0" "Selector_Start E cache s0 = (s, None)"
    and look: "\<And>tag c. ge_lookup E tag = Some c \<Longrightarrow> cp_tag c = tag" using assms unfolding selector_started_def by blast
  from s0(1) have new: "sl_tags s0 = tags" "tags \<noteq> []" "sl_outbounds s0 = []" "ig_items (sl_interrupt s0) = []" "sl_selected s0 = None"
    by (auto simp: NewSelector_def NewGroup_def split: if_splits)
  obtain m where m: "load_members E 0 tags [] = (m, None)" using s0(2) new by (auto simp: Selector_Start_def split: prod.splits option.splits)
  have mem: "cp_tag c = t \<and> t \<in> set tags" if "map_of m t = Some c" for t c using load_members_ok [OF m look, of t c] that by simp
  have "map_of m (hd tags) \<noteq> None" using load_members_ok [OF m look, of "hd tags"] new(2) by simp
  then obtain c0 where c0: "map_of m (hd tags) = Some c0" by blast
  define s1 where "s1 = s0\<lparr>sl_outbounds := m\<rparr>"
  have s1: "sl_outbounds s1 = m" "sl_tags s1 = tags" "ig_items (sl_interrupt s1) = []" using new by (simp_all add: s1_def)
  obtain c t where c: "s = s1\<lparr>sl_selected := Some c\<rparr>" "map_of m t = Some c"
  proof (cases "cached_selection cache s1")
    case None
    show thesis using s0(2) m new c0 None that unfolding s1_def by (auto simp: Selector_Start_def Let_def split: option.splits if_splits)
  next
    case (Some d)
    then have "\<exists>t. map_of m t = Some d" using s1 by (auto simp: cached_selection_def split: option.splits if_splits)
    then show thesis using s0(2) m new Some that unfolding s1_def by (auto simp: Selector_Start_def Let_def)
  qed
  then show ?thesis using mem [OF c(2)] mem s1 by (auto simp: members_ok_def)
qed

lemma members_swap:
  assumes "select_swap s tag = (r, t)" "members_ok s"
  shows "members_ok t \<and> sl_interrupt t = sl_interrupt s \<and> sl_interrupt_external t = sl_interrupt_external s \<and>
    (r \<noteq> None \<longrightarrow> map_option cp_id (sl_selected t) = map_option cp_id (sl_selected s))"
proof (cases "map_of (sl_outbounds s) tag")
  case (Some d)
  then have "cp_tag d = tag" using assms(2) unfolding members_ok_def by blast
  with Some show ?thesis using assms by (auto simp: select_swap_def members_ok_def split: if_splits)
qed (use assms in \<open>auto simp: select_swap_def\<close>)

lemma members_interrupt: "members_ok s \<Longrightarrow> members_ok (s\<lparr>sl_interrupt := g\<rparr>)"
  by (simp add: members_ok_def)

lemma selector_kept:
  assumes "selector_step via s t" "selector_inv via s"
  shows "selector_inv via t"
proof -
  have m: "members_ok (sr_selector s)"
    and items: "\<And>i c. interruptible (sr_selector s) i \<Longrightarrow> sl_selected (sr_selector s) = Some c \<Longrightarrow> sr_swaps s = 0 \<Longrightarrow> gi_conn i \<notin> set (sr_late s) \<Longrightarrow> via (gi_conn i) = cp_id c"
    using assms(2) unfolding selector_inv_def by blast+
  from assms(1) show ?thesis
  proof cases
    case (swap tag r sel)
    note k = members_swap [OF swap(2) m]
    show ?thesis
    proof (cases r)
      case (Some b)
      have "via (gi_conn i) = cp_id c" if a: "interruptible sel i" "sl_selected sel = Some c" "sr_swaps s = 0" "gi_conn i \<notin> set (sr_late s)" for i c
      proof -
        obtain d where "sl_selected (sr_selector s) = Some d" "cp_id d = cp_id c" using k Some a(2) by (cases "sl_selected (sr_selector s)") auto
        then show ?thesis using items [of i d] k a by (simp add: interruptible_def)
      qed
      then show ?thesis using swap(1) k Some by (simp add: selector_inv_def)
    qed (use swap(1) k in \<open>simp add: selector_inv_def\<close>)
  next
    case (register c external conn)
    have "via (gi_conn i) = cp_id d" if a: "interruptible (sr_selector t) i" "sl_selected (sr_selector t) = Some d" "sr_swaps t = 0" "gi_conn i \<notin> set (sr_late t)" for i d
    proof (cases "gi_conn i = conn")
      case True
      then show ?thesis using a register by (auto simp: registered_def dial_register_def split: if_splits)
    next
      case False
      then have "interruptible (sr_selector s) i" using a(1) register(1) by (auto simp: registered_def dial_register_def interruptible_def group_NewConn_def)
      moreover have "gi_conn i \<notin> set (sr_late s)" using a(4) register(1) by (simp add: registered_def split: if_splits)
      ultimately show ?thesis using items a(2,3) register(1) by (simp add: registered_def dial_register_def)
    qed
    moreover have "members_ok (sr_selector t)" using m register(1) by (simp add: registered_def dial_register_def members_interrupt)
    ultimately show ?thesis unfolding selector_inv_def by blast
  next
    case (interrupt n)
    then have "\<not> interruptible (sr_selector t) i" for i by (simp add: select_interrupt_def interruptible_def group_Interrupt_def Let_def)
    moreover have "members_ok (sr_selector t)" using m interrupt(1) by (simp add: select_interrupt_def members_interrupt)
    ultimately show ?thesis unfolding selector_inv_def by blast
  next
    case (close j)
    then have "interruptible (sr_selector s) i" if "interruptible (sr_selector t) i" for i
      using that by (auto simp: interruptible_def group_Conn_Close_def dest: set_mp [OF set_remove1_subset])
    moreover have "members_ok (sr_selector t)" using m close(1) by (simp add: members_interrupt)
    ultimately show ?thesis using items close(1) unfolding selector_inv_def by simp
  qed (use assms(2) in \<open>simp_all add: selector_inv_def\<close>)
qed

interpretation selector_sys: invariant_system "selector_initial E" "selector_step via" "selector_inv via" for E via
proof
  fix s t
  show "selector_initial E s \<Longrightarrow> selector_inv via s"
    using started_ok [of E "sr_selector s"] by (simp add: selector_initial_def selector_inv_def interruptible_def)
  show "selector_inv via s \<Longrightarrow> selector_step via s t \<Longrightarrow> selector_inv via t" by (rule selector_kept)
qed

text \<open>An operation that is not disturbed is a run of its steps.\<close>

lemma select_steps:
  assumes "SelectOutbound stores cache (sr_selector s) tag = (r, sel, cache')"
  shows "(selector_step via)\<^sup>*\<^sup>* s (s\<lparr>sr_selector := sel\<rparr>)"
proof -
  obtain q sel1 where swap: "select_swap (sr_selector s) tag = (q, sel1)" by fastforce
  note 1 = selector_step.swap [OF swap, of via]
  show ?thesis
  proof (cases q)
    case None
    let ?s1 = "s\<lparr>sr_selector := sel1, sr_swaps := Suc (sr_swaps s)\<rparr>"
    have "selector_step via ?s1 (?s1\<lparr>sr_selector := select_interrupt sel1, sr_swaps := sr_swaps s\<rparr>)"
      using selector_step.interrupt [of ?s1 "sr_swaps s" via] by simp
    then have "selector_step via ?s1 (s\<lparr>sr_selector := sel\<rparr>)" using assms swap None by (simp add: SelectOutbound_def)
    moreover have "selector_step via s ?s1" using 1 None by simp
    ultimately show ?thesis by (metis r_into_rtranclp rtranclp.rtrancl_into_rtrancl)
  next
    case (Some b)
    then show ?thesis using 1 assms swap by (auto simp: SelectOutbound_def)
  qed
qed

lemma dial_steps:
  assumes "Selector_Dial dial (sr_selector s) external = (Inr conn, sel)" "new_conn s conn" "\<And>c. dial c = Inr conn \<Longrightarrow> via conn = cp_id c"
  shows "(selector_step via)\<^sup>*\<^sup>* s (s\<lparr>sr_selector := sel\<rparr>)"
proof -
  obtain c where c: "sl_selected (sr_selector s) = Some c" "dial c = Inr conn" "sel = dial_register (sr_selector s) external conn"
    using assms(1) by (auto simp: Selector_Dial_def split: option.splits sum.splits)
  let ?s1 = "s\<lparr>sr_dials := (c, external) # sr_dials s\<rparr>"
  have 1: "selector_step via s ?s1" by (rule selector_step.load [OF c(1)])
  have "selector_step via ?s1 (registered ?s1 c external conn)"
    by (rule selector_step.register) (use assms(2,3) c in \<open>simp_all add: new_conn_def\<close>)
  moreover have "registered ?s1 c external conn = s\<lparr>sr_selector := sel\<rparr>" using c by (simp add: registered_def)
  ultimately show ?thesis using 1 by (metis r_into_rtranclp rtranclp.rtrancl_into_rtrancl)
qed

text \<open>C21: Connections follow the choice, late ones apart. However dials, selections and closes of a started selector interleave, it names one of its members; and when no selection is still to interrupt, every open connection
  that a change would interrupt goes through this member, unless its dial had loaded another member before a selection and was put into the group after it.\<close>

theorem selector_follows_choice:
  assumes "selector_initial E s" "(selector_step via)\<^sup>*\<^sup>* s t"
  shows "\<exists>c. sl_selected (sr_selector t) = Some c \<and> Selector_Now (sr_selector t) = cp_tag c \<and> cp_tag c \<in> set (sl_tags (sr_selector t)) \<and>
    (\<forall>i. interruptible (sr_selector t) i \<longrightarrow> sr_swaps t = 0 \<longrightarrow> gi_conn i \<notin> set (sr_late t) \<longrightarrow> via (gi_conn i) = cp_id c)"
proof -
  have inv: "selector_inv via t" by (rule selector_sys.inv_reachable [OF assms])
  then obtain c where c: "sl_selected (sr_selector t) = Some c" "cp_tag c \<in> set (sl_tags (sr_selector t))"
    unfolding selector_inv_def members_ok_def by blast
  then show ?thesis using inv by (auto simp: Selector_Now_def selector_inv_def)
qed

text \<open>A late connection stays. A dial loads the selected outbound, another outbound is selected and the connections are interrupted, and only then the dial is put into the group: nothing is in progress any more, and
  the connection is open, internal, and goes through the outbound that was given up.\<close>

theorem late_dial_survives:
  assumes "sl_selected (sr_selector s) = Some a" "map_of (sl_outbounds (sr_selector s)) tag = Some b" "cp_id a \<noteq> cp_id b" "sr_dials s = []" "sr_swaps s = 0" "new_conn s conn" "via conn = cp_id a"
  shows "\<exists>t. (selector_step via)\<^sup>*\<^sup>* s t \<and> sr_dials t = [] \<and> sr_swaps t = 0 \<and> sl_selected (sr_selector t) = Some b \<and>
    interruptible (sr_selector t) \<lparr>gi_conn = conn, gi_external = False\<rparr> \<and> via conn \<noteq> cp_id b"
proof -
  let ?s1 = "s\<lparr>sr_dials := [(a, False)]\<rparr>"
  let ?s2 = "?s1\<lparr>sr_selector := (sr_selector s)\<lparr>sl_selected := Some b\<rparr>, sr_swaps := 1\<rparr>"
  let ?s3 = "?s2\<lparr>sr_selector := select_interrupt (sr_selector ?s2), sr_swaps := 0\<rparr>"
  have 1: "selector_step via s ?s1" using selector_step.load [of s a via False] assms by simp
  have 2: "selector_step via ?s1 ?s2" using selector_step.swap [of ?s1 tag None "(sr_selector s)\<lparr>sl_selected := Some b\<rparr>" via] assms by (simp add: select_swap_def)
  have 3: "selector_step via ?s2 ?s3" using selector_step.interrupt [of ?s2 0 via] by simp
  have "new_conn ?s3 conn" using assms(6) by (auto simp: new_conn_def select_interrupt_def group_Interrupt_def Let_def)
  then have 4: "selector_step via ?s3 (registered ?s3 a False conn)" using selector_step.register [of a False ?s3 via conn] assms by simp
  have "(selector_step via)\<^sup>*\<^sup>* s (registered ?s3 a False conn)" using 1 2 3 4 by (meson r_into_rtranclp rtranclp_trans)
  then show ?thesis
    by (rule exI [where x = "registered ?s3 a False conn", OF conjI])
      (use assms in \<open>simp add: registered_def dial_register_def group_NewConn_def interruptible_def select_interrupt_def\<close>)
qed

section \<open>Instances\<close>

definition demo_member :: "nat \<Rightarrow> component" where
  "demo_member n = \<lparr>cp_id = n, cp_type = ''socks'', cp_tag = digits n, cp_deps = []\<rparr>"

definition demo_env :: group_env where
  "demo_env = \<lparr>ge_lookup = (\<lambda>tag. if tag = digits 1 then Some (demo_member 1) else if tag = digits 2 then Some (demo_member 2) else None), ge_networks = (\<lambda>_. [''tcp'', ''udp'']),
     ge_now = (\<lambda>c. if cp_id c = 2 then Some (digits 3) else None)\<rparr>"

definition demo_group :: "16 word \<Rightarrow> 16 word \<Rightarrow> 16 word \<Rightarrow> urltest_group" where
  "demo_group tolerance d1 d3 = \<lparr>ug_outbounds = [demo_member 1, demo_member 2], ug_interval = 1, ug_tolerance = tolerance, ug_idle_timeout = 2,
     ug_history = [(digits 1, \<lparr>uh_time = 0, uh_delay = d1\<rparr>), (digits 3, \<lparr>uh_time = 0, uh_delay = d3\<rparr>)], ug_checking = False, ug_tcp = Some (demo_member 1), ug_udp = None,
     ug_interrupt = \<lparr>ig_items = [\<lparr>gi_conn = 9, gi_external = False\<rparr>], ig_closed = []\<rparr>, ug_interrupt_external = False, ug_ticker = False, ug_started = True, ug_last_active = 0\<rparr>"

lemma demo_group: "delays_ok (demo_group 50 300 100)" "selected_ok demo_env (demo_group 50 300 100)"
  by (simp_all add: delays_ok_def demo_group_def selected_ok_def group_selected_def demo_env_def)

theorem urltest_choice_witness:
  "URLTest_Select demo_env (demo_group 50 300 100) ''tcp'' = (Some (demo_member 2), True) \<and> delay_of demo_env (ug_history (demo_group 50 300 100)) (demo_member 2) = Some 100"
proof -
  have s: "URLTest_Select demo_env (demo_group 50 300 100) ''tcp'' = (Some (demo_member 2), True)"
    by (simp add: URLTest_Select_def demo_group_def demo_env_def group_selected_def select_start_def LoadURLTestHistory_def RealTag_def demo_member_def digits.simps)
  with urltest_choice [OF demo_group s] show ?thesis
    by (simp add: delay_of_def demo_group_def demo_env_def LoadURLTestHistory_def RealTag_def demo_member_def digits.simps)
qed



theorem failed_dial_forgotten_witness:
  "delay_of demo_env (ug_history (snd (URLTest_Dial demo_env (\<lambda>_. Inl (ENew ''refused'')) 0 (demo_group 50 300 100\<lparr>ug_tcp := Some (demo_member 2)\<rparr>) ''tcp'' False))) (demo_member 2) = Some 100"
proof -
  let ?g = "demo_group 50 300 100\<lparr>ug_tcp := Some (demo_member 2)\<rparr>"
  have sel: "group_selected (URLTest_Touch 0 ?g) ''tcp'' = Some (demo_member 2)" by (simp add: group_selected_def URLTest_Touch_def)
  have real: "ge_now demo_env (demo_member 2) = Some (digits 3)" "RealTag demo_env (demo_member 2) \<noteq> cp_tag (demo_member 2)" "delay_of demo_env (ug_history ?g) (demo_member 2) = Some 100"
    by (simp_all add: demo_env_def demo_member_def RealTag_def delay_of_def demo_group_def LoadURLTestHistory_def digits.simps)
  show ?thesis
    using failed_dial_forgotten [where dial = "\<lambda>_. Inl (ENew ''refused'')" and E = demo_env and external = False, OF _ sel refl] real by simp
qed

definition demo_selector :: selector where
  "demo_selector = \<lparr>sl_tag = ''s'', sl_tags = [digits 1, digits 2], sl_default = [], sl_outbounds = [(digits 1, demo_member 1), (digits 2, demo_member 2)], sl_selected = Some (demo_member 1),
     sl_interrupt = NewGroup, sl_interrupt_external = False\<rparr>"

definition demo_run :: selector_run where
  "demo_run = \<lparr>sr_selector = demo_selector, sr_dials = [], sr_swaps = 0, sr_late = []\<rparr>"

lemma demo_selector_started: "selector_started demo_env demo_selector"
proof -
  have start: "NewSelector ''s'' [digits 1, digits 2] [] False = Inr (demo_selector\<lparr>sl_outbounds := [], sl_selected := None\<rparr>)" by (simp add: NewSelector_def demo_selector_def)
  have "Selector_Start demo_env None (demo_selector\<lparr>sl_outbounds := [], sl_selected := None\<rparr>) = (demo_selector, None)"
    by (simp add: Selector_Start_def demo_selector_def demo_env_def cached_selection_def Let_def digits.simps)
  moreover have "\<forall>tag c. ge_lookup demo_env tag = Some c \<longrightarrow> cp_tag c = tag" by (auto simp: demo_env_def demo_member_def split: if_splits)
  ultimately show ?thesis unfolding selector_started_def using start by blast
qed

theorem selector_follows_choice_witness:
  "\<exists>t c. selector_initial demo_env demo_run \<and> (selector_step id)\<^sup>*\<^sup>* demo_run t \<and> sl_selected (sr_selector t) = Some c \<and> Selector_Now (sr_selector t) = digits 2 \<and>
     sr_swaps t = 0 \<and> ig_items (sl_interrupt (sr_selector t)) = [\<lparr>gi_conn = 2, gi_external = False\<rparr>] \<and> id 2 = cp_id c"
proof -
  have init: "selector_initial demo_env demo_run" using demo_selector_started by (simp add: selector_initial_def demo_run_def)
  let ?s1 = "demo_run\<lparr>sr_dials := [(demo_member 1, False)]\<rparr>"
  let ?s2 = "registered ?s1 (demo_member 1) False 1"
  let ?s3 = "?s2\<lparr>sr_selector := (sr_selector ?s2)\<lparr>sl_selected := Some (demo_member 2)\<rparr>, sr_swaps := 1\<rparr>"
  let ?s4 = "?s3\<lparr>sr_selector := select_interrupt (sr_selector ?s3), sr_swaps := 0\<rparr>"
  let ?s5 = "?s4\<lparr>sr_dials := [(demo_member 2, False)]\<rparr>"
  let ?t = "registered ?s5 (demo_member 2) False 2"
  note defs = demo_run_def demo_selector_def registered_def dial_register_def group_NewConn_def NewGroup_def demo_member_def select_interrupt_def group_Interrupt_def
  have 1: "selector_step id demo_run ?s1" using selector_step.load [of demo_run "demo_member 1" id False] by (simp add: demo_run_def demo_selector_def)
  have 2: "selector_step id ?s1 ?s2" by (rule selector_step.register) (simp_all add: new_conn_def defs)
  have 3: "selector_step id ?s2 ?s3" using selector_step.swap [of ?s2 "digits 2" None "(sr_selector ?s2)\<lparr>sl_selected := Some (demo_member 2)\<rparr>" id]
    by (simp add: select_swap_def defs digits.simps)
  have 4: "selector_step id ?s3 ?s4" using selector_step.interrupt [of ?s3 0 id] by simp
  have 5: "selector_step id ?s4 ?s5" using selector_step.load [of ?s4 "demo_member 2" id False] by (simp add: defs)
  have 6: "selector_step id ?s5 ?t" by (rule selector_step.register) (simp_all add: new_conn_def defs)
  have steps: "(selector_step id)\<^sup>*\<^sup>* demo_run ?t" using 1 2 3 4 5 6 by (meson r_into_rtranclp rtranclp_trans)
  have t: "sr_swaps ?t = 0" "sr_late ?t = []" "ig_items (sl_interrupt (sr_selector ?t)) = [\<lparr>gi_conn = 2, gi_external = False\<rparr>]" by (simp_all add: defs)
  from selector_follows_choice [OF init steps] obtain c where c: "sl_selected (sr_selector ?t) = Some c" "Selector_Now (sr_selector ?t) = cp_tag c"
    "\<And>i. interruptible (sr_selector ?t) i \<Longrightarrow> sr_swaps ?t = 0 \<Longrightarrow> gi_conn i \<notin> set (sr_late ?t) \<Longrightarrow> id (gi_conn i) = cp_id c" by blast
  have "id 2 = cp_id c" using c(3) [of "\<lparr>gi_conn = 2, gi_external = False\<rparr>"] t by (simp add: interruptible_def)
  moreover have "cp_tag c = digits 2" using c(1) by (auto simp: defs)
  ultimately show ?thesis using init steps c t by (intro exI [of _ ?t] exI [of _ c]) simp
qed

theorem late_dial_survives_witness:
  "\<exists>t. (selector_step id)\<^sup>*\<^sup>* demo_run t \<and> sr_dials t = [] \<and> sr_swaps t = 0 \<and> sl_selected (sr_selector t) = Some (demo_member 2) \<and>
     interruptible (sr_selector t) \<lparr>gi_conn = 1, gi_external = False\<rparr>"
  using late_dial_survives [of demo_run "demo_member 1" "digits 2" "demo_member 2" 1 id]
  by (auto simp: demo_run_def demo_selector_def demo_member_def new_conn_def NewGroup_def digits.simps)

end
