(* ===== verification/Spec2Isabelle.thy ===== *)
theory Spec2Isabelle
  imports User_Sessions User_Traffic Rule_Set_Update Rule_Leases Outbound_Start Outbound_Update Reload_Accepted Vmess_Mux Route_Props Outbound_Group
begin

text \<open>
  \<^bold>\<open>Verification of the user runtime of Node-Manager's sing-box.\<close>

  The repository ships a fork of the proxy sing-box (Go, under \<^verbatim>\<open>src/runtime/sing-box\<close>) whose users, their rules and their
  outbounds can be replaced while it runs. This development models that runtime: the tables of users and their
  sessions, the rule engine that decides what a user may do, the managers of the components, and the reload that replaces them; and the way of a
  connection through it, from the request a client writes over the route it takes to the outbound a group selects.
  Go functions become HOL functions that return the new state, with errors and panics as values of \<^verbatim>\<open>go_error\<close>; what runs
  concurrently is a step relation whose steps are the critical sections of the code.

  \<^bold>\<open>Prelude.\<close> \<^verbatim>\<open>Go_Prelude\<close> has the types the components share: Go maps as association lists with distinct keys, errors, the
  bind of fallible computations, and the locale \<^verbatim>\<open>invariant_system\<close> of step relations with an invariant, which is interpreted for the
  sessions, the rule leases, the rule sets, the managers, the selector and the multiplexed streams. \<^verbatim>\<open>Go_Strings\<close> has strings, decimal numbers and splitting. \<^verbatim>\<open>Go_Bytes\<close> has bytes,
  big-endian words and reading from a connection.

  \<^bold>\<open>Users\<close> (\<^verbatim>\<open>common/userstate\<close>). \<^verbatim>\<open>User_State\<close>: \<^verbatim>\<open>Manager\<close>, \<^verbatim>\<open>Table\<close>, \<^verbatim>\<open>Session\<close> and their operations; heaps of identities and sessions
  are functions from addresses. \<^verbatim>\<open>User_Sessions\<close> shows that revoked sessions end up closed under every interleaving, what
  an update means for each user, and that the session count is exact. \<^verbatim>\<open>User_Publications\<close> extends this to several
  tables in one transaction. \<^verbatim>\<open>User_Traffic\<close>: the traffic counters, with 64-bit wrap-around. \<^verbatim>\<open>Inbound_Users\<close> (\<^verbatim>\<open>protocol/vless\<close>, \<^verbatim>\<open>protocol/vmess\<close>,
  \<^verbatim>\<open>protocol/socks\<close>, \<^verbatim>\<open>local-modules/sing-vmess\<close>): preparing the users of an inbound and finding the identity of a connection.

  \<^bold>\<open>Rules\<close> (\<^verbatim>\<open>route/rule\<close>). \<^verbatim>\<open>Netip\<close>: addresses and prefixes. \<^verbatim>\<open>Match_State\<close>: the states of the matcher as 8-bit and 16-bit words, shown
  to be sets of sets of conditions. \<^verbatim>\<open>Rule_Item\<close>: the conditions. \<^verbatim>\<open>Rule_Match\<close>: evaluation of default, logical and DNS rules and of rule
  sets; \<^verbatim>\<open>Rule_Semantics\<close> gives its meaning, and \<^verbatim>\<open>Dns_Rule\<close> compares the phases of a DNS rule before and after the lookup. \<^verbatim>\<open>Rule_Action\<close>: the actions. \<^verbatim>\<open>Rule_Build\<close> and
  \<^verbatim>\<open>Rule_Build_Props\<close>: building rules from options; the lists of a built rule hold the conditions of their groups, a DNS rule that is not checked against the response does not
  depend on it, and a rule for a user matches no other. \<^verbatim>\<open>Rule_Sets\<close> and \<^verbatim>\<open>Rule_Set_Update\<close>: local and remote rule sets and their updates, with the locale \<^verbatim>\<open>loader\<close>
  for the two sources. \<^verbatim>\<open>Rule_Snapshot\<close> and \<^verbatim>\<open>Rule_Leases\<close> (\<^verbatim>\<open>route/hot_add.go\<close>): snapshots of rules that connections lease.

  \<^bold>\<open>Managers\<close> (\<^verbatim>\<open>adapter\<close>). \<^verbatim>\<open>Tag_Manager\<close>: the endpoint, inbound and service managers behind the locale \<^verbatim>\<open>component_store\<close>. \<^verbatim>\<open>Outbound_Manager\<close>,
  \<^verbatim>\<open>Outbound_Start\<close> and \<^verbatim>\<open>Outbound_Update\<close>: the outbound manager, its dependency-ordered start (fuel is the number of
  outbounds, and every pass starts at least one) and the replacement of user outbounds.

  \<^bold>\<open>Reload\<close> (\<^verbatim>\<open>user_reload.go\<close>, \<^verbatim>\<open>hot_add.go\<close>). \<^verbatim>\<open>Json_Value\<close>: decoded JSON; equality is \<^verbatim>\<open>reflect.DeepEqual\<close>. \<^verbatim>\<open>Reload_Plan\<close> and \<^verbatim>\<open>Reload_Plan_Props\<close>: \<^verbatim>\<open>planUserUpdate\<close> and
  what an accepted plan guarantees; that a changed outbound is the default or a dependency of another one is found later, by the outbound manager. \<^verbatim>\<open>User_Reload\<close>: status, preview, fence and reload of the running program. \<^verbatim>\<open>User_Reload_Props\<close>: a rejected
  reload is harmless, a fenced request has no effect. \<^verbatim>\<open>Reload_Accepted\<close>: what an accepted reload does to rules, outbounds and users, the
  invariant it keeps, and that repeating it changes nothing.

  \<^bold>\<open>Routing\<close> (\<^verbatim>\<open>route/route.go\<close>, \<^verbatim>\<open>route/process_cache.go\<close>, \<^verbatim>\<open>common/sniff/sniff.go\<close>). \<^verbatim>\<open>Route_Match\<close>: the loop over the rules with its actions, sniffing and resolving. \<^verbatim>\<open>Route_Props\<close>: the route of a connection is that of
  the first rule that matches it, a rule of a user takes precedence for its connections, and sniffed data is not lost. What the trackers make of an outgoing connection is an argument of \<^verbatim>\<open>run_trackers\<close>.

  \<^bold>\<open>Protocols\<close> (\<^verbatim>\<open>local-modules/sing-vmess\<close>). \<^verbatim>\<open>Vless_Codec\<close>: requests, addons and packets of VLESS, up to the connection that \<^verbatim>\<open>VisionConn\<close> wraps. \<^verbatim>\<open>Vmess_Chunks\<close>: the chunked body of VMess in its plain,
  authenticated and CFB variants, with the locale \<^verbatim>\<open>chunk_codec\<close> interpreted for the lengths and the bodies of chunks. \<^verbatim>\<open>Vmess_Header\<close>: the handshake of both kinds of clients
  and the service, the response, and the table of legacy keys. \<^verbatim>\<open>Vmess_Mux\<close>: multiplexed streams, and the packet and stream connections over them. Each shows that what one side
  writes the other side reads, for the user it was meant for; the ciphers are parameters, assumed to open what they seal.

  \<^bold>\<open>Groups\<close> (\<^verbatim>\<open>protocol/group\<close>, \<^verbatim>\<open>common/interrupt\<close>). \<^verbatim>\<open>Outbound_Group\<close>: the selector, the URL test and the connections they interrupt. The loads, swaps and interrupts of
  the selector are separate steps; its connections follow its choice, except for those registered after the interrupt of a choice they were dialled before. The
  URL test chooses within its tolerance, up to the wrap-around of 16-bit delays.

  \<^bold>\<open>Parameters.\<close> Code that is not in the repository is an argument of the definitions that use it, gathered in records: matchers, IP sets and regular
  expressions (\<^verbatim>\<open>libs\<close>), services of the system (\<^verbatim>\<open>services\<close>), dialers and clocks (\<^verbatim>\<open>action_libs\<close>), the start and the close of components (\<^verbatim>\<open>life\<close>), constructors
  (\<^verbatim>\<open>registry\<close>), UUIDs, hashes and ciphers (\<^verbatim>\<open>plan_libs\<close>, \<^verbatim>\<open>user_libs\<close>), the JSON codec of the options (\<^verbatim>\<open>reload_libs\<close>), addresses on the wire (\<^verbatim>\<open>wire_libs\<close>),
  the primitives of VMess (\<^verbatim>\<open>vmess_libs\<close>), sniffers and resolvers (\<^verbatim>\<open>route_env\<close>), dials and measurements (\<^verbatim>\<open>group_env\<close>). What is relied on is a named
  hypothesis, such as \<^verbatim>\<open>faithful_codec\<close>; each has an instance in a witness.

  \<^bold>\<open>Not modelled.\<close> Listeners, transports, TLS, the Vision flow and the data paths of the other protocols, the parsers of sniffed protocols, the DNS client and its transports, platform and
  command-line code, the log, the daemon, the experimental APIs and the services (\<^verbatim>\<open>service/\<close>) are input and output around third-party
  libraries; the option types are data that the JSON library fills in by reflection. The manifest lists every part.
\<close>

end
